(* ===== verification/Prelude.thy ===== *)
theory Prelude
  imports Main "HOL-Library.Word"
begin

unbundle bit_operations_syntax

text \<open>
  Shared vocabulary of the development: the machine integer types, the status codes of
  \<^verbatim>\<open>include/wirelink/types.h\<close>, the flat byte memory that every pointer of the C code refers to,
  and the generic lemmas on memory ranges, lists and words that the component theories use.

  A pointer is an address (a natural number, \<open>0\<close> is \<^verbatim>\<open>NULL\<close>), memory is a total function from
  addresses to bytes, and a C object of \<open>n\<close> bytes at \<open>a\<close> is the range \<open>a ..< a + n\<close>. Reads and
  writes never fail in the model: that an operation stays inside its object is stated and
  proved as a frame property. \<^verbatim>\<open>size_t\<close> is modelled by \<^typ>\<open>nat\<close>; where the code tests against
  \<^verbatim>\<open>SIZE_MAX\<close> the test is written out with \<open>SIZE_MAX\<close> below (a 64-bit target). Fixed-width
  integers are words, so that wrap-around is that of the code.
\<close>

section \<open>Machine types and status codes\<close>

type_synonym byte = "8 word"
type_synonym u16 = "16 word"
type_synonym u32 = "32 word"
type_synonym u64 = "64 word"
type_synonym addr = nat
type_synonym mem = "addr \<Rightarrow> byte"

abbreviation (input) NULL :: addr where "NULL \<equiv> 0"
abbreviation (input) UINT32_MAX :: u32 where "UINT32_MAX \<equiv> 0xFFFFFFFF"

definition SIZE_MAX :: nat where "SIZE_MAX = 2 ^ 64 - 1"

datatype wl_err =
    WL_OK
  | WL_ERR_INVALID_ARG | WL_ERR_NOT_INITIALIZED | WL_ERR_NOT_SUPPORTED
  | WL_ERR_NO_MEM | WL_ERR_BUF_TOO_SMALL | WL_ERR_NO_SPACE | WL_ERR_NO_DATA
  | WL_ERR_BAD_FRAME | WL_ERR_COBS_DECODE | WL_ERR_CRC | WL_ERR_FRAME_TOO_LONG
  | WL_ERR_BUSY | WL_ERR_TIMEOUT | WL_ERR_TX_FAILED | WL_ERR_INVALID_STATE
  | WL_ERR_WOULD_BLOCK | WL_ERR_QUEUE_FULL | WL_ERR_NOT_FOUND | WL_ERR_PAYLOAD_TOO_LONG
  | WL_ERR_IO | WL_ERR_CANCELLED | WL_ERR_PROTOCOL_VERSION | WL_ERR_REENTRANT
  | WL_ERR_ID_EXHAUSTED | WL_ERR_CORRUPT_PAYLOAD

section \<open>Lemma collections\<close>

named_theorems mem_simps "reading and writing ranges of the flat memory"
named_theorems ctx_frame "fields an operation of the link engine leaves alone"

section \<open>The flat memory\<close>

definition read_bytes :: "mem \<Rightarrow> addr \<Rightarrow> nat \<Rightarrow> byte list" where
  "read_bytes m a n = map (\<lambda>i. m (a + i)) [0..<n]"

definition write_bytes :: "mem \<Rightarrow> addr \<Rightarrow> byte list \<Rightarrow> mem" where
  "write_bytes m a bs = (\<lambda>x. if a \<le> x \<and> x < a + length bs then bs ! (x - a) else m x)"

text \<open>\<open>only_changes m m' a n\<close>: the two memories agree outside the object of \<open>n\<close> bytes at \<open>a\<close>.\<close>

definition only_changes :: "mem \<Rightarrow> mem \<Rightarrow> addr \<Rightarrow> nat \<Rightarrow> bool" where
  "only_changes m m' a n \<longleftrightarrow> (\<forall>x. x < a \<or> a + n \<le> x \<longrightarrow> m' x = m x)"

definition disjoint_ranges :: "addr \<Rightarrow> nat \<Rightarrow> addr \<Rightarrow> nat \<Rightarrow> bool" where
  "disjoint_ranges a n b k \<longleftrightarrow> a + n \<le> b \<or> b + k \<le> a \<or> n = 0 \<or> k = 0"

lemma length_read_bytes [simp]: "length (read_bytes m a n) = n"
  by (simp add: read_bytes_def)

lemma nth_read_bytes [simp]: "i < n \<Longrightarrow> read_bytes m a n ! i = m (a + i)"
  by (simp add: read_bytes_def)

lemma read_bytes_0 [simp]: "read_bytes m a 0 = []"
  by (simp add: read_bytes_def)

lemma read_bytes_Suc: "read_bytes m a (Suc n) = m a # read_bytes m (Suc a) n"
  by (rule nth_equalityI) (auto simp: nth_Cons split: nat.split)

lemma read_bytes_snoc: "read_bytes m a (Suc n) = read_bytes m a n @ [m (a + n)]"
  by (simp add: read_bytes_def)

lemma read_bytes_eq_Nil_iff [simp]: "read_bytes m a n = [] \<longleftrightarrow> n = 0"
  by (metis length_read_bytes length_0_conv)

lemma read_bytes_add: "read_bytes m a (n + k) = read_bytes m a n @ read_bytes m (a + n) k"
  by (rule nth_equalityI) (auto simp: nth_append)

lemma take_read_bytes [mem_simps]: "k \<le> n \<Longrightarrow> take k (read_bytes m a n) = read_bytes m a k"
  by (rule nth_equalityI) auto

lemma drop_read_bytes [mem_simps]: "drop k (read_bytes m a n) = read_bytes m (a + k) (n - k)"
  by (rule nth_equalityI) (auto simp: add.assoc)

lemma read_bytes_cong:
  "(\<And>x. a \<le> x \<Longrightarrow> x < a + n \<Longrightarrow> m x = m' x) \<Longrightarrow> read_bytes m a n = read_bytes m' a n"
  by (rule nth_equalityI) auto

lemma read_bytes_eq_iff:
  "read_bytes m a n = read_bytes m' b n \<longleftrightarrow> (\<forall>i<n. m (a + i) = m' (b + i))"
  by (auto simp: list_eq_iff_nth_eq)

lemma read_bytes_eqD: "read_bytes m a n = bs \<Longrightarrow> i < n \<Longrightarrow> m (a + i) = bs ! i"
  by auto

lemma write_bytes_Nil [simp]: "write_bytes m a [] = m"
  by (rule ext) (auto simp: write_bytes_def)

lemma write_bytes_single: "write_bytes m a [b] = m(a := b)"
  by (rule ext) (auto simp: write_bytes_def)

lemma write_bytes_append:
  "write_bytes m a (xs @ ys) = write_bytes (write_bytes m a xs) (a + length xs) ys"
  by (rule ext) (auto simp: write_bytes_def nth_append)

lemma write_bytes_outside [mem_simps]:
  "x < a \<or> a + length bs \<le> x \<Longrightarrow> write_bytes m a bs x = m x"
  by (auto simp: write_bytes_def)

lemma write_bytes_inside [mem_simps]:
  "i < length bs \<Longrightarrow> write_bytes m a bs (a + i) = bs ! i"
  by (auto simp: write_bytes_def)

lemma read_write_same [simp]:
  "n = length bs \<Longrightarrow> read_bytes (write_bytes m a bs) a n = bs"
  by (rule nth_equalityI) (auto simp: write_bytes_def)

lemma read_write_prefix [simp]: "read_bytes (write_bytes m a (xs @ ys)) a (length xs) = xs"
  by (rule nth_equalityI) (auto simp: write_bytes_def nth_append)

lemma read_write_disjoint [mem_simps]:
  "disjoint_ranges a n b (length bs) \<Longrightarrow> read_bytes (write_bytes m b bs) a n = read_bytes m a n"
  by (cases "n = 0"; cases "bs = []")
     (auto intro!: read_bytes_cong simp: write_bytes_def disjoint_ranges_def)

lemma write_read_id [simp]: "write_bytes m a (read_bytes m a n) = m"
  by (rule ext) (auto simp: write_bytes_def)

lemma read_upd_outside [mem_simps]:
  "x < a \<or> a + n \<le> x \<Longrightarrow> read_bytes (m(x := v)) a n = read_bytes m a n"
  by (rule read_bytes_cong) auto

lemma only_changes_refl [simp, intro]: "only_changes m m a n"
  by (simp add: only_changes_def)

lemma only_changes_trans:
  "only_changes m m' a n \<Longrightarrow> only_changes m' m'' a n \<Longrightarrow> only_changes m m'' a n"
  by (auto simp: only_changes_def)

lemma only_changes_weaken:
  "only_changes m m' a n \<Longrightarrow> b \<le> a \<Longrightarrow> a + n \<le> b + k \<Longrightarrow> only_changes m m' b k"
  by (auto simp: only_changes_def)

lemma only_changes_write:
  "a \<le> b \<Longrightarrow> b + length bs \<le> a + n \<Longrightarrow> only_changes m (write_bytes m b bs) a n"
  by (auto simp: only_changes_def write_bytes_def)

lemma only_changes_upd: "a \<le> x \<Longrightarrow> x < a + n \<Longrightarrow> only_changes m (m(x := v)) a n"
  by (auto simp: only_changes_def)

lemma only_changes_read:
  "only_changes m m' a n \<Longrightarrow> disjoint_ranges b k a n \<Longrightarrow> read_bytes m' b k = read_bytes m b k"
  by (cases "k = 0"; cases "n = 0")
     (auto intro!: read_bytes_cong simp: only_changes_def disjoint_ranges_def)

lemma disjoint_ranges_sym: "disjoint_ranges a n b k \<Longrightarrow> disjoint_ranges b k a n"
  by (auto simp: disjoint_ranges_def)

section \<open>Words\<close>

lemma unat_byte_less [simp]: "unat (x :: byte) < 256"
  using unsigned_less [of x, where ?'a = nat] by simp

lemma unat_byte_le [simp]: "unat (x :: byte) \<le> 255"
  using unat_byte_less [of x] by linarith

lemma unat_of_nat_byte: "n < 256 \<Longrightarrow> unat (of_nat n :: byte) = n"
  by (simp add: unat_of_nat take_bit_nat_eq_self_iff)

lemma of_nat_byte_eq_0_iff: "n < 256 \<Longrightarrow> (of_nat n :: byte) = 0 \<longleftrightarrow> n = 0"
  using unat_of_nat_byte [of n] unat_0_iff [of "of_nat n :: byte"] by linarith

lemma of_nat_byte_inj:
  assumes "m < 256" "n < 256"
  shows "(of_nat m :: byte) = of_nat n \<longleftrightarrow> m = n"
proof
  assume "(of_nat m :: byte) = of_nat n"
  then have "unat (of_nat m :: byte) = unat (of_nat n :: byte)" by (rule arg_cong)
  then show "m = n" by (simp only: unat_of_nat_byte assms)
next
  assume "m = n"
  then show "(of_nat m :: byte) = of_nat n" by (rule arg_cong)
qed

lemma byte_ne_0_pos: "(c :: byte) \<noteq> 0 \<Longrightarrow> 0 < unat c"
  by (simp add: unat_gt_0)

text \<open>What an update of one element does to the number of elements with a property.\<close>

lemma length_filter_update:
  "i < length xs \<Longrightarrow>
   length (filter P (xs[i := x])) + of_bool (P (xs ! i)) = length (filter P xs) + of_bool (P x)"
proof (induction xs arbitrary: i)
  case (Cons y ys)
  then show ?case by (cases i) auto
qed simp

end
