(* ===== verification/Crc.thy ===== *)
theory Crc
  imports Prelude
begin

unbundle bit_operations_syntax

text \<open>
  The integrity codes of \<^verbatim>\<open>src/crc.c\<close> and \<^verbatim>\<open>src/crc_internal.h\<close>: CRC-16/CCITT-FALSE and CRC-32C, both
  driven by 256-entry tables. The tables are the literals of the source. The reference
  definitions divide bit by bit by the generator polynomial; the theory proves that the table
  kernels compute exactly that division, that an appended big-endian CRC-16 leaves residue zero
  and no other trailer does, and that both codes detect every corruption confined to a window
  of two (CRC-16) respectively four (CRC-32C) consecutive bytes.
\<close>

section \<open>The table kernels\<close>

definition wl_crc16_table :: "u16 list" where
  "wl_crc16_table = [
   0x0000, 0x1021, 0x2042, 0x3063, 0x4084, 0x50A5, 0x60C6, 0x70E7,
   0x8108, 0x9129, 0xA14A, 0xB16B, 0xC18C, 0xD1AD, 0xE1CE, 0xF1EF,
   0x1231, 0x0210, 0x3273, 0x2252, 0x52B5, 0x4294, 0x72F7, 0x62D6,
   0x9339, 0x8318, 0xB37B, 0xA35A, 0xD3BD, 0xC39C, 0xF3FF, 0xE3DE,
   0x2462, 0x3443, 0x0420, 0x1401, 0x64E6, 0x74C7, 0x44A4, 0x5485,
   0xA56A, 0xB54B, 0x8528, 0x9509, 0xE5EE, 0xF5CF, 0xC5AC, 0xD58D,
   0x3653, 0x2672, 0x1611, 0x0630, 0x76D7, 0x66F6, 0x5695, 0x46B4,
   0xB75B, 0xA77A, 0x9719, 0x8738, 0xF7DF, 0xE7FE, 0xD79D, 0xC7BC,
   0x48C4, 0x58E5, 0x6886, 0x78A7, 0x0840, 0x1861, 0x2802, 0x3823,
   0xC9CC, 0xD9ED, 0xE98E, 0xF9AF, 0x8948, 0x9969, 0xA90A, 0xB92B,
   0x5AF5, 0x4AD4, 0x7AB7, 0x6A96, 0x1A71, 0x0A50, 0x3A33, 0x2A12,
   0xDBFD, 0xCBDC, 0xFBBF, 0xEB9E, 0x9B79, 0x8B58, 0xBB3B, 0xAB1A,
   0x6CA6, 0x7C87, 0x4CE4, 0x5CC5, 0x2C22, 0x3C03, 0x0C60, 0x1C41,
   0xEDAE, 0xFD8F, 0xCDEC, 0xDDCD, 0xAD2A, 0xBD0B, 0x8D68, 0x9D49,
   0x7E97, 0x6EB6, 0x5ED5, 0x4EF4, 0x3E13, 0x2E32, 0x1E51, 0x0E70,
   0xFF9F, 0xEFBE, 0xDFDD, 0xCFFC, 0xBF1B, 0xAF3A, 0x9F59, 0x8F78,
   0x9188, 0x81A9, 0xB1CA, 0xA1EB, 0xD10C, 0xC12D, 0xF14E, 0xE16F,
   0x1080, 0x00A1, 0x30C2, 0x20E3, 0x5004, 0x4025, 0x7046, 0x6067,
   0x83B9, 0x9398, 0xA3FB, 0xB3DA, 0xC33D, 0xD31C, 0xE37F, 0xF35E,
   0x02B1, 0x1290, 0x22F3, 0x32D2, 0x4235, 0x5214, 0x6277, 0x7256,
   0xB5EA, 0xA5CB, 0x95A8, 0x8589, 0xF56E, 0xE54F, 0xD52C, 0xC50D,
   0x34E2, 0x24C3, 0x14A0, 0x0481, 0x7466, 0x6447, 0x5424, 0x4405,
   0xA7DB, 0xB7FA, 0x8799, 0x97B8, 0xE75F, 0xF77E, 0xC71D, 0xD73C,
   0x26D3, 0x36F2, 0x0691, 0x16B0, 0x6657, 0x7676, 0x4615, 0x5634,
   0xD94C, 0xC96D, 0xF90E, 0xE92F, 0x99C8, 0x89E9, 0xB98A, 0xA9AB,
   0x5844, 0x4865, 0x7806, 0x6827, 0x18C0, 0x08E1, 0x3882, 0x28A3,
   0xCB7D, 0xDB5C, 0xEB3F, 0xFB1E, 0x8BF9, 0x9BD8, 0xABBB, 0xBB9A,
   0x4A75, 0x5A54, 0x6A37, 0x7A16, 0x0AF1, 0x1AD0, 0x2AB3, 0x3A92,
   0xFD2E, 0xED0F, 0xDD6C, 0xCD4D, 0xBDAA, 0xAD8B, 0x9DE8, 0x8DC9,
   0x7C26, 0x6C07, 0x5C64, 0x4C45, 0x3CA2, 0x2C83, 0x1CE0, 0x0CC1,
   0xEF1F, 0xFF3E, 0xCF5D, 0xDF7C, 0xAF9B, 0xBFBA, 0x8FD9, 0x9FF8,
   0x6E17, 0x7E36, 0x4E55, 0x5E74, 0x2E93, 0x3EB2, 0x0ED1, 0x1EF0]"

definition WL_CRC32_TABLE :: "u32 list" where
  "WL_CRC32_TABLE = [
   0x00000000, 0xF26B8303, 0xE13B70F7, 0x1350F3F4, 0xC79A971F, 0x35F1141C, 0x26A1E7E8, 0xD4CA64EB,
   0x8AD958CF, 0x78B2DBCC, 0x6BE22838, 0x9989AB3B, 0x4D43CFD0, 0xBF284CD3, 0xAC78BF27, 0x5E133C24,
   0x105EC76F, 0xE235446C, 0xF165B798, 0x030E349B, 0xD7C45070, 0x25AFD373, 0x36FF2087, 0xC494A384,
   0x9A879FA0, 0x68EC1CA3, 0x7BBCEF57, 0x89D76C54, 0x5D1D08BF, 0xAF768BBC, 0xBC267848, 0x4E4DFB4B,
   0x20BD8EDE, 0xD2D60DDD, 0xC186FE29, 0x33ED7D2A, 0xE72719C1, 0x154C9AC2, 0x061C6936, 0xF477EA35,
   0xAA64D611, 0x580F5512, 0x4B5FA6E6, 0xB93425E5, 0x6DFE410E, 0x9F95C20D, 0x8CC531F9, 0x7EAEB2FA,
   0x30E349B1, 0xC288CAB2, 0xD1D83946, 0x23B3BA45, 0xF779DEAE, 0x05125DAD, 0x1642AE59, 0xE4292D5A,
   0xBA3A117E, 0x4851927D, 0x5B016189, 0xA96AE28A, 0x7DA08661, 0x8FCB0562, 0x9C9BF696, 0x6EF07595,
   0x417B1DBC, 0xB3109EBF, 0xA0406D4B, 0x522BEE48, 0x86E18AA3, 0x748A09A0, 0x67DAFA54, 0x95B17957,
   0xCBA24573, 0x39C9C670, 0x2A993584, 0xD8F2B687, 0x0C38D26C, 0xFE53516F, 0xED03A29B, 0x1F682198,
   0x5125DAD3, 0xA34E59D0, 0xB01EAA24, 0x42752927, 0x96BF4DCC, 0x64D4CECF, 0x77843D3B, 0x85EFBE38,
   0xDBFC821C, 0x2997011F, 0x3AC7F2EB, 0xC8AC71E8, 0x1C661503, 0xEE0D9600, 0xFD5D65F4, 0x0F36E6F7,
   0x61C69362, 0x93AD1061, 0x80FDE395, 0x72966096, 0xA65C047D, 0x5437877E, 0x4767748A, 0xB50CF789,
   0xEB1FCBAD, 0x197448AE, 0x0A24BB5A, 0xF84F3859, 0x2C855CB2, 0xDEEEDFB1, 0xCDBE2C45, 0x3FD5AF46,
   0x7198540D, 0x83F3D70E, 0x90A324FA, 0x62C8A7F9, 0xB602C312, 0x44694011, 0x5739B3E5, 0xA55230E6,
   0xFB410CC2, 0x092A8FC1, 0x1A7A7C35, 0xE811FF36, 0x3CDB9BDD, 0xCEB018DE, 0xDDE0EB2A, 0x2F8B6829,
   0x82F63B78, 0x709DB87B, 0x63CD4B8F, 0x91A6C88C, 0x456CAC67, 0xB7072F64, 0xA457DC90, 0x563C5F93,
   0x082F63B7, 0xFA44E0B4, 0xE9141340, 0x1B7F9043, 0xCFB5F4A8, 0x3DDE77AB, 0x2E8E845F, 0xDCE5075C,
   0x92A8FC17, 0x60C37F14, 0x73938CE0, 0x81F80FE3, 0x55326B08, 0xA759E80B, 0xB4091BFF, 0x466298FC,
   0x1871A4D8, 0xEA1A27DB, 0xF94AD42F, 0x0B21572C, 0xDFEB33C7, 0x2D80B0C4, 0x3ED04330, 0xCCBBC033,
   0xA24BB5A6, 0x502036A5, 0x4370C551, 0xB11B4652, 0x65D122B9, 0x97BAA1BA, 0x84EA524E, 0x7681D14D,
   0x2892ED69, 0xDAF96E6A, 0xC9A99D9E, 0x3BC21E9D, 0xEF087A76, 0x1D63F975, 0x0E330A81, 0xFC588982,
   0xB21572C9, 0x407EF1CA, 0x532E023E, 0xA145813D, 0x758FE5D6, 0x87E466D5, 0x94B49521, 0x66DF1622,
   0x38CC2A06, 0xCAA7A905, 0xD9F75AF1, 0x2B9CD9F2, 0xFF56BD19, 0x0D3D3E1A, 0x1E6DCDEE, 0xEC064EED,
   0xC38D26C4, 0x31E6A5C7, 0x22B65633, 0xD0DDD530, 0x0417B1DB, 0xF67C32D8, 0xE52CC12C, 0x1747422F,
   0x49547E0B, 0xBB3FFD08, 0xA86F0EFC, 0x5A048DFF, 0x8ECEE914, 0x7CA56A17, 0x6FF599E3, 0x9D9E1AE0,
   0xD3D3E1AB, 0x21B862A8, 0x32E8915C, 0xC083125F, 0x144976B4, 0xE622F5B7, 0xF5720643, 0x07198540,
   0x590AB964, 0xAB613A67, 0xB831C993, 0x4A5A4A90, 0x9E902E7B, 0x6CFBAD78, 0x7FAB5E8C, 0x8DC0DD8F,
   0xE330A81A, 0x115B2B19, 0x020BD8ED, 0xF0605BEE, 0x24AA3F05, 0xD6C1BC06, 0xC5914FF2, 0x37FACCF1,
   0x69E9F0D5, 0x9B8273D6, 0x88D28022, 0x7AB90321, 0xAE7367CA, 0x5C18E4C9, 0x4F48173D, 0xBD23943E,
   0xF36E6F75, 0x0105EC76, 0x12551F82, 0xE03E9C81, 0x34F4F86A, 0xC69F7B69, 0xD5CF889D, 0x27A40B9E,
   0x79B737BA, 0x8BDCB4B9, 0x988C474D, 0x6AE7C44E, 0xBE2DA0A5, 0x4C4623A6, 0x5F16D052, 0xAD7D5351]"

definition wl_crc16_byte :: "u16 \<Rightarrow> byte \<Rightarrow> u16" where
  "wl_crc16_byte state value =
     push_bit 8 state XOR wl_crc16_table ! unat (ucast (drop_bit 8 state) XOR value)"

definition wl_crc32c_byte :: "u32 \<Rightarrow> byte \<Rightarrow> u32" where
  "wl_crc32c_byte state value =
     WL_CRC32_TABLE ! unat (ucast state XOR value) XOR drop_bit 8 state"

fun wl_crc16_ccitt_false_update :: "u16 \<Rightarrow> byte list \<Rightarrow> u16" where
  "wl_crc16_ccitt_false_update state [] = state"
| "wl_crc16_ccitt_false_update state (b # bs) =
     wl_crc16_ccitt_false_update (wl_crc16_byte state b) bs"

fun wl_crc32c_update :: "u32 \<Rightarrow> byte list \<Rightarrow> u32" where
  "wl_crc32c_update state [] = state"
| "wl_crc32c_update state (b # bs) = wl_crc32c_update (wl_crc32c_byte state b) bs"

definition wl_crc16_ccitt_false :: "mem \<Rightarrow> addr \<Rightarrow> nat \<Rightarrow> u16" where
  "wl_crc16_ccitt_false m data len =
     (if data = NULL \<and> len \<noteq> 0 then 0
      else wl_crc16_ccitt_false_update 0xFFFF (read_bytes m data len))"

definition wl_crc32c :: "mem \<Rightarrow> addr \<Rightarrow> nat \<Rightarrow> u32" where
  "wl_crc32c m data len =
     (if data = NULL \<and> len \<noteq> 0 then 0
      else wl_crc32c_update 0xFFFFFFFF (read_bytes m data len) XOR 0xFFFFFFFF)"

section \<open>Reference: division bit by bit\<close>

definition crc16_shift :: "u16 \<Rightarrow> u16" where
  "crc16_shift s = (if bit s 15 then push_bit 1 s XOR 0x1021 else push_bit 1 s)"

definition crc16_ref_byte :: "u16 \<Rightarrow> byte \<Rightarrow> u16" where
  "crc16_ref_byte s v = (crc16_shift ^^ 8) (s XOR push_bit 8 (ucast v))"

definition crc32c_shift :: "u32 \<Rightarrow> u32" where
  "crc32c_shift s = (if bit s 0 then drop_bit 1 s XOR 0x82F63B78 else drop_bit 1 s)"

definition crc32c_ref_byte :: "u32 \<Rightarrow> byte \<Rightarrow> u32" where
  "crc32c_ref_byte s v = (crc32c_shift ^^ 8) (s XOR ucast v)"

definition crc16_spec :: "byte list \<Rightarrow> u16" where
  "crc16_spec bs = foldl crc16_ref_byte 0xFFFF bs"

definition crc32c_spec :: "byte list \<Rightarrow> u32" where
  "crc32c_spec bs = foldl crc32c_ref_byte 0xFFFFFFFF bs XOR 0xFFFFFFFF"

section \<open>The two tables against the polynomials\<close>

text \<open>
  Division by a polynomial is linear over exclusive or, so a table is determined by its entries
  at the eight powers of two; \<open>xor_double\<close> rebuilds it from them.
\<close>

definition xor_double :: "'a::len word list \<Rightarrow> 'a word \<Rightarrow> 'a word list" where
  "xor_double T x = T @ map (\<lambda>y. y XOR x) T"

definition xor_linear :: "(byte \<Rightarrow> 'a::len word) \<Rightarrow> bool" where
  "xor_linear t \<longleftrightarrow> (\<forall>a b. t (a XOR b) = t a XOR t b)"

lemma of_nat_xor_power:
  assumes "j < 2 ^ k"
  shows "(of_nat (2 ^ k + j) :: byte) = of_nat j XOR of_nat (2 ^ k)"
proof -
  have j: "j = take_bit k j"
    using assms by (simp add: take_bit_nat_eq_self)
  have "2 ^ k AND j = 0"
    by (subst j, rule bit_eqI) (auto simp: bit_simps)
  then have "2 ^ k + j = j XOR 2 ^ k"
    by (simp add: disjunctive_add_eq_xor xor.commute)
  then show ?thesis by (simp only: of_nat_xor_eq)
qed

lemma xor_double_nth:
  assumes lin: "xor_linear t" and len: "length T = 2 ^ k"
    and T: "\<forall>i < 2 ^ k. T ! i = t (of_nat i)" and x: "x = t (of_nat (2 ^ k))"
  shows "\<forall>i < 2 ^ Suc k. xor_double T x ! i = t (of_nat i)"
proof (intro allI impI)
  fix i :: nat assume i: "i < 2 ^ Suc k"
  show "xor_double T x ! i = t (of_nat i)"
  proof (cases "i < 2 ^ k")
    case True
    then show ?thesis using T len by (simp add: xor_double_def nth_append)
  next
    case False
    define j where "j = i - 2 ^ k"
    have j: "i = 2 ^ k + j" "j < 2 ^ k" using False i by (auto simp: j_def)
    have "xor_double T x ! i = T ! j XOR x"
      using j len by (simp add: xor_double_def nth_append)
    also have "\<dots> = t (of_nat j) XOR t (of_nat (2 ^ k))" using T j(2) x by simp
    also have "\<dots> = t (of_nat j XOR of_nat (2 ^ k))" using lin by (simp add: xor_linear_def)
    finally show ?thesis by (simp only: j(1) of_nat_xor_power [OF j(2)])
  qed
qed

lemma length_xor_double [simp]: "length (xor_double T x) = 2 * length T"
  by (simp add: xor_double_def)

fun xor_table :: "(byte \<Rightarrow> 'a::len word) \<Rightarrow> nat \<Rightarrow> 'a word list" where
  "xor_table t 0 = [0]"
| "xor_table t (Suc k) = xor_double (xor_table t k) (t (of_nat (2 ^ k)))"

lemma length_xor_table [simp]: "length (xor_table t k) = 2 ^ k"
  by (induction k) simp_all

lemma xor_linear_0: "xor_linear t \<Longrightarrow> t 0 = 0"
  by (metis xor_linear_def xor_self_eq)

lemma xor_table_nth:
  assumes "xor_linear t"
  shows "\<forall>i < 2 ^ k. xor_table t k ! i = t (of_nat i)"
proof (induction k)
  case 0
  then show ?case by (simp add: xor_linear_0 [OF assms])
next
  case (Suc k)
  show ?case unfolding xor_table.simps
    by (rule xor_double_nth [OF assms _ Suc.IH refl]) simp
qed

lemma xor_table_8:
  "xor_table t 8 = xor_double (xor_double (xor_double (xor_double (xor_double (xor_double
    (xor_double (xor_double [0] (t 1)) (t 2)) (t 4)) (t 8)) (t 16)) (t 32)) (t 64)) (t 128)"
  by (simp add: numeral_eq_Suc)

lemma funpow_8: "(f ^^ 8) x = f (f (f (f (f (f (f (f x)))))))"
  by (simp add: numeral_eq_Suc)

definition crc16_t :: "byte \<Rightarrow> u16" where
  "crc16_t i = (crc16_shift ^^ 8) (push_bit 8 (ucast i))"

definition crc32c_t :: "byte \<Rightarrow> u32" where
  "crc32c_t i = (crc32c_shift ^^ 8) (ucast i)"

lemma crc16_shift_xor: "crc16_shift (a XOR b) = crc16_shift a XOR crc16_shift b"
  by (simp add: crc16_shift_def bit_xor_iff xor.assoc xor.commute xor.left_commute)

lemma crc32c_shift_xor: "crc32c_shift (a XOR b) = crc32c_shift a XOR crc32c_shift b"
  by (simp add: crc32c_shift_def bit_xor_iff xor.assoc xor.commute xor.left_commute)

lemma ucast_xor: "ucast (a XOR b) = ucast a XOR (ucast b :: 'b::len word)"
  by (rule unsigned_xor_eq)

lemma crc16_t_linear: "xor_linear crc16_t"
  by (simp add: xor_linear_def crc16_t_def funpow_8 ucast_xor crc16_shift_xor)

lemma crc32c_t_linear: "xor_linear crc32c_t"
  by (simp add: xor_linear_def crc32c_t_def funpow_8 ucast_xor crc32c_shift_xor)

lemma crc16_t_powers:
  "crc16_t 1 = 0x1021" "crc16_t 2 = 0x2042" "crc16_t 4 = 0x4084" "crc16_t 8 = 0x8108"
  "crc16_t 16 = 0x1231" "crc16_t 32 = 0x2462" "crc16_t 64 = 0x48C4" "crc16_t 128 = 0x9188"
  by (simp_all add: crc16_t_def funpow_8 crc16_shift_def)

lemma crc32c_t_powers:
  "crc32c_t 1 = 0xF26B8303" "crc32c_t 2 = 0xE13B70F7" "crc32c_t 4 = 0xC79A971F"
  "crc32c_t 8 = 0x8AD958CF" "crc32c_t 16 = 0x105EC76F" "crc32c_t 32 = 0x20BD8EDE"
  "crc32c_t 64 = 0x417B1DBC" "crc32c_t 128 = 0x82F63B78"
  by (simp_all add: crc32c_t_def funpow_8 crc32c_shift_def)

lemma crc16_table_xor: "wl_crc16_table = xor_table crc16_t 8"
  unfolding xor_table_8 crc16_t_powers by (simp add: xor_double_def wl_crc16_table_def)

lemma crc32_table_xor: "WL_CRC32_TABLE = xor_table crc32c_t 8"
  unfolding xor_table_8 crc32c_t_powers by (simp add: xor_double_def WL_CRC32_TABLE_def)

lemma crc16_table_nth: "wl_crc16_table ! unat i = crc16_t i"
  using xor_table_nth [OF crc16_t_linear, of 8] unat_byte_less [of i]
  by (simp add: crc16_table_xor)

lemma crc32_table_nth: "WL_CRC32_TABLE ! unat i = crc32c_t i"
  using xor_table_nth [OF crc32c_t_linear, of 8] unat_byte_less [of i]
  by (simp add: crc32_table_xor)

lemma crc16_low_nonzero: "\<forall>x \<in> set (tl wl_crc16_table). take_bit 8 x \<noteq> 0"
  by (simp add: wl_crc16_table_def)

lemma crc32_top_nonzero: "\<forall>x \<in> set (tl WL_CRC32_TABLE). drop_bit 24 x \<noteq> 0"
  by (simp add: WL_CRC32_TABLE_def)

lemma length_crc16_table [simp]: "length wl_crc16_table = 256"
  by (simp add: crc16_table_xor)

lemma length_crc32_table [simp]: "length WL_CRC32_TABLE = 256"
  by (simp add: crc32_table_xor)

lemma nth_in_tl: "0 < i \<Longrightarrow> i < length xs \<Longrightarrow> xs ! i \<in> set (tl xs)"
  by (cases xs) (auto simp: nth_Cons')

lemma crc16_t_low_0: "take_bit 8 (crc16_t i) = 0 \<Longrightarrow> i = 0"
  using crc16_low_nonzero nth_in_tl [of "unat i" wl_crc16_table]
  by (cases "i = 0") (auto simp: crc16_table_nth unat_gt_0)

lemma crc32c_t_top_0: "drop_bit 24 (crc32c_t i) = 0 \<Longrightarrow> i = 0"
  using crc32_top_nonzero nth_in_tl [of "unat i" WL_CRC32_TABLE]
  by (cases "i = 0") (auto simp: crc32_table_nth unat_gt_0)

lemma crc16_byte_t: "wl_crc16_byte s v = push_bit 8 s XOR crc16_t (ucast (drop_bit 8 s) XOR v)"
  by (simp add: wl_crc16_byte_def crc16_table_nth)

lemma crc32c_byte_t: "wl_crc32c_byte s v = crc32c_t (ucast s XOR v) XOR drop_bit 8 s"
  by (simp add: wl_crc32c_byte_def crc32_table_nth)

lemma funpow_xor:
  fixes f :: "'a::len word \<Rightarrow> 'a word"
  assumes "\<And>a b. f (a XOR b) = f a XOR f b"
  shows "(f ^^ k) (a XOR b) = (f ^^ k) a XOR (f ^^ k) b"
  by (induction k) (simp_all add: assms)

lemma crc16_shift_low: "k \<le> 8 \<Longrightarrow> (crc16_shift ^^ k) (take_bit 8 s) = push_bit k (take_bit 8 s)"
proof (induction k)
  case (Suc k)
  then have "\<not> 15 - k < 8" by simp
  then have "\<not> bit (push_bit k (take_bit 8 s)) 15"
    by (simp add: bit_simps)
  with Suc show ?case by (simp add: crc16_shift_def)
qed simp

lemma crc16_byte_ref: "wl_crc16_byte s v = crc16_ref_byte s v"
proof -
  have split: "s XOR push_bit 8 (ucast v) =
      push_bit 8 (ucast (ucast (drop_bit 8 s) XOR v)) XOR take_bit 8 s"
    by (rule bit_word_eqI) (auto simp: bit_simps)
  have low: "push_bit 8 (take_bit 8 s) = push_bit 8 s"
    by (rule bit_word_eqI) (auto simp: bit_simps)
  show ?thesis
    unfolding crc16_ref_byte_def split funpow_xor [of crc16_shift, OF crc16_shift_xor]
    by (simp add: crc16_shift_low low crc16_byte_t crc16_t_def xor.commute)
qed

lemma crc32c_shift_high: "k \<le> 8 \<Longrightarrow> (crc32c_shift ^^ k) (push_bit 8 s) = drop_bit k (push_bit 8 s)"
proof (induction k)
  case (Suc k)
  then have "\<not> bit (drop_bit k (push_bit 8 s)) 0"
    by (simp add: bit_simps)
  with Suc show ?case by (simp add: crc32c_shift_def)
qed simp

lemma crc32c_byte_ref: "wl_crc32c_byte s v = crc32c_ref_byte s v"
proof -
  have split: "s XOR ucast v = ucast (ucast s XOR v) XOR push_bit 8 (drop_bit 8 s)"
    by (rule bit_word_eqI) (auto simp: bit_simps)
  have high: "drop_bit 8 (push_bit 8 (drop_bit 8 s)) = drop_bit 8 s"
    by (rule bit_word_eqI) (auto simp: bit_simps dest: bit_imp_le_length)
  show ?thesis
    unfolding crc32c_ref_byte_def split funpow_xor [of crc32c_shift, OF crc32c_shift_xor]
    by (simp add: crc32c_shift_high high crc32c_byte_t crc32c_t_def)
qed

lemma crc16_update_ref: "wl_crc16_ccitt_false_update s bs = foldl crc16_ref_byte s bs"
  by (induction bs arbitrary: s) (simp_all add: crc16_byte_ref)

lemma crc32c_update_ref: "wl_crc32c_update s bs = foldl crc32c_ref_byte s bs"
  by (induction bs arbitrary: s) (simp_all add: crc32c_byte_ref)

section \<open>Residue and burst detection\<close>

lemma xor_cancel_left: "a XOR b = a XOR c \<longleftrightarrow> b = (c :: 'a::len word)"
  by (metis xor.assoc xor_self_eq xor.left_neutral)

lemma xor_eq_0_word: "a XOR b = 0 \<longleftrightarrow> a = (b :: 'a::len word)"
  by (metis xor_cancel_left xor_self_eq)

lemma crc16_t_xor: "crc16_t a XOR crc16_t b = crc16_t (a XOR b)"
  using crc16_t_linear by (simp add: xor_linear_def)

lemma crc32c_t_xor: "crc32c_t a XOR crc32c_t b = crc32c_t (a XOR b)"
  using crc32c_t_linear by (simp add: xor_linear_def)

lemma crc16_t_0 [simp]: "crc16_t 0 = 0"
  by (rule xor_linear_0 [OF crc16_t_linear])

lemma crc16_t_low_inj:
  assumes "take_bit 8 (crc16_t a) = take_bit 8 (crc16_t b)"
  shows "a = b"
proof -
  from assms have "take_bit 8 (crc16_t (a XOR b)) = 0"
    by (simp flip: crc16_t_xor)
  then show ?thesis using crc16_t_low_0 xor_eq_0_word by blast
qed

lemma crc32c_t_top_inj:
  assumes "drop_bit 24 (crc32c_t a) = drop_bit 24 (crc32c_t b)"
  shows "a = b"
proof -
  from assms have "drop_bit 24 (crc32c_t (a XOR b)) = 0"
    by (simp flip: crc32c_t_xor)
  then show ?thesis using crc32c_t_top_0 xor_eq_0_word by blast
qed

text \<open>
  One table step determines its index and, of the bits it was started from, as many as are
  known of its result: the whole argument for burst detection.
\<close>

lemma crc16_step_inv:
  assumes eq: "take_bit k (wl_crc16_byte s v) = take_bit k (wl_crc16_byte s' v')"
    and k: "8 \<le> k" "k \<le> 16"
  shows "ucast (drop_bit 8 s) XOR v = (ucast (drop_bit 8 s') XOR v' :: byte)"
    and "take_bit (k - 8) s = take_bit (k - 8) s'"
proof -
  let ?i = "ucast (drop_bit 8 s) XOR v" and ?i' = "ucast (drop_bit 8 s') XOR v'"
  have low: "take_bit 8 (wl_crc16_byte s v) = take_bit 8 (crc16_t (ucast (drop_bit 8 s) XOR v))"
    for s v
    by (simp add: crc16_byte_t take_bit_push_bit)
  have "take_bit 8 (take_bit k (wl_crc16_byte s v)) = take_bit 8 (take_bit k (wl_crc16_byte s' v'))"
    by (rule arg_cong [OF eq])
  then have "take_bit 8 (wl_crc16_byte s v) = take_bit 8 (wl_crc16_byte s' v')"
    using k by (simp add: min_def)
  then have "take_bit 8 (crc16_t ?i) = take_bit 8 (crc16_t ?i')"
    by (simp only: low)
  then show i: "?i = ?i'" by (rule crc16_t_low_inj)
  have "take_bit k (push_bit 8 s) = take_bit k (push_bit 8 s')"
    using eq i by (simp add: crc16_byte_t xor.commute [of "take_bit k (push_bit 8 _)"] xor_cancel_left)
  then have sh: "push_bit 8 (take_bit (k - 8) s) = push_bit 8 (take_bit (k - 8) s')"
    by (simp only: take_bit_push_bit)
  show "take_bit (k - 8) s = take_bit (k - 8) s'"
  proof (rule bit_word_eqI)
    fix n assume "n < LENGTH(16)"
    have "bit (push_bit 8 (take_bit (k - 8) s)) (n + 8) =
          bit (push_bit 8 (take_bit (k - 8) s')) (n + 8)"
      by (simp only: sh)
    moreover have "n < 8 \<or> \<not> n < k - 8" using k by linarith
    ultimately show "bit (take_bit (k - 8) s) n = bit (take_bit (k - 8) s') n"
      by (elim disjE) (simp_all add: bit_simps)
  qed
qed

lemma crc32c_step_inv:
  assumes eq: "drop_bit k (wl_crc32c_byte s v) = drop_bit k (wl_crc32c_byte s' v')"
    and k: "k \<le> 24"
  shows "ucast s XOR v = (ucast s' XOR v' :: byte)"
    and "drop_bit (k + 8) s = drop_bit (k + 8) s'"
proof -
  let ?i = "ucast s XOR v" and ?i' = "ucast s' XOR v'"
  have top: "drop_bit 24 (wl_crc32c_byte s v) = drop_bit 24 (crc32c_t (ucast s XOR v))" for s v
    by (simp add: crc32c_byte_t)
  have "drop_bit (24 - k) (drop_bit k (wl_crc32c_byte s v)) =
        drop_bit (24 - k) (drop_bit k (wl_crc32c_byte s' v'))"
    by (rule arg_cong [OF eq])
  then have "drop_bit 24 (wl_crc32c_byte s v) = drop_bit 24 (wl_crc32c_byte s' v')"
    using k by simp
  then have "drop_bit 24 (crc32c_t ?i) = drop_bit 24 (crc32c_t ?i')"
    by (simp only: top)
  then show i: "?i = ?i'" by (rule crc32c_t_top_inj)
  show "drop_bit (k + 8) s = drop_bit (k + 8) s'"
    using eq i by (simp add: crc32c_byte_t xor_cancel_left)
qed

lemma crc16_byte_inj:
  assumes "wl_crc16_byte s v = wl_crc16_byte s' v"
  shows "s = s'"
proof -
  have eq: "take_bit 16 (wl_crc16_byte s v) = take_bit 16 (wl_crc16_byte s' v)"
    using assms by simp
  have hi: "ucast (drop_bit 8 s) = (ucast (drop_bit 8 s') :: byte)"
    using crc16_step_inv(1) [OF eq] by (simp add: xor.commute [of _ v] xor_cancel_left)
  have lo: "take_bit 8 s = take_bit 8 s'"
    using crc16_step_inv(2) [OF eq] by simp
  show ?thesis
  proof (rule bit_word_eqI)
    fix n assume n: "n < LENGTH(16)"
    have "bit (ucast (drop_bit 8 s) :: byte) (n - 8) = bit (ucast (drop_bit 8 s') :: byte) (n - 8)"
      and "bit (take_bit 8 s) n = bit (take_bit 8 s') n"
      by (simp_all only: hi lo)
    with n show "bit s n = bit s' n"
      by (cases "n < 8") (simp_all add: bit_simps less_diff_conv2)
  qed
qed

lemma crc32c_byte_inj:
  assumes "wl_crc32c_byte s v = wl_crc32c_byte s' v"
  shows "s = s'"
proof -
  have eq: "drop_bit 0 (wl_crc32c_byte s v) = drop_bit 0 (wl_crc32c_byte s' v)"
    using assms by simp
  have lo: "ucast s = (ucast s' :: byte)"
    using crc32c_step_inv(1) [OF eq] by (simp add: xor.commute [of _ v] xor_cancel_left)
  have hi: "drop_bit 8 s = drop_bit 8 s'"
    using crc32c_step_inv(2) [OF eq] by simp
  show ?thesis
  proof (rule bit_word_eqI)
    fix n assume n: "n < LENGTH(32)"
    have "bit (ucast s :: byte) n = bit (ucast s' :: byte) n"
      and "bit (drop_bit 8 s) (n - 8) = bit (drop_bit 8 s') (n - 8)"
      by (simp_all only: hi lo)
    with n show "bit s n = bit s' n"
      by (cases "n < 8") (simp_all add: bit_simps)
  qed
qed

lemma crc16_update_append:
  "wl_crc16_ccitt_false_update s (xs @ ys) =
     wl_crc16_ccitt_false_update (wl_crc16_ccitt_false_update s xs) ys"
  by (induction xs arbitrary: s) simp_all

lemma crc32c_update_append:
  "wl_crc32c_update s (xs @ ys) = wl_crc32c_update (wl_crc32c_update s xs) ys"
  by (induction xs arbitrary: s) simp_all

lemma crc16_update_inj:
  "wl_crc16_ccitt_false_update s bs = wl_crc16_ccitt_false_update s' bs \<longleftrightarrow> s = s'"
  by (induction bs arbitrary: s s') (auto dest: crc16_byte_inj)

lemma crc32c_update_inj: "wl_crc32c_update s bs = wl_crc32c_update s' bs \<longleftrightarrow> s = s'"
  by (induction bs arbitrary: s s') (auto dest: crc32c_byte_inj)

lemma crc16_update_2_inj:
  assumes "wl_crc16_ccitt_false_update s [a1, a2] = wl_crc16_ccitt_false_update s [b1, b2]"
  shows "a1 = b1 \<and> a2 = b2"
proof -
  let ?s = "wl_crc16_byte s a1" and ?s' = "wl_crc16_byte s b1"
  have e2: "take_bit 16 (wl_crc16_byte ?s a2) = take_bit 16 (wl_crc16_byte ?s' b2)"
    using assms by simp
  have e1: "take_bit 8 ?s = take_bit 8 ?s'"
    using crc16_step_inv(2) [OF e2] by simp
  have "a1 = b1"
    using crc16_step_inv(1) [OF e1] by (simp add: xor_cancel_left)
  with crc16_step_inv(1) [OF e2] show ?thesis by (simp add: xor_cancel_left)
qed

lemma crc32c_update_4_inj:
  assumes "wl_crc32c_update s [a1, a2, a3, a4] = wl_crc32c_update s [b1, b2, b3, b4]"
  shows "a1 = b1 \<and> a2 = b2 \<and> a3 = b3 \<and> a4 = b4"
proof -
  let ?s1 = "wl_crc32c_byte s a1" and ?t1 = "wl_crc32c_byte s b1"
  let ?s2 = "wl_crc32c_byte ?s1 a2" and ?t2 = "wl_crc32c_byte ?t1 b2"
  let ?s3 = "wl_crc32c_byte ?s2 a3" and ?t3 = "wl_crc32c_byte ?t2 b3"
  have e4: "drop_bit 0 (wl_crc32c_byte ?s3 a4) = drop_bit 0 (wl_crc32c_byte ?t3 b4)"
    using assms by simp
  have e3: "drop_bit 8 ?s3 = drop_bit 8 ?t3" using crc32c_step_inv(2) [OF e4] by simp
  have e2: "drop_bit 16 ?s2 = drop_bit 16 ?t2" using crc32c_step_inv(2) [OF e3] by simp
  have e1: "drop_bit 24 ?s1 = drop_bit 24 ?t1" using crc32c_step_inv(2) [OF e2] by simp
  have "a1 = b1" using crc32c_step_inv(1) [OF e1] by (simp add: xor_cancel_left)
  moreover from this have "a2 = b2" using crc32c_step_inv(1) [OF e2] by (simp add: xor_cancel_left)
  moreover from calculation have "a3 = b3"
    using crc32c_step_inv(1) [OF e3] by (simp add: xor_cancel_left)
  ultimately show ?thesis using crc32c_step_inv(1) [OF e4] by (simp add: xor_cancel_left)
qed

lemma list2_ex: "length xs = 2 \<Longrightarrow> \<exists>a b. xs = [a, b]"
  by (auto simp: numeral_eq_Suc length_Suc_conv)

lemma list4_ex: "length xs = 4 \<Longrightarrow> \<exists>a b c d. xs = [a, b, c, d]"
  by (auto simp: numeral_eq_Suc length_Suc_conv)

lemma crc16_window_inj:
  assumes len: "length xs = length ys" "length xs \<le> 2"
    and eq: "wl_crc16_ccitt_false_update s xs = wl_crc16_ccitt_false_update s ys"
  shows "xs = ys"
proof -
  let ?p = "replicate (2 - length xs) 0"
  have "wl_crc16_ccitt_false_update s (xs @ ?p) = wl_crc16_ccitt_false_update s (ys @ ?p)"
    by (simp add: crc16_update_append eq)
  moreover obtain a1 a2 where "xs @ ?p = [a1, a2]"
    using len list2_ex [of "xs @ ?p"] by auto
  moreover obtain b1 b2 where "ys @ ?p = [b1, b2]"
    using len list2_ex [of "ys @ ?p"] by auto
  ultimately have "xs @ ?p = ys @ ?p"
    using crc16_update_2_inj [of s a1 a2 b1 b2] by simp
  then show ?thesis by simp
qed

lemma crc32c_window_inj:
  assumes len: "length xs = length ys" "length xs \<le> 4"
    and eq: "wl_crc32c_update s xs = wl_crc32c_update s ys"
  shows "xs = ys"
proof -
  let ?p = "replicate (4 - length xs) 0"
  have "wl_crc32c_update s (xs @ ?p) = wl_crc32c_update s (ys @ ?p)"
    by (simp add: crc32c_update_append eq)
  moreover obtain a b c d where "xs @ ?p = [a, b, c, d]"
    using len list4_ex [of "xs @ ?p"] by auto
  moreover obtain a' b' c' d' where "ys @ ?p = [a', b', c', d']"
    using len list4_ex [of "ys @ ?p"] by auto
  ultimately have "xs @ ?p = ys @ ?p"
    using crc32c_update_4_inj [of s a b c d a' b' c' d'] by simp
  then show ?thesis by simp
qed

lemma crc16_byte_own_high:
  "wl_crc16_byte s (ucast (drop_bit 8 s)) = push_bit 8 s"
  by (simp add: crc16_byte_t)

lemma crc16_trailer_0:
  "wl_crc16_ccitt_false_update s [ucast (drop_bit 8 s), ucast s] = 0"
proof -
  have "ucast s = (ucast (drop_bit 8 (push_bit 8 s)) :: byte)"
    by (rule bit_word_eqI) (simp add: bit_simps)
  then have "wl_crc16_byte (push_bit 8 s) (ucast s) = push_bit 8 (push_bit 8 s)"
    by (simp only: crc16_byte_own_high)
  also have "\<dots> = 0" by simp
  finally show ?thesis by (simp add: crc16_byte_own_high)
qed

lemma crc16_residue_iff:
  "wl_crc16_ccitt_false_update s [h, l] = 0 \<longleftrightarrow> h = ucast (drop_bit 8 s) \<and> l = ucast s"
  using crc16_trailer_0 [of s] crc16_update_2_inj [of s h l "ucast (drop_bit 8 s)" "ucast s"]
  by auto

section \<open>Properties\<close>

text \<open>
  C6. The table-driven checksums compute the polynomial divisions they stand for: for every
  buffer, \<open>wl_crc16_ccitt_false\<close> is the bit-by-bit remainder modulo \<open>x^16 + x^12 + x^5 + 1\<close> started from
  \<open>0xFFFF\<close>, and \<open>wl_crc32c\<close> the reflected remainder modulo the Castagnoli polynomial with the final
  complement. All 512 table entries of the source are covered.
\<close>

theorem crc_kernels_divide:
  assumes "data \<noteq> NULL \<or> len = 0"
  shows "wl_crc16_ccitt_false m data len = crc16_spec (read_bytes m data len) \<and>
         wl_crc32c m data len = crc32c_spec (read_bytes m data len)"
  using assms
  by (auto simp: wl_crc16_ccitt_false_def wl_crc32c_def crc16_spec_def crc32c_spec_def
      crc16_update_ref crc32c_update_ref)

text \<open>The witness is the standard check input, the ASCII digits 1 to 9.\<close>

definition check_digits :: mem where
  "check_digits = write_bytes (\<lambda>_. 0) 16 [0x31, 0x32, 0x33, 0x34, 0x35, 0x36, 0x37, 0x38, 0x39]"

lemma read_check_digits:
  "read_bytes check_digits 16 9 = [0x31, 0x32, 0x33, 0x34, 0x35, 0x36, 0x37, 0x38, 0x39]"
  by (simp add: check_digits_def)

theorem crc_kernels_divide_witness:
  "wl_crc16_ccitt_false check_digits 16 9 = 0x29B1 \<and>
   crc16_spec (read_bytes check_digits 16 9) = 0x29B1 \<and>
   wl_crc32c check_digits 16 9 = 0xE3069283 \<and>
   crc32c_spec (read_bytes check_digits 16 9) = 0xE3069283"
proof -
  have "wl_crc16_ccitt_false check_digits 16 9 = 0x29B1"
    by (simp add: wl_crc16_ccitt_false_def read_check_digits wl_crc16_byte_def wl_crc16_table_def)
  moreover have "wl_crc32c check_digits 16 9 = 0xE3069283"
    by (simp add: wl_crc32c_def read_check_digits wl_crc32c_byte_def WL_CRC32_TABLE_def)
  ultimately show ?thesis
    using crc_kernels_divide [of 16 9 check_digits] by simp
qed

text \<open>
  The residue test of the fused COBS decoder is the comparison of the CRC trailer: the running
  CRC-16 over a message and two trailer bytes is zero exactly when the trailer is the big-endian
  CRC-16 of the message.
\<close>

theorem crc16_residue_zero_iff:
  "wl_crc16_ccitt_false_update 0xFFFF (bs @ [h, l]) = 0 \<longleftrightarrow>
     h = ucast (drop_bit 8 (wl_crc16_ccitt_false_update 0xFFFF bs)) \<and>
     l = ucast (wl_crc16_ccitt_false_update 0xFFFF bs)"
  by (simp only: crc16_update_append crc16_residue_iff)

text \<open>
  C7. Burst detection: messages of equal length that differ only inside a window of at most two
  consecutive bytes have different CRC-16 values, and of at most four bytes different CRC-32C
  values, whatever surrounds the window.
\<close>

theorem crc_detects_bursts:
  assumes "length xs = length ys" "xs \<noteq> ys"
  shows "(length xs \<le> 2 \<longrightarrow>
            wl_crc16_ccitt_false_update s (pre @ xs @ suf) \<noteq>
            wl_crc16_ccitt_false_update s (pre @ ys @ suf)) \<and>
         (length xs \<le> 4 \<longrightarrow>
            wl_crc32c_update t (pre @ xs @ suf) \<noteq> wl_crc32c_update t (pre @ ys @ suf))"
  using assms crc16_window_inj crc32c_window_inj
  by (auto simp: crc16_update_append crc32c_update_append crc16_update_inj crc32c_update_inj)

theorem crc_detects_bursts_witness:
  "wl_crc16_ccitt_false_update 0xFFFF ([1] @ [2, 3] @ [4]) \<noteq>
     wl_crc16_ccitt_false_update 0xFFFF ([1] @ [3, 2] @ [4]) \<and>
   wl_crc32c_update 0xFFFFFFFF ([1] @ [2, 3] @ [4]) \<noteq>
     wl_crc32c_update 0xFFFFFFFF ([1] @ [3, 2] @ [4])"
  using crc_detects_bursts [of "[2, 3]" "[3, 2]" "0xFFFF" "[1]" "[4]" "0xFFFFFFFF"] by simp

end
