(* ===== verification/Cobs.thy ===== *)
theory Cobs
  imports Prelude
begin

text \<open>
  Consistent Overhead Byte Stuffing, \<^verbatim>\<open>src/cobs.c\<close> and the byte kernel of \<^verbatim>\<open>src/frame_internal.h\<close>.

  The functions of the source are modelled on the flat memory with their pointers, so that the
  encoder's back-patching of code bytes, the capacity checks and the in-place decoder (input and
  output are the same object) are the code's. \<open>cobs_encode\<close> and \<open>cobs_decode\<close> at list level are the
  reference; the theory proves that the memory routines compute them, that decoding inverts
  encoding, which inputs decode to the same bytes, that an encoding has no zero byte and respects
  the size bound, which bytes each routine may write, and where \<open>wl_cobs_decode\<close> fails to respect its output capacity.
\<close>

section \<open>The source's routines\<close>

definition wl_cobs_encoded_max_size :: "nat \<Rightarrow> nat" where
  "wl_cobs_encoded_max_size input_len =
     (if input_len = 0 then 1
      else if input_len > SIZE_MAX - input_len div 254 - 1 then SIZE_MAX
      else input_len + input_len div 254 + 1)"

fun cobs_count_loop :: "byte list \<Rightarrow> nat \<Rightarrow> byte \<Rightarrow> wl_err + nat" where
  "cobs_count_loop [] encoded_len code = Inr encoded_len"
| "cobs_count_loop (b # bs) encoded_len code =
     (if b = 0 then cobs_count_loop bs (encoded_len + 1) 1
      else
        let encoded_len = encoded_len + 1;
            code = code + 1;
            (encoded_len, code) =
              (if code = 0xFF then (encoded_len + 1, 1) else (encoded_len, code))
        in if encoded_len = SIZE_MAX then Inl WL_ERR_INVALID_ARG
           else cobs_count_loop bs encoded_len code)"

definition wl_cobs_count_encoded_len :: "mem \<Rightarrow> addr \<Rightarrow> nat \<Rightarrow> wl_err + nat" where
  "wl_cobs_count_encoded_len m input input_len =
     (if input = NULL \<and> input_len > 0 then Inl WL_ERR_INVALID_ARG
      else if input_len = 0 then Inr 1
      else cobs_count_loop (read_bytes m input input_len) 1 1)"

text \<open>
  The state of an encoding in progress: memory, write index, index of the open code byte, and its
  value so far. \<open>cobs_encode_byte\<close> is the kernel shared by the framing code, \<open>wl_cobs_encode_loop\<close>
  the loop of the stand-alone encoder, which reads its input from the memory it writes to.
\<close>

type_synonym cobs_state = "mem \<times> nat \<times> nat \<times> byte"

fun cobs_encode_byte :: "addr \<Rightarrow> byte \<Rightarrow> cobs_state \<Rightarrow> cobs_state" where
  "cobs_encode_byte out value (m, write_index, code_index, code) =
     (if value = 0 then (m(out + code_index := code), write_index + 1, write_index, 1)
      else
        let m = m(out + write_index := value);
            write_index = write_index + 1;
            code = code + 1
        in if code = 0xFF
           then (m(out + code_index := code), write_index + 1, write_index, 1)
           else (m, write_index, code_index, code))"

fun wl_cobs_encode_loop :: "addr \<Rightarrow> addr \<Rightarrow> nat \<Rightarrow> cobs_state \<Rightarrow> cobs_state" where
  "wl_cobs_encode_loop out input 0 st = st"
| "wl_cobs_encode_loop out input (Suc n) (m, write_index, code_index, code) =
     (if m input = 0
      then wl_cobs_encode_loop out (input + 1) n
             (m(out + code_index := code), write_index + 1, write_index, 1)
      else
        let m' = m(out + write_index := m input);
            write_index = write_index + 1;
            code = code + 1
        in if code = 0xFF
           then wl_cobs_encode_loop out (input + 1) n
                  (m'(out + code_index := code), write_index + 1, write_index, 1)
           else wl_cobs_encode_loop out (input + 1) n (m', write_index, code_index, code))"

fun cobs_encode_span :: "addr \<Rightarrow> addr \<Rightarrow> nat \<Rightarrow> cobs_state \<Rightarrow> cobs_state" where
  "cobs_encode_span out data 0 st = st"
| "cobs_encode_span out data (Suc n) (m, write_index, code_index, code) =
     cobs_encode_span out (data + 1) n
       (cobs_encode_byte out (m data) (m, write_index, code_index, code))"

definition wl_cobs_encode ::
    "mem \<Rightarrow> addr \<Rightarrow> nat \<Rightarrow> addr \<Rightarrow> nat \<Rightarrow> wl_err \<times> nat \<times> mem" where
  "wl_cobs_encode m input input_len output output_capacity =
     (case wl_cobs_count_encoded_len m input input_len of
        Inl err \<Rightarrow> (err, 0, m)
      | Inr required \<Rightarrow>
          if output_capacity < required then (WL_ERR_BUF_TOO_SMALL, 0, m)
          else if output = NULL \<and> required > 0 then (WL_ERR_INVALID_ARG, 0, m)
          else if input_len = 0 then (WL_OK, 1, m(output := 1))
          else
            let (m, write_index, code_index, code) =
                  wl_cobs_encode_loop output input input_len (m, 1, 0, 1)
            in (WL_OK, write_index, m(output + code_index := code)))"

function cobs_decode_size :: "mem \<Rightarrow> addr \<Rightarrow> nat \<Rightarrow> nat \<Rightarrow> nat \<Rightarrow> wl_err + nat" where
  "cobs_decode_size m input input_len in_pos required =
     (if in_pos < input_len then
        let code = m (input + in_pos); in_pos = in_pos + 1
        in if code = 0 then Inl WL_ERR_COBS_DECODE
           else if in_pos + unat code - 1 > input_len then Inl WL_ERR_COBS_DECODE
           else
             let required = required + (unat code - 1)
             in if required = 0 \<and> unat code - 1 \<noteq> 0 then Inl WL_ERR_INVALID_ARG
                else
                  let in_pos = in_pos + (unat code - 1)
                  in if in_pos + (unat code - 1) < input_len \<and> code \<noteq> 0xFF
                     then cobs_decode_size m input input_len in_pos (required + 1)
                     else cobs_decode_size m input input_len in_pos required
      else Inr required)"
  by pat_completeness auto
termination
  by (relation "measure (\<lambda>(m, input, input_len, in_pos, required). input_len - in_pos)") auto

fun cobs_copy :: "mem \<Rightarrow> addr \<Rightarrow> addr \<Rightarrow> nat \<Rightarrow> mem" where
  "cobs_copy m src dst 0 = m"
| "cobs_copy m src dst (Suc n) = cobs_copy (m(dst := m src)) (src + 1) (dst + 1) n"

function cobs_decode_loop :: "mem \<Rightarrow> addr \<Rightarrow> nat \<Rightarrow> addr \<Rightarrow> nat \<Rightarrow> nat \<Rightarrow> mem \<times> nat" where
  "cobs_decode_loop m input input_len output in_pos output_len =
     (if in_pos < input_len then
        let code = m (input + in_pos);
            in_pos = in_pos + 1;
            n = unat code - 1;
            m = cobs_copy m (input + in_pos) (output + output_len) n;
            in_pos = in_pos + n;
            output_len = output_len + n
        in if in_pos < input_len \<and> code \<noteq> 0xFF
           then cobs_decode_loop (m(output + output_len := 0)) input input_len output in_pos
                  (output_len + 1)
           else cobs_decode_loop m input input_len output in_pos output_len
      else (m, output_len))"
  by pat_completeness auto
termination
  by (relation "measure (\<lambda>(m, input, input_len, output, in_pos, output_len). input_len - in_pos)")
     auto

definition wl_cobs_decode ::
    "mem \<Rightarrow> addr \<Rightarrow> nat \<Rightarrow> addr \<Rightarrow> nat \<Rightarrow> wl_err \<times> nat \<times> mem" where
  "wl_cobs_decode m input input_len output output_capacity =
     (if input = NULL \<and> input_len > 0 then (WL_ERR_INVALID_ARG, 0, m)
      else if input_len = 0 then (WL_ERR_COBS_DECODE, 0, m)
      else
        case cobs_decode_size m input input_len 0 0 of
          Inl err \<Rightarrow> (err, 0, m)
        | Inr required \<Rightarrow>
            if required > output_capacity then (WL_ERR_BUF_TOO_SMALL, 0, m)
            else if output = NULL \<and> required > 0 then (WL_ERR_INVALID_ARG, 0, m)
            else
              let (m, output_len) = cobs_decode_loop m input input_len output 0 0
              in (WL_OK, output_len, m))"

definition wl_cobs_decode_in_place :: "mem \<Rightarrow> addr \<Rightarrow> nat \<Rightarrow> wl_err \<times> nat \<times> mem" where
  "wl_cobs_decode_in_place m buffer input_len = wl_cobs_decode m buffer input_len buffer input_len"

declare cobs_decode_size.simps [simp del] cobs_decode_loop.simps [simp del]

section \<open>Reference encoding and decoding on lists\<close>

fun cobs_enc :: "byte list \<Rightarrow> byte list \<Rightarrow> byte list" where
  "cobs_enc blk [] = of_nat (length blk + 1) # blk"
| "cobs_enc blk (x # xs) =
     (if x = 0 then of_nat (length blk + 1) # blk @ cobs_enc [] xs
      else if length blk = 253 then 0xFF # blk @ [x] @ cobs_enc [] xs
      else cobs_enc (blk @ [x]) xs)"

definition cobs_encode :: "byte list \<Rightarrow> byte list" where
  "cobs_encode xs = cobs_enc [] xs"

fun cobs_dec :: "byte list \<Rightarrow> byte list option" where
  "cobs_dec [] = Some []"
| "cobs_dec (c # rest) =
     (let n = unat c - 1
      in if c = 0 \<or> length rest < n then None
         else map_option
                (\<lambda>t. take n rest @ (if drop n rest \<noteq> [] \<and> c \<noteq> 0xFF then [0] else []) @ t)
                (cobs_dec (drop n rest)))"

definition cobs_decode :: "byte list \<Rightarrow> byte list option" where
  "cobs_decode bs = (if bs = [] then None else cobs_dec bs)"

declare cobs_dec.simps(2) [simp del]

section \<open>The reference codec is a round trip\<close>

lemma cobs_enc_neq_Nil [simp]: "cobs_enc blk xs \<noteq> []"
  by (induction blk xs rule: cobs_enc.induct) auto

lemma cobs_dec_block:
  assumes "length d < 255" "c = of_nat (length d + 1)"
  shows "cobs_dec (c # d @ r) =
    map_option (\<lambda>t. d @ (if r \<noteq> [] \<and> c \<noteq> 0xFF then [0] else []) @ t) (cobs_dec r)"
proof -
  have "unat c = length d + 1" using assms by (simp add: unat_of_nat_byte del: of_nat_add of_nat_Suc)
  moreover have "c \<noteq> 0" using \<open>unat c = _\<close> by auto
  ultimately show ?thesis by (simp add: cobs_dec.simps(2))
qed

lemma cobs_dec_enc: "length blk \<le> 253 \<Longrightarrow> cobs_dec (cobs_enc blk xs) = Some (blk @ xs)"
proof (induction blk xs rule: cobs_enc.induct)
  case (1 blk)
  then show ?case using cobs_dec_block [of blk _ "[]"] by simp
next
  case (2 blk x xs)
  have ne: "of_nat (length blk + 1) \<noteq> (0xFF :: byte)"
    using of_nat_byte_inj [of "length blk + 1" 255] 2(4) by simp
  show ?case
    using 2 ne cobs_dec_block [of blk "of_nat (length blk + 1)" "cobs_enc [] xs"]
      cobs_dec_block [of "blk @ [x]" "0xFF" "cobs_enc [] xs"]
    by auto
qed

lemma cobs_decode_encode: "cobs_decode (cobs_encode xs) = Some xs"
  by (simp add: cobs_decode_def cobs_encode_def cobs_dec_enc)

text \<open>
  The decoder has two preimages of a byte string whose encoding ends with a full block: the code byte 1 that
  the encoder writes after that block may be missing. Without zeros in the input there are no others.
\<close>

lemma cobs_enc_prefix:
  "0 \<notin> set d \<Longrightarrow> length blk + length d \<le> 253 \<Longrightarrow> cobs_enc blk (d @ ys) = cobs_enc (blk @ d) ys"
  by (induction d arbitrary: blk) auto

lemma cobs_enc_full:
  assumes "0 \<notin> set d" "length d = 254" shows "cobs_enc [] (d @ ys) = 0xFF # d @ cobs_enc [] ys"
proof -
  obtain e x where d: "d = e @ [x]" using assms(2) by (cases d rule: rev_cases) auto
  then have "cobs_enc [] (e @ x # ys) = cobs_enc e (x # ys)" using assms cobs_enc_prefix [of e "[]"] by simp
  then show ?thesis using assms d by simp
qed

lemma cobs_dec_canonical:
  "cobs_dec xs = Some ys \<Longrightarrow> xs \<noteq> [] \<Longrightarrow> 0 \<notin> set xs \<Longrightarrow> cobs_enc [] ys = xs \<or> cobs_enc [] ys = xs @ [1]"
proof (induction xs arbitrary: ys rule: cobs_dec.induct)
  case (2 c rest)
  define n d r where "n = unat c - 1" and "d = take n rest" and "r = drop n rest"
  have c: "c \<noteq> 0" "n \<le> length rest"
    using 2(2) by (auto simp: cobs_dec.simps(2) Let_def n_def not_less split: if_splits)
  have dr: "rest = d @ r" "length d = n" "0 \<notin> set d" "0 \<notin> set r"
    using c(2) 2(4) by (auto simp: d_def r_def dest: in_set_takeD in_set_dropD)
  have code: "of_nat (length d + 1) = c" "(c = 0xFF) = (length d = 254)" "length d \<le> 254"
  proof -
    have "0 < unat c" and b: "unat c < 256" using c(1) unsigned_less [of c, where ?'a = nat] by (simp_all add: unat_gt_0)
    then have len: "length d + 1 = unat c" by (simp add: dr(2) n_def)
    then show "of_nat (length d + 1) = c" by simp
    show "length d \<le> 254" using len b by linarith
    show "(c = 0xFF) = (length d = 254)" using len by (simp add: word_unat_eq_iff) linarith
  qed
  obtain t where t: "cobs_dec r = Some t" "ys = d @ (if r \<noteq> [] \<and> c \<noteq> 0xFF then [0] else []) @ t"
    using 2(2) c by (auto simp: cobs_dec.simps(2) Let_def d_def r_def n_def split: if_splits)
  have IH: "r \<noteq> [] \<Longrightarrow> cobs_enc [] t = r \<or> cobs_enc [] t = r @ [1]"
    using 2(1) [of n t] c t(1) dr(4) by (simp add: n_def r_def)
  have enc: "cobs_enc [] ys = c # d @ (if r = [] \<and> c \<noteq> 0xFF then [] else cobs_enc [] t)"
  proof (cases "c = 0xFF")
    case True
    then show ?thesis using t(2) cobs_enc_full [of d t] dr(3) code(2) by simp
  next
    case False
    then have "length d \<le> 253" using code(2,3) by linarith
    then show ?thesis
      using t dr(3) False code(1) cobs_enc_prefix [of d "[]"] by auto
  qed
  show ?case using enc IH t dr(1) code(1) by (cases "r = []") auto
qed simp

lemma cobs_decode_canonical:
  "cobs_decode xs = Some ys \<Longrightarrow> 0 \<notin> set xs \<Longrightarrow> xs = cobs_encode ys \<or> xs @ [1] = cobs_encode ys"
  using cobs_dec_canonical [of xs ys] by (auto simp: cobs_decode_def cobs_encode_def split: if_splits)

lemma cobs_enc_zero_free: "0 \<notin> set blk \<Longrightarrow> length blk \<le> 253 \<Longrightarrow> 0 \<notin> set (cobs_enc blk xs)"
proof (induction blk xs rule: cobs_enc.induct)
  case (1 blk)
  then show ?case using of_nat_byte_eq_0_iff [of "length blk + 1"] by auto
next
  case (2 blk x xs)
  then show ?case using of_nat_byte_eq_0_iff [of "length blk + 1"] by auto
qed

text \<open>The number of full 254-byte blocks decides the length of an encoding.\<close>

fun cobs_full :: "nat \<Rightarrow> byte list \<Rightarrow> nat" where
  "cobs_full k [] = 0"
| "cobs_full k (x # xs) =
     (if x = 0 then cobs_full 0 xs
      else if k = 253 then Suc (cobs_full 0 xs)
      else cobs_full (Suc k) xs)"

lemma length_cobs_enc:
  "length (cobs_enc blk xs) = length blk + length xs + cobs_full (length blk) xs + 1"
  by (induction blk xs rule: cobs_enc.induct) auto

lemma cobs_full_bound: "k \<le> 253 \<Longrightarrow> 254 * cobs_full k xs \<le> k + length xs"
proof (induction k xs rule: cobs_full.induct)
  case (2 k x xs)
  then show ?case by (cases "x = 0"; cases "k = 253") auto
qed simp

lemma length_cobs_encode_bound: "length (cobs_encode xs) \<le> length xs + length xs div 254 + 1"
  using cobs_full_bound [of 0 xs] by (simp add: cobs_encode_def length_cobs_enc)

lemma length_cobs_encode_pos: "0 < length (cobs_encode xs)"
  by (simp add: cobs_encode_def length_cobs_enc)

lemma cobs_encode_neq_Nil [simp]: "cobs_encode xs \<noteq> []"
  by (simp add: cobs_encode_def)

lemma length_cobs_encode_gt: "length xs < length (cobs_encode xs)"
  by (simp add: cobs_encode_def length_cobs_enc)

section \<open>The encoder loop computes the reference encoding\<close>

text \<open>\<open>cobs_open out blk st\<close>: the open block of the state holds the bytes \<open>blk\<close>.\<close>

fun cobs_open :: "addr \<Rightarrow> byte list \<Rightarrow> cobs_state \<Rightarrow> bool" where
  "cobs_open out blk (m, wi, ci, code) \<longleftrightarrow>
     length blk \<le> 253 \<and> wi = ci + 1 + length blk \<and> code = of_nat (length blk + 1) \<and>
     read_bytes m (out + ci + 1) (length blk) = blk"

fun cobs_close :: "addr \<Rightarrow> cobs_state \<Rightarrow> mem" where
  "cobs_close out (m, wi, ci, code) = m(out + ci := code)"

fun cobs_wi :: "cobs_state \<Rightarrow> nat" where
  "cobs_wi (m, wi, ci, code) = wi"

fun cobs_ci :: "cobs_state \<Rightarrow> nat" where
  "cobs_ci (m, wi, ci, code) = ci"

definition cobs_mem :: "cobs_state \<Rightarrow> mem" where
  "cobs_mem st = fst st"

lemma cobs_mem_simp [simp]: "cobs_mem (m, wi, ci, code) = m"
  by (simp add: cobs_mem_def)

lemma upd_write_Cons: "(write_bytes m (Suc a) bs)(a := b) = write_bytes m a (b # bs)"
  by (rule ext) (auto simp: write_bytes_def nth_Cons' Suc_le_eq)

lemma write_after_read:
  "n = length bs \<Longrightarrow> read_bytes m a n = bs \<Longrightarrow> write_bytes m a bs = m"
  by (metis write_read_id)

lemma cobs_close_open:
  assumes "cobs_open out blk st"
  shows "cobs_close out st = write_bytes (cobs_mem st) (out + cobs_ci st) (cobs_enc blk [])"
  using assms
  by (cases st) (auto simp: upd_write_Cons [symmetric] write_after_read)

lemma write_bytes_absorb:
  "a \<le> y \<Longrightarrow> y < a + length bs \<Longrightarrow> write_bytes (m(y := v)) a bs = write_bytes m a bs"
  by (rule ext) (auto simp: write_bytes_def)

lemma cobs_bytes_spec:
  assumes "cobs_open out blk st"
  shows "cobs_close out (fold (cobs_encode_byte out) xs st) =
           write_bytes (cobs_mem st) (out + cobs_ci st) (cobs_enc blk xs) \<and>
         cobs_wi (fold (cobs_encode_byte out) xs st) = cobs_ci st + length (cobs_enc blk xs)"
  using assms
proof (induction blk xs arbitrary: st rule: cobs_enc.induct)
  case (1 blk)
  then show ?case using cobs_close_open [of out blk st] by (cases st) auto
next
  case (2 blk x xs)
  note IH = 2(1,2,3) and open_st = 2(4)
  obtain m wi ci code where st: "st = (m, wi, ci, code)" by (cases st)
  have o: "length blk \<le> 253" "wi = ci + 1 + length blk" "code = of_nat (length blk + 1)"
    "read_bytes m (out + ci + 1) (length blk) = blk"
    using open_st by (auto simp: st)
  have blk: "write_bytes m' (out + ci) (c # blk @ r) = write_bytes (m'(out + ci := c)) (out + wi) r"
    if "read_bytes m' (out + ci + 1) (length blk) = blk" for c m' r
    using that o(2) write_bytes_append [of m' "out + ci" "c # blk" r]
    by (simp add: upd_write_Cons [symmetric] write_after_read add.assoc)
  have code1: "code + 1 = 0xFF \<longleftrightarrow> length blk = 253"
    using o(1,3) of_nat_byte_inj [of "length blk + 2" 255] by simp
  consider (zero) "x = 0" | (full) "x \<noteq> 0" "length blk = 253" | (more) "x \<noteq> 0" "length blk \<noteq> 253"
    by blast
  then show ?case
  proof cases
    case zero
    have "cobs_open out [] (m(out + ci := code), wi + 1, wi, 1)" by simp
    from IH(1) [OF zero this] show ?thesis
      using zero o blk [OF o(4)] by (simp add: st fun_upd_def)
  next
    case full
    let ?m = "m(out + wi := x)"
    have "cobs_open out [] (?m(out + ci := 0xFF), wi + 2, wi + 1, 1)" by simp
    note step = IH(2) [OF full this]
    have rd: "read_bytes ?m (out + ci + 1) (length blk) = blk"
      using o by (subst read_upd_outside) auto
    have "write_bytes m (out + ci) (0xFF # blk @ [x] @ r) =
          write_bytes (?m(out + ci := 0xFF)) (out + wi + 1) r" for r
    proof -
      have "write_bytes m (out + ci) (0xFF # blk @ [x] @ r) =
            write_bytes ?m (out + ci) (0xFF # blk @ [x] @ r)"
        using o(2) by (intro write_bytes_absorb [symmetric]) auto
      also have "\<dots> = write_bytes (?m(out + ci := 0xFF)) (out + wi) ([x] @ r)"
        by (rule blk [OF rd])
      also have "\<dots> = write_bytes (write_bytes (?m(out + ci := 0xFF)) (out + wi) [x]) (out + wi + 1) r"
        using write_bytes_append [of "?m(out + ci := 0xFF)" "out + wi" "[x]" r] by simp
      also have "write_bytes (?m(out + ci := 0xFF)) (out + wi) [x] = ?m(out + ci := 0xFF)"
        using o(2) by (auto simp: write_bytes_single fun_upd_twist)
      finally show ?thesis .
    qed
    with step show ?thesis
      using full o code1 by (simp add: st Let_def fun_upd_def ac_simps)
  next
    case more
    let ?st = "(m(out + wi := x), wi + 1, ci, code + 1)"
    have "cobs_open out (blk @ [x]) ?st"
      using more o by (auto simp: read_bytes_snoc read_upd_outside)
    from IH(3) [OF more this] show ?thesis
      using more o code1 by (simp add: st Let_def length_cobs_enc
          write_bytes_absorb [unfolded fun_upd_def])
  qed
qed

lemma wl_cobs_encode_loop_span: "wl_cobs_encode_loop out input n st = cobs_encode_span out input n st"
proof (induction n arbitrary: input st)
  case (Suc n)
  obtain m wi ci code where "st = (m, wi, ci, code)" by (cases st)
  then show ?case by (auto simp: Suc.IH Let_def)
qed simp

text \<open>
  Reading from the memory that is being written is harmless when every byte still to be read lies
  either before the region of the encoding or ahead of its write index.
\<close>

definition cobs_reads_ahead :: "addr \<Rightarrow> addr \<Rightarrow> byte list \<Rightarrow> cobs_state \<Rightarrow> bool" where
  "cobs_reads_ahead out data xs st \<longleftrightarrow>
     (\<forall>i < length xs. out + cobs_ci st \<le> data + i \<longrightarrow>
        out + cobs_wi (fold (cobs_encode_byte out) (take i xs) st) \<le> data + i)"

definition cobs_wf :: "cobs_state \<Rightarrow> bool" where
  "cobs_wf st \<longleftrightarrow> cobs_ci st < cobs_wi st"

lemma cobs_byte_step:
  assumes "cobs_wf st"
  shows "cobs_wf (cobs_encode_byte out v st)"
    and "cobs_ci st \<le> cobs_ci (cobs_encode_byte out v st)"
    and "cobs_wi st < cobs_wi (cobs_encode_byte out v st)"
    and "x < out + cobs_ci st \<or> out + cobs_wi st < x \<Longrightarrow>
         cobs_mem (cobs_encode_byte out v st) x = cobs_mem st x"
  using assms by (cases st; auto simp: cobs_wf_def Let_def)+

lemma cobs_bytes_mono:
  assumes "cobs_wf st"
  shows "cobs_wf (fold (cobs_encode_byte out) xs st) \<and>
         cobs_wi st + length xs \<le> cobs_wi (fold (cobs_encode_byte out) xs st)"
  using assms
proof (induction xs arbitrary: st)
  case (Cons x xs)
  from Cons.IH [OF cobs_byte_step(1) [OF Cons.prems, of out x]] cobs_byte_step(3) [OF Cons.prems, of out x]
  show ?case by simp
qed simp

lemma cobs_reads_ahead_step:
  assumes wf: "cobs_wf st" and xs: "read_bytes (cobs_mem st) data (Suc n) = v # ys"
    and ra: "cobs_reads_ahead out data (v # ys) st" and st': "st' = cobs_encode_byte out v st"
  shows "read_bytes (cobs_mem st') (Suc data) n = ys \<and> cobs_reads_ahead out (Suc data) ys st'"
proof
  note mono = cobs_byte_step [OF wf, where out = out and v = v, folded st']
  have ys: "ys = read_bytes (cobs_mem st) (Suc data) n" using xs by (simp add: read_bytes_Suc)
  have ahead: "out + cobs_wi (fold (cobs_encode_byte out) (take i ys) st') \<le> Suc data + i"
    if "i < n" "out + cobs_ci st \<le> Suc data + i" for i
    using ra [unfolded cobs_reads_ahead_def, rule_format, of "Suc i"] that by (simp add: ys st')
  show "cobs_reads_ahead out (Suc data) ys st'"
    using ahead mono(2) by (auto simp: cobs_reads_ahead_def ys)
  show "read_bytes (cobs_mem st') (Suc data) n = ys"
    unfolding ys read_bytes_eq_iff
  proof (intro allI impI)
    fix i assume i: "i < n"
    show "cobs_mem st' (Suc data + i) = cobs_mem st (Suc data + i)"
    proof (cases "out + cobs_ci st \<le> Suc data + i")
      case True
      have "cobs_wi st < cobs_wi (fold (cobs_encode_byte out) (take i ys) st')"
        using mono(3) cobs_bytes_mono [OF mono(1), of out "take i ys"] by linarith
      then show ?thesis using ahead [OF i True] by (intro mono(4)) linarith
    qed (intro mono(4), linarith)
  qed
qed

lemma cobs_encode_span_fold:
  assumes "cobs_wf st" "xs = read_bytes (cobs_mem st) data n" "cobs_reads_ahead out data xs st"
  shows "cobs_encode_span out data n st = fold (cobs_encode_byte out) xs st"
  using assms
proof (induction n arbitrary: data st xs)
  case (Suc n)
  obtain m wi ci code where st: "st = (m, wi, ci, code)" by (cases st)
  obtain ys where xs: "xs = m data # ys" using Suc.prems(2) by (simp add: st read_bytes_Suc)
  note step = cobs_reads_ahead_step [OF Suc.prems(1) Suc.prems(2) [symmetric, unfolded xs]
      Suc.prems(3) [unfolded xs] refl]
  show ?case
    using Suc.IH [OF cobs_byte_step(1) [OF Suc.prems(1)] _ conjunct2 [OF step]] step
    by (simp add: xs st)
qed simp

lemma cobs_reads_ahead_disjoint:
  assumes "cobs_wf st"
    and "data + length xs \<le> out + cobs_ci st \<or>
         out + cobs_wi (fold (cobs_encode_byte out) xs st) \<le> data"
  shows "cobs_reads_ahead out data xs st"
  unfolding cobs_reads_ahead_def
proof (intro allI impI)
  fix i assume i: "i < length xs" "out + cobs_ci st \<le> data + i"
  have "cobs_wi (fold (cobs_encode_byte out) (take i xs) st)
        \<le> cobs_wi (fold (cobs_encode_byte out) (take i xs @ drop i xs) st)"
    using cobs_bytes_mono [OF conjunct1 [OF cobs_bytes_mono [OF assms(1), of out "take i xs"]],
        of out "drop i xs"]
    unfolding fold_append o_apply by linarith
  with assms(2) i show "out + cobs_wi (fold (cobs_encode_byte out) (take i xs) st) \<le> data + i"
    by auto
qed

section \<open>The size pass and the encoder\<close>

lemma cobs_count_loop_eq:
  assumes "k \<le> 253" "e + length xs + cobs_full k xs < SIZE_MAX"
  shows "cobs_count_loop xs e (of_nat (k + 1)) = Inr (e + length xs + cobs_full k xs)"
  using assms
proof (induction k xs arbitrary: e rule: cobs_full.induct)
  case (2 k x xs)
  have full: "(of_nat (k + 1) :: byte) + 1 = 0xFF \<longleftrightarrow> k = 253"
    using of_nat_byte_inj [of "k + 2" 255] 2(4) by simp
  consider (zero) "x = 0" | (full) "x \<noteq> 0" "k = 253" | (more) "x \<noteq> 0" "k \<noteq> 253" by blast
  then show ?case
  proof cases
    case zero then show ?thesis using 2(1) [of "e + 1"] 2(5) by simp
  next
    case full then show ?thesis using 2(2) [of "e + 2"] 2(5) by simp
  next
    case more then show ?thesis using 2(3) [of "e + 1"] 2(4,5) \<open>_ \<longleftrightarrow> k = 253\<close> by simp
  qed
qed simp

lemma wl_cobs_count_encoded_len_eq:
  assumes "input \<noteq> NULL \<or> n = 0" "n + n div 254 + 1 < SIZE_MAX"
  shows "wl_cobs_count_encoded_len m input n = Inr (length (cobs_encode (read_bytes m input n)))"
proof (cases "n = 0")
  case False
  then show ?thesis
    using assms cobs_count_loop_eq [of 0 1 "read_bytes m input n"]
      cobs_full_bound [of 0 "read_bytes m input n"]
    by (simp add: wl_cobs_count_encoded_len_def cobs_encode_def length_cobs_enc)
qed (simp add: wl_cobs_count_encoded_len_def cobs_encode_def)

lemma cobs_finish:
  assumes "fold (cobs_encode_byte out) xs (m, 1, 0, 1) = (m', wi, ci, code)"
  shows "m'(out + ci := code) = write_bytes m out (cobs_encode xs)"
    and "wi = length (cobs_encode xs)"
  using cobs_bytes_spec [of out "[]" "(m, 1, 0, 1)" xs] assms by (simp_all add: cobs_encode_def)

lemma wl_cobs_encode_eq:
  assumes "input \<noteq> NULL \<or> n = 0" "n + n div 254 + 1 < SIZE_MAX" "output \<noteq> NULL"
    and xs: "xs = read_bytes m input n"
    and dis: "disjoint_ranges input n output (length (cobs_encode xs))"
  shows "wl_cobs_encode m input n output cap =
    (if cap < length (cobs_encode xs) then (WL_ERR_BUF_TOO_SMALL, 0, m)
     else (WL_OK, length (cobs_encode xs), write_bytes m output (cobs_encode xs)))"
proof (cases "n = 0")
  case True
  then show ?thesis
    using assms by (simp add: wl_cobs_encode_def wl_cobs_count_encoded_len_eq cobs_encode_def
        write_bytes_single)
next
  case False
  let ?st = "(m, 1, 0, 1) :: cobs_state"
  obtain m' wi ci code where
    f: "fold (cobs_encode_byte output) xs ?st = (m', wi, ci, code)"
    by (rule prod_cases4)
  note fin = cobs_finish [OF f]
  have "cobs_reads_ahead output input xs ?st"
    using dis False fin f by (intro cobs_reads_ahead_disjoint)
      (auto simp: cobs_wf_def disjoint_ranges_def xs)
  then have "wl_cobs_encode_loop output input n ?st = (m', wi, ci, code)"
    using cobs_encode_span_fold [of ?st xs input n "output"] f
    by (simp add: wl_cobs_encode_loop_span cobs_wf_def xs)
  then show ?thesis
    using assms False fin by (simp add: wl_cobs_encode_def wl_cobs_count_encoded_len_eq)
qed

section \<open>The decoder\<close>

lemma cobs_copy_eq:
  "dst \<le> src \<or> src + n \<le> dst \<Longrightarrow>
   cobs_copy m src dst n = write_bytes m dst (read_bytes m src n)"
proof (induction n arbitrary: m src dst)
  case (Suc n)
  have "read_bytes (m(dst := m src)) (Suc src) n = read_bytes m (Suc src) n"
    using Suc.prems by (intro read_upd_outside) auto
  then show ?case
    using Suc.IH [of "Suc dst" "Suc src" "m(dst := m src)"] Suc.prems
      write_bytes_append [of m dst "[m src]" "read_bytes m (Suc src) n"]
    by (auto simp: read_bytes_Suc write_bytes_single fun_upd_def)
qed simp

lemma cobs_dec_drop:
  assumes "p < length bs"
  shows "cobs_dec (drop p bs) =
     (let c = bs ! p; q = p + 1; n = unat c - 1
      in if c = 0 \<or> length bs < q + n then None
         else map_option
                (\<lambda>t. take n (drop q bs) @ (if q + n < length bs \<and> c \<noteq> 0xFF then [0] else []) @ t)
                (cobs_dec (drop (q + n) bs)))"
  using assms
  by (subst Cons_nth_drop_Suc [symmetric])
     (auto simp: cobs_dec.simps(2) Let_def add.commute intro!: map_option_cong)

lemma cobs_decode_size_end: "cobs_decode_size m input L L r = Inr r"
  by (subst cobs_decode_size.simps) simp

lemma cobs_decode_size_err:
  "p < L \<Longrightarrow> m (input + p) = 0 \<or> L < p + unat (m (input + p)) \<Longrightarrow>
   cobs_decode_size m input L p r = Inl WL_ERR_COBS_DECODE"
  by (subst cobs_decode_size.simps) (auto simp: Let_def)

lemma cobs_decode_size_step:
  assumes "p < L" "unat (m (input + p)) = Suc n" "p + 1 + n \<le> L"
  shows "\<exists>r'. cobs_decode_size m input L p r = cobs_decode_size m input L (p + 1 + n) r' \<and>
      r' \<le> r + n + (if p + 1 + n < L \<and> m (input + p) \<noteq> 0xFF then 1 else 0)"
proof -
  have "m (input + p) \<noteq> 0" using assms(2) by auto
  then show ?thesis using assms by (subst cobs_decode_size.simps) (auto simp: Let_def)
qed

lemma cobs_dec_err:
  "p < length bs \<Longrightarrow> bs ! p = 0 \<or> length bs < p + unat (bs ! p) \<Longrightarrow> cobs_dec (drop p bs) = None"
  using byte_ne_0_pos [of "bs ! p"] by (auto simp: cobs_dec_drop Let_def)

lemma cobs_dec_step:
  assumes "p < length bs" "unat (bs ! p) = Suc n" "p + 1 + n \<le> length bs"
  shows "cobs_dec (drop p bs) = map_option
     (\<lambda>t. take n (drop (p + 1) bs) @ (if p + 1 + n < length bs \<and> bs ! p \<noteq> 0xFF then [0] else []) @ t)
     (cobs_dec (drop (p + 1 + n) bs))"
proof -
  have "bs ! p \<noteq> 0" using assms(2) by auto
  then show ?thesis using assms by (simp add: cobs_dec_drop Let_def)
qed

lemma cobs_cases:
  fixes c :: byte
  obtains "c = 0 \<or> L < p + unat c" | n where "unat c = Suc n" "p + 1 + n \<le> L"
proof (cases "c = 0 \<or> L < p + unat c")
  case False
  then obtain n where "unat c = Suc n" using byte_ne_0_pos [of c] by (metis Suc_pred)
  with False that(2) show ?thesis by simp
qed (rule that(1))

lemma cobs_decode_size_eq:
  assumes "p \<le> L" "bs = read_bytes m input L"
  shows "case cobs_dec (drop p bs) of
           None \<Rightarrow> cobs_decode_size m input L p r = Inl WL_ERR_COBS_DECODE
         | Some ys \<Rightarrow> (\<exists>r'. cobs_decode_size m input L p r = Inr r' \<and> r' \<le> r + length ys)"
  using assms
proof (induction "L - p" arbitrary: p r rule: less_induct)
  case less
  have L: "length bs = L" and nth: "p < L \<Longrightarrow> bs ! p = m (input + p)" using less.prems by auto
  show ?case
  proof (cases "p = L")
    case True then show ?thesis using L by (simp add: cobs_decode_size_end)
  next
    case False
    then have p: "p < L" using less.prems by simp
    show ?thesis
    proof (cases rule: cobs_cases [where c = "bs ! p" and L = L and p = p])
      case 1 then show ?thesis using p L nth by (simp add: cobs_decode_size_err cobs_dec_err)
    next
      case (2 n)
      obtain r' where r': "cobs_decode_size m input L p r = cobs_decode_size m input L (p + 1 + n) r'"
        "r' \<le> r + n + (if p + 1 + n < L \<and> bs ! p \<noteq> 0xFF then 1 else 0)"
        using cobs_decode_size_step [of p L m input n r] p 2 nth by auto
      have lt: "L - (p + 1 + n) < L - p" using p by simp
      note IH = less.hyps [OF lt 2(2) less.prems(2), of r']
      show ?thesis
      proof (cases "cobs_dec (drop (p + 1 + n) bs)")
        case None
        then show ?thesis using IH r'(1) cobs_dec_step [of p bs n] p 2 L by simp
      next
        case (Some t)
        then obtain r'' where "cobs_decode_size m input L (p + 1 + n) r' = Inr r''"
          "r'' \<le> r' + length t" using IH by auto
        then show ?thesis using Some r' cobs_dec_step [of p bs n] p 2 L by auto
      qed
    qed
  qed
qed

lemma cobs_decode_loop_end: "cobs_decode_loop m input L out L k = (m, k)"
  by (subst cobs_decode_loop.simps) simp

lemma cobs_decode_loop_step:
  assumes "p < L" "unat (m (input + p)) = Suc n"
  shows "cobs_decode_loop m input L out p k =
    (let m' = cobs_copy m (input + p + 1) (out + k) n
     in if p + 1 + n < L \<and> m (input + p) \<noteq> 0xFF
        then cobs_decode_loop (m'(out + k + n := 0)) input L out (p + 1 + n) (k + n + 1)
        else cobs_decode_loop m' input L out (p + 1 + n) (k + n))"
  using assms by (subst cobs_decode_loop.simps) (simp add: Let_def ac_simps)

text \<open>One block: its data bytes, and what is left to read after it has been written.\<close>

lemma cobs_block_data:
  assumes "p + 1 + n \<le> L" "read_bytes m (input + p) (L - p) = drop p bs"
  shows "read_bytes m (input + p + 1) n = take n (drop (p + 1) bs)"
  using arg_cong [OF assms(2), of "\<lambda>l. take n (drop 1 l)"] assms(1)
  by (simp add: take_read_bytes drop_read_bytes)

lemma cobs_block_rest:
  assumes "p + 1 + n \<le> L" "read_bytes m (input + p) (L - p) = drop p bs" "length d = n"
    and lead: "out + k \<le> input + p \<or> input + L \<le> out + k"
    and z: "length z \<le> 1"
    and q: "q = p + 1 + n" and j: "j = k + n + length z"
  shows "read_bytes (write_bytes m (out + k) (d @ z)) (input + q) (L - q) = drop q bs"
    and "out + j \<le> input + q \<or> input + L \<le> out + j"
proof -
  have "read_bytes m (input + q) (L - q) = drop q bs"
    using arg_cong [OF assms(2), of "drop (1 + n)"] by (simp add: drop_read_bytes q ac_simps)
  moreover have "disjoint_ranges (input + q) (L - q) (out + k) (n + length z)"
    using lead z assms(1) q by (auto simp: disjoint_ranges_def)
  ultimately show "read_bytes (write_bytes m (out + k) (d @ z)) (input + q) (L - q) = drop q bs"
    using assms(3) by (simp add: read_write_disjoint)
  show "out + j \<le> input + q \<or> input + L \<le> out + j"
    using lead z q j by auto
qed

lemma cobs_dec_step_Some:
  assumes "p < length bs" "unat (bs ! p) = Suc n" "p + 1 + n \<le> length bs"
    and z: "z = (if p + 1 + n < length bs \<and> bs ! p \<noteq> 0xFF then [0] else [])"
    and "cobs_dec (drop p bs) = Some ys"
  obtains t where "cobs_dec (drop (p + 1 + n) bs) = Some t" "ys = take n (drop (p + 1) bs) @ z @ t"
  using assms cobs_dec_step [OF assms(1-3)] by (cases "cobs_dec (drop (p + 1 + n) bs)") auto

lemma cobs_decode_loop_eq:
  assumes "p \<le> L" "read_bytes m (input + p) (L - p) = drop p bs" "length bs = L"
    and "cobs_dec (drop p bs) = Some ys"
    and "out + k \<le> input + p \<or> input + L \<le> out + k"
  shows "cobs_decode_loop m input L out p k = (write_bytes m (out + k) ys, k + length ys)"
  using assms
proof (induction "L - p" arbitrary: p m k ys rule: less_induct)
  case less
  show ?case
  proof (cases "p = L")
    case True then show ?thesis using less.prems by (simp add: cobs_decode_loop_end)
  next
    case False
    then have p: "p < L" using less.prems by simp
    have c: "m (input + p) = bs ! p"
      using read_bytes_eqD [OF less.prems(2), of 0] p less.prems(3) by simp
    show ?thesis
    proof (cases rule: cobs_cases [where c = "bs ! p" and L = L and p = p])
      case 1 then show ?thesis using p less.prems(3,4) by (simp add: cobs_dec_err)
    next
      case (2 n)
      define z where "z = (if p + 1 + n < length bs \<and> bs ! p \<noteq> 0xFF then [0 :: byte] else [])"
      obtain t where t: "cobs_dec (drop (p + 1 + n) bs) = Some t"
        and ys: "ys = take n (drop (p + 1) bs) @ z @ t"
        using cobs_dec_step_Some [OF _ 2(1) _ z_def less.prems(4)] p 2 less.prems(3) by auto
      define d where "d = take n (drop (p + 1) bs)"
      have len: "length d = n" and z: "length z \<le> 1" using 2 less.prems(3) by (auto simp: z_def d_def)
      define m' where "m' = write_bytes m (out + k) (d @ z)"
      have blk: "cobs_copy m (input + p + 1) (out + k) n = write_bytes m (out + k) d"
        using less.prems(5) p 2 cobs_block_data [OF 2(2) less.prems(2)]
        by (subst cobs_copy_eq) (auto simp: d_def)
      have "cobs_decode_loop m input L out p k =
            cobs_decode_loop m' input L out (p + 1 + n) (k + n + length z)"
        using cobs_decode_loop_step [of p L m input n out k] p 2 c len blk less.prems(3)
        by (simp add: m'_def z_def Let_def write_bytes_append write_bytes_single ac_simps)
      also have "\<dots> = (write_bytes m' (out + (k + n + length z)) t, k + n + length z + length t)"
        using cobs_block_rest [OF 2(2) less.prems(2) len less.prems(5) z refl refl] p 2 t less.prems(3)
        by (intro less.hyps) (auto simp: m'_def)
      also have "write_bytes m' (out + (k + n + length z)) t = write_bytes m (out + k) ys"
        using len by (simp add: ys m'_def d_def write_bytes_append ac_simps)
      finally show ?thesis using len by (simp add: ys d_def)
    qed
  qed
qed

lemma cobs_dec_length:
  "cobs_dec bs = Some ys \<Longrightarrow> length ys + (if bs = [] then 0 else 1) \<le> length bs"
proof (induction bs arbitrary: ys rule: cobs_dec.induct)
  case (2 c rest)
  let ?n = "unat c - 1"
  obtain t where c: "c \<noteq> 0" "?n \<le> length rest" and t: "cobs_dec (drop ?n rest) = Some t"
    and ys: "ys = take ?n rest @ (if drop ?n rest \<noteq> [] \<and> c \<noteq> 0xFF then [0] else []) @ t"
    using "2.prems" by (auto simp: cobs_dec.simps(2) Let_def split: if_splits)
  have "length t + (if drop ?n rest = [] then 0 else 1) \<le> length (drop ?n rest)"
    using "2.IH" [OF refl _ t] c by simp
  then show ?case using ys c by (auto split: if_splits)
qed simp

lemma cobs_decode_length: "cobs_decode bs = Some ys \<Longrightarrow> length ys < length bs"
  using cobs_dec_length [of bs ys] by (auto simp: cobs_decode_def split: if_splits)

lemma wl_cobs_decode_eq:
  assumes "input \<noteq> NULL" "output \<noteq> NULL" "output \<le> input \<or> input + L \<le> output"
    and bs: "bs = read_bytes m input L"
  shows "cobs_decode bs = None \<Longrightarrow> wl_cobs_decode m input L output cap = (WL_ERR_COBS_DECODE, 0, m)"
    and "cobs_decode bs = Some ys \<Longrightarrow> length ys \<le> cap \<Longrightarrow>
         wl_cobs_decode m input L output cap = (WL_OK, length ys, write_bytes m output ys)"
proof -
  have size: "case cobs_dec bs of
       None \<Rightarrow> cobs_decode_size m input L 0 0 = Inl WL_ERR_COBS_DECODE
     | Some ys \<Rightarrow> (\<exists>r'. cobs_decode_size m input L 0 0 = Inr r' \<and> r' \<le> length ys)"
    using cobs_decode_size_eq [of 0 L bs m input 0] bs by (simp split: option.splits)
  show "cobs_decode bs = None \<Longrightarrow> wl_cobs_decode m input L output cap = (WL_ERR_COBS_DECODE, 0, m)"
    using size assms by (auto simp: wl_cobs_decode_def cobs_decode_def split: if_splits)
  assume ys: "cobs_decode bs = Some ys" "length ys \<le> cap"
  then have "cobs_dec bs = Some ys" "0 < L"
    using bs by (auto simp: cobs_decode_def split: if_splits)
  then show "wl_cobs_decode m input L output cap = (WL_OK, length ys, write_bytes m output ys)"
    using size assms ys cobs_decode_loop_eq [of 0 L m input bs ys "output" 0]
    by (auto simp: wl_cobs_decode_def)
qed

lemma wl_cobs_decode_in_place_eq:
  assumes "buffer \<noteq> NULL"
  shows "wl_cobs_decode_in_place m buffer L =
    (case cobs_decode (read_bytes m buffer L) of
       None \<Rightarrow> (WL_ERR_COBS_DECODE, 0, m)
     | Some ys \<Rightarrow> (WL_OK, length ys, write_bytes m buffer ys))"
  using wl_cobs_decode_eq [OF assms assms, where L = L and m = m and cap = L]
    cobs_decode_length [of "read_bytes m buffer L"]
  by (auto simp: wl_cobs_decode_in_place_def less_imp_le split: option.split)

section \<open>Properties\<close>

text \<open>
  C8. \<^verbatim>\<open>wl_cobs_encode\<close> on non-overlapping buffers: it fails with \<^verbatim>\<open>WL_ERR_BUF_TOO_SMALL\<close>
  exactly when the capacity is below the length of the encoding, and then writes nothing; otherwise
  it writes exactly the bytes of the reference encoding. They contain no zero byte, so the frame
  delimiter cannot occur inside, and \<^verbatim>\<open>wl_cobs_encoded_max_size\<close> bounds their number.
\<close>

theorem cobs_encode_correct:
  assumes "input \<noteq> NULL \<or> n = 0" "output \<noteq> NULL" "n + n div 254 + 1 < SIZE_MAX"
    and "xs = read_bytes m input n"
    and "disjoint_ranges input n output (length (cobs_encode xs))"
  shows "wl_cobs_encode m input n output cap =
           (if cap < length (cobs_encode xs) then (WL_ERR_BUF_TOO_SMALL, 0, m)
            else (WL_OK, length (cobs_encode xs), write_bytes m output (cobs_encode xs)))
         \<and> 0 \<notin> set (cobs_encode xs)
         \<and> n < length (cobs_encode xs) \<and> length (cobs_encode xs) \<le> wl_cobs_encoded_max_size n"
  using assms wl_cobs_encode_eq [of input n "output" xs m cap] cobs_enc_zero_free [of "[]" xs]
    length_cobs_encode_bound [of xs] length_cobs_encode_gt [of xs]
  by (auto simp: cobs_encode_def wl_cobs_encoded_max_size_def)

definition cobs_demo :: mem where
  "cobs_demo = write_bytes (\<lambda>_. 0xAA) 16 [0x11, 0, 0x22]"

lemma cobs_demo_read: "read_bytes cobs_demo 16 3 = [0x11, 0, 0x22]"
  by (simp add: cobs_demo_def)

theorem cobs_encode_correct_witness:
  "wl_cobs_encode cobs_demo 16 3 32 4 =
     (WL_OK, 4, write_bytes cobs_demo 32 [2, 0x11, 2, 0x22]) \<and>
   wl_cobs_encode cobs_demo 16 3 32 3 = (WL_ERR_BUF_TOO_SMALL, 0, cobs_demo)"
proof -
  have e: "cobs_encode [0x11, 0, 0x22] = [2, 0x11, 2, 0x22]" by (simp add: cobs_encode_def)
  show ?thesis
    using cobs_encode_correct [OF _ _ _ cobs_demo_read [symmetric], of 32 4]
      cobs_encode_correct [OF _ _ _ cobs_demo_read [symmetric], of 32 3]
    by (simp add: e disjoint_ranges_def SIZE_MAX_def)
qed

text \<open>
  C9. Round trip through memory: encoding \<^verbatim>\<open>n\<close> bytes into a buffer and decoding that buffer
  in place, as the receive path does, succeeds, returns \<^verbatim>\<open>n\<close> and leaves the original bytes at the
  start of the buffer; nothing outside the encoded range of the buffer changes.
\<close>

theorem cobs_round_trip:
  assumes "input \<noteq> NULL \<or> n = 0" "output \<noteq> NULL" "n + n div 254 + 1 < SIZE_MAX"
    and "disjoint_ranges input n output (length (cobs_encode (read_bytes m input n)))"
    and "wl_cobs_encode m input n output cap = (WL_OK, len, m1)"
    and "wl_cobs_decode_in_place m1 output len = (r, len', m2)"
  shows "r = WL_OK \<and> len' = n \<and> read_bytes m2 output n = read_bytes m input n \<and>
         only_changes m m2 output len"
proof -
  let ?e = "cobs_encode (read_bytes m input n)"
  have enc: "len = length ?e" "m1 = write_bytes m output ?e"
    using assms(5) wl_cobs_encode_eq [OF assms(1,3,2) refl assms(4), of cap] by (auto split: if_splits)
  then have "wl_cobs_decode_in_place m1 output len =
      (WL_OK, n, write_bytes m1 output (read_bytes m input n))"
    using assms(2) by (simp add: wl_cobs_decode_in_place_eq cobs_decode_encode)
  moreover have "only_changes m (write_bytes m1 output (read_bytes m input n)) output len"
    using enc length_cobs_encode_gt [of "read_bytes m input n"]
    by (auto intro!: only_changes_trans [OF only_changes_write only_changes_write]
        only_changes_weaken simp: only_changes_def write_bytes_def)
  ultimately show ?thesis using assms(6) by simp
qed

theorem cobs_round_trip_witness:
  "case wl_cobs_encode cobs_demo 16 3 32 8 of (r1, len, m1) \<Rightarrow>
   case wl_cobs_decode_in_place m1 32 len of (r2, len', m2) \<Rightarrow>
     r1 = WL_OK \<and> r2 = WL_OK \<and> len' = 3 \<and> read_bytes m2 32 3 = [0x11, 0, 0x22]"
proof -
  have e: "cobs_encode [0x11, 0, 0x22] = [2, 0x11, 2, 0x22]" by (simp add: cobs_encode_def)
  obtain m1 where 1: "wl_cobs_encode cobs_demo 16 3 32 8 = (WL_OK, 4, m1)"
    using wl_cobs_encode_eq [OF _ _ _ cobs_demo_read [symmetric], of 32 8]
    by (simp add: e disjoint_ranges_def SIZE_MAX_def)
  obtain r l m2 where 2: "wl_cobs_decode_in_place m1 32 4 = (r, l, m2)" by (rule prod_cases3)
  from cobs_round_trip [OF _ _ _ _ 1 2] show ?thesis
    using 1 2 by (simp add: cobs_demo_read e disjoint_ranges_def SIZE_MAX_def)
qed

text \<open>
  C10. \<^verbatim>\<open>wl_cobs_decode_in_place\<close> on arbitrary bytes, valid or not: it either reports
  \<^verbatim>\<open>WL_ERR_COBS_DECODE\<close> and changes nothing, exactly when the bytes are not a COBS encoding, or
  it returns the decoded bytes at the start of the buffer. The output is shorter than the input and
  no byte outside the input range is written.
\<close>

theorem cobs_decode_in_place_safe:
  assumes "buffer \<noteq> NULL" "wl_cobs_decode_in_place m buffer len = (r, len', m')"
  shows "(case cobs_decode (read_bytes m buffer len) of
            None \<Rightarrow> r = WL_ERR_COBS_DECODE \<and> len' = 0 \<and> m' = m
          | Some ys \<Rightarrow> r = WL_OK \<and> len' = length ys \<and> len' < len \<and> read_bytes m' buffer len' = ys)
         \<and> only_changes m m' buffer len"
  using assms cobs_decode_length [of "read_bytes m buffer len"]
  by (auto simp: wl_cobs_decode_in_place_eq split: option.splits
      intro!: only_changes_write)

theorem cobs_decode_in_place_safe_witness:
  "(case wl_cobs_decode_in_place cobs_demo 16 3 of (r, len', m') \<Rightarrow>
      r = WL_ERR_COBS_DECODE \<and> len' = 0 \<and> m' = cobs_demo) \<and>
   (case wl_cobs_decode_in_place (write_bytes cobs_demo 16 [2, 0x11, 2, 0x22]) 16 4 of (r, len', m') \<Rightarrow>
      r = WL_OK \<and> len' = 3 \<and> read_bytes m' 16 3 = [0x11, 0, 0x22])"
proof -
  let ?m = "write_bytes cobs_demo 16 [2, 0x11, 2, 0x22]"
  obtain r l m' where d: "wl_cobs_decode_in_place cobs_demo 16 3 = (r, l, m')" by (rule prod_cases3)
  obtain r2 l2 m2 where d2: "wl_cobs_decode_in_place ?m 16 4 = (r2, l2, m2)" by (rule prod_cases3)
  have "cobs_decode [0x11, 0, 0x22] = None" "cobs_decode (read_bytes ?m 16 4) = Some [0x11, 0, 0x22]"
    by (simp_all add: cobs_decode_def cobs_dec.simps(2))
  then have "r = WL_ERR_COBS_DECODE \<and> l = 0 \<and> m' = cobs_demo" "r2 = WL_OK \<and> l2 = 3 \<and> read_bytes m2 16 l2 = [0x11, 0, 0x22]"
    using cobs_decode_in_place_safe [OF _ d] cobs_decode_in_place_safe [OF _ d2] by (auto simp: cobs_demo_read)
  then show ?thesis by (auto simp: d d2)
qed

text \<open>
  C11. The size pass of \<^verbatim>\<open>wl_cobs_decode\<close> looks past the block it has already skipped when it
  decides whether an implicit zero follows, and so undercounts. On this input it accepts an output
  capacity of 2, writes 3 bytes, and overwrites the byte after the output buffer.
\<close>

theorem cobs_decode_overruns_capacity:
  "let m = write_bytes (\<lambda>_. 0xAA) 16 [3, 0x11, 0x22, 1] in
   case wl_cobs_decode m 16 4 32 2 of (r, len', m') \<Rightarrow>
     r = WL_OK \<and> len' = 3 \<and> m 34 = 0xAA \<and> m' 34 = 0"
proof -
  let ?m = "write_bytes (\<lambda>_. 0xAA) 16 [3, 0x11, 0x22, 1] :: mem"
  have rd: "?m 16 = 3" "?m 17 = 0x11" "?m 18 = 0x22" "?m 19 = 1" "?m 34 = 0xAA"
    by (simp_all add: write_bytes_def nth_Cons')
  have "read_bytes ?m 16 4 = [3, 0x11, 0x22, 1]" by simp
  have "cobs_decode_size ?m 16 4 0 0 = Inr 2"
    by (simp add: cobs_decode_size.simps [of ?m] rd)
  moreover have "cobs_decode_loop ?m 16 4 32 0 0 = (write_bytes ?m 32 [0x11, 0x22, 0], 3)"
    using cobs_decode_loop_eq [of 0 4 ?m 16 "[3, 0x11, 0x22, 1]" "[0x11, 0x22, 0]" 32 0]
    by (simp add: cobs_dec.simps(2))
  ultimately show ?thesis
    by (simp add: wl_cobs_decode_def rd write_bytes_def)
qed

end
