(* ===== verification/Frame.thy ===== *)
theory Frame
  imports Crc Cobs
begin

unbundle bit_operations_syntax

text \<open>
  The wire frame, \<^verbatim>\<open>src/frame.c\<close>, \<^verbatim>\<open>src/frame_internal.h\<close>, \<^verbatim>\<open>src/link_profile.h\<close> and the
  structures of \<^verbatim>\<open>include/wirelink/frame.h\<close>, \<^verbatim>\<open>profile.h\<close> and \<^verbatim>\<open>span.h\<close>, in the default build
  (all envelopes and integrity modes compiled in).

  Encoders work on the flat memory with the payload and output pointers of the C code; the header
  and the integrity trailer live in private stack arrays of the callers and are byte lists. The
  reference is \<open>wire_frame\<close>, the bytes of a packet as a function of its fields and payload bytes.
  The theory shows that the encoder emits exactly these bytes for every placement of payload and
  output, overlapping ones included, and that the parser accepts exactly the raw frames
  the encoder can produce.
\<close>

section \<open>Constants and structures\<close>

abbreviation (input) "WL_ENVELOPE_COBS_STREAM \<equiv> 0 :: int"
abbreviation (input) "WL_ENVELOPE_NATIVE_PACKET \<equiv> 1 :: int"
abbreviation (input) "WL_ENVELOPE_BUS_LENGTH16 \<equiv> 2 :: int"

abbreviation (input) "WL_INTEGRITY_NONE \<equiv> 0 :: int"
abbreviation (input) "WL_INTEGRITY_CRC16 \<equiv> 1 :: int"
abbreviation (input) "WL_INTEGRITY_CRC32C \<equiv> 2 :: int"

abbreviation (input) "WL_PACKET_DATA \<equiv> 1 :: int"
abbreviation (input) "WL_PACKET_ACK \<equiv> 2 :: int"
abbreviation (input) "WL_PACKET_NACK \<equiv> 3 :: int"
abbreviation (input) "WL_PACKET_FLAG_RELIABLE \<equiv> 1 :: byte"

abbreviation (input) "WL_FRAME_MARKER \<equiv> 0xA0 :: byte"
abbreviation (input) "WL_FRAME_MARKER_MASK \<equiv> 0xF0 :: byte"
abbreviation (input) "WL_FRAME_VERSION \<equiv> 1 :: byte"
abbreviation (input) "WL_FRAME_VERSION_MASK \<equiv> 0x0C :: byte"
abbreviation (input) "WL_FRAME_KIND_MASK \<equiv> 0x03 :: byte"
abbreviation (input) "WL_FRAME_PREFIX \<equiv> 0xA4 :: byte"
abbreviation (input) "WL_FRAME_BASE_HEADER_SIZE \<equiv> 4 :: nat"
abbreviation (input) "WL_FRAME_RELIABLE_HEADER_SIZE \<equiv> 16 :: nat"
abbreviation (input) "WL_FRAME_HEADER_SIZE \<equiv> 16 :: nat"
abbreviation (input) "WL_PACKET_MAX_PAYLOAD \<equiv> 2048 :: nat"

record wl_span =
  span_data :: addr
  span_length :: nat

record wl_config =
  max_payload_len :: u16
  envelope :: int
  integrity :: int
  cfg_session_id :: u64
  max_retries :: u16
  ack_timeout_ms :: u32
  max_transmission_unit :: nat

record wl_wire_packet =
  pkt_type :: int
  pkt_integrity :: int
  pkt_flags :: byte
  pkt_message_id :: u16
  pkt_session_id :: u64
  pkt_sequence :: u32
  pkt_payload :: addr
  pkt_payload_len :: nat

record wl_frame_view =
  view_type :: int
  view_flags :: byte
  view_message_id :: u16
  view_session_id :: u64
  view_sequence :: u32
  view_integrity :: int
  view_payload :: wl_span
  view_integrity_bytes :: wl_span
  view_total_len :: nat

record wl_frame_header =
  marker_version_kind :: byte
  reserved :: byte
  version :: byte
  header_length :: byte
  packet_type :: byte
  hdr_flags :: byte
  hdr_session_id :: u64
  hdr_sequence :: u32
  hdr_message_id :: u16
  payload_length :: u16

section \<open>Selectors of the link profile\<close>

definition wl_profile_envelope_valid :: "int \<Rightarrow> bool" where
  "wl_profile_envelope_valid env \<longleftrightarrow> WL_ENVELOPE_COBS_STREAM \<le> env \<and> env \<le> WL_ENVELOPE_BUS_LENGTH16"

definition wl_profile_integrity_valid :: "int \<Rightarrow> bool" where
  "wl_profile_integrity_valid integ \<longleftrightarrow> WL_INTEGRITY_NONE \<le> integ \<and> integ \<le> WL_INTEGRITY_CRC32C"

definition wl_profile_supported :: "int \<Rightarrow> int \<Rightarrow> bool" where
  "wl_profile_supported env integ \<longleftrightarrow> True"

definition wl_profile_crc_size :: "int \<Rightarrow> nat" where
  "wl_profile_crc_size integ =
     (if integ = WL_INTEGRITY_CRC16 then 2 else if integ = WL_INTEGRITY_CRC32C then 4 else 0)"

section \<open>Big-endian fields\<close>

definition read_u16_be :: "mem \<Rightarrow> addr \<Rightarrow> u16" where
  "read_u16_be m p = push_bit 8 (ucast (m p)) OR ucast (m (p + 1))"

definition read_u32_be :: "mem \<Rightarrow> addr \<Rightarrow> u32" where
  "read_u32_be m p =
     push_bit 24 (ucast (m p)) OR push_bit 16 (ucast (m (p + 1))) OR
     push_bit 8 (ucast (m (p + 2))) OR ucast (m (p + 3))"

definition read_u64_be :: "mem \<Rightarrow> addr \<Rightarrow> u64" where
  "read_u64_be m p =
     push_bit 56 (ucast (m p)) OR push_bit 48 (ucast (m (p + 1))) OR
     push_bit 40 (ucast (m (p + 2))) OR push_bit 32 (ucast (m (p + 3))) OR
     push_bit 24 (ucast (m (p + 4))) OR push_bit 16 (ucast (m (p + 5))) OR
     push_bit 8 (ucast (m (p + 6))) OR ucast (m (p + 7))"

definition write_u16_be :: "u16 \<Rightarrow> byte list" where
  "write_u16_be v = [ucast (drop_bit 8 v), ucast (v AND 0xFF)]"

definition write_u32_be :: "u32 \<Rightarrow> byte list" where
  "write_u32_be v =
     [ucast (drop_bit 24 v), ucast (drop_bit 16 v), ucast (drop_bit 8 v), ucast (v AND 0xFF)]"

definition write_u64_be :: "u64 \<Rightarrow> byte list" where
  "write_u64_be v =
     [ucast (drop_bit 56 v), ucast (drop_bit 48 v), ucast (drop_bit 40 v), ucast (drop_bit 32 v),
      ucast (drop_bit 24 v), ucast (drop_bit 16 v), ucast (drop_bit 8 v), ucast (v AND 0xFF)]"

section \<open>Headers and sizes\<close>

definition wl_frame_packet_header_size :: "int \<Rightarrow> byte \<Rightarrow> nat" where
  "wl_frame_packet_header_size type flags =
     (if type = WL_PACKET_ACK \<and> flags = 0 then WL_FRAME_RELIABLE_HEADER_SIZE
      else if type \<noteq> WL_PACKET_DATA \<or> flags AND NOT WL_PACKET_FLAG_RELIABLE \<noteq> 0 then 0
      else if flags AND WL_PACKET_FLAG_RELIABLE \<noteq> 0 then WL_FRAME_RELIABLE_HEADER_SIZE
      else WL_FRAME_BASE_HEADER_SIZE)"

definition frame_packet_kind :: "wl_wire_packet \<Rightarrow> byte" where
  "frame_packet_kind packet =
     (if pkt_type packet = WL_PACKET_ACK then 2
      else if pkt_flags packet AND WL_PACKET_FLAG_RELIABLE \<noteq> 0 then 1 else 0)"

definition frame_write_header :: "wl_wire_packet \<Rightarrow> nat \<Rightarrow> byte list" where
  "frame_write_header packet header_len =
     [WL_FRAME_PREFIX OR frame_packet_kind packet, 0] @ write_u16_be (pkt_message_id packet) @
     (if header_len = WL_FRAME_RELIABLE_HEADER_SIZE
      then write_u64_be (pkt_session_id packet) @ write_u32_be (pkt_sequence packet) else [])"

definition frame_write_integrity :: "mem \<Rightarrow> wl_wire_packet \<Rightarrow> int \<Rightarrow> byte list \<Rightarrow> byte list" where
  "frame_write_integrity m packet integrity_kind header =
     (let payload = read_bytes m (pkt_payload packet) (pkt_payload_len packet)
      in if integrity_kind = WL_INTEGRITY_CRC16 then
           let state = wl_crc16_ccitt_false_update 0xFFFF header;
               state = wl_crc16_ccitt_false_update state payload
           in write_u16_be state
         else if integrity_kind = WL_INTEGRITY_CRC32C then
           let state = wl_crc32c_update 0xFFFFFFFF header;
               state = wl_crc32c_update state payload
           in write_u32_be (state XOR 0xFFFFFFFF)
         else [])"

definition wl_frame_overhead :: "int \<Rightarrow> nat" where
  "wl_frame_overhead integ =
     (if \<not> wl_profile_integrity_valid integ \<or> \<not> wl_profile_supported WL_ENVELOPE_COBS_STREAM integ
      then 0 else WL_FRAME_HEADER_SIZE + wl_profile_crc_size integ)"

definition wl_frame_raw_size :: "nat \<Rightarrow> int \<Rightarrow> nat" where
  "wl_frame_raw_size payload_len integ =
     (if \<not> wl_profile_integrity_valid integ \<or> \<not> wl_profile_supported WL_ENVELOPE_COBS_STREAM integ
      then 0
      else let crc_len = wl_profile_crc_size integ
           in if payload_len > SIZE_MAX - WL_FRAME_HEADER_SIZE - crc_len then 0
              else WL_FRAME_HEADER_SIZE + payload_len + crc_len)"

definition wl_frame_encode_overhead :: "int \<Rightarrow> int \<Rightarrow> nat" where
  "wl_frame_encode_overhead env integ =
     (if \<not> wl_profile_envelope_valid env \<or> \<not> wl_profile_integrity_valid integ \<or>
         \<not> wl_profile_supported env integ then 0
      else let raw_size = wl_frame_raw_size 0 integ
           in if raw_size = 0 then 0
              else if env = WL_ENVELOPE_COBS_STREAM then wl_cobs_encoded_max_size raw_size + 1
              else if env = WL_ENVELOPE_BUS_LENGTH16 then raw_size + 2
              else if env = WL_ENVELOPE_NATIVE_PACKET then raw_size
              else 0)"

definition wl_frame_validate_header :: "wl_frame_header \<Rightarrow> wl_err" where
  "wl_frame_validate_header hdr =
     (if marker_version_kind hdr AND WL_FRAME_MARKER_MASK \<noteq> WL_FRAME_MARKER \<or> reserved hdr \<noteq> 0
      then WL_ERR_BAD_FRAME
      else if version hdr \<noteq> WL_FRAME_VERSION then WL_ERR_PROTOCOL_VERSION
      else if unat (payload_length hdr) > WL_PACKET_MAX_PAYLOAD then WL_ERR_FRAME_TOO_LONG
      else if packet_type hdr = 1 then
        (if hdr_message_id hdr = 0 then WL_ERR_BAD_FRAME
         else if hdr_flags hdr AND NOT WL_PACKET_FLAG_RELIABLE \<noteq> 0 then WL_ERR_BAD_FRAME
         else if hdr_flags hdr AND WL_PACKET_FLAG_RELIABLE \<noteq> 0 then
           (if header_length hdr \<noteq> 16 \<or> hdr_session_id hdr = 0 then WL_ERR_BAD_FRAME else WL_OK)
         else if header_length hdr \<noteq> 4 \<or> hdr_session_id hdr \<noteq> 0 \<or> hdr_sequence hdr \<noteq> 0
              then WL_ERR_BAD_FRAME
         else WL_OK)
      else if packet_type hdr = 2 then
        (if hdr_message_id hdr \<noteq> 0 \<or> payload_length hdr \<noteq> 0 \<or> hdr_flags hdr \<noteq> 0 \<or>
            header_length hdr \<noteq> 16 \<or> hdr_session_id hdr = 0
         then WL_ERR_BAD_FRAME else WL_OK)
      else WL_ERR_NOT_SUPPORTED)"

definition frame_header_size :: "wl_wire_packet \<Rightarrow> wl_err + nat" where
  "frame_header_size packet =
     (let size = (if pkt_payload_len packet > WL_PACKET_MAX_PAYLOAD then Inl WL_ERR_PAYLOAD_TOO_LONG
                  else Inr (wl_frame_packet_header_size (pkt_type packet) (pkt_flags packet)))
      in if pkt_type packet = WL_PACKET_DATA then
           (if pkt_message_id packet = 0 then Inl WL_ERR_INVALID_ARG
            else if pkt_flags packet AND NOT WL_PACKET_FLAG_RELIABLE \<noteq> 0
                 then Inl WL_ERR_INVALID_ARG
            else if pkt_flags packet AND WL_PACKET_FLAG_RELIABLE \<noteq> 0 \<and> pkt_session_id packet = 0
                 then Inl WL_ERR_INVALID_ARG
            else size)
         else if pkt_type packet = WL_PACKET_ACK then
           (if pkt_message_id packet \<noteq> 0 \<or> pkt_payload_len packet \<noteq> 0 \<or> pkt_flags packet \<noteq> 0
            then Inl WL_ERR_INVALID_ARG
            else if pkt_session_id packet = 0 then Inl WL_ERR_INVALID_ARG
            else size)
         else Inl WL_ERR_BAD_FRAME)"

section \<open>Encoding\<close>

fun cobs_count_span :: "nat \<times> nat \<Rightarrow> byte list \<Rightarrow> nat \<times> nat" where
  "cobs_count_span (encoded_len, code) data =
     foldl (\<lambda>(encoded_len, code) b.
              let code = (if b = 0 then 1 else code + 1)
              in if code = 0xFF then (encoded_len + 1, 1) else (encoded_len, code))
           (encoded_len + length data, code) data"

definition frame_cobs_encoded_size :: "byte list \<Rightarrow> byte list \<Rightarrow> byte list \<Rightarrow> nat" where
  "frame_cobs_encoded_size header payload trailer =
     fst (cobs_count_span (cobs_count_span (cobs_count_span (1, 1) header) payload) trailer)"

definition frame_cobs_encode ::
    "mem \<Rightarrow> byte list \<Rightarrow> addr \<Rightarrow> nat \<Rightarrow> byte list \<Rightarrow> addr \<Rightarrow> mem \<times> nat" where
  "frame_cobs_encode m header payload payload_len trailer out =
     (let st = fold (cobs_encode_byte out) header (m, 1, 0, 1);
          st = cobs_encode_span out payload payload_len st;
          (m, write_index, code_index, code) = fold (cobs_encode_byte out) trailer st
      in (m(out + code_index := code), write_index))"

definition spans_overlap :: "addr \<Rightarrow> nat \<Rightarrow> addr \<Rightarrow> nat \<Rightarrow> bool" where
  "spans_overlap left left_len right right_len =
     (if left_len = 0 \<or> right_len = 0 then False
      else if left \<le> right then right - left < left_len
      else left - right < right_len)"

definition memmove :: "mem \<Rightarrow> addr \<Rightarrow> addr \<Rightarrow> nat \<Rightarrow> mem" where
  "memmove m dst src n = write_bytes m dst (read_bytes m src n)"

definition frame_write_raw :: "mem \<Rightarrow> byte list \<Rightarrow> wl_wire_packet \<Rightarrow> byte list \<Rightarrow> addr \<Rightarrow> mem" where
  "frame_write_raw m header packet trailer out =
     (let header_len = length header;
          m = (if pkt_payload_len packet \<noteq> 0
               then memmove m (out + header_len) (pkt_payload packet) (pkt_payload_len packet)
               else m);
          m = write_bytes m out (take WL_FRAME_BASE_HEADER_SIZE header);
          m = (if header_len = WL_FRAME_RELIABLE_HEADER_SIZE
               then write_bytes m (out + WL_FRAME_BASE_HEADER_SIZE)
                      (drop WL_FRAME_BASE_HEADER_SIZE header)
               else m)
      in if trailer \<noteq> []
         then write_bytes m (out + header_len + pkt_payload_len packet) trailer else m)"

definition wl_frame_encode_bounded ::
    "mem \<Rightarrow> wl_wire_packet \<Rightarrow> int \<Rightarrow> int \<Rightarrow> byte list \<Rightarrow> nat \<Rightarrow> addr \<Rightarrow> nat \<Rightarrow> wl_err \<times> nat \<times> mem" where
  "wl_frame_encode_bounded m packet env integrity_kind header raw_len out out_cap =
     (let trailer = frame_write_integrity m packet integrity_kind header;
          header_len = length header
      in if env = WL_ENVELOPE_COBS_STREAM then
           let payload = pkt_payload packet;
               cobs_len = wl_cobs_encoded_max_size raw_len;
               overlap = spans_overlap payload (pkt_payload_len packet) out cobs_len;
               cobs_len =
                 (if out_cap < cobs_len + 1 \<or> overlap
                  then frame_cobs_encoded_size header
                         (read_bytes m payload (pkt_payload_len packet)) trailer
                  else cobs_len)
           in if out_cap < cobs_len + 1 then (WL_ERR_BUF_TOO_SMALL, 0, m)
              else if out = NULL then (WL_ERR_INVALID_ARG, 0, m)
              else
                let (m, payload) =
                      (if overlap
                       then let staged = out + (cobs_len - raw_len) + header_len
                            in (memmove m staged (pkt_payload packet) (pkt_payload_len packet), staged)
                       else (m, payload));
                    (m, cobs_len) =
                      frame_cobs_encode m header payload (pkt_payload_len packet) trailer out
                in (WL_OK, cobs_len + 1, m(out + cobs_len := 0))
         else if env = WL_ENVELOPE_BUS_LENGTH16 then
           if raw_len > 0xFFFF then (WL_ERR_FRAME_TOO_LONG, 0, m)
           else if out_cap < raw_len + 2 then (WL_ERR_BUF_TOO_SMALL, 0, m)
           else if out = NULL then (WL_ERR_INVALID_ARG, 0, m)
           else
             let m = frame_write_raw m header packet trailer (out + 2);
                 m = write_bytes m out (write_u16_be (of_nat raw_len))
             in (WL_OK, raw_len + 2, m)
         else
           if out_cap < raw_len then (WL_ERR_BUF_TOO_SMALL, 0, m)
           else if out = NULL then (WL_ERR_INVALID_ARG, 0, m)
           else (WL_OK, raw_len, frame_write_raw m header packet trailer out))"

definition wl_frame_encode_generic ::
    "mem \<Rightarrow> wl_config \<Rightarrow> wl_wire_packet \<Rightarrow> addr \<Rightarrow> nat \<Rightarrow> wl_err \<times> nat \<times> mem" where
  "wl_frame_encode_generic m config packet out out_cap =
     (let header_len = (if pkt_type packet = WL_PACKET_ACK \<or> pkt_flags packet \<noteq> 0
                        then WL_FRAME_RELIABLE_HEADER_SIZE else WL_FRAME_BASE_HEADER_SIZE);
          raw_len = header_len + pkt_payload_len packet + wl_profile_crc_size (integrity config);
          header = frame_write_header packet header_len
      in wl_frame_encode_bounded m packet (envelope config) (integrity config) header raw_len
           out out_cap)"

section \<open>Decoding\<close>

definition frame_parse ::
    "mem \<Rightarrow> addr \<Rightarrow> nat \<Rightarrow> int \<Rightarrow> nat \<Rightarrow> u16 option \<Rightarrow> wl_err + wl_frame_view" where
  "frame_parse m inp in_len integ crc_len cobs_crc =
     (if inp = NULL then Inl WL_ERR_INVALID_ARG
      else if in_len < WL_FRAME_BASE_HEADER_SIZE + crc_len then Inl WL_ERR_BAD_FRAME
      else if m inp AND WL_FRAME_MARKER_MASK \<noteq> WL_FRAME_MARKER then Inl WL_ERR_BAD_FRAME
      else if drop_bit 2 (m inp AND WL_FRAME_VERSION_MASK) \<noteq> WL_FRAME_VERSION
           then Inl WL_ERR_PROTOCOL_VERSION
      else
        let kind = m inp AND WL_FRAME_KIND_MASK
        in if \<not> (kind = 0 \<or> kind = 1 \<or> kind = 2) then Inl WL_ERR_NOT_SUPPORTED
           else
             let type = (if kind = 2 then WL_PACKET_ACK else WL_PACKET_DATA);
                 flags = (if kind = 1 then WL_PACKET_FLAG_RELIABLE else 0);
                 header_len = (if kind = 0 then WL_FRAME_BASE_HEADER_SIZE
                               else WL_FRAME_RELIABLE_HEADER_SIZE)
             in if in_len < header_len + crc_len then Inl WL_ERR_BAD_FRAME
                else
                  let payload_len = in_len - header_len - crc_len
                  in if payload_len > WL_PACKET_MAX_PAYLOAD then Inl WL_ERR_FRAME_TOO_LONG
                     else
                       let message_id = read_u16_be m (inp + 2);
                           session_id = (if header_len = WL_FRAME_RELIABLE_HEADER_SIZE
                                         then read_u64_be m (inp + 4) else 0);
                           sequence = (if header_len = WL_FRAME_RELIABLE_HEADER_SIZE
                                       then read_u32_be m (inp + 12) else 0);
                           covered = in_len - crc_len
                       in if m (inp + 1) \<noteq> 0 then Inl WL_ERR_BAD_FRAME
                          else if type = WL_PACKET_DATA \<and>
                                  (message_id = 0 \<or> flags \<noteq> 0 \<and> session_id = 0)
                               then Inl WL_ERR_BAD_FRAME
                          else if type \<noteq> WL_PACKET_DATA \<and>
                                  (message_id \<noteq> 0 \<or> payload_len \<noteq> 0 \<or> session_id = 0)
                               then Inl WL_ERR_BAD_FRAME
                          else if integ = WL_INTEGRITY_CRC16 \<and>
                                  (case cobs_crc of
                                     Some crc \<Rightarrow> crc \<noteq> 0
                                   | None \<Rightarrow> read_u16_be m (inp + covered) \<noteq>
                                             wl_crc16_ccitt_false m inp covered)
                               then Inl WL_ERR_CRC
                          else if integ = WL_INTEGRITY_CRC32C \<and>
                                  read_u32_be m (inp + covered) \<noteq> wl_crc32c m inp covered
                               then Inl WL_ERR_CRC
                          else Inr
                            \<lparr>view_type = type, view_flags = flags, view_message_id = message_id,
                             view_session_id = session_id, view_sequence = sequence,
                             view_integrity = integ,
                             view_payload = \<lparr>span_data = inp + header_len, span_length = payload_len\<rparr>,
                             view_integrity_bytes =
                               \<lparr>span_data = (if crc_len \<noteq> 0 then inp + header_len + payload_len
                                             else NULL),
                                span_length = crc_len\<rparr>,
                             view_total_len = in_len\<rparr>)"

definition wl_frame_decode :: "mem \<Rightarrow> addr \<Rightarrow> nat \<Rightarrow> int \<Rightarrow> wl_err + wl_frame_view" where
  "wl_frame_decode m inp in_len integ =
     (if inp = NULL \<or> \<not> wl_profile_integrity_valid integ then Inl WL_ERR_INVALID_ARG
      else if \<not> wl_profile_supported WL_ENVELOPE_COBS_STREAM integ then Inl WL_ERR_NOT_SUPPORTED
      else frame_parse m inp in_len integ (wl_profile_crc_size integ) None)"

definition wl_frame_decode_cobs_generic ::
    "mem \<Rightarrow> wl_config \<Rightarrow> addr \<Rightarrow> nat \<Rightarrow> (wl_err + wl_frame_view) \<times> mem" where
  "wl_frame_decode_cobs_generic m config encoded len =
     (let (ret, decoded_len, m) = wl_cobs_decode_in_place m encoded len
      in if ret = WL_OK \<and> decoded_len = 0 then (Inl WL_ERR_INVALID_ARG, m)
         else if ret = WL_OK then (wl_frame_decode m encoded decoded_len (integrity config), m)
         else (Inl ret, m))"

section \<open>Big-endian fields read back\<close>

definition be_join :: "byte list \<Rightarrow> 'a::len word" where
  "be_join bs = foldl (\<lambda>w b. push_bit 8 w OR ucast b) 0 bs"

definition be_bytes :: "nat \<Rightarrow> 'a::len word \<Rightarrow> byte list" where
  "be_bytes k v = map (\<lambda>i. ucast (drop_bit (8 * (k - 1 - i)) v)) [0..<k]"

lemma bit_be_join:
  "bit (be_join bs :: 'a::len word) n \<longleftrightarrow>
     n < LENGTH('a) \<and> n div 8 < length bs \<and> bit (rev bs ! (n div 8)) (n mod 8)"
proof (induction bs arbitrary: n rule: rev_induct)
  case Nil
  then show ?case by (simp add: be_join_def)
next
  case (snoc b bs)
  have j: "be_join (bs @ [b]) = (push_bit 8 (be_join bs) OR ucast b :: 'a word)"
    by (simp add: be_join_def)
  show ?case
  proof (cases "n < 8")
    case True
    then show ?thesis by (auto simp: j bit_simps)
  next
    case False
    then have n: "n div 8 = Suc ((n - 8) div 8)" "n mod 8 = (n - 8) mod 8"
      by (auto simp: le_div_geq le_mod_geq)
    have "bit (ucast b :: 'a word) n = False" using False by (auto simp: bit_simps dest: bit_imp_le_length)
    then show ?thesis using False by (auto simp: j bit_or_iff bit_push_bit_iff snoc.IH n)
  qed
qed

lemma be_join_bytes: "LENGTH('a) = 8 * k \<Longrightarrow> be_join (be_bytes k v) = (v :: 'a::len word)"
proof (rule bit_word_eqI)
  fix n assume k: "LENGTH('a) = 8 * k" and n: "n < LENGTH('a)"
  then have d: "n div 8 < k" by auto
  have "8 * (k - 1 - (k - Suc (n div 8))) + n mod 8 = n"
    using d by (simp add: algebra_simps)
  then show "bit (be_join (be_bytes k v) :: 'a word) n = bit v n"
    using n d by (simp add: bit_be_join be_bytes_def rev_nth bit_simps)
qed

lemma be_bytes_join:
  assumes k: "LENGTH('a) = 8 * k" and bs: "length bs = k"
  shows "be_bytes k (be_join bs :: 'a::len word) = bs"
proof (rule nth_equalityI)
  fix i assume "i < length (be_bytes k (be_join bs :: 'a word))"
  then have i: "i < k" by (simp add: be_bytes_def)
  show "be_bytes k (be_join bs :: 'a word) ! i = bs ! i"
  proof (rule bit_word_eqI)
    fix n assume "n < LENGTH(8)"
    then have n: "n < 8" by simp
    let ?j = "8 * (k - 1 - i) + n"
    have j: "?j div 8 = k - 1 - i" "?j mod 8 = n" "?j < 8 * k" using n i by auto
    then show "bit (be_bytes k (be_join bs :: 'a word) ! i) n = bit (bs ! i) n"
      using n i bs k by (simp add: be_bytes_def bit_simps bit_be_join rev_nth)
  qed
qed (simp add: be_bytes_def bs)

lemma be_join_iff:
  "LENGTH('a) = 8 * k \<Longrightarrow> length bs = k \<Longrightarrow>
   be_join bs = (v :: 'a::len word) \<longleftrightarrow> bs = be_bytes k v"
  using be_join_bytes be_bytes_join by metis

lemma ucast_and_FF: "(ucast (v AND 0xFF :: 'a::len word) :: byte) = ucast v"
proof -
  have "v AND 0xFF = take_bit 8 v" by (simp add: take_bit_eq_mask mask_eq_exp_minus_1)
  then show ?thesis by (intro bit_word_eqI) (auto simp: bit_simps dest: bit_imp_le_length)
qed

lemma write_be:
  "write_u16_be v = be_bytes 2 v" "write_u32_be w = be_bytes 4 w" "write_u64_be x = be_bytes 8 x"
  by (simp_all add: write_u16_be_def write_u32_be_def write_u64_be_def be_bytes_def upt_rec
      ucast_and_FF)

lemma read_bytes_248:
  "read_bytes m p 2 = [m p, m (p + 1)]"
  "read_bytes m p 4 = [m p, m (p + 1), m (p + 2), m (p + 3)]"
  "read_bytes m p 8 = [m p, m (p + 1), m (p + 2), m (p + 3),
                       m (p + 4), m (p + 5), m (p + 6), m (p + 7)]"
  by (simp_all add: read_bytes_def upt_rec numeral_eq_Suc)

lemma read_be:
  "read_u16_be m p = be_join (read_bytes m p 2)" "read_u32_be m p = be_join (read_bytes m p 4)"
  "read_u64_be m p = be_join (read_bytes m p 8)"
  by (simp_all add: read_u16_be_def read_u32_be_def read_u64_be_def be_join_def
      read_bytes_248 or.assoc)

lemma read_u16_be_iff: "read_u16_be m p = v \<longleftrightarrow> read_bytes m p 2 = write_u16_be v"
  by (simp add: write_be read_be be_join_iff)

lemma read_u32_be_iff: "read_u32_be m p = v \<longleftrightarrow> read_bytes m p 4 = write_u32_be v"
  by (simp add: write_be read_be be_join_iff)

lemma read_u64_be_iff: "read_u64_be m p = v \<longleftrightarrow> read_bytes m p 8 = write_u64_be v"
  by (simp add: write_be read_be be_join_iff)

section \<open>The reference frame\<close>

definition pkt_header_len :: "wl_wire_packet \<Rightarrow> nat" where
  "pkt_header_len p = (if pkt_type p = WL_PACKET_ACK \<or> pkt_flags p \<noteq> 0 then 16 else 4)"

definition integrity_bytes :: "int \<Rightarrow> byte list \<Rightarrow> byte list" where
  "integrity_bytes integ bs =
     (if integ = WL_INTEGRITY_CRC16 then write_u16_be (crc16_spec bs)
      else if integ = WL_INTEGRITY_CRC32C then write_u32_be (crc32c_spec bs) else [])"

definition raw_frame :: "wl_wire_packet \<Rightarrow> int \<Rightarrow> byte list \<Rightarrow> byte list" where
  "raw_frame p integ payload =
     (let covered = frame_write_header p (pkt_header_len p) @ payload
      in covered @ integrity_bytes integ covered)"

definition envelop :: "int \<Rightarrow> byte list \<Rightarrow> byte list" where
  "envelop env raw =
     (if env = WL_ENVELOPE_COBS_STREAM then cobs_encode raw @ [0]
      else if env = WL_ENVELOPE_BUS_LENGTH16 then write_u16_be (of_nat (length raw)) @ raw
      else raw)"

definition wire_frame :: "wl_wire_packet \<Rightarrow> int \<Rightarrow> int \<Rightarrow> byte list \<Rightarrow> byte list" where
  "wire_frame p env integ payload = envelop env (raw_frame p integ payload)"

text \<open>\<open>emits m out cap w res\<close>: the outcome of an encoder asked to write the bytes \<open>w\<close>.\<close>

fun emits :: "mem \<Rightarrow> addr \<Rightarrow> nat \<Rightarrow> byte list \<Rightarrow> wl_err \<times> nat \<times> mem \<Rightarrow> bool" where
  "emits m out cap w (r, len, m') \<longleftrightarrow>
     (if cap < length w then r = WL_ERR_BUF_TOO_SMALL \<and> len = 0 \<and> m' = m
      else if out = NULL then r = WL_ERR_INVALID_ARG \<and> len = 0 \<and> m' = m
      else r = WL_OK \<and> len = length w \<and> read_bytes m' out len = w \<and> only_changes m m' out len)"

lemma length_write_be [simp]:
  "length (write_u16_be v) = 2" "length (write_u32_be w) = 4" "length (write_u64_be x) = 8"
  by (simp_all add: write_u16_be_def write_u32_be_def write_u64_be_def)

lemma length_frame_write_header [simp]:
  "length (frame_write_header p (pkt_header_len q)) = pkt_header_len q"
  by (simp add: frame_write_header_def pkt_header_len_def)

lemma length_integrity_bytes [simp]: "length (integrity_bytes integ bs) = wl_profile_crc_size integ"
  by (simp add: integrity_bytes_def wl_profile_crc_size_def)

lemma length_raw_frame:
  "length (raw_frame p integ payload) = pkt_header_len p + length payload + wl_profile_crc_size integ"
  by (simp add: raw_frame_def Let_def)

lemma flag_bits: "f AND NOT 1 = (0 :: byte) \<longleftrightarrow> f = 0 \<or> f = 1"
proof
  assume f: "f AND NOT 1 = 0"
  have "bit f n \<Longrightarrow> n = 0" for n
    using arg_cong [OF f, of "\<lambda>w. bit w n"] bit_imp_le_length [of f n] by (auto simp: bit_simps)
  then have "f = f AND 1" by (intro bit_word_eqI) (auto simp: bit_simps)
  also have "\<dots> = of_bool (odd f)" by (simp only: and_one_eq mod_2_eq_odd)
  finally show "f = 0 \<or> f = 1" by (cases "odd f") simp_all
qed auto

lemma frame_header_size_Inr:
  assumes "frame_header_size p = Inr hl"
  shows "hl = pkt_header_len p" "pkt_payload_len p \<le> 2048"
proof -
  have "pkt_type p = 1 \<or> pkt_type p = 2" "pkt_flags p = 0 \<or> pkt_flags p = 1" "pkt_payload_len p \<le> 2048"
    using assms by (simp_all add: frame_header_size_def Let_def flag_bits [simplified] split: if_split_asm)
  then show "hl = pkt_header_len p" "pkt_payload_len p \<le> 2048"
    using assms
    by (auto simp: frame_header_size_def Let_def pkt_header_len_def wl_frame_packet_header_size_def
        split: if_split_asm)
qed

lemma frame_write_integrity_eq:
  "frame_write_integrity m p integ header =
     integrity_bytes integ (header @ read_bytes m (pkt_payload p) (pkt_payload_len p))"
  by (simp add: frame_write_integrity_def integrity_bytes_def Let_def crc16_spec_def crc32c_spec_def
      crc16_update_ref crc32c_update_ref)

section \<open>Sizes of COBS encodings, by spans\<close>

fun cobs_run :: "nat \<Rightarrow> byte list \<Rightarrow> nat" where
  "cobs_run k [] = k"
| "cobs_run k (x # xs) = (if x = 0 \<or> k = 253 then cobs_run 0 xs else cobs_run (Suc k) xs)"

lemma cobs_full_append: "cobs_full k (xs @ ys) = cobs_full k xs + cobs_full (cobs_run k xs) ys"
  by (induction k xs rule: cobs_full.induct) auto

lemma cobs_run_append: "cobs_run k (xs @ ys) = cobs_run (cobs_run k xs) ys"
  by (induction k xs rule: cobs_run.induct) auto

lemma cobs_run_le: "k \<le> 253 \<Longrightarrow> cobs_run k xs \<le> 253"
  by (induction k xs rule: cobs_run.induct) auto

lemma cobs_count_span_eq:
  "k \<le> 253 \<Longrightarrow>
   cobs_count_span (e, Suc k) xs = (e + length xs + cobs_full k xs, Suc (cobs_run k xs))"
proof -
  let ?f = "\<lambda>(e, code) b. let code = (if b = (0 :: byte) then 1 else code + 1 :: nat)
              in if code = 0xFF then (e + 1 :: nat, 1) else (e, code)"
  have "k \<le> 253 \<Longrightarrow> foldl ?f (e, Suc k) xs = (e + cobs_full k xs, Suc (cobs_run k xs))" for e k
    by (induction k xs arbitrary: e rule: cobs_full.induct) (auto simp: Let_def)
  then show "k \<le> 253 \<Longrightarrow> ?thesis" by simp
qed

lemma frame_cobs_encoded_size_eq:
  "frame_cobs_encoded_size h p t = length (cobs_encode (h @ p @ t))"
  using cobs_count_span_eq [of 0 1 h]
  by (simp add: frame_cobs_encoded_size_def cobs_count_span_eq cobs_run_le cobs_encode_def
      length_cobs_enc cobs_full_append cobs_run_append del: cobs_count_span.simps)

lemma length_cobs_encode_prefix:
  "length (cobs_encode xs) + length ys \<le> length (cobs_encode (xs @ ys))"
  by (simp add: cobs_encode_def length_cobs_enc cobs_full_append)

section \<open>The frame encoder in memory\<close>

lemma cobs_bytes_frame:
  assumes "cobs_wf st" "x < out + cobs_ci st \<or> out + cobs_wi (fold (cobs_encode_byte out) xs st) \<le> x"
  shows "cobs_mem (fold (cobs_encode_byte out) xs st) x = cobs_mem st x"
  using assms
proof (induction xs arbitrary: st)
  case (Cons v xs)
  note step = cobs_byte_step [OF Cons.prems(1), where out = out and v = v]
  have "cobs_wi (cobs_encode_byte out v st) \<le> cobs_wi (fold (cobs_encode_byte out) (v # xs) st)"
    using cobs_bytes_mono [OF step(1), of out xs] by simp
  then show ?case using Cons.IH [OF step(1)] Cons.prems(2) step by fastforce
qed simp

lemma cobs_after_header:
  assumes p: "p = read_bytes m payload n"
    and ahead: "\<And>i. i < n \<Longrightarrow>
      payload + i < out \<or> out + length (cobs_encode (h @ take i p)) \<le> payload + i"
    and st: "st = fold (cobs_encode_byte out) h (m, 1, 0, 1)"
  shows "cobs_wf st" "p = read_bytes (cobs_mem st) payload n" "cobs_reads_ahead out payload p st"
proof -
  let ?s0 = "(m, 1, 0, 1) :: cobs_state"
  have wf: "cobs_wf ?s0" by (simp add: cobs_wf_def)
  have wi: "cobs_wi (fold (cobs_encode_byte out) xs ?s0) = length (cobs_encode xs)" for xs
    using cobs_bytes_spec [of out "[]" ?s0 xs] by (simp add: cobs_encode_def)
  show "cobs_wf st" using cobs_bytes_mono [OF wf] st by blast
  show "p = read_bytes (cobs_mem st) payload n"
    unfolding p read_bytes_eq_iff
  proof (intro allI impI)
    fix i assume i: "i < n"
    have "length (cobs_encode h) \<le> length (cobs_encode (h @ take i p))"
      using length_cobs_encode_prefix [of h "take i p"] by simp
    then show "m (payload + i) = cobs_mem st (payload + i)"
      using ahead [OF i] cobs_bytes_frame [OF wf, of "payload + i" out h]
      by (auto simp: st wi [simplified])
  qed
  show "cobs_reads_ahead out payload p st"
    unfolding cobs_reads_ahead_def
  proof (intro allI impI)
    fix i assume "i < length p" "out + cobs_ci st \<le> payload + i"
    then show "out + cobs_wi (fold (cobs_encode_byte out) (take i p) st) \<le> payload + i"
      using ahead [of i] wi [of "h @ take i p"] by (simp add: p st)
  qed
qed

lemma frame_cobs_encode_eq:
  assumes p: "p = read_bytes m payload n"
    and ahead: "\<And>i. i < n \<Longrightarrow>
      payload + i < out \<or> out + length (cobs_encode (h @ take i p)) \<le> payload + i"
  shows "frame_cobs_encode m h payload n t out =
    (write_bytes m out (cobs_encode (h @ p @ t)), length (cobs_encode (h @ p @ t)))"
proof -
  let ?s0 = "(m, 1, 0, 1) :: cobs_state"
  from cobs_encode_span_fold [OF cobs_after_header [OF p ahead refl]]
  have "fold (cobs_encode_byte out) t
          (cobs_encode_span out payload n (fold (cobs_encode_byte out) h ?s0)) =
        fold (cobs_encode_byte out) (h @ p @ t) ?s0" by simp
  moreover obtain m' wi ci code where
    f: "fold (cobs_encode_byte out) (h @ p @ t) ?s0 = (m', wi, ci, code)" by (rule prod_cases4)
  ultimately show ?thesis
    using cobs_finish [OF f] by (simp add: frame_cobs_encode_def Let_def)
qed

lemma write_bytes_commute:
  "disjoint_ranges a (length xs) b (length ys) \<Longrightarrow>
   write_bytes (write_bytes m a xs) b ys = write_bytes (write_bytes m b ys) a xs"
  by (rule ext) (auto simp: write_bytes_def disjoint_ranges_def)

lemma frame_write_raw_eq:
  assumes "length header = 4 \<or> length header = 16"
  shows "frame_write_raw m header packet t out =
    write_bytes m out (header @ read_bytes m (pkt_payload packet) (pkt_payload_len packet) @ t)"
proof -
  let ?p = "read_bytes m (pkt_payload packet) (pkt_payload_len packet)"
  define m1 where "m1 = write_bytes m (out + length header) ?p"
  have "write_bytes (write_bytes m1 out (take 4 header)) (out + 4) (drop 4 header) =
        write_bytes m1 out header"
    using assms write_bytes_append [of m1 out "take 4 header" "drop 4 header"] by auto
  also have "\<dots> = write_bytes m out (header @ ?p)"
    using write_bytes_commute [of "out + length header" ?p out header m]
    by (simp add: m1_def write_bytes_append disjoint_ranges_def)
  finally have "write_bytes (write_bytes m1 out (take 4 header)) (out + 4) (drop 4 header) =
        write_bytes m out (header @ ?p)" .
  moreover have "length header = 4 \<Longrightarrow> drop 4 header = []" by simp
  ultimately show ?thesis
    using assms unfolding frame_write_raw_def Let_def memmove_def
    by (auto simp: m1_def write_bytes_append [of m out "header @ ?p" t, simplified] add.assoc)
qed


lemma spans_overlap_iff: "\<not> spans_overlap a n b k \<longleftrightarrow> disjoint_ranges a n b k"
  by (auto simp: spans_overlap_def disjoint_ranges_def)

lemma cobs_max_ge: "n \<le> 65535 \<Longrightarrow> wl_cobs_encoded_max_size n = n + n div 254 + 1"
  by (simp add: wl_cobs_encoded_max_size_def SIZE_MAX_def)

lemma emits_write:
  "emits m out cap w (if cap < length w then (WL_ERR_BUF_TOO_SMALL, 0, m)
     else if out = NULL then (WL_ERR_INVALID_ARG, 0, m) else (WL_OK, length w, write_bytes m out w))"
  by (auto intro!: only_changes_write)

lemma disjoint_ahead:
  assumes raw: "raw = h @ p @ t" and dis: "disjoint_ranges payload n out (length (cobs_encode raw))"
    and i: "i < n"
  shows "payload + i < out \<or> out + length (cobs_encode (h @ take i p)) \<le> payload + i"
proof -
  have "length (cobs_encode (h @ take i p)) \<le> length (cobs_encode raw)"
    using length_cobs_encode_prefix [of "h @ take i p" "drop i p @ t"]
    by (simp add: raw) (metis append.assoc append_take_drop_id add_leD1)
  then show ?thesis using dis i by (auto simp: disjoint_ranges_def)
qed

lemma cobs_encode_in_memory:
  assumes p: "p = read_bytes m payload n" and raw: "raw = h @ p @ t"
    and dis: "disjoint_ranges payload n out (length (cobs_encode raw))"
  shows "frame_cobs_encode m h payload n t out =
         (write_bytes m out (cobs_encode raw), length (cobs_encode raw))"
  unfolding raw by (rule frame_cobs_encode_eq [OF p disjoint_ahead [OF raw dis]])

lemma cobs_encode_staged:
  assumes p: "p = read_bytes m payload n" and raw: "raw = h @ p @ t"
    and staged: "staged = out + (length (cobs_encode raw) - length raw) + length h"
  shows "frame_cobs_encode (memmove m staged payload n) h staged n t out =
         (write_bytes m out (cobs_encode raw), length (cobs_encode raw))"
proof -
  let ?m = "memmove m staged payload n"
  have rd: "p = read_bytes ?m staged n" by (simp add: memmove_def p)
  have "frame_cobs_encode ?m h staged n t out =
         (write_bytes ?m out (cobs_encode raw), length (cobs_encode raw))"
    unfolding raw
  proof (rule frame_cobs_encode_eq [OF rd])
    fix i assume "i < n"
    moreover have "raw = (h @ take i p) @ drop i p @ t" by (simp add: raw)
    then have "cobs_full 0 (h @ take i p) \<le> cobs_full 0 raw"
      by (simp only: cobs_full_append [of 0 "h @ take i p"])
    ultimately show "staged + i < out \<or> out + length (cobs_encode (h @ take i p)) \<le> staged + i"
      by (simp add: staged cobs_encode_def length_cobs_enc p)
  qed
  moreover have "write_bytes ?m out (cobs_encode raw) = write_bytes m out (cobs_encode raw)"
    using length_cobs_encode_gt [of raw]
    by (intro ext) (auto simp: memmove_def write_bytes_def staged raw p)
  ultimately show ?thesis by simp
qed

lemma wl_frame_encode_bounded_emits:
  assumes h: "length header = 4 \<or> length header = 16" and n: "pkt_payload_len packet \<le> 2048"
    and raw: "raw = (let covered = header @ read_bytes m (pkt_payload packet) (pkt_payload_len packet)
                     in covered @ integrity_bytes integ covered)"
  shows "wl_frame_encode_bounded m packet env integ header (length raw) out cap =
    (let w = envelop env raw
     in if cap < length w then (WL_ERR_BUF_TOO_SMALL, 0, m)
        else if out = NULL then (WL_ERR_INVALID_ARG, 0, m) else (WL_OK, length w, write_bytes m out w))"
proof -
  let ?p = "read_bytes m (pkt_payload packet) (pkt_payload_len packet)"
  let ?t = "integrity_bytes integ (header @ ?p)"
  let ?c = "length (cobs_encode raw)"
  have raw': "raw = header @ ?p @ ?t" by (simp add: raw Let_def)
  have small: "length raw \<le> 65535" using h n by (auto simp: raw' wl_profile_crc_size_def)
  have max: "?c \<le> wl_cobs_encoded_max_size (length raw)"
    using length_cobs_encode_bound [of raw] small by (simp add: cobs_max_ge)
  have fin: "(write_bytes m out xs)(out + length xs := 0) = write_bytes m out (xs @ [0])" for xs
    by (simp add: write_bytes_append write_bytes_single)
  consider (cobs) "env = 0" | (bus) "env = 2" | (native) "env \<noteq> 0" "env \<noteq> 2" by blast
  then show ?thesis
  proof cases
    case cobs
    let ?ov = "spans_overlap (pkt_payload packet) (pkt_payload_len packet) out
                 (wl_cobs_encoded_max_size (length raw))"
    have dis: "\<not> ?ov \<Longrightarrow> disjoint_ranges (pkt_payload packet) (pkt_payload_len packet) out ?c"
      using max by (auto simp: spans_overlap_iff disjoint_ranges_def)
    show ?thesis
      using cobs max small cobs_encode_in_memory [OF refl raw', of out]
        cobs_encode_staged [OF refl raw' refl, of out] dis
      by (cases ?ov)
        (auto simp: wl_frame_encode_bounded_def Let_def frame_write_integrity_eq envelop_def fin
          frame_cobs_encoded_size_eq raw' [symmetric])
  next
    case bus
    then show ?thesis
      using small write_bytes_commute [of "out + 2" raw out "write_u16_be (of_nat (length raw))" m]
      by (auto simp: wl_frame_encode_bounded_def Let_def frame_write_integrity_eq envelop_def
          frame_write_raw_eq [OF h] raw' [symmetric] write_bytes_append disjoint_ranges_def)
  next
    case native
    then show ?thesis
      by (auto simp: wl_frame_encode_bounded_def Let_def frame_write_integrity_eq envelop_def
          frame_write_raw_eq [OF h] raw' [symmetric])
  qed
qed

lemma wl_frame_encode_generic_eq:
  assumes "frame_header_size packet = Inr hl"
    and w: "w = wire_frame packet (envelope config) (integrity config)
              (read_bytes m (pkt_payload packet) (pkt_payload_len packet))"
  shows "wl_frame_encode_generic m config packet out cap =
    (if cap < length w then (WL_ERR_BUF_TOO_SMALL, 0, m)
     else if out = NULL then (WL_ERR_INVALID_ARG, 0, m) else (WL_OK, length w, write_bytes m out w))"
proof -
  let ?p = "read_bytes m (pkt_payload packet) (pkt_payload_len packet)"
  have len: "pkt_header_len packet + pkt_payload_len packet + wl_profile_crc_size (integrity config) =
        length (raw_frame packet (integrity config) ?p)" by (simp add: length_raw_frame)
  have "length (frame_write_header packet (pkt_header_len packet)) = 4 \<or>
        length (frame_write_header packet (pkt_header_len packet)) = 16"
    by (simp add: pkt_header_len_def frame_write_header_def)
  from wl_frame_encode_bounded_emits [OF this frame_header_size_Inr(2) [OF assms(1)] raw_frame_def]
  show ?thesis
    unfolding wl_frame_encode_generic_def pkt_header_len_def [symmetric] Let_def len w wire_frame_def
    by simp
qed


section \<open>Parsing\<close>

text \<open>The packet a view describes, and the view of a packet whose frame lies at an address.\<close>

definition packet_of :: "wl_frame_view \<Rightarrow> wl_wire_packet" where
  "packet_of v = \<lparr>pkt_type = view_type v, pkt_integrity = view_integrity v, pkt_flags = view_flags v,
     pkt_message_id = view_message_id v, pkt_session_id = view_session_id v,
     pkt_sequence = view_sequence v, pkt_payload = span_data (view_payload v),
     pkt_payload_len = span_length (view_payload v)\<rparr>"

definition view_of :: "wl_wire_packet \<Rightarrow> int \<Rightarrow> addr \<Rightarrow> nat \<Rightarrow> wl_frame_view" where
  "view_of p integ a n =
     (let hl = pkt_header_len p; crc = wl_profile_crc_size integ
      in \<lparr>view_type = pkt_type p, view_flags = pkt_flags p, view_message_id = pkt_message_id p,
          view_session_id = (if hl = 16 then pkt_session_id p else 0),
          view_sequence = (if hl = 16 then pkt_sequence p else 0), view_integrity = integ,
          view_payload = \<lparr>span_data = a + hl, span_length = n\<rparr>,
          view_integrity_bytes =
            \<lparr>span_data = (if crc \<noteq> 0 then a + hl + n else NULL), span_length = crc\<rparr>,
          view_total_len = hl + n + crc\<rparr>)"

lemma kind_byte:
  assumes a: "x AND 0xF0 = (0xA0 :: byte)" "drop_bit 2 (x AND 0x0C) = 1" "x AND 3 = k"
  shows "x = 0xA4 OR k"
proof -
  have "push_bit 2 (drop_bit 2 (x AND 0x0C)) = x AND 0x0C"
  proof (rule bit_word_eqI)
    fix n assume n: "n < LENGTH(8)"
    consider "n = 0" | "n = 1" | i where "n = i + 2" by (metis add_2_eq_Suc' not0_implies_Suc One_nat_def)
    then show "bit (push_bit 2 (drop_bit 2 (x AND 0x0C))) n = bit (x AND 0x0C) n"
      using n by cases (simp_all add: bit_simps)
  qed
  then have v: "x AND 0x0C = 4" unfolding a by simp
  have "x = x AND - 1" by simp
  also have "(- 1 :: byte) = 0xF0 OR 0x0C OR 3" by simp
  also have "x AND (0xF0 OR 0x0C OR 3) = (x AND 0xF0) OR (x AND 0x0C) OR (x AND 3)"
    by (rule bit_word_eqI) (simp only: bit_and_iff bit_or_iff, blast)
  finally have "x = 0xA0 OR 4 OR k" unfolding a v .
  then show ?thesis by (simp add: or.assoc [symmetric])
qed

lemma frame_parse_residue:
  assumes "inp \<noteq> NULL"
  shows "frame_parse m inp n WL_INTEGRITY_CRC16 2
           (Some (wl_crc16_ccitt_false_update 0xFFFF (read_bytes m inp n))) =
         frame_parse m inp n WL_INTEGRITY_CRC16 2 None"
proof (cases "2 \<le> n")
  case True
  let ?crc = "wl_crc16_ccitt_false_update 0xFFFF (read_bytes m inp (n - 2))"
  have "read_bytes m inp n = read_bytes m inp (n - 2) @ [m (inp + (n - 2)), m (inp + (n - 2) + 1)]"
    using read_bytes_add [of m inp "n - 2" 2] unfolding read_bytes_248 le_add_diff_inverse2 [OF True] .
  then have "wl_crc16_ccitt_false_update 0xFFFF (read_bytes m inp n) = 0 \<longleftrightarrow>
      read_bytes m (inp + (n - 2)) 2 = write_u16_be ?crc"
    by (simp add: crc16_update_append crc16_residue_iff read_bytes_248 write_u16_be_def ucast_and_FF
        del: wl_crc16_ccitt_false_update.simps)
  also have "\<dots> \<longleftrightarrow> read_u16_be m (inp + (n - 2)) = wl_crc16_ccitt_false m inp (n - 2)"
    using assms by (simp add: read_u16_be_iff wl_crc16_ccitt_false_def)
  finally have "(wl_crc16_ccitt_false_update 0xFFFF (read_bytes m inp n) \<noteq> 0) =
      (read_u16_be m (inp + (n - 2)) \<noteq> wl_crc16_ccitt_false m inp (n - 2))" by blast
  then show ?thesis by (simp only: frame_parse_def Let_def option.case)
qed (simp add: frame_parse_def)

lemma frame_parse_acceptD:
  assumes "frame_parse m inp n integ c None = Inr v"
  obtains k hl where "k = 0 \<and> hl = 4 \<or> (k = 1 \<or> k = 2) \<and> hl = 16" "m inp = 0xA4 OR k" "m (inp + 1) = 0"
    "hl + c \<le> n" "n - hl - c \<le> 2048" "inp \<noteq> NULL"
    "v = \<lparr>view_type = (if k = 2 then 2 else 1), view_flags = (if k = 1 then 1 else 0),
          view_message_id = read_u16_be m (inp + 2),
          view_session_id = (if hl = 16 then read_u64_be m (inp + 4) else 0),
          view_sequence = (if hl = 16 then read_u32_be m (inp + 12) else 0), view_integrity = integ,
          view_payload = \<lparr>span_data = inp + hl, span_length = n - hl - c\<rparr>,
          view_integrity_bytes =
            \<lparr>span_data = (if c \<noteq> 0 then inp + hl + (n - hl - c) else NULL), span_length = c\<rparr>,
          view_total_len = n\<rparr>"
    "k \<noteq> 2 \<Longrightarrow> read_u16_be m (inp + 2) \<noteq> 0" "k = 1 \<Longrightarrow> read_u64_be m (inp + 4) \<noteq> 0"
    "k = 2 \<Longrightarrow> read_u16_be m (inp + 2) = 0 \<and> n = hl + c \<and> read_u64_be m (inp + 4) \<noteq> 0"
    "integ = 1 \<Longrightarrow> read_u16_be m (inp + (n - c)) = wl_crc16_ccitt_false m inp (n - c)"
    "integ = 2 \<Longrightarrow> read_u32_be m (inp + (n - c)) = wl_crc32c m inp (n - c)"
proof -
  define k where "k = m inp AND 3"
  note unf = assms [unfolded frame_parse_def Let_def, folded k_def]
  have k: "k = 0 \<or> k = 1 \<or> k = 2" and marker: "m inp AND 0xF0 = 0xA0" "drop_bit 2 (m inp AND 0x0C) = 1"
    and base: "inp \<noteq> 0" "m (inp + 1) = 0"
    using unf by (simp_all split: if_split_asm)
  show thesis
  proof (rule that [of k "if k = 0 then 4 else 16"])
    show "m inp = 0xA4 OR k" by (rule kind_byte [OF marker k_def [symmetric]])
  qed (use unf k base in \<open>auto split: if_split_asm\<close>)
qed


lemma read_base_header: "read_bytes m a 4 = [m a, m (a + 1)] @ read_bytes m (a + 2) 2"
  using read_bytes_add [of m a 2 2] by (simp add: read_bytes_248(1))

lemma read_reliable_header:
  "read_bytes m a 16 = read_bytes m a 4 @ read_bytes m (a + 4) 8 @ read_bytes m (a + 12) 4"
  using read_bytes_add [of m a 4 12] read_bytes_add [of m "a + 4" 8 4] by (simp add: add.assoc)

lemma header_bytes_iff:
  assumes "hl = pkt_header_len p"
  shows "read_bytes m a hl = frame_write_header p hl \<longleftrightarrow>
    m a = 0xA4 OR frame_packet_kind p \<and> m (a + 1) = 0 \<and> read_u16_be m (a + 2) = pkt_message_id p \<and>
    (hl = 16 \<longrightarrow> read_u64_be m (a + 4) = pkt_session_id p \<and> read_u32_be m (a + 12) = pkt_sequence p)"
proof (cases "hl = 16")
  case True
  then show ?thesis
    by (auto simp: read_reliable_header read_base_header frame_write_header_def read_u16_be_iff
        read_u32_be_iff read_u64_be_iff)
next
  case False
  then have "hl = 4" using assms by (auto simp: pkt_header_len_def split: if_splits)
  then show ?thesis by (auto simp: read_base_header frame_write_header_def read_u16_be_iff)
qed

lemma integrity_bytes_iff:
  assumes "a \<noteq> NULL"
  shows "read_bytes m (a + k) (wl_profile_crc_size integ) = integrity_bytes integ (read_bytes m a k) \<longleftrightarrow>
    (integ = 1 \<longrightarrow> read_u16_be m (a + k) = wl_crc16_ccitt_false m a k) \<and>
    (integ = 2 \<longrightarrow> read_u32_be m (a + k) = wl_crc32c m a k)"
  using assms
  by (simp add: integrity_bytes_def wl_profile_crc_size_def read_u16_be_iff read_u32_be_iff
      wl_crc16_ccitt_false_def wl_crc32c_def crc16_spec_def crc32c_spec_def crc16_update_ref
      crc32c_update_ref)

lemma raw_frame_at_iff:
  assumes "hl = pkt_header_len p" "a \<noteq> NULL" "k = length pl"
  shows "read_bytes m a (hl + k + wl_profile_crc_size integ) = raw_frame p integ pl \<longleftrightarrow>
     read_bytes m a hl = frame_write_header p hl \<and> read_bytes m (a + hl) k = pl \<and>
     (integ = 1 \<longrightarrow> read_u16_be m (a + (hl + k)) = wl_crc16_ccitt_false m a (hl + k)) \<and>
     (integ = 2 \<longrightarrow> read_u32_be m (a + (hl + k)) = wl_crc32c m a (hl + k))"
  using assms unfolding integrity_bytes_iff [OF assms(2), symmetric]
  by (auto simp: raw_frame_def Let_def read_bytes_add add.assoc [symmetric])

lemma frame_parse_sound:
  assumes "frame_parse m inp n integ (wl_profile_crc_size integ) None = Inr v"
    and p: "p = packet_of v" and k: "k = span_length (view_payload v)"
  shows "frame_header_size p = Inr (pkt_header_len p) \<and> v = view_of p integ inp k \<and>
    read_bytes m inp n = raw_frame p integ (read_bytes m (inp + pkt_header_len p) k) \<and>
    n = pkt_header_len p + k + wl_profile_crc_size integ"
proof (cases rule: frame_parse_acceptD [OF assms(1)])
  case (1 kd hl)
  have hl: "pkt_header_len p = hl" and kind: "frame_packet_kind p = kd"
    using 1(1) by (auto simp: p packet_of_def 1(7) pkt_header_len_def frame_packet_kind_def)
  have k': "k = n - hl - wl_profile_crc_size integ" by (simp add: k 1(7))
  then have n: "n = hl + k + wl_profile_crc_size integ" using 1(4) hl by simp
  have size: "frame_header_size p = Inr (pkt_header_len p)"
    using 1(1,5,8-10) by (auto simp: p packet_of_def 1(7) frame_header_size_def Let_def
        wl_frame_packet_header_size_def pkt_header_len_def)
  have view: "v = view_of p integ inp k"
    unfolding view_of_def Let_def hl using n 1(1) by (auto simp: p packet_of_def 1(7) k')
  have "read_bytes m inp hl = frame_write_header p hl"
    unfolding header_bytes_iff [OF hl [symmetric]] kind
    using 1 by (simp add: p packet_of_def)
  then have "read_bytes m inp n = raw_frame p integ (read_bytes m (inp + hl) k)"
    using 1(11,12) n raw_frame_at_iff [OF hl [symmetric] 1(6), of k "read_bytes m (inp + hl) k" m integ]
    by simp
  then show ?thesis using size view n hl by blast
qed

lemma frame_parse_complete:
  assumes size: "frame_header_size p = Inr hl" and a: "a \<noteq> NULL"
    and pl: "length pl = pkt_payload_len p"
    and rd: "read_bytes m a n = raw_frame p integ pl"
  shows "frame_parse m a n integ (wl_profile_crc_size integ) None =
         Inr (view_of p integ a (length pl))"
proof -
  let ?k = "frame_packet_kind p"
  note hl = frame_header_size_Inr [OF size]
  have n: "n = hl + length pl + wl_profile_crc_size integ"
    using arg_cong [OF rd, of length] by (simp add: length_raw_frame hl)
  have hdr: "m a = 0xA4 OR ?k" "m (a + 1) = 0" "read_u16_be m (a + 2) = pkt_message_id p"
    "hl = 16 \<Longrightarrow> read_u64_be m (a + 4) = pkt_session_id p \<and> read_u32_be m (a + 12) = pkt_sequence p"
    and crc: "integ = 1 \<Longrightarrow> read_u16_be m (a + (hl + length pl)) = wl_crc16_ccitt_false m a (hl + length pl)"
      "integ = 2 \<Longrightarrow> read_u32_be m (a + (hl + length pl)) = wl_crc32c m a (hl + length pl)"
    using rd [unfolded n, unfolded raw_frame_at_iff [OF hl(1) a refl] header_bytes_iff [OF hl(1)]]
    by blast+
  have kinds: "?k = 0 \<and> pkt_type p = 1 \<and> pkt_flags p = 0 \<and> hl = 4 \<and> pkt_message_id p \<noteq> 0 \<or>
      ?k = 1 \<and> pkt_type p = 1 \<and> pkt_flags p = 1 \<and> hl = 16 \<and> pkt_message_id p \<noteq> 0 \<and> pkt_session_id p \<noteq> 0 \<or>
      ?k = 2 \<and> pkt_type p = 2 \<and> pkt_flags p = 0 \<and> hl = 16 \<and> pkt_message_id p = 0 \<and> pkt_session_id p \<noteq> 0 \<and> pl = []"
    using size pl unfolding frame_header_size_def Let_def flag_bits
    by (auto simp: frame_packet_kind_def pkt_header_len_def wl_frame_packet_header_size_def
        split: if_split_asm)
  have "m a AND 0xF0 = 0xA0" "drop_bit 2 (m a AND 0x0C) = 1" "m a AND 3 = ?k"
    unfolding hdr(1) using kinds by (elim disjE conjE; simp)+
  then show ?thesis
    unfolding frame_parse_def Let_def n view_of_def hl(1) [symmetric]
    using kinds hdr(2-) crc a pl hl(2)
    by (elim disjE conjE) simp_all
qed

end
