(* ===== verification/Frame_Codec.thy ===== *)
theory Frame_Codec
  imports Frame
begin

unbundle bit_operations_syntax

text \<open>
  The fused COBS and CRC-16 codec of \<^verbatim>\<open>src/frame_cobs_crc16.c\<close>, the public encoder
  \<^verbatim>\<open>wl_frame_encode\<close> that dispatches to it, and the encode and decode entry points of
  \<^verbatim>\<open>src/link_frame.h\<close> that the link engine uses.

  The fused routines make one pass over the bytes and carry the checksum along; the theory proves
  them equal to the generic path of theory \<open>Frame\<close>, and states the properties of the frame layer:
  the emitted bytes for every aliasing of payload and output, the round trip, which inputs the
  decoder accepts and the rejection of corrupted frames.
\<close>

section \<open>The fused codec\<close>

fun cobs_crc16_encode_span :: "addr \<Rightarrow> addr \<Rightarrow> nat \<Rightarrow> u16 \<Rightarrow> cobs_state \<Rightarrow> cobs_state \<times> u16" where
  "cobs_crc16_encode_span out data 0 crc st = (st, crc)"
| "cobs_crc16_encode_span out data (Suc n) crc (m, write_index, code_index, code) =
     (let value = m data
      in cobs_crc16_encode_span out (data + 1) n (wl_crc16_byte crc value)
           (cobs_encode_byte out value (m, write_index, code_index, code)))"

definition wl_frame_encode_cobs_crc16 ::
    "mem \<Rightarrow> wl_wire_packet \<Rightarrow> addr \<Rightarrow> nat \<Rightarrow> wl_err \<times> nat \<times> mem" where
  "wl_frame_encode_cobs_crc16 m packet out out_cap =
     (let header_len = (if pkt_type packet = WL_PACKET_ACK \<or> pkt_flags packet \<noteq> 0
                        then WL_FRAME_RELIABLE_HEADER_SIZE else WL_FRAME_BASE_HEADER_SIZE);
          raw_len = header_len + pkt_payload_len packet + 2;
          worst = raw_len + raw_len div 254 + 2;
          header = frame_write_header packet header_len
      in if out_cap < worst \<or>
            spans_overlap (pkt_payload packet) (pkt_payload_len packet) out (worst - 1)
         then wl_frame_encode_bounded m packet WL_ENVELOPE_COBS_STREAM WL_INTEGRITY_CRC16 header
                raw_len out out_cap
         else if out = NULL then (WL_ERR_INVALID_ARG, 0, m)
         else
           let st = fold (cobs_encode_byte out) header (m, 1, 0, 1);
               crc = wl_crc16_ccitt_false_update 0xFFFF header;
               (st, crc) = cobs_crc16_encode_span out (pkt_payload packet) (pkt_payload_len packet) crc st;
               st = cobs_encode_byte out (ucast (drop_bit 8 crc)) st;
               (m, write_index, code_index, code) = cobs_encode_byte out (ucast crc) st;
               m = m(out + code_index := code);
               m = m(out + write_index := 0)
           in (WL_OK, write_index + 1, m))"

fun cobs_crc16_copy :: "mem \<Rightarrow> addr \<Rightarrow> nat \<Rightarrow> nat \<Rightarrow> u16 \<Rightarrow> nat \<Rightarrow> mem \<times> u16" where
  "cobs_crc16_copy m encoded rd wr crc 0 = (m, crc)"
| "cobs_crc16_copy m encoded rd wr crc (Suc n) =
     (let value = m (encoded + rd)
      in cobs_crc16_copy (m(encoded + wr := value)) encoded (rd + 1) (wr + 1)
           (wl_crc16_byte crc value) n)"

function cobs_crc16_decode_loop ::
    "mem \<Rightarrow> addr \<Rightarrow> nat \<Rightarrow> nat \<Rightarrow> nat \<Rightarrow> u16 \<Rightarrow> (wl_err + nat \<times> u16) \<times> mem" where
  "cobs_crc16_decode_loop m encoded encoded_len rd wr crc =
     (if rd < encoded_len then
        let code = m (encoded + rd);
            rd = rd + 1;
            count = unat code - 1
        in if code = 0 \<or> count > encoded_len - rd then (Inl WL_ERR_COBS_DECODE, m)
           else
             let (m, crc) = cobs_crc16_copy m encoded rd wr crc count;
                 rd = rd + count;
                 wr = wr + count
             in if code \<noteq> 0xFF \<and> rd < encoded_len
                then cobs_crc16_decode_loop (m(encoded + wr := 0)) encoded encoded_len rd (wr + 1)
                       (wl_crc16_byte crc 0)
                else cobs_crc16_decode_loop m encoded encoded_len rd wr crc
      else (Inr (wr, crc), m))"
  by pat_completeness auto
termination
  by (relation "measure (\<lambda>(m, encoded, encoded_len, rd, wr, crc). encoded_len - rd)") auto

declare cobs_crc16_decode_loop.simps [simp del]

definition wl_frame_decode_cobs_crc16 ::
    "mem \<Rightarrow> addr \<Rightarrow> nat \<Rightarrow> (wl_err + wl_frame_view) \<times> mem" where
  "wl_frame_decode_cobs_crc16 m encoded encoded_len =
     (if encoded = NULL then (Inl WL_ERR_INVALID_ARG, m)
      else if encoded_len = 0 then (Inl WL_ERR_COBS_DECODE, m)
      else
        case cobs_crc16_decode_loop m encoded encoded_len 0 0 0xFFFF of
          (Inl err, m) \<Rightarrow> (Inl err, m)
        | (Inr (wr, crc), m) \<Rightarrow>
            if wr = 0 then (Inl WL_ERR_INVALID_ARG, m)
            else (frame_parse m encoded wr WL_INTEGRITY_CRC16 2 (Some crc), m))"

definition wl_frame_encode ::
    "mem \<Rightarrow> wl_wire_packet \<Rightarrow> int \<Rightarrow> addr \<Rightarrow> nat \<Rightarrow> wl_err \<times> nat \<times> mem" where
  "wl_frame_encode m packet env out out_cap =
     (if pkt_payload_len packet \<noteq> 0 \<and> pkt_payload packet = NULL \<or>
         \<not> wl_profile_envelope_valid env \<or> \<not> wl_profile_integrity_valid (pkt_integrity packet)
      then (WL_ERR_INVALID_ARG, 0, m)
      else
        case frame_header_size packet of
          Inl err \<Rightarrow> (err, 0, m)
        | Inr header_len \<Rightarrow>
            if \<not> wl_profile_supported env (pkt_integrity packet) then (WL_ERR_NOT_SUPPORTED, 0, m)
            else if env = WL_ENVELOPE_COBS_STREAM \<and> pkt_integrity packet = WL_INTEGRITY_CRC16
            then wl_frame_encode_cobs_crc16 m packet out out_cap
            else
              wl_frame_encode_generic m
                \<lparr>max_payload_len = 0, envelope = env, integrity = pkt_integrity packet,
                 cfg_session_id = 0, max_retries = 0, ack_timeout_ms = 0, max_transmission_unit = 0\<rparr>
                packet out out_cap)"

section \<open>Entry points of the link\<close>

definition wl_link_encode ::
    "wl_config \<Rightarrow> mem \<Rightarrow> wl_wire_packet \<Rightarrow> addr \<Rightarrow> nat \<Rightarrow> wl_err \<times> nat \<times> mem" where
  "wl_link_encode config m packet out cap =
     (if envelope config \<noteq> WL_ENVELOPE_COBS_STREAM \<or> integrity config \<noteq> WL_INTEGRITY_CRC16
      then wl_frame_encode_generic m config packet out cap
      else wl_frame_encode_cobs_crc16 m packet out cap)"

definition wl_link_decode_stream ::
    "wl_config \<Rightarrow> mem \<Rightarrow> addr \<Rightarrow> nat \<Rightarrow> (wl_err + wl_frame_view) \<times> mem" where
  "wl_link_decode_stream config m encoded len =
     (if integrity config \<noteq> WL_INTEGRITY_CRC16
      then wl_frame_decode_cobs_generic m config encoded len
      else wl_frame_decode_cobs_crc16 m encoded len)"

section \<open>The fused encoder is the generic one\<close>

lemma cobs_crc16_encode_span_fold:
  assumes "cobs_wf st" "xs = read_bytes (cobs_mem st) data n" "cobs_reads_ahead out data xs st"
  shows "cobs_crc16_encode_span out data n crc st =
         (fold (cobs_encode_byte out) xs st, wl_crc16_ccitt_false_update crc xs)"
  using assms
proof (induction n arbitrary: data st xs crc)
  case (Suc n)
  obtain m wi ci code where st: "st = (m, wi, ci, code)" by (cases st)
  obtain ys where xs: "xs = m data # ys" using Suc.prems(2) by (simp add: st read_bytes_Suc)
  note step = cobs_reads_ahead_step [OF Suc.prems(1) Suc.prems(2) [symmetric, unfolded xs]
      Suc.prems(3) [unfolded xs] refl]
  show ?case
    using Suc.IH [OF cobs_byte_step(1) [OF Suc.prems(1)] _ conjunct2 [OF step]] step
    by (simp add: xs st Let_def)
qed simp

lemma wl_frame_encode_cobs_crc16_eq:
  assumes size: "frame_header_size packet = Inr hl"
    and config: "envelope config = WL_ENVELOPE_COBS_STREAM" "integrity config = WL_INTEGRITY_CRC16"
  shows "wl_frame_encode_cobs_crc16 m packet out cap = wl_frame_encode_generic m config packet out cap"
proof -
  let ?hl = "pkt_header_len packet" and ?n = "pkt_payload_len packet" and ?a = "pkt_payload packet"
  let ?h = "frame_write_header packet ?hl" and ?p = "read_bytes m ?a ?n"
  let ?raw_len = "?hl + ?n + 2"
  let ?worst = "?raw_len + ?raw_len div 254 + 2"
  define raw where "raw = raw_frame packet WL_INTEGRITY_CRC16 ?p"
  define crc where "crc = wl_crc16_ccitt_false_update 0xFFFF (?h @ ?p)"
  have raw: "raw = ?h @ ?p @ [ucast (drop_bit 8 crc), ucast crc]"
    by (simp add: raw_def raw_frame_def Let_def integrity_bytes_def crc_def crc16_spec_def
        crc16_update_ref write_u16_be_def ucast_and_FF)
  have len: "length raw = ?raw_len" by (simp add: raw)
  have cl: "length (cobs_encode raw) \<le> ?worst - 1"
    using length_cobs_encode_bound [of raw] by (simp add: len)
  show ?thesis
  proof (cases "cap < ?worst \<or> spans_overlap ?a ?n out (?worst - 1)")
    case True
    then show ?thesis
      using config
      by (simp add: wl_frame_encode_cobs_crc16_def wl_frame_encode_generic_def Let_def
          pkt_header_len_def [symmetric] wl_profile_crc_size_def)
  next
    case False
    let ?s0 = "(m, 1, 0, 1) :: cobs_state"
    let ?s1 = "fold (cobs_encode_byte out) ?h ?s0"
    obtain m' wi ci code where
      f: "fold (cobs_encode_byte out) raw ?s0 = (m', wi, ci, code)" by (rule prod_cases4)
    have dis: "disjoint_ranges ?a ?n out (length (cobs_encode raw))"
      using False cl by (auto simp: spans_overlap_iff disjoint_ranges_def)
    have span: "cobs_crc16_encode_span out ?a ?n (wl_crc16_ccitt_false_update 0xFFFF ?h) ?s1 =
          (fold (cobs_encode_byte out) ?p ?s1, crc)"
      using cobs_crc16_encode_span_fold
        [OF cobs_after_header [OF refl disjoint_ahead [OF raw dis] refl]]
      by (simp add: crc_def crc16_update_append)
    have "cobs_encode_byte out (ucast crc) (cobs_encode_byte out (ucast (drop_bit 8 crc))
            (fold (cobs_encode_byte out) ?p ?s1)) = (m', wi, ci, code)"
      using f by (simp add: raw)
    then have "wl_frame_encode_cobs_crc16 m packet out cap =
      (if out = NULL then (WL_ERR_INVALID_ARG, 0, m)
       else (WL_OK, length (cobs_encode raw) + 1, write_bytes m out (cobs_encode raw @ [0])))"
      using False cobs_finish [OF f] span
      by (simp add: wl_frame_encode_cobs_crc16_def pkt_header_len_def [symmetric] Let_def
          write_bytes_append write_bytes_single)
    moreover have "\<not> cap < length (cobs_encode raw @ [0])" using False cl by simp
    ultimately show ?thesis
      using wl_frame_encode_generic_eq [OF size refl, of m config out cap]
      by (simp add: wire_frame_def config envelop_def raw_def)
  qed
qed


lemma wl_link_encode_eq:
  assumes "frame_header_size packet = Inr hl"
    and w: "w = wire_frame packet (envelope config) (integrity config)
              (read_bytes m (pkt_payload packet) (pkt_payload_len packet))"
  shows "wl_link_encode config m packet out cap =
    (if cap < length w then (WL_ERR_BUF_TOO_SMALL, 0, m)
     else if out = NULL then (WL_ERR_INVALID_ARG, 0, m) else (WL_OK, length w, write_bytes m out w))"
  unfolding wl_link_encode_def w
  using wl_frame_encode_generic_eq [OF assms(1) refl]
    wl_frame_encode_cobs_crc16_eq [OF assms(1), of config]
  by simp

section \<open>The fused decoder is the generic one\<close>

lemma cobs_crc16_copy_eq:
  "wr \<le> rd \<Longrightarrow> cobs_crc16_copy m a rd wr crc n =
     (write_bytes m (a + wr) (read_bytes m (a + rd) n),
      wl_crc16_ccitt_false_update crc (read_bytes m (a + rd) n))"
proof (induction n arbitrary: m rd wr crc)
  case (Suc n)
  have "read_bytes (m(a + wr := m (a + rd))) (Suc (a + rd)) n = read_bytes m (Suc (a + rd)) n"
    using Suc.prems by (intro read_upd_outside) auto
  moreover have "write_bytes m (a + wr) (m (a + rd) # bs) =
      write_bytes (m(a + wr := m (a + rd))) (Suc (a + wr)) bs" for bs
    using write_bytes_append [of m "a + wr" "[m (a + rd)]" bs] by (simp add: write_bytes_single)
  ultimately show ?case
    using Suc.IH [of "Suc wr" "Suc rd" "m(a + wr := m (a + rd))" "wl_crc16_byte crc (m (a + rd))"] Suc.prems
    by (simp add: read_bytes_Suc Let_def fun_upd_def)
qed simp

lemma cobs_crc16_decode_loop_step:
  assumes "p < L" "unat (m (a + p)) = Suc n" "p + 1 + n \<le> L"
    and z: "z = (if p + 1 + n < L \<and> m (a + p) \<noteq> 0xFF then [0] else [])"
    and d: "d = read_bytes m (a + p + 1) n" and "k \<le> p"
  shows "cobs_crc16_decode_loop m a L p k crc =
    cobs_crc16_decode_loop (write_bytes m (a + k) (d @ z)) a L (p + 1 + n) (k + n + length z)
      (wl_crc16_ccitt_false_update crc (d @ z))"
proof -
  have "m (a + p) \<noteq> 0" "\<not> L - Suc p < n" using assms(2,3) by auto
  then show ?thesis
    using assms
    by (subst cobs_crc16_decode_loop.simps)
      (simp add: Let_def cobs_crc16_copy_eq write_bytes_append write_bytes_single crc16_update_append
        ac_simps)
qed

lemma cobs_crc16_decode_loop_err:
  "p < L \<Longrightarrow> m (a + p) = 0 \<or> L < p + unat (m (a + p)) \<Longrightarrow>
   cobs_crc16_decode_loop m a L p k crc = (Inl WL_ERR_COBS_DECODE, m)"
  by (subst cobs_crc16_decode_loop.simps) (auto simp: Let_def)

lemma cobs_crc16_decode_loop_eq:
  assumes "p \<le> L" "read_bytes m (a + p) (L - p) = drop p bs" "length bs = L" "k \<le> p"
  shows "case cobs_dec (drop p bs) of
           Some ys \<Rightarrow> cobs_crc16_decode_loop m a L p k crc =
             (Inr (k + length ys, wl_crc16_ccitt_false_update crc ys), write_bytes m (a + k) ys)
         | None \<Rightarrow> \<exists>m'. cobs_crc16_decode_loop m a L p k crc = (Inl WL_ERR_COBS_DECODE, m') \<and>
             only_changes m m' a L"
  using assms
proof (induction "L - p" arbitrary: p m k crc rule: less_induct)
  case less
  show ?case
  proof (cases "p = L")
    case True then show ?thesis using less.prems by (simp add: cobs_crc16_decode_loop.simps)
  next
    case False
    then have p: "p < L" using less.prems by simp
    have c: "m (a + p) = bs ! p"
      using read_bytes_eqD [OF less.prems(2), of 0] p less.prems(3) by simp
    show ?thesis
    proof (cases rule: cobs_cases [where c = "bs ! p" and L = L and p = p])
      case 1 then show ?thesis
        using p c less.prems(3) by (simp add: cobs_crc16_decode_loop_err cobs_dec_err)
    next
      case (2 n)
      define z where "z = (if p + 1 + n < L \<and> bs ! p \<noteq> 0xFF then [0 :: byte] else [])"
      define d where "d = take n (drop (p + 1) bs)"
      define m' where "m' = write_bytes m (a + k) (d @ z)"
      have len: "length d = n" and z: "length z \<le> 1" and le: "k + (n + length z) \<le> L"
        using 2 p less.prems(3,4) by (auto simp: z_def d_def)
      have d: "d = read_bytes m (a + p + 1) n"
        using cobs_block_data [OF 2(2) less.prems(2)] by (simp add: d_def)
      have step: "cobs_crc16_decode_loop m a L p k crc =
          cobs_crc16_decode_loop m' a L (p + 1 + n) (k + n + length z)
            (wl_crc16_ccitt_false_update crc (d @ z))"
        using cobs_crc16_decode_loop_step [OF p _ 2(2) _ d less.prems(4)] 2(1) c
        by (simp add: m'_def z_def)
      have lead: "a + k \<le> a + p \<or> a + L \<le> a + k" using less.prems(4) by simp
      note rest = cobs_block_rest [OF 2(2) less.prems(2) len lead z refl refl, folded m'_def]
      have le': "k + n + length z \<le> p + 1 + n" using less.prems(4) z by simp
      have "L - (p + 1 + n) < L - p" using p by simp
      note IH = less.hyps [OF this 2(2) rest(1) less.prems(3) le',
          of "wl_crc16_ccitt_false_update crc (d @ z)"]
      have oc: "only_changes m m' a L" using len le by (auto simp: m'_def intro!: only_changes_write)
      show ?thesis
      proof (cases "cobs_dec (drop (p + 1 + n) bs)")
        case None
        then have "cobs_dec (drop p bs) = None"
          using cobs_dec_step [of p bs n] p 2 less.prems(3) by simp
        then show ?thesis
          using IH None only_changes_trans [OF oc] unfolding step by auto
      next
        case (Some t)
        then have "cobs_dec (drop p bs) = Some (d @ z @ t)"
          using cobs_dec_step [of p bs n] p 2 less.prems(3) by (simp add: d_def z_def)
        then show ?thesis
          using IH Some len unfolding step
          by (simp add: m'_def write_bytes_append crc16_update_append ac_simps)
      qed
    qed
  qed
qed

lemma wl_frame_decode_cobs_crc16_eq:
  assumes "integrity config = WL_INTEGRITY_CRC16" "a \<noteq> NULL"
    and f: "wl_frame_decode_cobs_crc16 m a L = (r, m1)"
    and g: "wl_frame_decode_cobs_generic m config a L = (r', m2)"
  shows "r = r'" "r \<noteq> Inl WL_ERR_COBS_DECODE \<Longrightarrow> m1 = m2" "only_changes m m1 a L"
proof -
  let ?bs = "read_bytes m a L"
  have loop: "case cobs_dec ?bs of
           Some ys \<Rightarrow> cobs_crc16_decode_loop m a L 0 0 0xFFFF =
             (Inr (length ys, wl_crc16_ccitt_false_update 0xFFFF ys), write_bytes m a ys)
         | None \<Rightarrow> \<exists>m'. cobs_crc16_decode_loop m a L 0 0 0xFFFF = (Inl WL_ERR_COBS_DECODE, m') \<and>
             only_changes m m' a L"
    using cobs_crc16_decode_loop_eq [of 0 L m a ?bs 0 "0xFFFF"] by (simp split: option.splits)
  have len: "length ys < L" if "cobs_decode ?bs = Some ys" for ys
    using cobs_decode_length [OF that] by simp
  have par: "frame_parse (write_bytes m a ys) a (length ys) WL_INTEGRITY_CRC16 2
        (Some (wl_crc16_ccitt_false_update 0xFFFF ys)) =
      wl_frame_decode (write_bytes m a ys) a (length ys) (integrity config)" for ys
    using frame_parse_residue [OF assms(2), of "write_bytes m a ys" "length ys"] assms(1,2)
    by (simp add: wl_frame_decode_def wl_profile_integrity_valid_def wl_profile_supported_def
        wl_profile_crc_size_def)
  have g': "(r', m2) = (case cobs_decode ?bs of None \<Rightarrow> (Inl WL_ERR_COBS_DECODE, m)
     | Some ys \<Rightarrow> (if ys = [] then Inl WL_ERR_INVALID_ARG
                   else wl_frame_decode (write_bytes m a ys) a (length ys) (integrity config),
                   write_bytes m a ys))"
    unfolding g [symmetric] using assms(2)
    by (simp add: wl_frame_decode_cobs_generic_def wl_cobs_decode_in_place_eq split: option.split)
  show "r = r'" "r \<noteq> Inl WL_ERR_COBS_DECODE \<Longrightarrow> m1 = m2" "only_changes m m1 a L"
    using f g' loop assms(2) par len
    by (auto simp: wl_frame_decode_cobs_crc16_def cobs_decode_def split: option.splits if_splits
        intro!: only_changes_write less_imp_le)
qed

lemma wl_frame_decode_cobs_generic_eq:
  assumes "a \<noteq> NULL"
  shows "wl_frame_decode_cobs_generic m config a L =
    (case cobs_decode (read_bytes m a L) of None \<Rightarrow> (Inl WL_ERR_COBS_DECODE, m)
     | Some ys \<Rightarrow> (if ys = [] then Inl WL_ERR_INVALID_ARG
                   else wl_frame_decode (write_bytes m a ys) a (length ys) (integrity config),
                   write_bytes m a ys))"
  using assms
  by (simp add: wl_frame_decode_cobs_generic_def wl_cobs_decode_in_place_eq split: option.split)

lemma wl_frame_decode_not_cobs: "wl_frame_decode m a n i \<noteq> Inl WL_ERR_COBS_DECODE"
  by (auto simp: wl_frame_decode_def frame_parse_def Let_def split: option.split)

lemma wl_link_decode_stream_eq:
  assumes a: "a \<noteq> NULL" and d: "wl_link_decode_stream config m a L = (r, m')"
  shows "case cobs_decode (read_bytes m a L) of
           None \<Rightarrow> r = Inl WL_ERR_COBS_DECODE
         | Some ys \<Rightarrow> length ys < L \<and> m' = write_bytes m a ys \<and>
             r = (if ys = [] then Inl WL_ERR_INVALID_ARG
                  else wl_frame_decode m' a (length ys) (integrity config))"
    and "only_changes m m' a L"
proof -
  obtain r2 m2 where g: "wl_frame_decode_cobs_generic m config a L = (r2, m2)" by (rule prod.exhaust)
  have fused: "integrity config = 1 \<Longrightarrow>
      r = r2 \<and> (r \<noteq> Inl WL_ERR_COBS_DECODE \<longrightarrow> m' = m2) \<and> only_changes m m' a L"
    using d wl_frame_decode_cobs_crc16_eq [OF _ a _ g, of r m'] by (simp add: wl_link_decode_stream_def)
  have oc: "only_changes m m2 a L"
    using g cobs_decode_length [of "read_bytes m a L"]
    by (auto simp: wl_frame_decode_cobs_generic_eq [OF a] split: option.splits
        intro!: only_changes_write less_imp_le)
  show "only_changes m m' a L"
    using d g fused oc by (cases "integrity config = 1") (auto simp: wl_link_decode_stream_def)
  show "case cobs_decode (read_bytes m a L) of
           None \<Rightarrow> r = Inl WL_ERR_COBS_DECODE
         | Some ys \<Rightarrow> length ys < L \<and> m' = write_bytes m a ys \<and>
             r = (if ys = [] then Inl WL_ERR_INVALID_ARG
                  else wl_frame_decode m' a (length ys) (integrity config))"
    using d g fused wl_frame_decode_not_cobs cobs_decode_length [of "read_bytes m a L"]
    by (cases "integrity config = 1")
      (auto simp: wl_link_decode_stream_def wl_frame_decode_cobs_generic_eq [OF a]
        split: option.splits)
qed

section \<open>Properties\<close>

text \<open>
  C12. \<^verbatim>\<open>wl_frame_encode\<close> on a valid packet, for every envelope and integrity mode and every
  placement of payload and output, overlapping or not: it reports \<^verbatim>\<open>WL_ERR_BUF_TOO_SMALL\<close>
  exactly when the frame does not fit and then writes nothing; otherwise the output holds exactly
  the reference frame of the original payload bytes, and no byte outside it is written.
\<close>

theorem frame_encode_emits:
  assumes "frame_header_size packet = Inr hl"
    and "pkt_payload packet \<noteq> NULL \<or> pkt_payload_len packet = 0"
    and "wl_profile_envelope_valid env" "wl_profile_integrity_valid (pkt_integrity packet)"
  shows "emits m out cap
           (wire_frame packet env (pkt_integrity packet)
              (read_bytes m (pkt_payload packet) (pkt_payload_len packet)))
           (wl_frame_encode m packet env out cap)"
proof -
  let ?config = "\<lparr>max_payload_len = 0, envelope = env, integrity = pkt_integrity packet,
     cfg_session_id = 0, max_retries = 0, ack_timeout_ms = 0, max_transmission_unit = 0\<rparr>"
  have "wl_frame_encode m packet env out cap = wl_link_encode ?config m packet out cap"
    using assms by (auto simp: wl_frame_encode_def wl_link_encode_def wl_profile_supported_def)
  also note wl_link_encode_eq [OF assms(1) refl, of ?config m out cap]
  finally show ?thesis by (simp add: only_changes_write)
qed

definition demo_packet :: wl_wire_packet where
  "demo_packet = \<lparr>pkt_type = WL_PACKET_DATA, pkt_integrity = WL_INTEGRITY_CRC16, pkt_flags = 1,
     pkt_message_id = 7, pkt_session_id = 9, pkt_sequence = 5, pkt_payload = 16, pkt_payload_len = 3\<rparr>"

lemma demo_header_size: "frame_header_size demo_packet = Inr 16"
  by (simp add: frame_header_size_def demo_packet_def wl_frame_packet_header_size_def)

definition demo_config :: wl_config where
  "demo_config = \<lparr>max_payload_len = 64, envelope = WL_ENVELOPE_COBS_STREAM,
     integrity = WL_INTEGRITY_CRC16, cfg_session_id = 9, max_retries = 3, ack_timeout_ms = 100,
     max_transmission_unit = 0\<rparr>"

lemma demo_fields [simp]:
  "envelope demo_config = 0" "integrity demo_config = 1"
  "pkt_payload demo_packet = 16" "pkt_payload_len demo_packet = 3" "pkt_integrity demo_packet = 1"
  by (simp_all add: demo_packet_def demo_config_def)

lemma demo_wire_length:
  "length (wire_frame demo_packet WL_ENVELOPE_COBS_STREAM WL_INTEGRITY_CRC16 [0x11, 0, 0x22]) \<le> 64"
  using length_cobs_encode_bound [of "raw_frame demo_packet 1 [0x11, 0, 0x22]"]
  by (simp add: wire_frame_def envelop_def length_raw_frame pkt_header_len_def demo_packet_def
      wl_profile_crc_size_def)

text \<open>The witness encodes in place: the output starts one byte into the payload.\<close>

theorem frame_encode_emits_witness:
  "case wl_frame_encode cobs_demo demo_packet WL_ENVELOPE_COBS_STREAM 17 64 of (r, len, m') \<Rightarrow>
     r = WL_OK \<and>
     read_bytes m' 17 len = wire_frame demo_packet WL_ENVELOPE_COBS_STREAM 1 [0x11, 0, 0x22]"
  using frame_encode_emits [OF demo_header_size, of 0 cobs_demo 17 64] demo_wire_length
  by (cases "wl_frame_encode cobs_demo demo_packet 0 17 64")
     (auto simp: cobs_demo_read wl_profile_envelope_valid_def wl_profile_integrity_valid_def)

text \<open>
  C3. Round trip of the link's stream path: what \<^verbatim>\<open>wl_link_encode\<close> wrote for a valid packet is
  decoded by \<^verbatim>\<open>wl_link_decode_stream\<close>, in place and for every integrity mode, to a view with the
  packet's fields whose payload span holds the packet's original payload bytes.
\<close>

theorem frame_stream_round_trip:
  assumes "frame_header_size packet = Inr hl" "envelope config = WL_ENVELOPE_COBS_STREAM"
    and "wl_profile_integrity_valid (integrity config)"
    and enc: "wl_link_encode config m packet out cap = (WL_OK, len, m1)"
  shows "\<exists>m2. wl_link_decode_stream config m1 out (len - 1) =
           (Inr (view_of packet (integrity config) out (pkt_payload_len packet)), m2) \<and>
         read_bytes m2 (out + hl) (pkt_payload_len packet) =
           read_bytes m (pkt_payload packet) (pkt_payload_len packet) \<and>
         only_changes m m2 out len"
proof -
  let ?pl = "read_bytes m (pkt_payload packet) (pkt_payload_len packet)"
  let ?raw = "raw_frame packet (integrity config) ?pl"
  have w: "out \<noteq> NULL" "len = length (cobs_encode ?raw) + 1"
    "m1 = write_bytes m out (cobs_encode ?raw @ [0])"
    using enc wl_link_encode_eq [OF assms(1) refl, of config m out cap] assms(2)
    by (auto simp: wire_frame_def envelop_def split: if_splits)
  have rd: "read_bytes m1 out (len - 1) = cobs_encode ?raw"
    by (simp add: w)
  obtain r m2 where d: "wl_link_decode_stream config m1 out (len - 1) = (r, m2)" by (rule prod.exhaust)
  note dec = wl_link_decode_stream_eq [OF w(1) d, unfolded rd cobs_decode_encode, simplified]
  have m2: "m2 = write_bytes m1 out ?raw" using dec(1) by simp
  then have raw: "read_bytes m2 out (length ?raw) = ?raw" by simp
  have "?raw \<noteq> []" by (simp add: raw_frame_def Let_def frame_write_header_def)
  then have "r = Inr (view_of packet (integrity config) out (pkt_payload_len packet))"
    using dec(1) frame_parse_complete [OF assms(1) w(1) _ raw] assms(3) w(1)
    by (simp add: wl_frame_decode_def wl_profile_supported_def)
  moreover have "read_bytes m2 (out + hl) (pkt_payload_len packet) = ?pl"
    using raw raw_frame_at_iff [OF frame_header_size_Inr(1) [OF assms(1)] w(1), of _ ?pl m2 "integrity config"]
    by (simp add: length_raw_frame frame_header_size_Inr(1) [OF assms(1)])
  moreover have "only_changes m m1 out len" by (simp add: w only_changes_write)
  from only_changes_trans [OF this only_changes_weaken [OF dec(2)]]
  have "only_changes m m2 out len" by simp
  ultimately show ?thesis using d by blast
qed

theorem frame_stream_round_trip_witness:
  "\<exists>m1 len m2. wl_link_encode demo_config cobs_demo demo_packet 17 64 = (WL_OK, len, m1) \<and>
     wl_link_decode_stream demo_config m1 17 (len - 1) =
       (Inr (view_of demo_packet WL_INTEGRITY_CRC16 17 3), m2) \<and>
     read_bytes m2 33 3 = [0x11, 0, 0x22]"
proof -
  obtain len m1 where e: "wl_link_encode demo_config cobs_demo demo_packet 17 64 = (WL_OK, len, m1)"
    using wl_link_encode_eq [OF demo_header_size refl, of demo_config cobs_demo 17 64] demo_wire_length
    by (simp add: demo_config_def cobs_demo_read)
  from frame_stream_round_trip [OF demo_header_size _ _ e] show ?thesis
    using e by (simp add: demo_config_def wl_profile_integrity_valid_def cobs_demo_read) blast
qed

text \<open>
  C13. The stream decoder accepts only images of packets: if \<^verbatim>\<open>wl_link_decode_stream\<close> returns a view, the
  input decodes to exactly the raw frame that the encoder would produce for a valid packet with the
  view's fields and the payload bytes the view points to; the spans of the view lie inside the input
  buffer, and nothing outside that buffer was written. An input without zeros, such as the bytes up to a
  delimiter, is the encoder's COBS image of that raw frame, or this image without the final code byte 1
  that the encoder writes after a full last block.
\<close>

theorem frame_decode_sound:
  assumes "encoded \<noteq> NULL" "wl_profile_integrity_valid (integrity config)"
    and d: "wl_link_decode_stream config m encoded len = (Inr v, m')"
  shows "frame_header_size (packet_of v) = Inr (pkt_header_len (packet_of v)) \<and>
         cobs_decode (read_bytes m encoded len) =
           Some (raw_frame (packet_of v) (integrity config)
                   (read_bytes m' (span_data (view_payload v)) (span_length (view_payload v)))) \<and>
         encoded + pkt_header_len (packet_of v) = span_data (view_payload v) \<and>
         span_data (view_payload v) + span_length (view_payload v) < encoded + len \<and>
         only_changes m m' encoded len \<and>
         (0 \<in> set (read_bytes m encoded len) \<or>
          cobs_encode (raw_frame (packet_of v) (integrity config)
              (read_bytes m' (span_data (view_payload v)) (span_length (view_payload v))))
            \<in> {read_bytes m encoded len, read_bytes m encoded len @ [1]})"
proof -
  note dec = wl_link_decode_stream_eq [OF assms(1) d]
  then obtain ys where ys: "cobs_decode (read_bytes m encoded len) = Some ys" "length ys < len"
    "m' = write_bytes m encoded ys" "Inr v = wl_frame_decode m' encoded (length ys) (integrity config)"
    by (auto split: option.splits if_splits)
  have "frame_parse m' encoded (length ys) (integrity config)
          (wl_profile_crc_size (integrity config)) None = Inr v"
    using ys(4) assms by (simp add: wl_frame_decode_def wl_profile_supported_def)
  note sound = frame_parse_sound [OF this refl refl]
  have "span_data (view_payload v) = encoded + pkt_header_len (packet_of v)"
    using sound by (auto simp: view_of_def Let_def dest: arg_cong [of v _ "\<lambda>v. span_data (view_payload v)"])
  moreover have "0 \<notin> set (read_bytes m encoded len) \<Longrightarrow> cobs_encode ys \<in> {read_bytes m encoded len, read_bytes m encoded len @ [1]}"
    using cobs_decode_canonical [OF ys(1)] by auto
  ultimately show ?thesis using sound ys dec(2) by auto
qed

theorem frame_decode_sound_witness:
  "\<exists>m1 len v m2. wl_link_decode_stream demo_config m1 17 len = (Inr v, m2) \<and>
     frame_header_size (packet_of v) = Inr (pkt_header_len (packet_of v)) \<and>
     cobs_decode (read_bytes m1 17 len) =
       Some (raw_frame (packet_of v) WL_INTEGRITY_CRC16
               (read_bytes m2 (span_data (view_payload v)) (span_length (view_payload v))))"
proof -
  let ?raw = "raw_frame demo_packet 1 [0x11, 0, 0x22]"
  let ?m = "write_bytes cobs_demo 17 (cobs_encode ?raw)" and ?n = "length (cobs_encode ?raw)"
  obtain r m2 where d: "wl_link_decode_stream demo_config ?m 17 ?n = (r, m2)" by (rule prod.exhaust)
  have raw: "?raw \<noteq> []" by (simp add: raw_frame_def Let_def frame_write_header_def)
  have "r = Inr (view_of demo_packet 1 17 3)"
    using wl_link_decode_stream_eq(1) [OF _ d] raw
      frame_parse_complete [OF demo_header_size, of 17 "[0x11, 0, 0x22]" m2 "length ?raw" 1]
    by (simp add: cobs_decode_encode wl_frame_decode_def wl_profile_supported_def demo_config_def
        wl_profile_integrity_valid_def numeral_3_eq_3)
  with d frame_decode_sound [of 17 demo_config ?m ?n "view_of demo_packet 1 17 3" m2]
  show ?thesis
    by (intro exI [of _ ?m] exI [of _ ?n] exI [of _ "view_of demo_packet 1 17 3"] exI [of _ m2])
       (simp add: wl_profile_integrity_valid_def)
qed

text \<open>
  C14. The fused COBS and CRC-16 routines are the generic ones: for every valid packet the fused
  encoder returns the same status, length and memory as the generic encoder, and on every input the
  fused decoder returns the same status and view as the generic decoder, with the same decoded
  buffer whenever the input is a COBS encoding.
\<close>

theorem fused_codec_equiv:
  assumes "envelope config = WL_ENVELOPE_COBS_STREAM" "integrity config = WL_INTEGRITY_CRC16"
  shows "(\<forall>hl. frame_header_size packet = Inr hl \<longrightarrow>
            wl_frame_encode_cobs_crc16 m packet out cap =
            wl_frame_encode_generic m config packet out cap) \<and>
         (encoded \<noteq> NULL \<longrightarrow>
            fst (wl_frame_decode_cobs_crc16 m encoded len) =
            fst (wl_frame_decode_cobs_generic m config encoded len) \<and>
            (cobs_decode (read_bytes m encoded len) \<noteq> None \<longrightarrow>
               snd (wl_frame_decode_cobs_crc16 m encoded len) =
               snd (wl_frame_decode_cobs_generic m config encoded len)))"
proof (intro conjI allI impI)
  show "wl_frame_encode_cobs_crc16 m packet out cap = wl_frame_encode_generic m config packet out cap"
    if "frame_header_size packet = Inr hl" for hl
    by (rule wl_frame_encode_cobs_crc16_eq [OF that assms])
next
  assume a: "encoded \<noteq> NULL"
  note eq = wl_frame_decode_cobs_crc16_eq
    [OF assms(2) a prod.collapse [symmetric] prod.collapse [symmetric], of m len]
  show "fst (wl_frame_decode_cobs_crc16 m encoded len) =
        fst (wl_frame_decode_cobs_generic m config encoded len)" by (rule eq(1))
  assume c: "cobs_decode (read_bytes m encoded len) \<noteq> None"
  show "snd (wl_frame_decode_cobs_crc16 m encoded len) =
        snd (wl_frame_decode_cobs_generic m config encoded len)"
    using c eq(1) wl_frame_decode_not_cobs
    by (intro eq(2)) (auto simp: wl_frame_decode_cobs_generic_eq [OF a] split: if_splits)
qed

theorem fused_codec_equiv_witness:
  "wl_frame_encode_cobs_crc16 cobs_demo demo_packet 17 64 =
     wl_frame_encode_generic cobs_demo demo_config demo_packet 17 64 \<and>
   fst (wl_frame_decode_cobs_crc16 cobs_demo 16 3) = Inl WL_ERR_COBS_DECODE"
proof -
  have "cobs_decode [0x11, 0, 0x22] = None" by (simp add: cobs_decode_def cobs_dec.simps(2))
  then show ?thesis
    using fused_codec_equiv [of demo_config demo_packet cobs_demo 17 64 16 3] demo_header_size
    by (simp add: demo_config_def wl_frame_decode_cobs_generic_eq cobs_demo_read)
qed

lemma decode_crc16_residue:
  assumes "wl_frame_decode m a n WL_INTEGRITY_CRC16 = Inr v"
  shows "wl_crc16_ccitt_false_update 0xFFFF (read_bytes m a n) = 0"
proof -
  have a: "a \<noteq> NULL" and "frame_parse m a n 1 2 None = Inr v"
    using assms by (auto simp: wl_frame_decode_def wl_profile_supported_def wl_profile_crc_size_def
        split: if_splits)
  then have "frame_parse m a n 1 2 (Some (wl_crc16_ccitt_false_update 0xFFFF (read_bytes m a n))) = Inr v"
    by (simp only: frame_parse_residue [OF a])
  then show ?thesis by (simp add: frame_parse_def Let_def split: if_split_asm)
qed

lemma decode_crc32c_trailer:
  assumes "wl_frame_decode m a n WL_INTEGRITY_CRC32C = Inr v"
  shows "8 \<le> n" "read_bytes m (a + (n - 4)) 4 =
     write_u32_be (wl_crc32c_update 0xFFFFFFFF (read_bytes m a (n - 4)) XOR 0xFFFFFFFF)"
proof -
  have "frame_parse m a n 2 4 None = Inr v"
    using assms by (auto simp: wl_frame_decode_def wl_profile_supported_def wl_profile_crc_size_def
        split: if_splits)
  then have n: "8 \<le> n" and a: "a \<noteq> NULL"
    and eq: "read_u32_be m (a + (n - 4)) = wl_crc32c m a (n - 4)"
    by (cases rule: frame_parse_acceptD; auto)+
  show "8 \<le> n" by (rule n)
  show "read_bytes m (a + (n - 4)) 4 =
     write_u32_be (wl_crc32c_update 0xFFFFFFFF (read_bytes m a (n - 4)) XOR 0xFFFFFFFF)"
    using eq a unfolding read_u32_be_iff wl_crc32c_def by simp
qed

lemma xor_cancel_right: "b XOR a = c XOR a \<longleftrightarrow> b = (c :: 'a::len word)"
  by (metis xor.commute xor_cancel_left)

lemma write_u32_be_inj: "write_u32_be v = write_u32_be w \<longleftrightarrow> v = w"
proof
  assume "write_u32_be v = write_u32_be w"
  then have "be_join (be_bytes 4 v) = (be_join (be_bytes 4 w) :: u32)" by (simp add: write_be)
  then show "v = w" by (simp add: be_join_bytes)
qed simp

text \<open>
  C15. Corruption is rejected: on a CRC-16 link no error burst confined to two consecutive bytes of a
  raw frame, header and trailer included, turns an accepted frame into another accepted frame, and on
  a CRC-32C link no burst confined to four consecutive bytes of the covered part does.
\<close>

theorem corrupted_frame_rejected:
  assumes "wl_frame_decode m a n integ = Inr v" "wl_frame_decode m' a n integ = Inr v'"
    and "read_bytes m a n = pre @ xs @ suf" "read_bytes m' a n = pre @ ys @ suf"
    and "length xs = length ys"
    and "integ = WL_INTEGRITY_CRC16 \<and> length xs \<le> 2 \<or>
         integ = WL_INTEGRITY_CRC32C \<and> length xs \<le> 4 \<and> 4 \<le> length suf"
  shows "xs = ys"
  using assms(6)
proof (elim disjE conjE)
  assume "integ = 1" and len: "length xs \<le> 2"
  then have "wl_crc16_ccitt_false_update 0xFFFF (pre @ xs @ suf) =
      wl_crc16_ccitt_false_update 0xFFFF (pre @ ys @ suf)"
    using decode_crc16_residue [of m a n v] decode_crc16_residue [of m' a n v'] assms by simp
  then show ?thesis
    using crc16_window_inj [OF assms(5)] len
    by (simp add: crc16_update_append crc16_update_inj)
next
  assume integ: "integ = 2" and len: "length xs \<le> 4" and suf: "4 \<le> length suf"
  note t = decode_crc32c_trailer [OF assms(1) [unfolded integ]]
    and t' = decode_crc32c_trailer [OF assms(2) [unfolded integ]]
  let ?s = "take (length suf - 4) suf"
  have n: "n = length pre + length xs + length suf" using arg_cong [OF assms(3), of length] by simp
  have "read_bytes m a (n - 4) = pre @ xs @ ?s"
    using arg_cong [OF assms(3), of "take (n - 4)"] suf n by (simp add: take_read_bytes)
  moreover have "read_bytes m' a (n - 4) = pre @ ys @ ?s"
    using arg_cong [OF assms(4), of "take (n - 4)"] suf n assms(5) by (simp add: take_read_bytes)
  moreover have "read_bytes m (a + (n - 4)) 4 = read_bytes m' (a + (n - 4)) 4"
    using arg_cong [OF assms(3), of "drop (n - 4)"] arg_cong [OF assms(4), of "drop (n - 4)"] suf n assms(5)
      t(1) by (simp add: drop_read_bytes)
  ultimately have "wl_crc32c_update 0xFFFFFFFF (pre @ xs @ ?s) = wl_crc32c_update 0xFFFFFFFF (pre @ ys @ ?s)"
    using t(2) t'(2) by (simp add: write_u32_be_inj xor_cancel_right)
  then show ?thesis
    using crc32c_window_inj [OF assms(5)] len
    by (simp add: crc32c_update_append crc32c_update_inj)
qed

text \<open>
  The witness corrupts two bytes of the payload of an accepted frame: the second memory cannot be
  accepted, whatever the view would be.
\<close>

theorem corrupted_frame_rejected_witness:
  "\<exists>pre suf m v m'. wl_frame_decode m 17 21 WL_INTEGRITY_CRC16 = Inr v \<and>
     read_bytes m 17 21 = pre @ [0x11, 0] @ suf \<and> read_bytes m' 17 21 = pre @ [0x13, 1] @ suf \<and>
     (\<nexists>v'. wl_frame_decode m' 17 21 WL_INTEGRITY_CRC16 = Inr v')"
proof -
  let ?raw = "raw_frame demo_packet 1 [0x11, 0, 0x22]"
  let ?pre = "frame_write_header demo_packet 16"
  define suf where "suf = drop 18 ?raw"
  have hl: "pkt_header_len demo_packet = 16" by (simp add: pkt_header_len_def demo_packet_def)
  have len: "length ?raw = 21" "length ?pre = 16"
    by (simp_all add: length_raw_frame hl wl_profile_crc_size_def frame_write_header_def)
  have raw: "?raw = ?pre @ [0x11, 0] @ suf"
    using len by (simp add: suf_def raw_frame_def Let_def hl)
  let ?m = "write_bytes cobs_demo 17 ?raw" and ?m' = "write_bytes cobs_demo 17 (?pre @ [0x13, 1] @ suf)"
  have rd: "read_bytes ?m 17 21 = ?raw" "read_bytes ?m' 17 21 = ?pre @ [0x13, 1] @ suf"
    using len raw by simp_all
  have ok: "wl_frame_decode ?m 17 21 1 = Inr (view_of demo_packet 1 17 3)"
    using frame_parse_complete [OF demo_header_size _ _ rd(1)]
    by (simp add: wl_frame_decode_def wl_profile_supported_def wl_profile_integrity_valid_def numeral_3_eq_3)
  have "False" if "wl_frame_decode ?m' 17 21 1 = Inr v'" for v'
    using corrupted_frame_rejected [OF ok that trans [OF rd(1) raw] rd(2)] by simp
  then show ?thesis
    using ok rd raw
    by (intro exI [of _ ?pre] exI [of _ suf] exI [of _ ?m] exI [of _ "view_of demo_packet 1 17 3"]
        exI [of _ ?m']) auto
qed

end
