(* ===== verification/Channel.thy ===== *)
theory Channel
  imports Prelude
begin

text \<open>
  The contract of a single-producer single-consumer channel, shared by the receive ring, the packet
  unit queue and the byte FIFO. A provider supplies the execution of its operations, an invariant,
  the list of items that are in flight, and for each operation the items it adds and removes.
  The laws are the provider's obligations; the lemmas of the locale hold for every provider and
  every interleaving of producer and consumer operations.
\<close>

primrec run_ops :: "('op \<Rightarrow> 's \<Rightarrow> 's) \<Rightarrow> 'op list \<Rightarrow> 's \<Rightarrow> 's" where
  "run_ops exec [] s = s"
| "run_ops exec (op # ops) s = run_ops exec ops (exec op s)"

text \<open>\<open>trace exec obs ops s\<close>: what the operations of a run contribute, in order.\<close>

primrec trace :: "('op \<Rightarrow> 's \<Rightarrow> 's) \<Rightarrow> ('op \<Rightarrow> 's \<Rightarrow> 'a list) \<Rightarrow> 'op list \<Rightarrow> 's \<Rightarrow> 'a list" where
  "trace exec obs [] s = []"
| "trace exec obs (op # ops) s = obs op s @ trace exec obs ops (exec op s)"

text \<open>Distinct offsets of a window no longer than the ring select distinct slots.\<close>

lemma mod_window_inj:
  assumes "i < n" "j < n" "(a + i) mod n = (a + j) mod (n :: nat)"
  shows "i = j"
proof -
  have "(\<And>i j. i \<le> j \<Longrightarrow> j < n \<Longrightarrow> (a + i) mod n = (a + j) mod n \<Longrightarrow> i = j)"
  proof -
    fix i j assume "i \<le> j" "j < n" "(a + i) mod n = (a + j) mod n"
    then have "n dvd (a + j) - (a + i)" by (intro mod_eq_dvd_iff_nat [THEN iffD1]) auto
    then show "i = j" using \<open>i \<le> j\<close> \<open>j < n\<close> by (auto dest: dvd_imp_le)
  qed
  then show ?thesis using assms by (metis nat_le_linear)
qed

lemma run_ops_append [simp]: "run_ops exec (ops @ ops') s = run_ops exec ops' (run_ops exec ops s)"
  by (induction ops arbitrary: s) auto

lemma trace_append [simp]:
  "trace exec obs (ops @ ops') s = trace exec obs ops s @ trace exec obs ops' (run_ops exec ops s)"
  by (induction ops arbitrary: s) auto

locale spsc_channel =
  fixes exec :: "'op \<Rightarrow> 's \<Rightarrow> 's"
    and inv :: "'s \<Rightarrow> bool"
    and pending :: "'s \<Rightarrow> 'a list"
    and pushed :: "'op \<Rightarrow> 's \<Rightarrow> 'a list"
    and popped :: "'op \<Rightarrow> 's \<Rightarrow> 'a list"
    and capacity :: "'s \<Rightarrow> nat"
  assumes exec_inv: "inv s \<Longrightarrow> inv (exec op s)"
    and exec_fifo: "inv s \<Longrightarrow> popped op s @ pending (exec op s) = pending s @ pushed op s"
    and exec_capacity: "inv s \<Longrightarrow> capacity (exec op s) = capacity s"
    and pending_bound: "inv s \<Longrightarrow> length (pending s) \<le> capacity s"
begin

lemma run_inv: "inv s \<Longrightarrow> inv (run_ops exec ops s)"
  by (induction ops arbitrary: s) (auto intro: exec_inv)

lemma run_fifo:
  "inv s \<Longrightarrow>
   trace exec popped ops s @ pending (run_ops exec ops s) = pending s @ trace exec pushed ops s"
proof (induction ops arbitrary: s)
  case (Cons op ops)
  then have "trace exec popped ops (exec op s) @ pending (run_ops exec ops (exec op s)) =
             pending (exec op s) @ trace exec pushed ops (exec op s)"
    by (simp add: exec_inv)
  then show ?case
    using arg_cong [OF exec_fifo [OF Cons.prems, of op], of "\<lambda>l. l @ trace exec pushed ops (exec op s)"]
    by simp
qed simp

lemma run_capacity: "inv s \<Longrightarrow> capacity (run_ops exec ops s) = capacity s"
  by (induction ops arbitrary: s) (auto simp: exec_inv exec_capacity)

lemma run_bound: "inv s \<Longrightarrow> length (pending (run_ops exec ops s)) \<le> capacity s"
  using pending_bound [OF run_inv, of s ops] run_capacity [of s ops] by simp

lemma run_delivers:
  assumes "inv s" "pending s = []"
  shows "\<exists>rest. trace exec pushed ops s = trace exec popped ops s @ rest \<and> length rest \<le> capacity s"
  using run_fifo [OF assms(1), of ops] run_bound [OF assms(1), of ops] assms(2)
  by (intro exI [of _ "pending (run_ops exec ops s)"]) simp

end

text \<open>
  A machine with an invariant that every operation keeps, and functional refinement: a machine whose
  every operation has the effect, on the abstraction of its state, of the abstract events the
  operation stands for.
\<close>

locale machine =
  fixes exec :: "'op \<Rightarrow> 's \<Rightarrow> 's"
    and inv :: "'s \<Rightarrow> bool"
  assumes step_inv: "inv s \<Longrightarrow> inv (exec op s)"
begin

lemma run_keeps: "inv s \<Longrightarrow> inv (run_ops exec ops s)"
  by (induction ops arbitrary: s) (auto intro: step_inv)

end

locale simulation = machine exec inv
  for exec :: "'op \<Rightarrow> 's \<Rightarrow> 's" and inv :: "'s \<Rightarrow> bool" +
  fixes abs :: "'s \<Rightarrow> 'a"
    and events :: "'op \<Rightarrow> 's \<Rightarrow> 'e list"
    and spec :: "'e \<Rightarrow> 'a \<Rightarrow> 'a"
  assumes step_sim: "inv s \<Longrightarrow> abs (exec op s) = fold spec (events op s) (abs s)"
begin

lemma run_sim: "inv s \<Longrightarrow> abs (run_ops exec ops s) = fold spec (trace exec events ops s) (abs s)"
  by (induction ops arbitrary: s) (auto simp: step_inv step_sim)

end

end
