(* ===== verification/Rx_Ring.thy ===== *)
theory Rx_Ring
  imports Frame Channel
begin

text \<open>
  The receive ring, \<^verbatim>\<open>src/rx_ring_bipbuf.c\<close>: a single-producer single-consumer byte ring with
  cursors that range over two buffer lengths, contiguous reservations for the producer, direct-DMA
  claims, and a cached delimiter search for the consumer.

  The backing bytes live in the flat memory, so that the producer's stores into a reservation, the
  consumer's in-place use of a peeked span and the frame decoder see the same bytes. Atomic loads
  and stores are steps of the operation that performs them; the interleavings inside an operation
  that matter are treated at the end of the theory. The abstraction is the list of readable bytes.
\<close>

section \<open>State\<close>

record wl_rx_dma_claim_state =
  dma_cursor :: nat
  dma_length :: nat
  dma_published :: nat
  dma_token :: u32
  dma_active :: bool

record wl_rx_bipbuf =
  ring_memory :: addr
  ring_capacity :: nat
  read_cursor :: nat
  write_cursor :: nat
  overflow_events :: u32
  find_read :: nat
  find_scanned :: nat
  find_offset :: nat
  find_valid :: bool
  find_found :: bool
  reservation_cursor :: nat
  reservation_length :: nat
  reservation_active :: bool
  dma_next_token :: u32
  dma_claim :: wl_rx_dma_claim_state

record wl_rx_dma_claim =
  claim_span :: wl_span
  claim_token :: u32

section \<open>Cursor arithmetic\<close>

definition cursor_physical :: "nat \<Rightarrow> nat \<Rightarrow> nat" where
  "cursor_physical capacity cursor = (if cursor < capacity then cursor else cursor - capacity)"

definition cursor_distance :: "nat \<Rightarrow> nat \<Rightarrow> nat \<Rightarrow> nat" where
  "cursor_distance period a b = (if b \<ge> a then b - a else period - a + b)"

definition cursor_advance :: "nat \<Rightarrow> nat \<Rightarrow> nat \<Rightarrow> nat" where
  "cursor_advance period cursor len =
     (if len \<ge> period - cursor then len - (period - cursor) else cursor + len)"

definition contiguous_length :: "nat \<Rightarrow> nat \<Rightarrow> nat \<Rightarrow> nat" where
  "contiguous_length capacity cursor available =
     (let to_end = capacity - cursor_physical capacity cursor
      in if available < to_end then available else to_end)"

section \<open>Operations\<close>

definition no_dma_claim :: wl_rx_dma_claim_state where
  "no_dma_claim = \<lparr>dma_cursor = 0, dma_length = 0, dma_published = 0, dma_token = 0, dma_active = False\<rparr>"

definition find_dma_claim :: "wl_rx_bipbuf \<Rightarrow> u32 \<Rightarrow> wl_rx_dma_claim_state option" where
  "find_dma_claim r token =
     (if dma_active (dma_claim r) \<and> dma_token (dma_claim r) = token then Some (dma_claim r) else None)"

definition readable_snapshot :: "wl_rx_bipbuf \<Rightarrow> nat \<times> nat" where
  "readable_snapshot r =
     (let readable = cursor_distance (ring_capacity r * 2) (read_cursor r) (write_cursor r)
      in (if readable \<le> ring_capacity r then readable else 0, read_cursor r))"

definition ring_uninit :: "wl_rx_bipbuf \<Rightarrow> bool" where
  "ring_uninit r \<longleftrightarrow> ring_memory r = NULL \<or> ring_capacity r = 0"

definition wl_rx_ring_storage_size :: "nat \<Rightarrow> nat" where
  "wl_rx_ring_storage_size usable_capacity = usable_capacity"

definition wl_rx_ring_init :: "bool \<Rightarrow> wl_rx_bipbuf \<Rightarrow> addr \<Rightarrow> nat \<Rightarrow> wl_err \<times> wl_rx_bipbuf" where
  "wl_rx_ring_init lock_free r memory memory_size =
     (if memory = NULL \<or> memory_size = 0 \<or> memory_size > SIZE_MAX div 2
      then (WL_ERR_INVALID_ARG, r)
      else
        let r = \<lparr>ring_memory = memory, ring_capacity = memory_size, read_cursor = 0, write_cursor = 0,
                 overflow_events = 0, find_read = 0, find_scanned = 0, find_offset = 0,
                 find_valid = False, find_found = False, reservation_cursor = 0,
                 reservation_length = 0, reservation_active = False, dma_next_token = 1,
                 dma_claim = no_dma_claim\<rparr>
        in if \<not> lock_free then (WL_ERR_NOT_SUPPORTED, r) else (WL_OK, r))"

definition wl_rx_ring_producer_note_overflow :: "wl_rx_bipbuf \<Rightarrow> wl_rx_bipbuf" where
  "wl_rx_ring_producer_note_overflow r =
     (if ring_uninit r then r else r\<lparr>overflow_events := overflow_events r + 1\<rparr>)"

definition wl_rx_ring_producer_reserve :: "wl_rx_bipbuf \<Rightarrow> (wl_err + wl_span) \<times> wl_rx_bipbuf" where
  "wl_rx_ring_producer_reserve r =
     (if ring_uninit r then (Inl WL_ERR_NOT_INITIALIZED, r)
      else if reservation_active r \<or> dma_active (dma_claim r) then (Inl WL_ERR_INVALID_STATE, r)
      else
        let readable = cursor_distance (ring_capacity r * 2) (read_cursor r) (write_cursor r)
        in if readable > ring_capacity r then (Inl WL_ERR_INVALID_STATE, r)
           else
             let free_space = ring_capacity r - readable;
                 len = contiguous_length (ring_capacity r) (write_cursor r) free_space
             in (Inr \<lparr>span_data = ring_memory r + cursor_physical (ring_capacity r) (write_cursor r),
                      span_length = len\<rparr>,
                 r\<lparr>reservation_cursor := write_cursor r, reservation_length := len,
                   reservation_active := True\<rparr>))"

text \<open>An empty ring whose tail is too short for the claim restarts at the other epoch's offset zero.\<close>

definition dma_normalise :: "wl_rx_bipbuf \<Rightarrow> nat \<Rightarrow> wl_rx_bipbuf" where
  "dma_normalise r maximum_length =
     (if write_cursor r = read_cursor r \<and> maximum_length \<le> ring_capacity r \<and>
         contiguous_length (ring_capacity r) (write_cursor r) (ring_capacity r) < maximum_length
      then let reset_cursor = (if write_cursor r < ring_capacity r then ring_capacity r else 0)
           in r\<lparr>read_cursor := reset_cursor, write_cursor := reset_cursor\<rparr>
      else r)"

definition wl_rx_ring_dma_claim ::
    "wl_rx_bipbuf \<Rightarrow> nat \<Rightarrow> (wl_err + wl_rx_dma_claim) \<times> wl_rx_bipbuf" where
  "wl_rx_ring_dma_claim r maximum_length =
     (if maximum_length = 0 then (Inl WL_ERR_INVALID_ARG, r)
      else if ring_uninit r then (Inl WL_ERR_NOT_INITIALIZED, r)
      else if reservation_active r \<or> dma_active (dma_claim r) then (Inl WL_ERR_WOULD_BLOCK, r)
      else
        let r = dma_normalise r maximum_length;
            reserve_cursor = write_cursor r;
            reserved = cursor_distance (ring_capacity r * 2) (read_cursor r) reserve_cursor
        in if reserved > ring_capacity r then (Inl WL_ERR_INVALID_STATE, r)
           else
             let free_space = ring_capacity r - reserved;
                 len = contiguous_length (ring_capacity r) reserve_cursor free_space;
                 len = (if len > maximum_length then maximum_length else len)
             in if len = 0 then (Inl WL_ERR_WOULD_BLOCK, r)
                else
                  let token = (if dma_next_token r = 0 then 1 else dma_next_token r)
                  in (Inr \<lparr>claim_span =
                             \<lparr>span_data = ring_memory r + cursor_physical (ring_capacity r) reserve_cursor,
                              span_length = len\<rparr>,
                           claim_token = token\<rparr>,
                      r\<lparr>dma_next_token := token + 1,
                        dma_claim := \<lparr>dma_cursor = reserve_cursor, dma_length = len, dma_published = 0,
                                      dma_token = token, dma_active = True\<rparr>\<rparr>))"

definition wl_rx_ring_dma_publish ::
    "wl_rx_bipbuf \<Rightarrow> wl_rx_dma_claim \<Rightarrow> nat \<Rightarrow> nat \<Rightarrow> wl_err \<times> wl_rx_bipbuf" where
  "wl_rx_ring_dma_publish r claim offset len =
     (if claim_token claim = 0 then (WL_ERR_INVALID_ARG, r)
      else if ring_uninit r then (WL_ERR_NOT_INITIALIZED, r)
      else
        case find_dma_claim r (claim_token claim) of
          None \<Rightarrow> (WL_ERR_INVALID_STATE, r)
        | Some stored \<Rightarrow>
            if offset \<noteq> dma_published stored \<or> len > dma_length stored - offset
            then (WL_ERR_INVALID_STATE, r)
            else
              let stored = stored\<lparr>dma_published := dma_published stored + len\<rparr>
              in (WL_OK,
                  r\<lparr>dma_claim := stored,
                    write_cursor := cursor_advance (ring_capacity r * 2) (dma_cursor stored)
                                      (dma_published stored)\<rparr>))"

definition wl_rx_ring_dma_finish :: "wl_rx_bipbuf \<Rightarrow> wl_rx_dma_claim \<Rightarrow> wl_err \<times> wl_rx_bipbuf" where
  "wl_rx_ring_dma_finish r claim =
     (if claim_token claim = 0 then (WL_ERR_INVALID_ARG, r)
      else if ring_uninit r then (WL_ERR_NOT_INITIALIZED, r)
      else
        case find_dma_claim r (claim_token claim) of
          None \<Rightarrow> (WL_ERR_INVALID_STATE, r)
        | Some stored \<Rightarrow> (WL_OK, r\<lparr>dma_claim := no_dma_claim\<rparr>))"

definition wl_rx_ring_dma_abort :: "wl_rx_bipbuf \<Rightarrow> wl_err \<times> wl_rx_bipbuf" where
  "wl_rx_ring_dma_abort r =
     (if ring_uninit r then (WL_ERR_NOT_INITIALIZED, r)
      else if reservation_active r then (WL_ERR_INVALID_STATE, r)
      else (WL_OK, wl_rx_ring_producer_note_overflow (r\<lparr>dma_claim := no_dma_claim\<rparr>)))"

definition wl_rx_ring_producer_commit :: "wl_rx_bipbuf \<Rightarrow> nat \<Rightarrow> wl_err \<times> wl_rx_bipbuf" where
  "wl_rx_ring_producer_commit r len =
     (if ring_uninit r then (WL_ERR_NOT_INITIALIZED, r)
      else if \<not> reservation_active r then (WL_ERR_INVALID_STATE, r)
      else if len > reservation_length r then (WL_ERR_INVALID_ARG, r)
      else (WL_OK,
            r\<lparr>write_cursor := cursor_advance (ring_capacity r * 2) (reservation_cursor r) len,
              reservation_cursor := 0, reservation_length := 0, reservation_active := False\<rparr>))"

definition wl_rx_ring_readable :: "wl_rx_bipbuf \<Rightarrow> nat" where
  "wl_rx_ring_readable r = (if ring_uninit r then 0 else fst (readable_snapshot r))"

definition wl_rx_ring_consumer_overflow_pending :: "wl_rx_bipbuf \<Rightarrow> bool" where
  "wl_rx_ring_consumer_overflow_pending r = (if ring_uninit r then False else overflow_events r \<noteq> 0)"

definition wl_rx_ring_consumer_peek :: "wl_rx_bipbuf \<Rightarrow> wl_span" where
  "wl_rx_ring_consumer_peek r =
     (if ring_uninit r then \<lparr>span_data = NULL, span_length = 0\<rparr>
      else
        let (readable, cursor) = readable_snapshot r
        in if readable = 0 then \<lparr>span_data = NULL, span_length = 0\<rparr>
           else \<lparr>span_data = ring_memory r + cursor_physical (ring_capacity r) cursor,
                 span_length = contiguous_length (ring_capacity r) cursor readable\<rparr>)"

definition wl_rx_ring_has_space :: "wl_rx_bipbuf \<Rightarrow> bool" where
  "wl_rx_ring_has_space r \<longleftrightarrow>
     ring_capacity r \<noteq> 0 \<and>
     cursor_distance (ring_capacity r * 2) (read_cursor r) (write_cursor r) < ring_capacity r"

text \<open>\<^verbatim>\<open>memchr\<close>: the offset of the first occurrence among \<open>n\<close> bytes.\<close>

fun memchr :: "mem \<Rightarrow> addr \<Rightarrow> byte \<Rightarrow> nat \<Rightarrow> nat option" where
  "memchr m base v 0 = None"
| "memchr m base v (Suc n) = (if m base = v then Some 0 else map_option Suc (memchr m (base + 1) v n))"

text \<open>
  The search loop. Each iteration of the C loop scans one contiguous region; the first argument
  bounds the number of iterations. \<open>ring_find\<close> below shows that the bound used is enough.
\<close>

fun rx_find_loop :: "nat \<Rightarrow> mem \<Rightarrow> wl_rx_bipbuf \<Rightarrow> byte \<Rightarrow> nat \<Rightarrow> nat \<Rightarrow> nat \<Rightarrow> nat option" where
  "rx_find_loop 0 m r v rd readable offset = None"
| "rx_find_loop (Suc fuel) m r v rd readable offset =
     (if offset < readable then
        let cursor = cursor_advance (ring_capacity r * 2) rd offset;
            len = contiguous_length (ring_capacity r) cursor (readable - offset);
            base = ring_memory r + cursor_physical (ring_capacity r) cursor
        in case memchr m base v len of
             Some i \<Rightarrow> Some (offset + i)
           | None \<Rightarrow> rx_find_loop fuel m r v rd readable (offset + len)
      else None)"

definition wl_rx_ring_consumer_find ::
    "mem \<Rightarrow> wl_rx_bipbuf \<Rightarrow> byte \<Rightarrow> (wl_err + nat) \<times> wl_rx_bipbuf" where
  "wl_rx_ring_consumer_find m r value =
     (if ring_uninit r then (Inl WL_ERR_NOT_INITIALIZED, r)
      else
        let (readable, rd) = readable_snapshot r;
            cached = (value = 0 \<and> find_valid r \<and> find_read r = rd \<and> find_scanned r \<le> readable)
        in if cached \<and> find_found r then (Inr (find_offset r), r)
           else
             let offset = (if cached then find_scanned r else 0);
                 r = (if value = 0
                      then r\<lparr>find_valid := True, find_read := rd, find_found := False\<rparr> else r)
             in case rx_find_loop (readable + 1) m r value rd readable offset of
                  Some i \<Rightarrow>
                    (Inr i,
                     if value = 0
                     then r\<lparr>find_offset := i, find_found := True, find_scanned := readable\<rparr> else r)
                | None \<Rightarrow>
                    (Inl WL_ERR_NO_DATA, if value = 0 then r\<lparr>find_scanned := readable\<rparr> else r))"

definition wl_rx_ring_consumer_copy ::
    "mem \<Rightarrow> wl_rx_bipbuf \<Rightarrow> nat \<Rightarrow> addr \<Rightarrow> nat \<Rightarrow> wl_err \<times> mem" where
  "wl_rx_ring_consumer_copy m r offset out len =
     (if out = NULL \<and> len \<noteq> 0 then (WL_ERR_INVALID_ARG, m)
      else if ring_uninit r then (WL_ERR_NOT_INITIALIZED, m)
      else
        let (readable, rd) = readable_snapshot r
        in if offset > readable \<or> len > readable - offset then (WL_ERR_NO_DATA, m)
           else if len = 0 then (WL_OK, m)
           else
             let cursor = cursor_advance (ring_capacity r * 2) rd offset;
                 first_length = contiguous_length (ring_capacity r) cursor len;
                 m = memmove m out (ring_memory r + cursor_physical (ring_capacity r) cursor) first_length
             in (WL_OK,
                 if first_length < len
                 then memmove m (out + first_length) (ring_memory r) (len - first_length) else m))"

definition wl_rx_ring_consumer_consume :: "wl_rx_bipbuf \<Rightarrow> nat \<Rightarrow> wl_err \<times> wl_rx_bipbuf" where
  "wl_rx_ring_consumer_consume r len =
     (if ring_uninit r then (WL_ERR_NOT_INITIALIZED, r)
      else
        let (readable, rd) = readable_snapshot r
        in if len > readable then (WL_ERR_NO_DATA, r)
           else (WL_OK, r\<lparr>find_valid := False,
                          read_cursor := cursor_advance (ring_capacity r * 2) rd len\<rparr>))"

definition wl_rx_ring_consumer_take_overflow :: "wl_rx_bipbuf \<Rightarrow> u32 \<times> wl_rx_bipbuf" where
  "wl_rx_ring_consumer_take_overflow r =
     (if ring_uninit r then (0, r) else (overflow_events r, r\<lparr>overflow_events := 0\<rparr>))"

section \<open>Cursors modulo the ring\<close>

lemma cursor_physical_mod: "c < 2 * n \<Longrightarrow> cursor_physical n c = c mod n"
  by (auto simp: cursor_physical_def mod_if)

lemma cursor_advance_mod: "c < p \<Longrightarrow> k \<le> p \<Longrightarrow> cursor_advance p c k = (c + k) mod p"
  by (auto simp: cursor_advance_def mod_if)

lemma cursor_advance_less: "c < p \<Longrightarrow> k \<le> p \<Longrightarrow> cursor_advance p c k < p"
  by (auto simp: cursor_advance_def)

lemma cursor_distance_less: "a < p \<Longrightarrow> b < p \<Longrightarrow> cursor_distance p a b < p"
  by (auto simp: cursor_distance_def)

lemma cursor_advance_distance:
  "a < p \<Longrightarrow> b < p \<Longrightarrow> cursor_advance p a (cursor_distance p a b) = b"
  by (auto simp: cursor_advance_def cursor_distance_def)

lemma cursor_distance_advance:
  "a < p \<Longrightarrow> b < p \<Longrightarrow> cursor_distance p a b + k < p \<Longrightarrow>
   cursor_distance p a (cursor_advance p b k) = cursor_distance p a b + k"
  by (auto simp: cursor_advance_def cursor_distance_def split: if_splits)

lemma cursor_distance_consume:
  "a < p \<Longrightarrow> b < p \<Longrightarrow> k \<le> cursor_distance p a b \<Longrightarrow>
   cursor_distance p (cursor_advance p a k) b = cursor_distance p a b - k"
  by (auto simp: cursor_advance_def cursor_distance_def split: if_splits)

lemma cursor_advance_add:
  "c < p \<Longrightarrow> i + j \<le> p \<Longrightarrow> cursor_advance p (cursor_advance p c i) j = cursor_advance p c (i + j)"
  by (auto simp: cursor_advance_def split: if_splits)

text \<open>The address of the byte \<open>i\<close> positions after a cursor.\<close>

definition ring_addr :: "wl_rx_bipbuf \<Rightarrow> nat \<Rightarrow> nat \<Rightarrow> addr" where
  "ring_addr r c i = ring_memory r + (c + i) mod ring_capacity r"

lemma ring_addr_advance:
  assumes "c < 2 * ring_capacity r" "i \<le> 2 * ring_capacity r"
  shows "ring_memory r + cursor_physical (ring_capacity r) (cursor_advance (ring_capacity r * 2) c i)
         = ring_addr r c i"
proof -
  let ?n = "ring_capacity r"
  have "cursor_advance (?n * 2) c i < 2 * ?n" using cursor_advance_less [of c "?n * 2" i] assms by simp
  moreover have "(c + i) mod (?n * 2) mod ?n = (c + i) mod ?n" by (simp add: mod_mult2_eq)
  ultimately show ?thesis
    using assms by (simp add: ring_addr_def cursor_physical_mod cursor_advance_mod mult.commute)
qed

lemma ring_addr_contiguous:
  assumes "c < 2 * ring_capacity r" "i < contiguous_length (ring_capacity r) c avail"
  shows "ring_addr r c i = ring_memory r + cursor_physical (ring_capacity r) c + i"
proof -
  let ?n = "ring_capacity r"
  have "c mod ?n + i < ?n"
    using assms by (auto simp: contiguous_length_def Let_def cursor_physical_mod split: if_splits)
  then have "(c + i) mod ?n = c mod ?n + i" by (metis mod_add_left_eq mod_less)
  then show ?thesis using assms(1) by (simp add: ring_addr_def cursor_physical_mod)
qed

section \<open>Invariant and abstraction\<close>

definition ring_readable :: "wl_rx_bipbuf \<Rightarrow> nat" where
  "ring_readable r = cursor_distance (ring_capacity r * 2) (read_cursor r) (write_cursor r)"

definition ring_pending :: "mem \<Rightarrow> wl_rx_bipbuf \<Rightarrow> byte list" where
  "ring_pending m r = map (\<lambda>i. m (ring_addr r (read_cursor r) i)) [0..<ring_readable r]"

definition ring_inv :: "wl_rx_bipbuf \<Rightarrow> bool" where
  "ring_inv r \<longleftrightarrow>
     ring_memory r \<noteq> NULL \<and> 0 < ring_capacity r \<and> ring_capacity r \<le> SIZE_MAX div 2 \<and>
     read_cursor r < ring_capacity r * 2 \<and> write_cursor r < ring_capacity r * 2 \<and>
     ring_readable r \<le> ring_capacity r \<and>
     (reservation_active r \<longrightarrow>
        \<not> dma_active (dma_claim r) \<and> reservation_cursor r = write_cursor r \<and>
        reservation_length r \<le>
          contiguous_length (ring_capacity r) (write_cursor r) (ring_capacity r - ring_readable r)) \<and>
     (dma_active (dma_claim r) \<longrightarrow>
        dma_cursor (dma_claim r) < ring_capacity r * 2 \<and>
        dma_published (dma_claim r) \<le> dma_length (dma_claim r) \<and>
        dma_length (dma_claim r) \<le>
          ring_capacity r - cursor_physical (ring_capacity r) (dma_cursor (dma_claim r)) \<and>
        write_cursor r =
          cursor_advance (ring_capacity r * 2) (dma_cursor (dma_claim r)) (dma_published (dma_claim r)) \<and>
        ring_readable r + (dma_length (dma_claim r) - dma_published (dma_claim r)) \<le> ring_capacity r)"

lemma length_ring_pending [simp]: "length (ring_pending m r) = ring_readable r"
  by (simp add: ring_pending_def)

lemma ring_invD:
  assumes "ring_inv r"
  shows "\<not> ring_uninit r" "0 < ring_capacity r" "read_cursor r < ring_capacity r * 2"
    "write_cursor r < ring_capacity r * 2" "ring_readable r \<le> ring_capacity r"
    "readable_snapshot r = (ring_readable r, read_cursor r)"
  using assms by (auto simp: ring_inv_def ring_uninit_def readable_snapshot_def ring_readable_def Let_def)

lemma ring_addr_inj:
  assumes "i < ring_capacity r" "j < ring_capacity r"
  shows "ring_addr r c i = ring_addr r c j \<longleftrightarrow> i = j"
proof -
  have "i = j" if "i \<le> j" "j < n" "(c + i) mod n = (c + j) mod n" for i j n :: nat
  proof -
    have "n dvd (c + j) - (c + i)" using that(1,3) by (intro mod_eq_dvd_iff_nat [THEN iffD1]) auto
    then have "n dvd j - i" by simp
    then show ?thesis using that(1,2) by (auto dest: dvd_imp_le)
  qed
  then show ?thesis
    using assms unfolding ring_addr_def by (cases "i \<le> j") (force, metis add_left_cancel nat_le_linear)
qed

lemma ring_addr_write:
  assumes "read_cursor r < ring_capacity r * 2" "write_cursor r < ring_capacity r * 2"
  shows "ring_addr r (read_cursor r) (ring_readable r + i) = ring_addr r (write_cursor r) i"
proof -
  let ?n = "ring_capacity r"
  have "write_cursor r = (read_cursor r + ring_readable r) mod (?n * 2)"
    using assms cursor_advance_distance [of "read_cursor r" "?n * 2" "write_cursor r"]
      cursor_distance_less [of "read_cursor r" "?n * 2" "write_cursor r"]
    by (simp add: cursor_advance_mod ring_readable_def)
  then have "write_cursor r mod ?n = (read_cursor r + ring_readable r) mod ?n"
    by (simp add: mod_mult2_eq)
  then show ?thesis unfolding ring_addr_def by (metis add.assoc mod_add_left_eq)
qed

text \<open>Advancing the write cursor appends, advancing the read cursor drops.\<close>

lemma ring_push:
  assumes "read_cursor r < ring_capacity r * 2" "write_cursor r < ring_capacity r * 2"
    "ring_readable r + k \<le> ring_capacity r" "0 < ring_capacity r"
    and r': "ring_memory r' = ring_memory r" "ring_capacity r' = ring_capacity r"
    "read_cursor r' = read_cursor r" "write_cursor r' = cursor_advance (ring_capacity r * 2) (write_cursor r) k"
  shows "ring_readable r' = ring_readable r + k"
    and "ring_pending m r' = ring_pending m r @ map (\<lambda>i. m (ring_addr r (write_cursor r) i)) [0..<k]"
proof -
  show readable: "ring_readable r' = ring_readable r + k"
    using assms cursor_distance_advance [of "read_cursor r" "ring_capacity r * 2" "write_cursor r" k]
    by (simp add: ring_readable_def)
  have "ring_pending m r' = map (\<lambda>i. m (ring_addr r (read_cursor r) i)) [0..<ring_readable r + k]"
    by (simp add: ring_pending_def readable r' ring_addr_def)
  also have "\<dots> = ring_pending m r @ map (\<lambda>i. m (ring_addr r (read_cursor r) (ring_readable r + i))) [0..<k]"
    by (rule nth_equalityI) (auto simp: ring_pending_def nth_append)
  finally show "ring_pending m r' = ring_pending m r @ map (\<lambda>i. m (ring_addr r (write_cursor r) i)) [0..<k]"
    by (simp add: ring_addr_write assms(1,2))
qed

lemma ring_pop:
  assumes "read_cursor r < ring_capacity r * 2" "write_cursor r < ring_capacity r * 2"
    "k \<le> ring_readable r"
    and r': "ring_memory r' = ring_memory r" "ring_capacity r' = ring_capacity r"
    "write_cursor r' = write_cursor r" "read_cursor r' = cursor_advance (ring_capacity r * 2) (read_cursor r) k"
  shows "ring_readable r' = ring_readable r - k" and "ring_pending m r' = drop k (ring_pending m r)"
proof -
  have k: "k \<le> ring_capacity r * 2"
    using assms cursor_distance_less [of "read_cursor r" "ring_capacity r * 2" "write_cursor r"]
    by (simp add: ring_readable_def)
  show readable: "ring_readable r' = ring_readable r - k"
    using assms by (simp add: ring_readable_def cursor_distance_consume)
  have "(cursor_advance (ring_capacity r * 2) (read_cursor r) k + i) mod ring_capacity r =
        (read_cursor r + (k + i)) mod ring_capacity r" for i
  proof -
    have "cursor_advance (ring_capacity r * 2) (read_cursor r) k mod ring_capacity r =
          (read_cursor r + k) mod ring_capacity r"
      using assms(1) k by (simp add: cursor_advance_mod mod_mult2_eq)
    then show ?thesis by (metis add.assoc mod_add_left_eq)
  qed
  then show "ring_pending m r' = drop k (ring_pending m r)"
    by (intro nth_equalityI) (auto simp: ring_pending_def readable r' ring_addr_def)
qed

lemma ring_pending_store:
  assumes "ring_readable r \<le> k" "k < ring_capacity r"
  shows "ring_pending (m(ring_addr r (read_cursor r) k := b)) r = ring_pending m r"
  using assms by (auto simp: ring_pending_def ring_addr_inj)

section \<open>The ring as a channel\<close>

text \<open>
  The operations of producer and consumer, in any order. \<open>Store i b\<close> is the producer (or the DMA
  engine) writing byte \<open>b\<close> at offset \<open>i\<close> of the span it was handed; it never writes elsewhere.
\<close>

datatype ring_op =
    Reserve | Store nat byte | Commit nat
  | Dma_claim nat | Dma_publish wl_rx_dma_claim nat nat | Dma_finish wl_rx_dma_claim | Dma_abort
  | Note_overflow | Peek | Find byte | Consume nat | Take_overflow

definition producer_base :: "wl_rx_bipbuf \<Rightarrow> addr" where
  "producer_base r = ring_memory r + cursor_physical (ring_capacity r)
     (if reservation_active r then reservation_cursor r else dma_cursor (dma_claim r))"

definition producer_owns :: "wl_rx_bipbuf \<Rightarrow> nat \<Rightarrow> bool" where
  "producer_owns r i \<longleftrightarrow>
     reservation_active r \<and> i < reservation_length r \<or>
     dma_active (dma_claim r) \<and> dma_published (dma_claim r) \<le> i \<and> i < dma_length (dma_claim r)"

fun ring_exec :: "ring_op \<Rightarrow> mem \<times> wl_rx_bipbuf \<Rightarrow> mem \<times> wl_rx_bipbuf" where
  "ring_exec Reserve (m, r) = (m, snd (wl_rx_ring_producer_reserve r))"
| "ring_exec (Store i b) (m, r) = (if producer_owns r i then m(producer_base r + i := b) else m, r)"
| "ring_exec (Commit n) (m, r) = (m, snd (wl_rx_ring_producer_commit r n))"
| "ring_exec (Dma_claim n) (m, r) = (m, snd (wl_rx_ring_dma_claim r n))"
| "ring_exec (Dma_publish c off n) (m, r) = (m, snd (wl_rx_ring_dma_publish r c off n))"
| "ring_exec (Dma_finish c) (m, r) = (m, snd (wl_rx_ring_dma_finish r c))"
| "ring_exec Dma_abort (m, r) = (m, snd (wl_rx_ring_dma_abort r))"
| "ring_exec Note_overflow (m, r) = (m, wl_rx_ring_producer_note_overflow r)"
| "ring_exec Peek (m, r) = (m, r)"
| "ring_exec (Find v) (m, r) = (m, snd (wl_rx_ring_consumer_find m r v))"
| "ring_exec (Consume n) (m, r) = (m, snd (wl_rx_ring_consumer_consume r n))"
| "ring_exec Take_overflow (m, r) = (m, snd (wl_rx_ring_consumer_take_overflow r))"

fun ring_pushed :: "ring_op \<Rightarrow> mem \<times> wl_rx_bipbuf \<Rightarrow> byte list" where
  "ring_pushed (Commit n) (m, r) =
     (if fst (wl_rx_ring_producer_commit r n) = WL_OK then read_bytes m (producer_base r) n else [])"
| "ring_pushed (Dma_publish c off n) (m, r) =
     (if fst (wl_rx_ring_dma_publish r c off n) = WL_OK
      then read_bytes m (producer_base r + off) n else [])"
| "ring_pushed _ _ = []"

fun ring_popped :: "ring_op \<Rightarrow> mem \<times> wl_rx_bipbuf \<Rightarrow> byte list" where
  "ring_popped (Consume n) (m, r) =
     (if fst (wl_rx_ring_consumer_consume r n) = WL_OK then take n (ring_pending m r) else [])"
| "ring_popped _ _ = []"

text \<open>What an operation promises of the state it leaves, from which the channel laws follow.\<close>

definition ring_step_ok :: "ring_op \<Rightarrow> mem \<Rightarrow> wl_rx_bipbuf \<Rightarrow> bool" where
  "ring_step_ok op m r \<longleftrightarrow> (case ring_exec op (m, r) of (m', r') \<Rightarrow>
     ring_inv r' \<and> ring_capacity r' = ring_capacity r \<and>
     ring_popped op (m, r) @ ring_pending m' r' = ring_pending m r @ ring_pushed op (m, r))"

text \<open>Operations that touch none of the fields the abstraction depends on.\<close>

lemma ring_step_frame:
  assumes "ring_inv r" "r' = snd (ring_exec op (m, r))" "fst (ring_exec op (m, r)) = m" "ring_popped op (m, r) = []" "ring_pushed op (m, r) = []"
    and "ring_memory r' = ring_memory r" "ring_capacity r' = ring_capacity r"
    "read_cursor r' = read_cursor r" "write_cursor r' = write_cursor r"
    and res: "reservation_active r' \<Longrightarrow> reservation_active r \<and> reservation_cursor r' = reservation_cursor r \<and>
      reservation_length r' = reservation_length r"
    and dma: "dma_active (dma_claim r') \<Longrightarrow> dma_claim r' = dma_claim r"
  shows "ring_step_ok op m r"
  using assms
  by (auto simp: ring_step_ok_def ring_inv_def ring_pending_def ring_readable_def ring_addr_def split_beta)

lemma ring_step_simple:
  assumes "ring_inv r"
  shows "ring_step_ok Peek m r" "ring_step_ok Note_overflow m r" "ring_step_ok Take_overflow m r"
    "ring_step_ok (Dma_finish c) m r" "ring_step_ok Dma_abort m r"
  using ring_invD(1) [OF assms, unfolded ring_uninit_def]
  by (auto intro!: ring_step_frame [OF assms refl] split: option.splits if_splits
      simp: ring_uninit_def wl_rx_ring_producer_note_overflow_def wl_rx_ring_consumer_take_overflow_def
        wl_rx_ring_dma_finish_def wl_rx_ring_dma_abort_def no_dma_claim_def)

lemma ring_step_find: "ring_inv r \<Longrightarrow> ring_step_ok (Find v) m r"
  using ring_invD(1) [of r]
  by (auto intro!: ring_step_frame [OF _ refl] split: option.splits if_splits
      simp: wl_rx_ring_consumer_find_def Let_def split_beta)


lemma contiguous_length_mono: "a \<le> b \<Longrightarrow> contiguous_length n c a \<le> contiguous_length n c b"
  by (auto simp: contiguous_length_def Let_def)

lemma ring_step_consume:
  assumes "ring_inv r"
  shows "ring_step_ok (Consume n) m r"
proof -
  note i = ring_invD [OF assms]
  let ?r = "r\<lparr>find_valid := False, read_cursor := cursor_advance (ring_capacity r * 2) (read_cursor r) n\<rparr>"
  show ?thesis
  proof (cases "n \<le> ring_readable r")
    case True
    have pop: "ring_readable ?r = ring_readable r - n" "ring_pending m ?r = drop n (ring_pending m r)"
      using ring_pop [OF i(3,4) True, of ?r] by auto
    have "read_cursor ?r < ring_capacity r * 2"
      using i True by (auto intro!: cursor_advance_less)
    moreover have "contiguous_length (ring_capacity r) c (ring_capacity r - ring_readable r) \<le>
        contiguous_length (ring_capacity r) c (ring_capacity r - (ring_readable r - n))" for c
      by (rule contiguous_length_mono) simp
    ultimately have "ring_inv ?r"
      using assms i(5) pop(1) by (auto simp: ring_inv_def intro: le_trans)
    then show ?thesis
      using True i pop(2) by (simp add: ring_step_ok_def wl_rx_ring_consumer_consume_def)
  next
    case False
    then show ?thesis
      using i assms by (simp add: ring_step_ok_def wl_rx_ring_consumer_consume_def)
  qed
qed

lemma producer_base_span:
  assumes "c < ring_capacity r * 2" "k + n \<le> ring_capacity r - cursor_physical (ring_capacity r) c"
    and "w = cursor_advance (ring_capacity r * 2) c k"
  shows "map (\<lambda>i. m (ring_addr r w i)) [0..<n] =
         read_bytes m (ring_memory r + cursor_physical (ring_capacity r) c + k) n"
proof (rule nth_equalityI)
  fix i assume "i < length (map (\<lambda>i. m (ring_addr r w i)) [0..<n])"
  then have i: "i < n" by simp
  have "ring_addr r w i = ring_addr r c (k + i)"
  proof -
    have "w mod ring_capacity r = (c + k) mod ring_capacity r"
      using assms by (simp add: cursor_advance_mod mod_mult2_eq)
    then show ?thesis unfolding ring_addr_def by (metis add.assoc mod_add_left_eq)
  qed
  also have "\<dots> = ring_memory r + cursor_physical (ring_capacity r) c + (k + i)"
    using assms i by (intro ring_addr_contiguous [where avail = "ring_capacity r"])
      (auto simp: contiguous_length_def Let_def)
  finally show "map (\<lambda>i. m (ring_addr r w i)) [0..<n] ! i =
      read_bytes m (ring_memory r + cursor_physical (ring_capacity r) c + k) n ! i"
    using i by (simp add: add.assoc)
qed simp

lemma ring_step_reserve:
  assumes "ring_inv r"
  shows "ring_step_ok Reserve m r"
  using assms ring_invD(1) [OF assms]
  by (auto simp: ring_step_ok_def wl_rx_ring_producer_reserve_def Let_def ring_inv_def
      ring_pending_def ring_readable_def ring_addr_def)

lemma ring_step_commit:
  assumes "ring_inv r"
  shows "ring_step_ok (Commit n) m r"
proof (cases "reservation_active r \<and> n \<le> reservation_length r")
  case True
  note i = ring_invD [OF assms]
  let ?r = "snd (wl_rx_ring_producer_commit r n)"
  have res: "\<not> dma_active (dma_claim r)" "reservation_cursor r = write_cursor r"
    "n \<le> contiguous_length (ring_capacity r) (write_cursor r) (ring_capacity r - ring_readable r)"
    using assms True by (auto simp: ring_inv_def)
  then have n: "n \<le> ring_capacity r - ring_readable r"
    "n \<le> ring_capacity r - cursor_physical (ring_capacity r) (write_cursor r)"
    by (auto simp: contiguous_length_def Let_def split: if_splits)
  have r': "?r = r\<lparr>write_cursor := cursor_advance (ring_capacity r * 2) (write_cursor r) n,
      reservation_cursor := 0, reservation_length := 0, reservation_active := False\<rparr>"
    using True i res by (simp add: wl_rx_ring_producer_commit_def)
  have push: "ring_readable ?r = ring_readable r + n"
    "ring_pending m ?r = ring_pending m r @ map (\<lambda>i. m (ring_addr r (write_cursor r) i)) [0..<n]"
    using ring_push [OF i(3,4) _ i(2), of n ?r] n i(5) by (auto simp: r')
  have "ring_inv ?r"
    using assms res(1) n push(1) i by (auto simp: ring_inv_def r' intro!: cursor_advance_less)
  moreover have "map (\<lambda>i. m (ring_addr r (write_cursor r) i)) [0..<n] = read_bytes m (producer_base r) n"
    using producer_base_span [OF i(4), of 0 n "write_cursor r" m] n(2) True res i
    by (simp add: producer_base_def cursor_advance_def)
  ultimately show ?thesis
    using True i push(2) by (simp add: ring_step_ok_def r') (simp add: wl_rx_ring_producer_commit_def)
next
  case False
  then show ?thesis
    using ring_invD(1) [OF assms] assms by (auto simp: ring_step_ok_def wl_rx_ring_producer_commit_def)
qed

lemma ring_step_publish:
  assumes "ring_inv r"
  shows "ring_step_ok (Dma_publish c off n) m r"
proof (cases "fst (wl_rx_ring_dma_publish r c off n) = WL_OK")
  case True
  note i = ring_invD [OF assms]
  let ?d = "dma_claim r" and ?n = "ring_capacity r"
  define r1 where "r1 = snd (wl_rx_ring_dma_publish r c off n)"
  have act: "dma_active ?d" and off: "off = dma_published ?d" and n: "n \<le> dma_length ?d - off"
    and r': "r1 = r\<lparr>dma_claim := ?d\<lparr>dma_published := dma_published ?d + n\<rparr>,
       write_cursor := cursor_advance (?n * 2) (dma_cursor ?d) (dma_published ?d + n)\<rparr>"
    using True by (auto simp: r1_def wl_rx_ring_dma_publish_def find_dma_claim_def Let_def
        split: if_splits option.splits)
  have d: "dma_cursor ?d < ?n * 2" "dma_published ?d \<le> dma_length ?d"
    "dma_length ?d \<le> ?n - cursor_physical ?n (dma_cursor ?d)"
    "write_cursor r = cursor_advance (?n * 2) (dma_cursor ?d) (dma_published ?d)"
    "ring_readable r + (dma_length ?d - dma_published ?d) \<le> ?n" "\<not> reservation_active r"
    using assms act by (auto simp: ring_inv_def)
  have w: "cursor_advance (?n * 2) (dma_cursor ?d) (dma_published ?d + n) =
           cursor_advance (?n * 2) (write_cursor r) n"
    using d n off by (simp add: cursor_advance_add)
  have push: "ring_readable r1 = ring_readable r + n"
    "ring_pending m r1 = ring_pending m r @ map (\<lambda>i. m (ring_addr r (write_cursor r) i)) [0..<n]"
    using ring_push [OF i(3,4) _ i(2), of n r1] n off d(2,5) w by (auto simp: r')
  have "write_cursor r1 < ?n * 2" using i n off d by (auto simp: r' w intro!: cursor_advance_less)
  then have "ring_inv r1"
    using assms push(1) n off d act by (auto simp: ring_inv_def r')
  moreover have "map (\<lambda>i. m (ring_addr r (write_cursor r) i)) [0..<n] = read_bytes m (producer_base r + off) n"
    using producer_base_span [OF d(1), of off n "write_cursor r" m] n d off
    by (simp add: producer_base_def)
  ultimately show ?thesis
    using True push(2) by (simp add: ring_step_ok_def r1_def [symmetric]) (simp add: r')
next
  case False
  then have "snd (wl_rx_ring_dma_publish r c off n) = r"
    by (auto simp: wl_rx_ring_dma_publish_def Let_def split: if_splits option.splits)
  then show ?thesis using False assms by (simp add: ring_step_ok_def)
qed

lemma ring_step_store:
  assumes "ring_inv r"
  shows "ring_step_ok (Store i b) m r"
proof (cases "producer_owns r i")
  case True
  note inv = ring_invD [OF assms]
  let ?n = "ring_capacity r" and ?d = "dma_claim r"
  obtain k where k: "producer_base r + i = ring_addr r (read_cursor r) k" "ring_readable r \<le> k" "k < ?n"
  proof (cases "reservation_active r")
    case res: True
    then have "i < contiguous_length ?n (write_cursor r) (?n - ring_readable r)"
      "reservation_cursor r = write_cursor r"
      using assms True by (auto simp: ring_inv_def producer_owns_def)
    then show ?thesis
      using that [of "ring_readable r + i"] ring_addr_contiguous [of "write_cursor r" r i] inv res
      by (auto simp: producer_base_def ring_addr_write contiguous_length_def Let_def split: if_splits)
  next
    case False
    then have d: "dma_active ?d" "dma_published ?d \<le> i" "i < dma_length ?d"
      using True by (auto simp: producer_owns_def)
    then have c: "dma_cursor ?d < ?n * 2" "dma_length ?d \<le> ?n - cursor_physical ?n (dma_cursor ?d)"
      "write_cursor r = cursor_advance (?n * 2) (dma_cursor ?d) (dma_published ?d)"
      "ring_readable r + (dma_length ?d - dma_published ?d) \<le> ?n"
      using assms by (auto simp: ring_inv_def)
    have "i < contiguous_length ?n (dma_cursor ?d) ?n"
      using c(2) d(3) by (auto simp: contiguous_length_def Let_def)
    then have "producer_base r + i = ring_addr r (dma_cursor ?d) i"
      using ring_addr_contiguous [of "dma_cursor ?d" r i ?n] c(1) False by (simp add: producer_base_def)
    also have "\<dots> = ring_addr r (write_cursor r) (i - dma_published ?d)"
    proof -
      have "write_cursor r mod ?n = (dma_cursor ?d + dma_published ?d) mod ?n"
        using c d by (simp add: cursor_advance_mod mod_mult2_eq)
      then show ?thesis unfolding ring_addr_def using d(2)
        by (metis add.assoc le_add_diff_inverse mod_add_left_eq)
    qed
    finally have e: "producer_base r + i = ring_addr r (write_cursor r) (i - dma_published ?d)" .
    show ?thesis
    proof (rule that [of "ring_readable r + (i - dma_published ?d)"])
      show "producer_base r + i = ring_addr r (read_cursor r) (ring_readable r + (i - dma_published ?d))"
        unfolding ring_addr_write [OF inv(3,4)] by (rule e)
    qed (use c d in auto)
  qed
  then show ?thesis
    using True assms ring_pending_store [OF k(2,3), of m b] by (simp add: ring_step_ok_def)
next
  case False
  then show ?thesis using assms by (simp add: ring_step_ok_def)
qed

lemma dma_normalise_facts:
  assumes "ring_inv r" "\<not> reservation_active r" "\<not> dma_active (dma_claim r)"
    and "r' = dma_normalise r n"
  shows "ring_inv r'" "ring_pending m r' = ring_pending m r" "ring_memory r' = ring_memory r"
    "ring_capacity r' = ring_capacity r" "\<not> reservation_active r'" "dma_claim r' = dma_claim r"
    "dma_next_token r' = dma_next_token r"
  using assms
  by (auto simp: dma_normalise_def Let_def ring_inv_def ring_pending_def ring_readable_def
      cursor_distance_def ring_addr_def split: if_splits)

lemma contiguous_length_le: "contiguous_length n c a \<le> a" "contiguous_length n c a \<le> n - cursor_physical n c"
  by (auto simp: contiguous_length_def Let_def)

lemma ring_step_claim:
  assumes "ring_inv r"
  shows "ring_step_ok (Dma_claim n) m r"
proof (cases "n = 0 \<or> reservation_active r \<or> dma_active (dma_claim r)")
  case True
  then show ?thesis
    using assms ring_invD(1) [OF assms] by (auto simp: ring_step_ok_def wl_rx_ring_dma_claim_def)
next
  case False
  define r1 where "r1 = dma_normalise r n"
  note f = dma_normalise_facts [OF assms _ _ r1_def]
  have inv: "ring_inv r1" using f False by simp
  note i = ring_invD [OF inv]
  let ?n = "ring_capacity r1"
  let ?len = "min (contiguous_length ?n (write_cursor r1) (?n - ring_readable r1)) n"
  let ?tok = "if dma_next_token r1 = 0 then 1 else dma_next_token r1"
  let ?r = "r1\<lparr>dma_next_token := ?tok + 1,
     dma_claim := \<lparr>dma_cursor = write_cursor r1, dma_length = ?len, dma_published = 0,
                   dma_token = ?tok, dma_active = True\<rparr>\<rparr>"
  have "snd (wl_rx_ring_dma_claim r n) = r1 \<or> snd (wl_rx_ring_dma_claim r n) = ?r"
    using False ring_invD(1) [OF assms] i(5)
    by (auto simp: wl_rx_ring_dma_claim_def r1_def [symmetric] ring_readable_def Let_def min_def)
  moreover have "ring_inv ?r"
    using inv f False i(2,4) contiguous_length_le [of ?n "write_cursor r1" "?n - ring_readable r1"]
    by (auto simp: ring_inv_def ring_readable_def cursor_advance_def min_def)
  moreover have "ring_pending m ?r = ring_pending m r1"
    by (simp add: ring_pending_def ring_readable_def ring_addr_def)
  ultimately show ?thesis using inv f False by (auto simp: ring_step_ok_def)
qed

lemma ring_step:
  assumes "ring_inv r"
  shows "ring_step_ok op m r"
  using assms ring_step_simple ring_step_find ring_step_consume ring_step_reserve ring_step_commit
    ring_step_publish ring_step_store ring_step_claim
  by (cases op) auto

interpretation ring: spsc_channel ring_exec "\<lambda>(m, r). ring_inv r" "\<lambda>(m, r). ring_pending m r"
  ring_pushed ring_popped "\<lambda>(m, r). ring_capacity r"
proof unfold_locales
  fix s :: "mem \<times> wl_rx_bipbuf" and op
  obtain m r where s: "s = (m, r)" by (cases s)
  assume "case s of (m, r) \<Rightarrow> ring_inv r"
  then have inv: "ring_inv r" by (simp add: s)
  note ok = ring_step [OF inv, of op m, unfolded ring_step_ok_def, folded s]
  show "case ring_exec op s of (m, r) \<Rightarrow> ring_inv r"
    "ring_popped op s @ (case ring_exec op s of (m, r) \<Rightarrow> ring_pending m r) =
       (case s of (m, r) \<Rightarrow> ring_pending m r) @ ring_pushed op s"
    "(case ring_exec op s of (m, r) \<Rightarrow> ring_capacity r) = (case s of (m, r) \<Rightarrow> ring_capacity r)"
    "length (case s of (m, r) \<Rightarrow> ring_pending m r) \<le> (case s of (m, r) \<Rightarrow> ring_capacity r)"
    using ok ring_invD(5) [OF inv] by (auto simp: s split: prod.splits)
qed

section \<open>The delimiter search and its cache\<close>

definition first_index :: "'a \<Rightarrow> 'a list \<Rightarrow> nat option" where
  "first_index v xs = (if v \<in> set xs then Some (length (takeWhile (\<lambda>x. x \<noteq> v) xs)) else None)"

lemma first_index_simps [simp]:
  "first_index v [] = None"
  "first_index v (x # xs) = (if x = v then Some 0 else map_option Suc (first_index v xs))"
  by (auto simp: first_index_def)

lemma first_index_append:
  "first_index v (xs @ ys) =
     (case first_index v xs of Some i \<Rightarrow> Some i | None \<Rightarrow> map_option ((+) (length xs)) (first_index v ys))"
  by (induction xs; cases "first_index v ys") (auto split: option.split)

lemma first_index_SomeD:
  "first_index v xs = Some i \<Longrightarrow> i < length xs \<and> xs ! i = v \<and> (\<forall>j<i. xs ! j \<noteq> v)"
  by (induction xs arbitrary: i) (auto split: if_splits simp: nth_Cons split: nat.splits)

lemma memchr_eq: "memchr m base v n = first_index v (read_bytes m base n)"
  by (induction n arbitrary: base) (auto simp: read_bytes_Suc)

lemma ring_pending_region:
  assumes "ring_inv r" "off \<le> ring_readable r"
    and len: "len = contiguous_length (ring_capacity r)
                (cursor_advance (ring_capacity r * 2) (read_cursor r) off) (ring_readable r - off)"
  shows "read_bytes m (ring_memory r + cursor_physical (ring_capacity r)
            (cursor_advance (ring_capacity r * 2) (read_cursor r) off)) len =
         take len (drop off (ring_pending m r))"
    and "off < ring_readable r \<Longrightarrow> 0 < len" "off + len \<le> ring_readable r"
proof -
  note i = ring_invD [OF assms(1)]
  let ?n = "ring_capacity r"
  let ?c = "cursor_advance (?n * 2) (read_cursor r) off"
  have c: "?c < ?n * 2" using i assms(2) by (intro cursor_advance_less) auto
  have phys: "cursor_physical ?n ?c < ?n" using c i(2) by (simp add: cursor_physical_mod mult.commute)
  show pos: "off < ring_readable r \<Longrightarrow> 0 < len" "off + len \<le> ring_readable r"
    using phys assms(2) by (auto simp: len contiguous_length_def Let_def)
  have "ring_addr r ?c k = ring_addr r (read_cursor r) (off + k)" for k
  proof -
    have "?c mod ?n = (read_cursor r + off) mod ?n"
      using i assms(2) by (simp add: cursor_advance_mod mod_mult2_eq)
    then show ?thesis unfolding ring_addr_def by (metis add.assoc mod_add_left_eq)
  qed
  then show "read_bytes m (ring_memory r + cursor_physical ?n ?c) len = take len (drop off (ring_pending m r))"
    using ring_addr_contiguous [of ?c r _ "ring_readable r - off"] c pos(2)
    by (intro nth_equalityI) (auto simp: ring_pending_def len [symmetric] mult.commute)
qed

lemma rx_find_loop_eq:
  assumes "ring_inv r" "off \<le> ring_readable r" "ring_readable r - off \<le> fuel"
  shows "rx_find_loop fuel m r v (read_cursor r) (ring_readable r) off =
         map_option ((+) off) (first_index v (drop off (ring_pending m r)))"
  using assms(2,3)
proof (induction fuel arbitrary: off)
  case (Suc fuel)
  define len where "len = contiguous_length (ring_capacity r)
     (cursor_advance (ring_capacity r * 2) (read_cursor r) off) (ring_readable r - off)"
  note reg = ring_pending_region [OF assms(1) Suc.prems(1) len_def]
  let ?xs = "drop off (ring_pending m r)"
  show ?case
  proof (cases "off < ring_readable r")
    case True
    have "first_index v ?xs = first_index v (take len ?xs @ drop (off + len) (ring_pending m r))"
      by (metis append_take_drop_id drop_drop add.commute)
    moreover have "rx_find_loop fuel m r v (read_cursor r) (ring_readable r) (off + len) =
         map_option ((+) (off + len)) (first_index v (drop (off + len) (ring_pending m r)))"
      using Suc.IH [of "off + len"] reg(2) [OF True] reg(3) Suc.prems(2) by simp
    ultimately show ?thesis
      using True reg
      by (cases "first_index v (drop (off + len) (ring_pending m r))")
        (auto simp: Let_def len_def [symmetric] memchr_eq first_index_append split: option.split)
  qed (use Suc.prems in simp)
qed simp

definition cache_ok :: "mem \<Rightarrow> wl_rx_bipbuf \<Rightarrow> bool" where
  "cache_ok m r \<longleftrightarrow> (find_valid r \<longrightarrow>
     (if find_read r = read_cursor r
      then find_scanned r \<le> ring_readable r \<and>
           first_index 0 (take (find_scanned r) (ring_pending m r)) =
             (if find_found r then Some (find_offset r) else None)
      else find_scanned r = 0 \<and> \<not> find_found r))"

lemma first_index_prefix:
  "first_index v (take k xs) = Some i \<Longrightarrow> first_index v xs = Some i"
  using first_index_append [of v "take k xs" "drop k xs"] by simp

lemma first_index_skip:
  "first_index v (take k xs) = None \<Longrightarrow>
   first_index v xs = map_option ((+) (min k (length xs))) (first_index v (drop k xs))"
  using first_index_append [of v "take k xs" "drop k xs"] by (simp add: min.commute)

lemma ring_find:
  assumes "ring_inv r" "cache_ok m r" "wl_rx_ring_consumer_find m r v = (res, r')"
  shows "res = (case first_index v (ring_pending m r) of Some i \<Rightarrow> Inr i | None \<Rightarrow> Inl WL_ERR_NO_DATA)"
    and "cache_ok m r'"
proof -
  note i = ring_invD [OF assms(1)]
  let ?n = "ring_readable r" and ?xs = "ring_pending m r"
  let ?hit = "v = 0 \<and> find_valid r \<and> find_read r = read_cursor r \<and> find_scanned r \<le> ?n"
  define off where "off = (if ?hit then find_scanned r else 0)"
  define r1 where "r1 = (if v = 0 then r\<lparr>find_valid := True, find_read := read_cursor r,
     find_found := False\<rparr> else r)"
  have inv1: "ring_inv r1" and eqs: "ring_readable r1 = ?n" "ring_pending m r1 = ?xs"
    "read_cursor r1 = read_cursor r"
    using assms(1) by (auto simp: r1_def ring_inv_def ring_readable_def ring_pending_def ring_addr_def)
  have skip: "first_index v ?xs = map_option ((+) off) (first_index v (drop off ?xs))"
    if "\<not> (?hit \<and> find_found r)"
    using that assms(2) first_index_skip [of v off ?xs]
    by (cases "first_index v (drop off ?xs)") (auto simp: off_def cache_ok_def min_def split: if_splits)
  have loop: "rx_find_loop (?n + 1) m r1 v (read_cursor r) ?n off = first_index v ?xs"
    if "\<not> (?hit \<and> find_found r)"
    using rx_find_loop_eq [OF inv1, of off "?n + 1" m v] skip [OF that] by (simp add: eqs off_def)
  have eq: "(res, r') =
      (if ?hit \<and> find_found r then (Inr (find_offset r), r)
       else case rx_find_loop (?n + 1) m r1 v (read_cursor r) ?n off of
              Some i \<Rightarrow> (Inr i, if v = 0 then r1\<lparr>find_offset := i, find_found := True, find_scanned := ?n\<rparr>
                              else r1)
            | None \<Rightarrow> (Inl WL_ERR_NO_DATA, if v = 0 then r1\<lparr>find_scanned := ?n\<rparr> else r1))"
    unfolding assms(3) [symmetric] wl_rx_ring_consumer_find_def Let_def i(6) prod.case off_def r1_def
    using i(1) by (simp only: if_False)
  have "res = (case first_index v ?xs of Some i \<Rightarrow> Inr i | None \<Rightarrow> Inl WL_ERR_NO_DATA) \<and> cache_ok m r'"
  proof (cases "?hit \<and> find_found r")
    case True
    then have "first_index v ?xs = Some (find_offset r)"
      using assms(2) first_index_prefix [of v "find_scanned r" ?xs] by (simp add: cache_ok_def)
    then show ?thesis using eq True assms(2) by auto
  next
    case False
    have pend: "ring_pending m (r1\<lparr>find_offset := k, find_found := b, find_scanned := l\<rparr>) = ?xs"
      "ring_readable (r1\<lparr>find_offset := k, find_found := b, find_scanned := l\<rparr>) = ?n"
      "ring_pending m (r1\<lparr>find_scanned := l\<rparr>) = ?xs" "ring_readable (r1\<lparr>find_scanned := l\<rparr>) = ?n" for k b l
      using eqs by (simp_all add: ring_pending_def ring_readable_def ring_addr_def)
    have v0: "v = 0 \<Longrightarrow> find_valid r1 \<and> find_read r1 = read_cursor r \<and> \<not> find_found r1" and vn: "v \<noteq> 0 \<Longrightarrow> r1 = r"
      by (simp_all add: r1_def)
    show ?thesis
      using eq False loop [OF False] assms(2) v0 vn
      by (cases "first_index v ?xs"; cases "v = 0") (auto simp: cache_ok_def pend eqs)
  qed
  then show "res = (case first_index v ?xs of Some i \<Rightarrow> Inr i | None \<Rightarrow> Inl WL_ERR_NO_DATA)" "cache_ok m r'"
    by simp_all
qed

lemma dma_claim_result:
  "snd (wl_rx_ring_dma_claim r n) = r \<or>
   (\<exists>t d. snd (wl_rx_ring_dma_claim r n) = (dma_normalise r n)\<lparr>dma_next_token := t, dma_claim := d\<rparr>)"
proof -
  have same: "\<exists>t d. r1 = r1\<lparr>dma_next_token := t, dma_claim := d\<rparr>" for r1 :: wl_rx_bipbuf
    by (rule exI [of _ "dma_next_token r1"], rule exI [of _ "dma_claim r1"]) simp
  define r1 where "r1 = dma_normalise r n"
  show ?thesis
    unfolding wl_rx_ring_dma_claim_def r1_def [symmetric]
    using same [of r1] by (simp only: Let_def if_distrib [of snd] snd_conv split: if_split) blast
qed

lemma find_fields_claim:
  assumes "r' = snd (wl_rx_ring_dma_claim r n)"
  shows "find_valid r' = find_valid r \<and> find_read r' = find_read r \<and> find_scanned r' = find_scanned r \<and>
    find_found r' = find_found r \<and> find_offset r' = find_offset r \<and>
    (read_cursor r' = read_cursor r \<or> ring_readable r = 0)"
  using dma_claim_result [of r n, folded assms]
  by (auto simp: dma_normalise_def Let_def ring_readable_def cursor_distance_def split: if_splits)

lemma ring_exec_find_fields:
  assumes r': "r' = snd (ring_exec op (m, r))" and "\<forall>v. op \<noteq> Find v" "\<forall>n. op \<noteq> Consume n"
  shows "find_valid r' = find_valid r \<and> find_read r' = find_read r \<and> find_scanned r' = find_scanned r \<and>
    find_found r' = find_found r \<and> find_offset r' = find_offset r \<and>
    (read_cursor r' = read_cursor r \<or> ring_readable r = 0)"
  using assms find_fields_claim [of r' r]
  by (cases op) (simp_all add: wl_rx_ring_producer_reserve_def wl_rx_ring_producer_commit_def
      wl_rx_ring_dma_publish_def wl_rx_ring_dma_finish_def wl_rx_ring_dma_abort_def Let_def
      wl_rx_ring_producer_note_overflow_def wl_rx_ring_consumer_take_overflow_def split: option.split)

lemma cache_ok_step:
  assumes inv: "ring_inv r" and c: "cache_ok m r" and e: "ring_exec op (m, r) = (m', r')"
  shows "cache_ok m' r'"
proof -
  consider (find) v where "op = Find v" | (consume) n where "op = Consume n"
    | (other) "\<forall>v. op \<noteq> Find v" "\<forall>n. op \<noteq> Consume n" by blast
  then show ?thesis
  proof cases
    case find
    then show ?thesis using e ring_find(2) [OF inv c prod.collapse [symmetric]] by auto
  next
    case consume
    show ?thesis
    proof (cases "n \<le> ring_readable r")
      case True
      then have "\<not> find_valid r'"
        using e consume ring_invD(1,6) [OF inv] by (auto simp: wl_rx_ring_consumer_consume_def)
      then show ?thesis by (simp add: cache_ok_def)
    next
      case False
      then show ?thesis
        using e c consume ring_invD(1,6) [OF inv] by (simp add: wl_rx_ring_consumer_consume_def)
    qed
  next
    case other
    have r': "r' = snd (ring_exec op (m, r))" by (simp add: e)
    note f = ring_exec_find_fields [OF r' other]
    have "ring_popped op (m, r) = []" using other by (cases op) auto
    then have pend: "ring_pending m' r' = ring_pending m r @ ring_pushed op (m, r)"
      using ring_step [OF inv, of op m] e by (simp add: ring_step_ok_def)
    have "ring_readable r \<le> ring_readable r'" using arg_cong [OF pend, of length] by simp
    moreover have "find_scanned r \<le> ring_readable r \<Longrightarrow>
        take (find_scanned r) (ring_pending m' r') = take (find_scanned r) (ring_pending m r)"
      by (simp add: pend)
    moreover have "find_valid r \<Longrightarrow> ring_readable r = 0 \<Longrightarrow> find_scanned r = 0 \<and> \<not> find_found r"
      using c by (cases "find_read r = read_cursor r"; cases "find_found r") (simp_all add: cache_ok_def)
    ultimately show ?thesis
      using c f unfolding cache_ok_def by (cases "find_read r = read_cursor r"; cases "read_cursor r' = read_cursor r") auto
  qed
qed

section \<open>Consumer views\<close>

lemma ring_peek:
  assumes "ring_inv r"
  shows "read_bytes m (span_data (wl_rx_ring_consumer_peek r)) (span_length (wl_rx_ring_consumer_peek r)) =
         take (span_length (wl_rx_ring_consumer_peek r)) (ring_pending m r)"
    and "span_length (wl_rx_ring_consumer_peek r) \<le> ring_readable r"
    and "0 < ring_readable r \<Longrightarrow> 0 < span_length (wl_rx_ring_consumer_peek r)"
  using ring_invD [OF assms] ring_pending_region [OF assms _ refl, of 0]
  by (auto simp: wl_rx_ring_consumer_peek_def cursor_advance_def)

lemma ring_copy:
  assumes "ring_inv r" "out \<noteq> NULL \<or> len = 0"
    and dis: "disjoint_ranges (ring_memory r) (ring_capacity r) out len"
  shows "wl_rx_ring_consumer_copy m r offset out len =
    (if offset + len \<le> ring_readable r
     then (WL_OK, write_bytes m out (take len (drop offset (ring_pending m r))))
     else (WL_ERR_NO_DATA, m))"
proof -
  note i = ring_invD [OF assms(1)]
  let ?n = "ring_capacity r" and ?xs = "ring_pending m r"
  let ?c = "cursor_advance (?n * 2) (read_cursor r) offset"
  let ?first = "contiguous_length ?n ?c len"
  show ?thesis
  proof (cases "offset + len \<le> ring_readable r \<and> 0 < len")
    case True
    have c: "?c < ?n * 2" using i True by (intro cursor_advance_less) auto
    have phys: "cursor_physical ?n ?c < ?n" using c i(2) by (simp add: cursor_physical_mod mult.commute)
    have adv: "ring_addr r (read_cursor r) (offset + k) = ring_addr r ?c k" for k
    proof -
      have "?c mod ?n = (read_cursor r + offset) mod ?n"
        using i True by (simp add: cursor_advance_mod mod_mult2_eq)
      then show ?thesis unfolding ring_addr_def by (metis add.assoc mod_add_left_eq)
    qed
    have A: "read_bytes m (ring_memory r + cursor_physical ?n ?c) ?first = take ?first (drop offset ?xs)"
      using ring_addr_contiguous [of ?c r _ len] c True contiguous_length_le(1) [of ?n ?c len]
      by (intro nth_equalityI) (auto simp: ring_pending_def adv mult.commute)
    show ?thesis
    proof (cases "?first < len")
      case wrap: True
      then have first: "?first = ?n - cursor_physical ?n ?c" by (auto simp: contiguous_length_def Let_def)
      have wrap_addr: "ring_addr r ?c (?first + k) = ring_memory r + k" if "k < len - ?first" for k
      proof -
        have "k < ?n" using that conjunct1 [OF True] i(5) by linarith
        moreover have "(?c + (?first + k)) mod ?n = (cursor_physical ?n ?c + (?first + k)) mod ?n"
          using c by (simp add: cursor_physical_mod mult.commute mod_add_left_eq)
        ultimately show ?thesis using first phys by (simp add: ring_addr_def)
      qed
      have B: "read_bytes m (ring_memory r) (len - ?first) = take (len - ?first) (drop (offset + ?first) ?xs)"
        using wrap_addr True adv [of "?first + _"]
        by (intro nth_equalityI) (auto simp: ring_pending_def add.assoc)
      have "take len (drop offset ?xs) = take ?first (drop offset ?xs) @
          take (len - ?first) (drop (offset + ?first) ?xs)"
        using wrap take_add [of ?first "len - ?first" "drop offset ?xs"] by (simp add: add.commute)
      moreover have "length (take ?first (drop offset ?xs)) = ?first" using True wrap by simp
      moreover have "read_bytes (write_bytes m out (take ?first (drop offset ?xs))) (ring_memory r) (len - ?first)
          = read_bytes m (ring_memory r) (len - ?first)"
        using dis wrap True i(5) by (intro read_write_disjoint) (auto simp: disjoint_ranges_def)
      ultimately show ?thesis
        using True i assms(2) wrap A B
        by (simp add: wl_rx_ring_consumer_copy_def memmove_def write_bytes_append Let_def)
    next
      case False
      then have "?first = len" using contiguous_length_le(1) [of ?n ?c len] by simp
      then show ?thesis
        using True i assms(2) A by (auto simp: wl_rx_ring_consumer_copy_def memmove_def Let_def)
    qed
  next
    case False
    then show ?thesis using i assms(2) by (auto simp: wl_rx_ring_consumer_copy_def)
  qed
qed

lemma wl_rx_ring_init_inv:
  assumes "wl_rx_ring_init lf r0 memory n = (WL_OK, r)"
  shows "ring_inv r" "ring_pending m r = []" "ring_capacity r = n" "ring_memory r = memory" "cache_ok m r"
  using assms
  by (auto simp: wl_rx_ring_init_def Let_def ring_inv_def ring_readable_def cursor_distance_def
      no_dma_claim_def ring_pending_def cache_ok_def split: if_splits)

lemma ring_reserve:
  assumes "ring_inv r" "\<not> reservation_active r" "\<not> dma_active (dma_claim r)"
  shows "\<exists>span r'. wl_rx_ring_producer_reserve r = (Inr span, r') \<and>
     span_data span = producer_base r' \<and> span_length span = reservation_length r' \<and>
     reservation_active r' \<and> (span_length span = 0 \<longleftrightarrow> ring_readable r = ring_capacity r)"
proof -
  note i = ring_invD [OF assms(1)]
  have "cursor_physical (ring_capacity r) (write_cursor r) < ring_capacity r"
    using i by (simp add: cursor_physical_mod mult.commute)
  then show ?thesis
    using assms i by (auto simp: wl_rx_ring_producer_reserve_def Let_def producer_base_def
        ring_readable_def contiguous_length_def)
qed

lemma ring_has_space:
  assumes "ring_inv r"
  shows "wl_rx_ring_has_space r \<longleftrightarrow> ring_readable r < ring_capacity r"
  using ring_invD [OF assms] by (simp add: wl_rx_ring_has_space_def ring_readable_def)

section \<open>Properties\<close>

text \<open>
  C5. The ring is a byte FIFO under every interleaving of producer and consumer operations,
  including direct-DMA claims, partial publication, aborts and cursor normalisation: starting from
  any initialised state, the bytes consumed followed by the bytes still readable are exactly the
  bytes that were readable at first followed by the bytes published, in order; never more than the
  capacity is readable, and the cursor invariant holds throughout.
\<close>

theorem ring_fifo:
  assumes "ring_inv r" "run_ops ring_exec ops (m, r) = (m', r')"
  shows "trace ring_exec ring_popped ops (m, r) @ ring_pending m' r' =
           ring_pending m r @ trace ring_exec ring_pushed ops (m, r) \<and>
         ring_inv r' \<and> wl_rx_ring_readable r' = length (ring_pending m' r') \<and>
         length (ring_pending m' r') \<le> ring_capacity r"
  using ring.run_fifo [of "(m, r)" ops] ring.run_inv [of "(m, r)" ops] ring.run_bound [of "(m, r)" ops]
    assms ring_invD [of r'] by (simp add: wl_rx_ring_readable_def)

text \<open>The witness fills a four-byte ring past its end, so that the data wraps.\<close>

definition blank_ring :: wl_rx_bipbuf where
  "blank_ring = \<lparr>ring_memory = NULL, ring_capacity = 0, read_cursor = 0, write_cursor = 0,
     overflow_events = 0, find_read = 0, find_scanned = 0, find_offset = 0, find_valid = False,
     find_found = False, reservation_cursor = 0, reservation_length = 0, reservation_active = False,
     dma_next_token = 0, dma_claim = no_dma_claim\<rparr>"

definition demo_ring :: wl_rx_bipbuf where
  "demo_ring = snd (wl_rx_ring_init True blank_ring 100 4)"

definition demo_ring_ops :: "ring_op list" where
  "demo_ring_ops = [Reserve, Store 0 1, Store 1 2, Store 2 3, Commit 3, Consume 2,
                    Reserve, Store 0 4, Commit 1, Reserve, Store 0 5, Store 1 6, Commit 2, Consume 3]"

lemmas demo_ring_eval = demo_ring_def wl_rx_ring_init_def SIZE_MAX_def ring_uninit_def
  wl_rx_ring_producer_reserve_def wl_rx_ring_producer_commit_def wl_rx_ring_consumer_consume_def
  readable_snapshot_def cursor_distance_def cursor_advance_def cursor_physical_def
  contiguous_length_def Let_def producer_owns_def producer_base_def no_dma_claim_def
  dma_normalise_def read_bytes_def upt_rec ring_pending_def ring_readable_def ring_addr_def

lemma demo_ring_init: "wl_rx_ring_init True blank_ring 100 4 = (WL_OK, demo_ring)"
  by (simp add: demo_ring_def wl_rx_ring_init_def SIZE_MAX_def)

theorem ring_fifo_witness:
  "case run_ops ring_exec demo_ring_ops (\<lambda>_. 0, demo_ring) of (m', r') \<Rightarrow>
     trace ring_exec ring_popped demo_ring_ops (\<lambda>_. 0, demo_ring) @ ring_pending m' r' = [1, 2, 3, 4, 5, 6] \<and>
     length (ring_pending m' r') \<le> 4"
proof -
  have "trace ring_exec ring_pushed demo_ring_ops (\<lambda>_. 0, demo_ring) = [1, 2, 3, 4, 5, 6]"
    by (simp add: demo_ring_ops_def demo_ring_eval)
  moreover obtain m' r' where "run_ops ring_exec demo_ring_ops (\<lambda>_. 0, demo_ring) = (m', r')"
    by (rule prod.exhaust)
  ultimately show ?thesis
    using ring_fifo [OF wl_rx_ring_init_inv(1) [OF demo_ring_init], of demo_ring_ops "\<lambda>_. 0" m' r']
      wl_rx_ring_init_inv [OF demo_ring_init] by simp
qed

lemma cache_ok_run:
  assumes "ring_inv r" "cache_ok m r" "run_ops ring_exec ops (m, r) = (m', r')"
  shows "ring_inv r' \<and> cache_ok m' r'"
  using assms
proof (induction ops arbitrary: m r)
  case (Cons op ops)
  obtain m1 r1 where e: "ring_exec op (m, r) = (m1, r1)" by (rule prod.exhaust)
  have "ring_inv r1" using ring_step [OF Cons.prems(1), of op m] e by (simp add: ring_step_ok_def)
  then show ?case using Cons cache_ok_step [OF Cons.prems(1,2) e] e by simp
qed simp

text \<open>
  C16. The delimiter search is exact despite its cache: after any run of producer and consumer
  operations from initialisation, \<^verbatim>\<open>wl_rx_ring_consumer_find\<close> returns the offset of the first
  occurrence of the byte among the readable bytes, or \<^verbatim>\<open>WL_ERR_NO_DATA\<close> when there is none; the
  loop always reaches the end of the readable bytes.
\<close>

theorem ring_find_exact:
  assumes "wl_rx_ring_init lf r0 memory n = (WL_OK, r)"
    and "run_ops ring_exec ops (m, r) = (m', r')"
  shows "fst (wl_rx_ring_consumer_find m' r' v) =
           (case first_index v (ring_pending m' r') of
              Some i \<Rightarrow> Inr i | None \<Rightarrow> Inl WL_ERR_NO_DATA)"
  using cache_ok_run [OF wl_rx_ring_init_inv(1,5) [OF assms(1)] assms(2)]
    ring_find(1) [OF _ _ prod.collapse [symmetric]] by auto

definition demo_find_ops :: "ring_op list" where
  "demo_find_ops = [Reserve, Store 0 7, Store 1 8, Commit 2, Find 0, Reserve, Store 0 9, Store 1 0, Commit 2, Find 0]"

lemma find_loop_pos:
  "0 < fuel \<Longrightarrow> rx_find_loop fuel m r v rd readable offset =
     (if offset < readable then
        let cursor = cursor_advance (ring_capacity r * 2) rd offset;
            len = contiguous_length (ring_capacity r) cursor (readable - offset);
            base = ring_memory r + cursor_physical (ring_capacity r) cursor
        in case memchr m base v len of
             Some i \<Rightarrow> Some (offset + i)
           | None \<Rightarrow> rx_find_loop (fuel - 1) m r v rd readable (offset + len)
      else None)"
  by (auto simp only: rx_find_loop.simps diff_Suc_1 dest!: gr0_implies_Suc)

lemma memchr_pos:
  "0 < n \<Longrightarrow>
   memchr m base v n = (if m base = v then Some 0 else map_option Suc (memchr m (base + 1) v (n - 1)))"
  by (cases n) simp_all

theorem ring_find_exact_witness:
  "case run_ops ring_exec demo_find_ops (\<lambda>_. 0, demo_ring) of (m', r') \<Rightarrow>
     fst (wl_rx_ring_consumer_find m' r' 0) = Inr 3 \<and> find_found r'"
proof -
  obtain m' r' where e: "run_ops ring_exec demo_find_ops (\<lambda>_. 0, demo_ring) = (m', r')"
    by (rule prod.exhaust)
  have "find_found (snd (run_ops ring_exec demo_find_ops (\<lambda>_. 0, demo_ring)))"
    "ring_pending (fst (run_ops ring_exec demo_find_ops (\<lambda>_. 0, demo_ring)))
                  (snd (run_ops ring_exec demo_find_ops (\<lambda>_. 0, demo_ring))) = [7, 8, 9, 0]"
    by (simp_all add: demo_find_ops_def demo_ring_eval wl_rx_ring_consumer_find_def find_loop_pos memchr_pos)
  then show ?thesis using ring_find_exact [OF demo_ring_init e, of 0] e by simp
qed

text \<open>The states a claim passes through while it moves the cursors of an empty ring.\<close>

definition normalise_states :: "wl_rx_bipbuf \<Rightarrow> nat \<Rightarrow> wl_rx_bipbuf list" where
  "normalise_states r maximum_length =
     (let r' = dma_normalise r maximum_length
      in [r, r\<lparr>read_cursor := read_cursor r'\<rparr>, r'])"

definition torn_snapshot :: "wl_rx_bipbuf \<Rightarrow> wl_rx_bipbuf \<Rightarrow> nat" where
  "torn_snapshot early late = fst (readable_snapshot (late\<lparr>write_cursor := write_cursor early\<rparr>))"

text \<open>
  C17. Direct-DMA normalisation is never visible as data. While a claim moves both cursors of an empty
  ring, a consumer that loads the write cursor from one of the states the producer passes through and
  the read cursor from the same or a later one, in the order the source loads them, computes zero
  readable bytes.
\<close>

theorem normalisation_never_readable:
  assumes "ring_inv r" "ring_pending m r = []" "i \<le> j" "j < length (normalise_states r n)"
  shows "torn_snapshot (normalise_states r n ! i) (normalise_states r n ! j) = 0"
proof -
  note inv = ring_invD [OF assms(1)]
  have "ring_readable r = 0" using assms(2) by (metis length_ring_pending list.size(3))
  then have eq: "write_cursor r = read_cursor r"
    using inv(3,4) by (auto simp: ring_readable_def cursor_distance_def split: if_splits)
  consider "i = 0" "j = 0" | "i = 0" "j = 1" | "i = 0" "j = 2" | "i = 1" "j = 1" | "i = 1" "j = 2"
    | "i = 2" "j = 2"
    using assms(3,4) by (force simp: normalise_states_def Let_def less_Suc_eq numeral_2_eq_2)
  then show ?thesis
    using eq inv(2-4)
    by cases (auto simp: torn_snapshot_def normalise_states_def readable_snapshot_def Let_def
        dma_normalise_def cursor_distance_def contiguous_length_def cursor_physical_def)
qed

theorem normalisation_never_readable_witness:
  "let r = snd (run_ops ring_exec [Reserve, Commit 3, Consume 3] (\<lambda>_. 0, demo_ring)) in
   read_cursor (dma_normalise r 4) \<noteq> read_cursor r \<and>
   torn_snapshot (normalise_states r 4 ! 0) (normalise_states r 4 ! 1) = 0"
proof -
  let ?s = "run_ops ring_exec [Reserve, Commit 3, Consume 3] (\<lambda>_. 0, demo_ring)"
  have inv: "ring_inv (snd ?s)"
    using ring.run_inv [of "(\<lambda>_. 0, demo_ring)" "[Reserve, Commit 3, Consume 3]"]
      wl_rx_ring_init_inv(1) [OF demo_ring_init]
    by (simp add: case_prod_unfold del: run_ops.simps)
  have "ring_pending (fst ?s) (snd ?s) = []" "read_cursor (dma_normalise (snd ?s) 4) \<noteq> read_cursor (snd ?s)"
    by (simp_all add: demo_ring_eval)
  then show ?thesis
    using normalisation_never_readable [OF inv, of "fst ?s" 0 1 4] by (simp add: normalise_states_def Let_def)
qed

text \<open>The two halves of a consume: the load of the read cursor and its store.\<close>

definition consume_load :: "wl_rx_bipbuf \<Rightarrow> nat \<Rightarrow> nat option" where
  "consume_load r len =
     (if ring_uninit r then None
      else
        let (readable, rd) = readable_snapshot r
        in if len > readable then None else Some (cursor_advance (ring_capacity r * 2) rd len))"

definition consume_store :: "wl_rx_bipbuf \<Rightarrow> nat \<Rightarrow> wl_rx_bipbuf" where
  "consume_store r c = r\<lparr>find_valid := False, read_cursor := c\<rparr>"

lemma consume_split:
  "snd (wl_rx_ring_consumer_consume r len) =
     (case consume_load r len of None \<Rightarrow> r | Some c \<Rightarrow> consume_store r c)"
  by (simp add: wl_rx_ring_consumer_consume_def consume_load_def consume_store_def Let_def split_beta)

text \<open>
  C18. A consume of zero bytes is not harmless: it stores back the read cursor it loaded. If the
  producer's claim normalises the empty ring between that load and that store, the ring afterwards
  presents a byte as readable that no producer ever published.
\<close>

theorem empty_consume_race:
  "let s = run_ops ring_exec [Reserve, Commit 3, Consume 3] (\<lambda>_. 0, demo_ring);
       r = snd s
   in ring_pending (fst s) r = [] \<and>
      (case consume_load r 0 of
         Some c \<Rightarrow> wl_rx_ring_readable (consume_store (snd (wl_rx_ring_dma_claim r 4)) c) = 1
       | None \<Rightarrow> False)"
  by (simp add: demo_ring_eval consume_load_def consume_store_def wl_rx_ring_readable_def
      wl_rx_ring_dma_claim_def)

end
