(* ===== verification/Unit_Queue.thy ===== *)
theory Unit_Queue
  imports Frame Channel
begin

text \<open>
  The packet unit queue, \<^verbatim>\<open>src/unit_rx.c\<close>: a ring of two to eight fixed-size slots with free-running
  32-bit cursors, filled through claims by the producer and drained by the link owner.

  The functions take the parts of the link context they read: whether the context is initialised,
  its configuration, and the queue state \<^verbatim>\<open>rx_units\<close>. The abstraction is the list of committed units.
  The cursors wrap modulo \<open>2^32\<close> while slots are selected by the remainder modulo the slot
  count; the theory shows that the queue is a FIFO when the slot count divides \<open>2^32\<close>, and that it
  is not for the other slot counts the initialiser accepts.
\<close>

section \<open>State\<close>

record wl_rx_unit_queue =
  uq_storage :: addr
  uq_unit_size :: nat
  uq_lengths :: "nat list"
  uq_write_cursor :: u32
  uq_read_cursor :: u32
  uq_claim_cursor :: u32
  uq_claim_token :: u32
  uq_slot_count :: nat
  uq_claim_active :: bool
  uq_initialized :: bool

record wl_rx_unit_queue_config =
  uqc_storage :: addr
  uqc_storage_size :: nat
  uqc_unit_size :: nat
  uqc_slot_count :: nat

record wl_rx_unit_claim_t =
  unit_span :: wl_span
  unit_token :: u32

abbreviation (input) "WL_RX_UNIT_QUEUE_MAX_SLOTS \<equiv> 8 :: nat"

section \<open>Operations\<close>

definition uq_slot :: "wl_rx_unit_queue \<Rightarrow> u32 \<Rightarrow> nat" where
  "uq_slot q cursor = unat cursor mod uq_slot_count q"

definition uq_slot_addr :: "wl_rx_unit_queue \<Rightarrow> u32 \<Rightarrow> addr" where
  "uq_slot_addr q cursor = uq_storage q + uq_slot q cursor * uq_unit_size q"

definition wl_rx_unit_queue_get_config ::
    "bool \<Rightarrow> wl_rx_unit_queue \<Rightarrow> wl_err + wl_rx_unit_queue_config" where
  "wl_rx_unit_queue_get_config link_initialized q =
     (if \<not> link_initialized then Inl WL_ERR_NOT_INITIALIZED
      else if \<not> uq_initialized q then Inl WL_ERR_NOT_INITIALIZED
      else Inr \<lparr>uqc_storage = uq_storage q, uqc_storage_size = uq_unit_size q * uq_slot_count q,
                uqc_unit_size = uq_unit_size q, uqc_slot_count = uq_slot_count q\<rparr>)"

definition wl_rx_unit_queue_init ::
    "bool \<Rightarrow> bool \<Rightarrow> wl_config \<Rightarrow> wl_rx_unit_queue \<Rightarrow> wl_rx_unit_queue_config \<Rightarrow> wl_err \<times> wl_rx_unit_queue" where
  "wl_rx_unit_queue_init lock_free link_initialized config q c =
     (if uqc_storage c = NULL \<or> uqc_unit_size c = 0 \<or> uqc_slot_count c < 2 \<or>
         uqc_slot_count c > WL_RX_UNIT_QUEUE_MAX_SLOTS \<or>
         uqc_unit_size c > SIZE_MAX div uqc_slot_count c \<or>
         uqc_storage_size c < uqc_unit_size c * uqc_slot_count c
      then (WL_ERR_INVALID_ARG, q)
      else if \<not> link_initialized then (WL_ERR_NOT_INITIALIZED, q)
      else if envelope config = WL_ENVELOPE_COBS_STREAM then (WL_ERR_NOT_SUPPORTED, q)
      else if uqc_unit_size c < wl_frame_raw_size (unat (max_payload_len config)) (integrity config)
      then (WL_ERR_BUF_TOO_SMALL, q)
      else
        let q = \<lparr>uq_storage = uqc_storage c, uq_unit_size = uqc_unit_size c,
                 uq_lengths = replicate WL_RX_UNIT_QUEUE_MAX_SLOTS 0, uq_write_cursor = 0,
                 uq_read_cursor = 0, uq_claim_cursor = 0, uq_claim_token = 0,
                 uq_slot_count = uqc_slot_count c, uq_claim_active = False, uq_initialized = False\<rparr>
        in if \<not> lock_free then (WL_ERR_NOT_SUPPORTED, q) else (WL_OK, q\<lparr>uq_initialized := True\<rparr>))"

definition wl_rx_unit_claim ::
    "bool \<Rightarrow> wl_rx_unit_queue \<Rightarrow> nat \<Rightarrow> (wl_err + wl_rx_unit_claim_t) \<times> wl_rx_unit_queue" where
  "wl_rx_unit_claim link_initialized q maximum_length =
     (if maximum_length = 0 then (Inl WL_ERR_INVALID_ARG, q)
      else if \<not> link_initialized then (Inl WL_ERR_NOT_INITIALIZED, q)
      else if \<not> uq_initialized q then (Inl WL_ERR_NOT_INITIALIZED, q)
      else if uq_claim_active q then (Inl WL_ERR_BUSY, q)
      else if maximum_length > uq_unit_size q then (Inl WL_ERR_BUF_TOO_SMALL, q)
      else
        let wr = uq_write_cursor q; rd = uq_read_cursor q
        in if unat (wr - rd) \<ge> uq_slot_count q then (Inl WL_ERR_WOULD_BLOCK, q)
           else
             let token = uq_claim_token q + 1;
                 token = (if token = 0 then token + 1 else token)
             in (Inr \<lparr>unit_span = \<lparr>span_data = uq_slot_addr q wr, span_length = maximum_length\<rparr>,
                      unit_token = token\<rparr>,
                 q\<lparr>uq_claim_token := token, uq_claim_cursor := wr, uq_claim_active := True\<rparr>))"

definition claim_matches :: "wl_rx_unit_queue \<Rightarrow> wl_rx_unit_claim_t \<Rightarrow> bool" where
  "claim_matches q claim =
     (if \<not> uq_initialized q \<or> \<not> uq_claim_active q then False
      else unit_token claim = uq_claim_token q \<and>
           span_data (unit_span claim) = uq_slot_addr q (uq_claim_cursor q))"

definition wl_rx_unit_commit ::
    "bool \<Rightarrow> wl_rx_unit_queue \<Rightarrow> wl_rx_unit_claim_t \<Rightarrow> nat \<Rightarrow> wl_err \<times> wl_rx_unit_queue" where
  "wl_rx_unit_commit link_initialized q claim len =
     (if \<not> link_initialized then (WL_ERR_NOT_INITIALIZED, q)
      else if \<not> claim_matches q claim then (WL_ERR_NOT_FOUND, q)
      else if len = 0 \<or> len > span_length (unit_span claim) \<or> len > uq_unit_size q
      then (WL_ERR_INVALID_ARG, q)
      else
        let wr = uq_claim_cursor q
        in (WL_OK, q\<lparr>uq_lengths := (uq_lengths q)[uq_slot q wr := len], uq_claim_active := False,
                     uq_write_cursor := wr + 1\<rparr>))"

definition wl_rx_unit_abort ::
    "bool \<Rightarrow> wl_rx_unit_queue \<Rightarrow> wl_rx_unit_claim_t \<Rightarrow> wl_err \<times> wl_rx_unit_queue" where
  "wl_rx_unit_abort link_initialized q claim =
     (if \<not> link_initialized then (WL_ERR_NOT_INITIALIZED, q)
      else if \<not> claim_matches q claim then (WL_ERR_NOT_FOUND, q)
      else (WL_OK, q\<lparr>uq_claim_active := False\<rparr>))"

definition wl_rx_unit_consumer_peek :: "wl_rx_unit_queue \<Rightarrow> wl_span" where
  "wl_rx_unit_consumer_peek q =
     (if \<not> uq_initialized q then \<lparr>span_data = NULL, span_length = 0\<rparr>
      else if uq_read_cursor q = uq_write_cursor q then \<lparr>span_data = NULL, span_length = 0\<rparr>
      else \<lparr>span_data = uq_slot_addr q (uq_read_cursor q),
            span_length = uq_lengths q ! uq_slot q (uq_read_cursor q)\<rparr>)"

definition wl_rx_unit_consumer_has_data :: "wl_rx_unit_queue \<Rightarrow> bool" where
  "wl_rx_unit_consumer_has_data q =
     (if \<not> uq_initialized q then False else uq_read_cursor q \<noteq> uq_write_cursor q)"

definition wl_rx_unit_consumer_consume :: "wl_rx_unit_queue \<Rightarrow> wl_err \<times> wl_rx_unit_queue" where
  "wl_rx_unit_consumer_consume q =
     (if \<not> uq_initialized q then (WL_ERR_NOT_INITIALIZED, q)
      else if uq_read_cursor q = uq_write_cursor q then (WL_ERR_NO_DATA, q)
      else (WL_OK, q\<lparr>uq_lengths := (uq_lengths q)[uq_slot q (uq_read_cursor q) := 0],
                     uq_read_cursor := uq_read_cursor q + 1\<rparr>))"

section \<open>Abstraction and invariant\<close>

definition uq_unit :: "mem \<Rightarrow> wl_rx_unit_queue \<Rightarrow> u32 \<Rightarrow> byte list" where
  "uq_unit m q cursor = read_bytes m (uq_slot_addr q cursor) (uq_lengths q ! uq_slot q cursor)"

definition uq_count :: "wl_rx_unit_queue \<Rightarrow> nat" where
  "uq_count q = unat (uq_write_cursor q - uq_read_cursor q)"

definition uq_pending :: "mem \<Rightarrow> wl_rx_unit_queue \<Rightarrow> byte list list" where
  "uq_pending m q = map (\<lambda>k. uq_unit m q (uq_read_cursor q + of_nat k)) [0..<uq_count q]"

definition uq_inv :: "wl_rx_unit_queue \<Rightarrow> bool" where
  "uq_inv q \<longleftrightarrow>
     uq_initialized q \<and> 0 < uq_slot_count q \<and> uq_slot_count q dvd 2 ^ 32 \<and>
     uq_slot_count q \<le> WL_RX_UNIT_QUEUE_MAX_SLOTS \<and> uq_slot_count q \<le> length (uq_lengths q) \<and>
     (\<forall>n \<in> set (uq_lengths q). n \<le> uq_unit_size q) \<and>
     uq_count q \<le> uq_slot_count q \<and>
     (uq_claim_active q \<longrightarrow> uq_claim_cursor q = uq_write_cursor q \<and> uq_count q < uq_slot_count q)"

section \<open>The queue as a channel of units\<close>

text \<open>\<open>Unit_store i b\<close> is the producer writing byte \<open>b\<close> at offset \<open>i\<close> of the slot it has claimed.\<close>

datatype unit_op =
    Unit_claim nat | Unit_store nat byte | Unit_commit wl_rx_unit_claim_t nat
  | Unit_abort wl_rx_unit_claim_t | Unit_peek | Unit_consume

fun unit_exec :: "unit_op \<Rightarrow> mem \<times> wl_rx_unit_queue \<Rightarrow> mem \<times> wl_rx_unit_queue" where
  "unit_exec (Unit_claim n) (m, q) = (m, snd (wl_rx_unit_claim True q n))"
| "unit_exec (Unit_store i b) (m, q) =
     (if uq_claim_active q \<and> i < uq_unit_size q
      then m(uq_slot_addr q (uq_claim_cursor q) + i := b) else m, q)"
| "unit_exec (Unit_commit c n) (m, q) = (m, snd (wl_rx_unit_commit True q c n))"
| "unit_exec (Unit_abort c) (m, q) = (m, snd (wl_rx_unit_abort True q c))"
| "unit_exec Unit_peek (m, q) = (m, q)"
| "unit_exec Unit_consume (m, q) = (m, snd (wl_rx_unit_consumer_consume q))"

fun unit_pushed :: "unit_op \<Rightarrow> mem \<times> wl_rx_unit_queue \<Rightarrow> byte list list" where
  "unit_pushed (Unit_commit c n) (m, q) =
     (if fst (wl_rx_unit_commit True q c n) = WL_OK
      then [read_bytes m (uq_slot_addr q (uq_claim_cursor q)) n] else [])"
| "unit_pushed _ _ = []"

fun unit_popped :: "unit_op \<Rightarrow> mem \<times> wl_rx_unit_queue \<Rightarrow> byte list list" where
  "unit_popped Unit_consume (m, q) =
     (if fst (wl_rx_unit_consumer_consume q) = WL_OK
      then [read_bytes m (span_data (wl_rx_unit_consumer_peek q)) (span_length (wl_rx_unit_consumer_peek q))]
      else [])"
| "unit_popped _ _ = []"

lemma unat_of_nat_u32: "k < 2 ^ 32 \<Longrightarrow> unat (of_nat k :: u32) = k"
  by (simp add: unat_of_nat)

lemma uq_slot_add:
  assumes "uq_slot_count q dvd 2 ^ 32"
  shows "uq_slot q (c + of_nat k) = (unat c + k) mod uq_slot_count q"
proof -
  have "unat (c + of_nat k) = (unat c + k) mod 2 ^ 32"
    by (simp add: unat_word_ariths unat_of_nat mod_simps)
  then show ?thesis using assms by (simp only: uq_slot_def mod_mod_cancel)
qed

lemma uq_slot_inj:
  assumes "uq_slot_count q dvd 2 ^ 32" "i < uq_slot_count q" "j < uq_slot_count q" "i \<noteq> j"
  shows "uq_slot q (c + of_nat i) \<noteq> uq_slot q (c + of_nat j)"
  using assms mod_window_inj [OF assms(2,3)] by (auto simp: uq_slot_add)

lemma uq_write: "uq_write_cursor q = uq_read_cursor q + of_nat (uq_count q)"
  by (simp add: uq_count_def)

lemma uq_slot_less: "0 < uq_slot_count q \<Longrightarrow> uq_slot q c < uq_slot_count q"
  by (simp add: uq_slot_def)

lemma uq_slots_disjoint:
  assumes "uq_slot q c \<noteq> uq_slot q d" "x < uq_unit_size q" "y < uq_unit_size q"
  shows "uq_slot_addr q c + x \<noteq> uq_slot_addr q d + y"
proof
  assume "uq_slot_addr q c + x = uq_slot_addr q d + y"
  then have "uq_slot q c * uq_unit_size q + x = uq_slot q d * uq_unit_size q + y"
    by (simp add: uq_slot_addr_def)
  then have "(uq_slot q c * uq_unit_size q + x) div uq_unit_size q =
             (uq_slot q d * uq_unit_size q + y) div uq_unit_size q" by simp
  then show False using assms by simp
qed

definition unit_step_ok :: "unit_op \<Rightarrow> mem \<Rightarrow> wl_rx_unit_queue \<Rightarrow> bool" where
  "unit_step_ok op m q \<longleftrightarrow> (case unit_exec op (m, q) of (m', q') \<Rightarrow>
     uq_inv q' \<and> uq_slot_count q' = uq_slot_count q \<and>
     unit_popped op (m, q) @ uq_pending m' q' = uq_pending m q @ unit_pushed op (m, q))"

lemma uq_pending_cong:
  assumes "uq_read_cursor q' = uq_read_cursor q" "uq_write_cursor q' = uq_write_cursor q"
    "uq_storage q' = uq_storage q" "uq_unit_size q' = uq_unit_size q" "uq_slot_count q' = uq_slot_count q"
    "uq_lengths q' = uq_lengths q"
  shows "uq_pending m q' = uq_pending m q" "uq_count q' = uq_count q"
  using assms by (simp_all add: uq_pending_def uq_count_def uq_unit_def uq_slot_addr_def uq_slot_def)

lemma unit_step_simple:
  assumes "uq_inv q"
  shows "unit_step_ok Unit_peek m q" "unit_step_ok (Unit_claim n) m q" "unit_step_ok (Unit_abort c) m q"
proof -
  show "unit_step_ok Unit_peek m q" using assms by (simp add: unit_step_ok_def)
  show "unit_step_ok (Unit_claim n) m q"
    using assms uq_pending_cong [of "snd (wl_rx_unit_claim True q n)" q]
    by (auto simp: unit_step_ok_def wl_rx_unit_claim_def Let_def uq_inv_def uq_count_def)
  show "unit_step_ok (Unit_abort c) m q"
    using assms uq_pending_cong [of "snd (wl_rx_unit_abort True q c)" q]
    by (auto simp: unit_step_ok_def wl_rx_unit_abort_def Let_def uq_inv_def uq_count_def)
qed

lemma uq_invD:
  assumes "uq_inv q"
  shows "uq_initialized q" "uq_slot_count q dvd 2 ^ 32" "0 < uq_slot_count q"
    "uq_slot_count q \<le> 8" "uq_slot_count q \<le> length (uq_lengths q)" "uq_count q \<le> uq_slot_count q"
    "uq_claim_active q \<Longrightarrow> uq_claim_cursor q = uq_write_cursor q"
    "uq_claim_active q \<Longrightarrow> uq_count q < uq_slot_count q"
  using assms unfolding uq_inv_def by blast+

lemma uq_length_le: "uq_inv q \<Longrightarrow> uq_lengths q ! uq_slot q c \<le> uq_unit_size q"
  using uq_invD(3,5) [of q] uq_slot_less [of q c] unfolding uq_inv_def
  by (meson nth_mem order.strict_trans2)

lemma unit_step_store:
  assumes "uq_inv q"
  shows "unit_step_ok (Unit_store i b) m q"
proof (cases "uq_claim_active q \<and> i < uq_unit_size q")
  case True
  then have c: "uq_claim_cursor q = uq_read_cursor q + of_nat (uq_count q)" "uq_count q < uq_slot_count q"
    using assms by (auto simp: uq_inv_def uq_write)
  have "uq_unit (m(uq_slot_addr q (uq_claim_cursor q) + i := b)) q (uq_read_cursor q + of_nat k) =
        uq_unit m q (uq_read_cursor q + of_nat k)" if "k < uq_count q" for k
  proof -
    let ?s = "uq_slot q (uq_read_cursor q + of_nat k)"
    have ne: "?s \<noteq> uq_slot q (uq_claim_cursor q)"
      unfolding c(1) using uq_invD(2) [OF assms] c(2) that by (intro uq_slot_inj) auto
    have "uq_lengths q ! ?s \<le> uq_unit_size q"
      by (rule uq_length_le [OF assms])
    then show ?thesis
      using uq_slots_disjoint [OF ne, of _ i] True
      by (auto simp: uq_unit_def read_bytes_eq_iff)
  qed
  then show ?thesis using assms True by (auto simp: unit_step_ok_def uq_pending_def)
next
  case False
  then show ?thesis using assms by (auto simp: unit_step_ok_def)
qed

lemma unit_step_commit:
  assumes "uq_inv q"
  shows "unit_step_ok (Unit_commit c n) m q"
proof (cases "fst (wl_rx_unit_commit True q c n) = WL_OK")
  case True
  note inv = uq_invD [OF assms]
  define w where "w = uq_write_cursor q"
  define q1 where "q1 = snd (wl_rx_unit_commit True q c n)"
  have ok: "uq_claim_active q" "n \<le> uq_unit_size q"
    and q1: "q1 = q\<lparr>uq_lengths := (uq_lengths q)[uq_slot q w := n], uq_claim_active := False,
                      uq_write_cursor := w + 1\<rparr>"
    using True inv(7) by (auto simp: wl_rx_unit_commit_def claim_matches_def q1_def w_def Let_def
        split: if_splits)
  have cnt: "uq_count q < uq_slot_count q" and cc: "uq_claim_cursor q = w" using inv ok w_def by auto
  have w: "w = uq_read_cursor q + of_nat (uq_count q)" by (simp add: w_def uq_write [symmetric])
  have slot: "uq_slot q1 x = uq_slot q x" "uq_slot_addr q1 x = uq_slot_addr q x" for x
    by (simp_all add: q1 uq_slot_def uq_slot_addr_def)
  have count: "uq_count q1 = uq_count q + 1"
  proof -
    have "uq_count q1 = unat (of_nat (uq_count q + 1) :: u32)" by (simp add: uq_count_def q1 w algebra_simps)
    also have "\<dots> = uq_count q + 1" using cnt inv(4) by (intro unat_of_nat_u32) simp
    finally show ?thesis .
  qed
  have old: "uq_unit m q1 (uq_read_cursor q + of_nat k) = uq_unit m q (uq_read_cursor q + of_nat k)"
    if "k < uq_count q" for k
    using uq_slot_inj [OF inv(2), of k "uq_count q" "uq_read_cursor q"] that cnt
    by (simp add: uq_unit_def slot) (simp add: q1 w)
  have new: "uq_unit m q1 w = read_bytes m (uq_slot_addr q w) n"
    using inv(3,5) uq_slot_less [of q w] by (simp add: uq_unit_def slot) (simp add: q1)
  have "uq_pending m q1 = uq_pending m q @ [read_bytes m (uq_slot_addr q w) n]"
    using old new by (simp add: uq_pending_def count) (simp add: q1 w)
  moreover have "uq_inv q1"
    using assms cnt ok count set_update_subset_insert [of "uq_lengths q" "uq_slot q w" n]
    by (auto simp: uq_inv_def q1)
  ultimately show ?thesis using True cc q1 by (simp add: unit_step_ok_def q1_def [symmetric])
next
  case False
  then have "snd (wl_rx_unit_commit True q c n) = q"
    by (auto simp: wl_rx_unit_commit_def Let_def split: if_splits)
  then show ?thesis using False assms by (simp add: unit_step_ok_def)
qed

lemma unit_step_consume:
  assumes "uq_inv q"
  shows "unit_step_ok Unit_consume m q"
proof (cases "uq_read_cursor q = uq_write_cursor q")
  case True
  then show ?thesis using assms uq_invD(1) [OF assms] by (simp add: unit_step_ok_def wl_rx_unit_consumer_consume_def)
next
  case False
  note inv = uq_invD [OF assms]
  define r where "r = uq_read_cursor q"
  define q1 where "q1 = snd (wl_rx_unit_consumer_consume q)"
  have q1: "q1 = q\<lparr>uq_lengths := (uq_lengths q)[uq_slot q r := 0], uq_read_cursor := r + 1\<rparr>"
    using False inv(1) by (simp add: q1_def wl_rx_unit_consumer_consume_def r_def)
  have pos: "0 < uq_count q" using False by (simp add: uq_count_def unat_gt_0)
  have slot: "uq_slot q1 x = uq_slot q x" "uq_slot_addr q1 x = uq_slot_addr q x" for x
    by (simp_all add: q1 uq_slot_def uq_slot_addr_def)
  have count: "uq_count q1 = uq_count q - 1"
  proof -
    have "uq_count q1 = unat (of_nat (uq_count q) - 1 :: u32)"
      by (simp add: uq_count_def q1 r_def diff_diff_eq)
    also have "(of_nat (uq_count q) - 1 :: u32) = of_nat (uq_count q - 1)" using pos by (simp add: of_nat_diff)
    also have "unat (of_nat (uq_count q - 1) :: u32) = uq_count q - 1"
      using inv(4,6) by (intro unat_of_nat_u32) simp
    finally show ?thesis .
  qed
  have rest: "uq_unit m q1 (uq_read_cursor q1 + of_nat k) = uq_unit m q (r + of_nat (Suc k))"
    if "Suc k < uq_count q" for k
    using uq_slot_inj [OF inv(2), of "Suc k" 0 r] that inv(6)
    by (simp add: uq_unit_def slot) (simp add: q1 ac_simps)
  have "uq_pending m q = uq_unit m q r # map (\<lambda>k. uq_unit m q (r + of_nat (Suc k))) [0..<uq_count q - 1]"
    using pos
    by (cases "uq_count q") (auto simp: uq_pending_def r_def [symmetric] upt_conv_Cons simp del: upt_Suc simp flip: map_Suc_upt)
  moreover have "uq_pending m q1 = map (\<lambda>k. uq_unit m q (r + of_nat (Suc k))) [0..<uq_count q - 1]"
    using rest by (simp add: uq_pending_def count)
  moreover have "uq_inv q1"
    using assms pos count set_update_subset_insert [of "uq_lengths q" "uq_slot q r" 0]
    by (auto simp: uq_inv_def q1)
  moreover have "unit_popped Unit_consume (m, q) = [uq_unit m q r]"
    using False inv(1) by (simp add: wl_rx_unit_consumer_consume_def wl_rx_unit_consumer_peek_def uq_unit_def r_def)
  ultimately show ?thesis by (simp add: unit_step_ok_def q1_def [symmetric]) (simp add: q1)
qed

lemma unit_step:
  assumes "uq_inv q"
  shows "unit_step_ok op m q"
  using assms unit_step_simple unit_step_store unit_step_commit unit_step_consume by (cases op) auto

interpretation units: spsc_channel unit_exec "\<lambda>(m, q). uq_inv q" "\<lambda>(m, q). uq_pending m q"
  unit_pushed unit_popped "\<lambda>(m, q). uq_slot_count q"
proof unfold_locales
  fix s :: "mem \<times> wl_rx_unit_queue" and op
  obtain m q where s: "s = (m, q)" by (cases s)
  assume "case s of (m, q) \<Rightarrow> uq_inv q"
  then have inv: "uq_inv q" by (simp add: s)
  note ok = unit_step [OF inv, of op m, unfolded unit_step_ok_def, folded s]
  show "case unit_exec op s of (m, q) \<Rightarrow> uq_inv q"
    "unit_popped op s @ (case unit_exec op s of (m, q) \<Rightarrow> uq_pending m q) =
       (case s of (m, q) \<Rightarrow> uq_pending m q) @ unit_pushed op s"
    "(case unit_exec op s of (m, q) \<Rightarrow> uq_slot_count q) = (case s of (m, q) \<Rightarrow> uq_slot_count q)"
    "length (case s of (m, q) \<Rightarrow> uq_pending m q) \<le> (case s of (m, q) \<Rightarrow> uq_slot_count q)"
    using ok uq_invD(6) [OF inv] by (auto simp: s uq_pending_def split: prod.splits)
qed

section \<open>Properties\<close>

lemma wl_rx_unit_queue_init_ok:
  assumes "wl_rx_unit_queue_init lf li config q0 c = (WL_OK, q)"
  shows "q = \<lparr>uq_storage = uqc_storage c, uq_unit_size = uqc_unit_size c, uq_lengths = replicate 8 0,
              uq_write_cursor = 0, uq_read_cursor = 0, uq_claim_cursor = 0, uq_claim_token = 0,
              uq_slot_count = uqc_slot_count c, uq_claim_active = False, uq_initialized = True\<rparr>"
    "2 \<le> uqc_slot_count c" "uqc_slot_count c \<le> 8"
  using assms by (auto simp: wl_rx_unit_queue_init_def Let_def split: if_splits)

lemma wl_rx_unit_queue_init_inv:
  assumes "wl_rx_unit_queue_init lf li config q0 c = (WL_OK, q)" "uqc_slot_count c dvd 2 ^ 32"
  shows "uq_inv q" "uq_pending m q = []"
  using wl_rx_unit_queue_init_ok [OF assms(1)] assms(2)
  by (auto simp: uq_inv_def uq_count_def uq_pending_def)

text \<open>
  C19. The unit queue delivers whole packets in order: for a queue whose slot count divides \<open>2^32\<close>
  (2, 4 or 8 slots), under every interleaving of claims, stores into the claimed slot, commits,
  aborts and consumes from initialisation, the units consumed are a prefix of the units committed and
  at most the slot count are still queued. The bytes of a unit are those that were in its slot when
  it was committed.
\<close>

theorem unit_queue_fifo:
  assumes "wl_rx_unit_queue_init lf li config q0 c = (WL_OK, q)" "uqc_slot_count c dvd 2 ^ 32"
    and "run_ops unit_exec ops (m, q) = (m', q')"
  shows "trace unit_exec unit_pushed ops (m, q) =
           trace unit_exec unit_popped ops (m, q) @ uq_pending m' q' \<and>
         length (uq_pending m' q') \<le> uqc_slot_count c"
  using units.run_fifo [of "(m, q)" ops] units.run_bound [of "(m, q)" ops]
    wl_rx_unit_queue_init_inv [OF assms(1,2)] wl_rx_unit_queue_init_ok(1) [OF assms(1)] assms(3)
  by simp

text \<open>
  The initialiser also accepts 3, 5, 6 and 7 slots. Their cursors pass \<open>2^32 - 1\<close> after that many
  units; there two consecutive cursor values select the same slot.
\<close>

definition demo_unit_config :: "nat \<Rightarrow> wl_rx_unit_queue_config" where
  "demo_unit_config slots = \<lparr>uqc_storage = 100, uqc_storage_size = 800, uqc_unit_size = 100, uqc_slot_count = slots\<rparr>"

definition demo_packet_config :: wl_config where
  "demo_packet_config = \<lparr>max_payload_len = 64, envelope = WL_ENVELOPE_NATIVE_PACKET,
     integrity = WL_INTEGRITY_CRC16, cfg_session_id = 9, max_retries = 3, ack_timeout_ms = 100,
     max_transmission_unit = 0\<rparr>"

definition blank_unit_queue :: wl_rx_unit_queue where
  "blank_unit_queue = \<lparr>uq_storage = NULL, uq_unit_size = 0, uq_lengths = replicate 8 0, uq_write_cursor = 0,
     uq_read_cursor = 0, uq_claim_cursor = 0, uq_claim_token = 0, uq_slot_count = 0,
     uq_claim_active = False, uq_initialized = False\<rparr>"

definition demo_unit_queue :: "nat \<Rightarrow> wl_rx_unit_queue" where
  "demo_unit_queue slots =
     snd (wl_rx_unit_queue_init True True demo_packet_config blank_unit_queue (demo_unit_config slots))"

lemma demo_unit_queue_init:
  "2 \<le> slots \<Longrightarrow> slots \<le> 8 \<Longrightarrow>
   wl_rx_unit_queue_init True True demo_packet_config blank_unit_queue (demo_unit_config slots) =
     (WL_OK, demo_unit_queue slots)"
proof -
  assume s: "2 \<le> slots" "slots \<le> 8"
  then have "100 \<le> SIZE_MAX div slots" by (simp add: SIZE_MAX_def less_eq_div_iff_mult_less_eq)
  then show ?thesis
    using s by (simp add: demo_unit_queue_def wl_rx_unit_queue_init_def demo_unit_config_def Let_def
        demo_packet_config_def wl_frame_raw_size_def wl_profile_integrity_valid_def
        wl_profile_supported_def wl_profile_crc_size_def SIZE_MAX_def)
qed

text \<open>One unit of the single byte \<open>b\<close>, claimed, filled and committed.\<close>

definition unit_round :: "wl_rx_unit_queue \<Rightarrow> byte \<Rightarrow> unit_op list" where
  "unit_round q b =
     (let token = (if uq_claim_token q + 1 = 0 then 1 else uq_claim_token q + 1)
      in [Unit_claim 1, Unit_store 0 b,
          Unit_commit \<lparr>unit_span = \<lparr>span_data = uq_slot_addr q (uq_write_cursor q), span_length = 1\<rparr>,
                       unit_token = token\<rparr> 1])"

definition unit_rounded :: "wl_rx_unit_queue \<Rightarrow> wl_rx_unit_queue" where
  "unit_rounded q = q\<lparr>uq_claim_token := (if uq_claim_token q + 1 = 0 then 1 else uq_claim_token q + 1),
     uq_claim_cursor := uq_write_cursor q, uq_claim_active := False,
     uq_lengths := (uq_lengths q)[uq_slot q (uq_write_cursor q) := 1],
     uq_write_cursor := uq_write_cursor q + 1\<rparr>"

lemma unit_round_run:
  assumes "uq_initialized q" "\<not> uq_claim_active q" "1 \<le> uq_unit_size q" "uq_count q < uq_slot_count q"
  shows "run_ops unit_exec (unit_round q b) (m, q) =
           (m(uq_slot_addr q (uq_write_cursor q) := b), unit_rounded q)"
    "trace unit_exec unit_pushed (unit_round q b) (m, q) = [[b]]"
    "trace unit_exec unit_popped (unit_round q b) (m, q) = []"
  using assms
  by (simp_all add: unit_round_def unit_rounded_def Let_def wl_rx_unit_claim_def wl_rx_unit_commit_def
      claim_matches_def uq_slot_addr_def uq_slot_def uq_count_def read_bytes_def)

theorem unit_queue_fifo_witness:
  "wl_rx_unit_queue_init True True demo_packet_config blank_unit_queue (demo_unit_config 2) =
     (WL_OK, demo_unit_queue 2) \<and> uqc_slot_count (demo_unit_config 2) dvd 2 ^ 32 \<and>
   (\<exists>m' q'. run_ops unit_exec (unit_round (demo_unit_queue 2) 7) (\<lambda>_. 0, demo_unit_queue 2) = (m', q') \<and>
            uq_pending m' q' = [[7]])"
proof -
  let ?q = "demo_unit_queue 2"
  have init: "wl_rx_unit_queue_init True True demo_packet_config blank_unit_queue (demo_unit_config 2) = (WL_OK, ?q)"
    by (rule demo_unit_queue_init) auto
  have q: "uq_initialized ?q" "\<not> uq_claim_active ?q" "1 \<le> uq_unit_size ?q" "uq_count ?q < uq_slot_count ?q"
    using wl_rx_unit_queue_init_ok(1) [OF init] by (simp_all add: demo_unit_config_def uq_count_def)
  have d: "uqc_slot_count (demo_unit_config 2) dvd 2 ^ 32" by (simp add: demo_unit_config_def)
  show ?thesis
    using init d unit_queue_fifo [OF init d unit_round_run(1) [OF q, of 7 "\<lambda>_. 0"]]
    by (simp add: unit_round_run [OF q])
qed

text \<open>A three-slot queue that is empty with both cursors at \<open>n\<close>.\<close>

definition spun :: "nat \<Rightarrow> wl_rx_unit_queue \<Rightarrow> bool" where
  "spun n q \<longleftrightarrow> uq_initialized q \<and> \<not> uq_claim_active q \<and> uq_unit_size q = 100 \<and> uq_slot_count q = 3 \<and>
     length (uq_lengths q) = 8 \<and> uq_read_cursor q = of_nat n \<and> uq_write_cursor q = of_nat n"

lemma unit_rounded_consume:
  assumes "uq_initialized q" "uq_read_cursor q = uq_write_cursor q"
    "uq_slot q (uq_write_cursor q) < length (uq_lengths q)"
  shows "wl_rx_unit_consumer_consume (unit_rounded q) =
           (WL_OK, (unit_rounded q)\<lparr>uq_lengths := (uq_lengths q)[uq_slot q (uq_write_cursor q) := 0],
                                    uq_read_cursor := uq_write_cursor q + 1\<rparr>)"
    "wl_rx_unit_consumer_peek (unit_rounded q) =
       \<lparr>span_data = uq_slot_addr q (uq_write_cursor q), span_length = 1\<rparr>"
  using assms
  by (simp_all add: wl_rx_unit_consumer_consume_def wl_rx_unit_consumer_peek_def unit_rounded_def
      uq_slot_addr_def uq_slot_def)

lemma spun_round:
  assumes "spun n q"
  shows "\<exists>m' q'. run_ops unit_exec (unit_round q 0 @ [Unit_consume]) (m, q) = (m', q') \<and> spun (Suc n) q' \<and>
           trace unit_exec unit_pushed (unit_round q 0 @ [Unit_consume]) (m, q) = [[0]] \<and>
           trace unit_exec unit_popped (unit_round q 0 @ [Unit_consume]) (m, q) = [[0]]"
proof -
  have q: "uq_initialized q" "\<not> uq_claim_active q" "1 \<le> uq_unit_size q" "uq_count q < uq_slot_count q"
    and eq: "uq_read_cursor q = uq_write_cursor q"
    using assms by (simp_all add: spun_def uq_count_def)
  have sl: "uq_slot q (uq_write_cursor q) < length (uq_lengths q)"
    using uq_slot_less [of q "uq_write_cursor q"] assms by (simp add: spun_def)
  have "spun (Suc n) ((unit_rounded q)\<lparr>uq_lengths := (uq_lengths q)[uq_slot q (uq_write_cursor q) := 0],
                                    uq_read_cursor := uq_write_cursor q + 1\<rparr>)"
    using assms by (simp add: spun_def unit_rounded_def)
  then show ?thesis
    by (simp add: unit_round_run [OF q] unit_rounded_consume [OF q(1) eq sl] read_bytes_def)
qed

lemma spun_reached:
  "spun 0 q \<Longrightarrow> \<exists>ops m' q'. run_ops unit_exec ops (m, q) = (m', q') \<and> spun n q' \<and>
     trace unit_exec unit_pushed ops (m, q) = trace unit_exec unit_popped ops (m, q)"
proof (induction n)
  case 0
  then show ?case by (intro exI [of _ "[]"]) simp
next
  case (Suc n)
  then obtain ops m1 q1 where "run_ops unit_exec ops (m, q) = (m1, q1)" "spun n q1"
    "trace unit_exec unit_pushed ops (m, q) = trace unit_exec unit_popped ops (m, q)" by blast
  moreover obtain m2 q2 where "run_ops unit_exec (unit_round q1 0 @ [Unit_consume]) (m1, q1) = (m2, q2)"
    "spun (Suc n) q2"
    "trace unit_exec unit_pushed (unit_round q1 0 @ [Unit_consume]) (m1, q1) = [[0]]"
    "trace unit_exec unit_popped (unit_round q1 0 @ [Unit_consume]) (m1, q1) = [[0]]"
    using spun_round [OF \<open>spun n q1\<close>] by blast
  ultimately show ?case
    by (intro exI [of _ "ops @ unit_round q1 0 @ [Unit_consume]"] exI [of _ m2] exI [of _ q2])
       (simp only: run_ops_append [of _ ops] trace_append [of _ _ ops] simp_thms)
qed

text \<open>At cursor \<open>2^32 - 1\<close> two units are committed, and the first one consumed is the second.\<close>

lemma spun_wraps:
  assumes "spun (2 ^ 32 - 1) q"
  shows "\<exists>ops. trace unit_exec unit_pushed ops (m, q) = [[7], [8]] \<and>
               trace unit_exec unit_popped ops (m, q) = [[8]]"
proof -
  define q1 where "q1 = unit_rounded q"
  define m1 where "m1 = m(uq_slot_addr q (uq_write_cursor q) := (7 :: byte))"
  have u: "unat (- 1 :: u32) = 4294967295"
    by (simp add: unsigned_minus_1_eq_mask mask_eq_exp_minus_1)
  have c: "uq_write_cursor q = - 1" "uq_read_cursor q = - 1" using assms by (simp_all add: spun_def)
  have q: "uq_initialized q" "\<not> uq_claim_active q" "1 \<le> uq_unit_size q" "uq_count q < uq_slot_count q"
    using assms by (auto simp: spun_def uq_count_def)
  have q1: "uq_initialized q1" "\<not> uq_claim_active q1" "1 \<le> uq_unit_size q1" "uq_count q1 < uq_slot_count q1"
    using assms by (auto simp: spun_def uq_count_def q1_def unit_rounded_def)
  have "trace unit_exec unit_popped [Unit_consume] (m1(uq_slot_addr q1 (uq_write_cursor q1) := 8), unit_rounded q1) = [[8]]"
    using assms c u by (simp add: q1_def unit_rounded_def spun_def wl_rx_unit_consumer_consume_def
        wl_rx_unit_consumer_peek_def uq_slot_addr_def uq_slot_def read_bytes_def)
  moreover have "trace unit_exec unit_pushed [Unit_consume] s = []" for s by (cases s) simp
  ultimately show ?thesis
    using unit_round_run [OF q, of 7 m] unit_round_run [OF q1, of 8 m1]
    by (intro exI [of _ "unit_round q 7 @ unit_round q1 8 @ [Unit_consume]"])
       (simp add: q1_def [symmetric] m1_def [symmetric] del: trace.simps)
qed

text \<open>
  C20. A queue of three slots, which the initialiser accepts, delivers the wrong unit after \<open>2^32 - 1\<close>
  units: there is a run from initialisation after which what was consumed is not a prefix of what was
  committed. Cursor values \<open>2^32 - 1\<close> and \<open>0\<close> both select slot 0, so the second of two queued units
  overwrites the first. The documented slot range (2 to 8) is safe only for the powers of two.
\<close>

theorem unit_queue_wrap_overwrites:
  "\<exists>ops q. wl_rx_unit_queue_init True True demo_packet_config blank_unit_queue (demo_unit_config 3) = (WL_OK, q) \<and>
     take (length (trace unit_exec unit_popped ops (m, q))) (trace unit_exec unit_pushed ops (m, q)) \<noteq>
       trace unit_exec unit_popped ops (m, q)"
proof -
  define q where "q = demo_unit_queue 3"
  have init: "wl_rx_unit_queue_init True True demo_packet_config blank_unit_queue (demo_unit_config 3) = (WL_OK, q)"
    unfolding q_def by (rule demo_unit_queue_init) auto
  then have "spun 0 q" using wl_rx_unit_queue_init_ok(1) [OF init] by (simp add: spun_def demo_unit_config_def)
  then obtain ops m1 q1 where 1: "run_ops unit_exec ops (m, q) = (m1, q1)" "spun (2 ^ 32 - 1) q1"
    "trace unit_exec unit_pushed ops (m, q) = trace unit_exec unit_popped ops (m, q)"
    using spun_reached [of q m "2 ^ 32 - 1"] by blast
  obtain ops2 where 2: "trace unit_exec unit_pushed ops2 (m1, q1) = [[7], [8]]"
    "trace unit_exec unit_popped ops2 (m1, q1) = [[8]]" using spun_wraps [OF 1(2)] by blast
  show ?thesis using init 1 2 by (intro exI [of _ "ops @ ops2"] exI [of _ q]) simp
qed

end
