(* ===== verification/Slots.thy ===== *)
theory Slots
  imports Prelude
begin

unbundle bit_operations_syntax

text \<open>
  What the value containers share (\<^verbatim>\<open>src/fifo.c\<close>, \<^verbatim>\<open>src/latest.c\<close>): rounding a value size up to an
  aligned slot stride, the array of equally sized slots in caller-owned storage, claim tokens that
  are never zero, and counters that saturate at \<^verbatim>\<open>UINT32_MAX\<close>.
\<close>

section \<open>Alignment\<close>

text \<open>
  \<open>(value_size + (alignment - 1)) & ~(alignment - 1)\<close>. The code computes it in \<^verbatim>\<open>size_t\<close> after it has
  excluded overflow of the sum, so the result is that of unbounded integers.
\<close>

definition align_up :: "nat \<Rightarrow> nat \<Rightarrow> nat" where
  "align_up value_size alignment =
     nat (int (value_size + (alignment - 1)) AND NOT (int (alignment - 1)))"

lemma pow2_test:
  assumes "0 < (a :: nat)" "a AND (a - 1) = 0"
  shows "\<exists>k. a = 2 ^ k"
  using assms
proof (induction a rule: less_induct)
  case (less a)
  show ?case
  proof (cases "even a")
    case True
    then obtain b where b: "a = 2 * b" by blast
    with less.prems have "0 < b" by simp
    then have "a - 1 = 2 * (b - 1) + 1" using b by simp
    then have "b AND (b - 1) = 0"
      using less.prems(2) b and_rec [of a "a - 1"] by simp
    then obtain k where "b = 2 ^ k" using less.IH [of b] b \<open>0 < b\<close> by auto
    then have "a = 2 ^ Suc k" using b by simp
    then show ?thesis by blast
  next
    case False
    then obtain b where b: "a = 2 * b + 1" by (rule oddE)
    then have "b = 0" using less.prems(2) and_rec [of a "a - 1"] by simp
    then show ?thesis using b by (intro exI [of _ 0]) simp
  qed
qed

lemma and_not_mask: "x AND NOT (mask n) = push_bit n (drop_bit n x)" for x :: int
  by (rule bit_eqI) (auto simp: bit_simps)

lemma align_up_eq:
  "align_up n (2 ^ k) = (n + (2 ^ k - 1)) div 2 ^ k * 2 ^ k"
proof -
  have "int (2 ^ k - 1) = mask k" by (simp add: mask_eq_exp_minus_1 of_nat_diff)
  then have "align_up n (2 ^ k) = nat (push_bit k (drop_bit k (int (n + (2 ^ k - 1)))))"
    by (simp only: align_up_def and_not_mask)
  also have "\<dots> = (n + (2 ^ k - 1)) div 2 ^ k * 2 ^ k"
  proof -
    have "push_bit k (drop_bit k (int x)) = int (x div 2 ^ k * 2 ^ k)" for x
      by (simp add: push_bit_eq_mult drop_bit_eq_div zdiv_int)
    then show ?thesis by (simp only: nat_int)
  qed
  finally show ?thesis .
qed

lemma align_up_bounds:
  assumes "0 < a" "a AND (a - 1) = 0"
  shows "n \<le> align_up n a" "align_up n a < n + a" "a dvd align_up n a"
proof -
  obtain k where k: "a = 2 ^ k" using pow2_test [OF assms] by blast
  define q r where "q = (n + (a - 1)) div a * a" and "r = (n + (a - 1)) mod a"
  have "n + (a - 1) = q + r" "r < a" using assms(1) by (simp_all add: q_def r_def)
  moreover have "align_up n a = q" by (simp only: q_def k align_up_eq)
  ultimately show "n \<le> align_up n a" "align_up n a < n + a" "a dvd align_up n a"
    using assms(1) by (auto simp: q_def)
qed

section \<open>Slots, tokens and counters\<close>

lemma unat_u16_bound: "unat (x :: u16) < 65536"
  using unsigned_less [of x] by simp

lemma slot_ranges_disjoint:
  assumes "i \<noteq> j" "x < stride" "y < stride"
  shows "base + i * stride + x \<noteq> base + j * stride + (y :: nat)"
proof
  assume "base + i * stride + x = base + j * stride + y"
  then have "(i * stride + x) div stride = (j * stride + y) div stride" by simp
  then show False using assms by simp
qed

lemma read_slot_store_other:
  assumes "i \<noteq> j" "x < stride" "n \<le> stride"
  shows "read_bytes (m(base + i * stride + x := b)) (base + j * stride) n = read_bytes m (base + j * stride) n"
proof -
  have "base + j * stride + y \<noteq> base + i * stride + x" if "y < n" for y
    using slot_ranges_disjoint [OF assms(1,2), of y base] assms(3) that by simp
  then show ?thesis by (simp add: read_bytes_eq_iff)
qed

definition next_token :: "u32 \<Rightarrow> u32" where
  "next_token token = (let token = token + 1 in if token = 0 then 1 else token)"

lemma next_token_nonzero [simp]: "next_token t \<noteq> 0"
  by (simp add: next_token_def Let_def)

lemma next_token_fresh [simp]: "next_token t \<noteq> t"
  by (auto simp: next_token_def Let_def)

text \<open>The compare-and-swap loops: only the caller's role writes each counter.\<close>

definition counter_increment :: "u32 \<Rightarrow> u32" where
  "counter_increment c = (if c \<noteq> UINT32_MAX then c + 1 else c)"

definition counter_max :: "u32 \<Rightarrow> u32 \<Rightarrow> u32" where
  "counter_max c v = (if c < v then v else c)"

lemma unat_counter_increment: "unat (counter_increment c) = min (2 ^ 32 - 1) (unat c + 1)"
proof (cases "c = UINT32_MAX")
  case False
  then have "unat c \<noteq> unat UINT32_MAX" by (simp only: word_unat_eq_iff [symmetric] not_False_eq_True)
  moreover have "unat c < 2 ^ 32" using unsigned_less [of c] by simp
  ultimately have "unat c + 1 < 2 ^ 32" by simp
  then show ?thesis using False by (simp add: counter_increment_def unat_word_ariths)
qed (simp add: counter_increment_def)

lemma counter_max_ge: "v \<le> counter_max c v" "c \<le> counter_max c v"
  by (auto simp: counter_max_def)

lemma counter_max_le: "c \<le> b \<Longrightarrow> v \<le> b \<Longrightarrow> counter_max c v \<le> b"
  by (auto simp: counter_max_def)

end
