(* ===== verification/Fifo.thy ===== *)
theory Fifo
  imports Slots Channel
begin

unbundle bit_operations_syntax

text \<open>
  The lock-free single-producer single-consumer value queue, \<^verbatim>\<open>src/fifo.c\<close>. The producer claims a slot,
  fills it and publishes it; the consumer acquires a view of the oldest value and releases it.
  The record holds every field of \<^verbatim>\<open>wl_fifo_impl_t\<close>; values live in the flat memory.

  The abstraction is the list of published values. The theory shows that every operation keeps the
  structural invariant and that the queue is a bounded FIFO under every interleaving, that the
  statistics are exact up to saturation, and that the storage layout computed by
  \<^verbatim>\<open>wl_fifo_requirements\<close> is aligned, tight and large enough.
\<close>

section \<open>State\<close>

abbreviation (input) "WL_FIFO_MAGIC \<equiv> 0x574c4651 :: u32"
abbreviation (input) "WL_FIFO_MAX_CAPACITY \<equiv> 0x80000000 :: u32"
abbreviation (input) "WL_FIFO_CONTEXT_STORAGE_SIZE \<equiv> 128 :: nat"

record wl_fifo =
  ff_magic :: u32
  ff_storage :: addr
  ff_value_size :: nat
  ff_slot_stride :: nat
  ff_capacity :: u32
  ff_write_cursor :: u32
  ff_write_index :: u32
  ff_write_token :: u32
  ff_write_claimed :: bool
  ff_read_cursor :: u32
  ff_read_index :: u32
  ff_read_token :: u32
  ff_read_borrowed :: bool
  ff_published_cursor :: u32
  ff_consumed_cursor :: u32
  ff_high_watermark :: u32
  ff_publishes :: u32
  ff_consumes :: u32
  ff_full_rejections :: u32
  ff_empty_reads :: u32
  ff_aborts :: u32
  ff_resets :: u32
  ff_errors :: u32

record wl_fifo_config =
  ffc_value_size :: nat
  ffc_value_alignment :: nat
  ffc_capacity :: u32

record wl_fifo_requirements_t =
  ffr_storage_size :: nat
  ffr_slot_stride :: nat
  ffr_slot_count :: u32

record wl_fifo_storage =
  ffs_data :: addr
  ffs_size :: nat

record wl_fifo_write_claim_t =
  fcl_value :: addr
  fcl_value_size :: nat
  fcl_token :: u32
  fcl_private_slot :: u32

record wl_fifo_view =
  fvw_value :: addr
  fvw_value_size :: nat
  fvw_token :: u32
  fvw_private_slot :: u32

record wl_fifo_stats =
  fst_depth :: u32
  fst_high_watermark :: u32
  fst_publishes :: u32
  fst_consumes :: u32
  fst_full_rejections :: u32
  fst_empty_reads :: u32
  fst_aborts :: u32
  fst_resets :: u32
  fst_errors :: u32

section \<open>Operations\<close>

definition wl_fifo_initialized :: "wl_fifo \<Rightarrow> bool" where
  "wl_fifo_initialized impl \<longleftrightarrow> ff_magic impl = WL_FIFO_MAGIC"

definition wl_fifo_slot :: "wl_fifo \<Rightarrow> u32 \<Rightarrow> addr" where
  "wl_fifo_slot impl index = ff_storage impl + unat index * ff_slot_stride impl"

definition wl_fifo_next_index :: "u32 \<Rightarrow> u32 \<Rightarrow> u32" where
  "wl_fifo_next_index index capacity = (let index = index + 1 in if index = capacity then 0 else index)"

definition wl_fifo_error :: "wl_fifo \<Rightarrow> wl_err \<Rightarrow> wl_err \<times> wl_fifo" where
  "wl_fifo_error impl err = (err, impl\<lparr>ff_errors := counter_increment (ff_errors impl)\<rparr>)"

definition wl_fifo_claim_matches :: "wl_fifo \<Rightarrow> wl_fifo_write_claim_t \<Rightarrow> bool" where
  "wl_fifo_claim_matches impl claim \<longleftrightarrow>
     ff_write_claimed impl \<and> fcl_token claim \<noteq> 0 \<and> fcl_token claim = ff_write_token impl \<and>
     fcl_private_slot claim = ff_write_index impl \<and>
     fcl_value claim = wl_fifo_slot impl (ff_write_index impl) \<and>
     fcl_value_size claim = ff_value_size impl"

definition wl_fifo_view_matches :: "wl_fifo \<Rightarrow> wl_fifo_view \<Rightarrow> bool" where
  "wl_fifo_view_matches impl view \<longleftrightarrow>
     ff_read_borrowed impl \<and> fvw_token view \<noteq> 0 \<and> fvw_token view = ff_read_token impl \<and>
     fvw_private_slot view = ff_read_index impl \<and>
     fvw_value view = wl_fifo_slot impl (ff_read_index impl) \<and>
     fvw_value_size view = ff_value_size impl"

definition wl_fifo_requirements :: "wl_fifo_config \<Rightarrow> wl_err + wl_fifo_requirements_t" where
  "wl_fifo_requirements config =
     (if ffc_value_size config = 0 \<or> ffc_value_alignment config = 0 \<or> ffc_capacity config = 0 \<or>
         ffc_capacity config \<ge> WL_FIFO_MAX_CAPACITY
      then Inl WL_ERR_INVALID_ARG
      else
        let alignment = ffc_value_alignment config
        in if alignment AND (alignment - 1) \<noteq> 0 \<or> alignment > SIZE_MAX \<or>
              ffc_value_size config > SIZE_MAX - (alignment - 1)
           then Inl WL_ERR_INVALID_ARG
           else
             let stride = align_up (ffc_value_size config) alignment
             in if stride > SIZE_MAX div unat (ffc_capacity config) then Inl WL_ERR_INVALID_ARG
                else Inr \<lparr>ffr_storage_size = stride * unat (ffc_capacity config),
                          ffr_slot_stride = stride, ffr_slot_count = ffc_capacity config\<rparr>)"

definition wl_fifo_init ::
    "bool \<Rightarrow> addr \<Rightarrow> wl_fifo \<Rightarrow> wl_fifo_config \<Rightarrow> wl_fifo_storage \<Rightarrow> wl_err \<times> wl_fifo" where
  "wl_fifo_init lock_free fifo_address fifo config storage =
     (if ffs_data storage = NULL then (WL_ERR_INVALID_ARG, fifo)
      else
        case wl_fifo_requirements config of
          Inl err \<Rightarrow> (err, fifo)
        | Inr requirements \<Rightarrow>
            (if ffs_size storage < ffr_storage_size requirements then (WL_ERR_BUF_TOO_SMALL, fifo)
             else
               let storage_address = ffs_data storage
               in if storage_address AND (ffc_value_alignment config - 1) \<noteq> 0
                  then (WL_ERR_INVALID_ARG, fifo)
                  else if (storage_address \<le> fifo_address \<and>
                           fifo_address - storage_address < ffr_storage_size requirements) \<or>
                          (fifo_address < storage_address \<and>
                           storage_address - fifo_address < WL_FIFO_CONTEXT_STORAGE_SIZE)
                  then (WL_ERR_INVALID_ARG, fifo)
                  else
                    let impl = \<lparr>ff_magic = 0, ff_storage = ffs_data storage,
                                ff_value_size = ffc_value_size config,
                                ff_slot_stride = ffr_slot_stride requirements,
                                ff_capacity = ffc_capacity config,
                                ff_write_cursor = 0, ff_write_index = 0, ff_write_token = 0,
                                ff_write_claimed = False, ff_read_cursor = 0, ff_read_index = 0,
                                ff_read_token = 0, ff_read_borrowed = False,
                                ff_published_cursor = 0, ff_consumed_cursor = 0,
                                ff_high_watermark = 0, ff_publishes = 0, ff_consumes = 0,
                                ff_full_rejections = 0, ff_empty_reads = 0, ff_aborts = 0,
                                ff_resets = 0, ff_errors = 0\<rparr>
                    in if \<not> lock_free then (WL_ERR_NOT_SUPPORTED, impl)
                       else (WL_OK, impl\<lparr>ff_magic := WL_FIFO_MAGIC\<rparr>)))"

definition wl_fifo_write_claim :: "wl_fifo \<Rightarrow> (wl_err + wl_fifo_write_claim_t) \<times> wl_fifo" where
  "wl_fifo_write_claim impl =
     (if \<not> wl_fifo_initialized impl then (Inl WL_ERR_NOT_INITIALIZED, impl)
      else if ff_write_claimed impl then apfst Inl (wl_fifo_error impl WL_ERR_BUSY)
      else
        let consumed = ff_consumed_cursor impl
        in if ff_write_cursor impl - consumed \<ge> ff_capacity impl
           then (Inl WL_ERR_QUEUE_FULL,
                 impl\<lparr>ff_full_rejections := counter_increment (ff_full_rejections impl)\<rparr>)
           else
             let token = next_token (ff_write_token impl);
                 impl = impl\<lparr>ff_write_token := token, ff_write_claimed := True\<rparr>
             in (Inr \<lparr>fcl_value = wl_fifo_slot impl (ff_write_index impl),
                      fcl_value_size = ff_value_size impl, fcl_token = ff_write_token impl,
                      fcl_private_slot = ff_write_index impl\<rparr>, impl))"

definition wl_fifo_write_publish :: "wl_fifo \<Rightarrow> wl_fifo_write_claim_t \<Rightarrow> wl_err \<times> wl_fifo" where
  "wl_fifo_write_publish impl claim =
     (if \<not> wl_fifo_initialized impl then (WL_ERR_NOT_INITIALIZED, impl)
      else if \<not> wl_fifo_claim_matches impl claim then wl_fifo_error impl WL_ERR_INVALID_STATE
      else
        let next_cursor = ff_write_cursor impl + 1;
            consumed = ff_consumed_cursor impl;
            depth = next_cursor - consumed
        in (WL_OK, impl\<lparr>ff_write_cursor := next_cursor,
                        ff_write_index := wl_fifo_next_index (ff_write_index impl) (ff_capacity impl),
                        ff_write_claimed := False,
                        ff_published_cursor := next_cursor,
                        ff_high_watermark := counter_max (ff_high_watermark impl) depth,
                        ff_publishes := counter_increment (ff_publishes impl)\<rparr>))"

definition wl_fifo_write_abort :: "wl_fifo \<Rightarrow> wl_fifo_write_claim_t \<Rightarrow> wl_err \<times> wl_fifo" where
  "wl_fifo_write_abort impl claim =
     (if \<not> wl_fifo_initialized impl then (WL_ERR_NOT_INITIALIZED, impl)
      else if \<not> wl_fifo_claim_matches impl claim then wl_fifo_error impl WL_ERR_INVALID_STATE
      else (WL_OK, impl\<lparr>ff_write_claimed := False, ff_aborts := counter_increment (ff_aborts impl)\<rparr>))"

definition wl_fifo_read_acquire :: "wl_fifo \<Rightarrow> (wl_err + wl_fifo_view) \<times> wl_fifo" where
  "wl_fifo_read_acquire impl =
     (if \<not> wl_fifo_initialized impl then (Inl WL_ERR_NOT_INITIALIZED, impl)
      else if ff_read_borrowed impl then apfst Inl (wl_fifo_error impl WL_ERR_BUSY)
      else
        let published = ff_published_cursor impl
        in if ff_read_cursor impl = published
           then (Inl WL_ERR_NO_DATA, impl\<lparr>ff_empty_reads := counter_increment (ff_empty_reads impl)\<rparr>)
           else
             let token = next_token (ff_read_token impl);
                 impl = impl\<lparr>ff_read_token := token, ff_read_borrowed := True\<rparr>
             in (Inr \<lparr>fvw_value = wl_fifo_slot impl (ff_read_index impl),
                      fvw_value_size = ff_value_size impl, fvw_token = ff_read_token impl,
                      fvw_private_slot = ff_read_index impl\<rparr>, impl))"

definition wl_fifo_read_release :: "wl_fifo \<Rightarrow> wl_fifo_view \<Rightarrow> wl_err \<times> wl_fifo" where
  "wl_fifo_read_release impl view =
     (if \<not> wl_fifo_initialized impl then (WL_ERR_NOT_INITIALIZED, impl)
      else if \<not> wl_fifo_view_matches impl view then wl_fifo_error impl WL_ERR_INVALID_STATE
      else (WL_OK, impl\<lparr>ff_read_cursor := ff_read_cursor impl + 1,
                        ff_read_index := wl_fifo_next_index (ff_read_index impl) (ff_capacity impl),
                        ff_read_borrowed := False,
                        ff_consumed_cursor := ff_read_cursor impl + 1,
                        ff_consumes := counter_increment (ff_consumes impl)\<rparr>))"

definition wl_fifo_reset :: "wl_fifo \<Rightarrow> wl_err \<times> wl_fifo" where
  "wl_fifo_reset impl =
     (if \<not> wl_fifo_initialized impl then (WL_ERR_NOT_INITIALIZED, impl)
      else if ff_write_claimed impl \<or> ff_read_borrowed impl then wl_fifo_error impl WL_ERR_BUSY
      else (WL_OK, impl\<lparr>ff_write_cursor := 0, ff_write_index := 0, ff_read_cursor := 0,
                        ff_read_index := 0, ff_published_cursor := 0, ff_consumed_cursor := 0,
                        ff_resets := counter_increment (ff_resets impl)\<rparr>))"

definition wl_fifo_get_stats :: "wl_fifo \<Rightarrow> wl_err + wl_fifo_stats" where
  "wl_fifo_get_stats impl =
     (if \<not> wl_fifo_initialized impl then Inl WL_ERR_NOT_INITIALIZED
      else
        let depth = ff_published_cursor impl - ff_consumed_cursor impl;
            depth = (if depth > ff_capacity impl then ff_capacity impl else depth)
        in Inr \<lparr>fst_depth = depth, fst_high_watermark = ff_high_watermark impl,
                fst_publishes = ff_publishes impl, fst_consumes = ff_consumes impl,
                fst_full_rejections = ff_full_rejections impl, fst_empty_reads = ff_empty_reads impl,
                fst_aborts = ff_aborts impl, fst_resets = ff_resets impl, fst_errors = ff_errors impl\<rparr>)"

section \<open>Abstraction and invariant\<close>

definition fifo_count :: "wl_fifo \<Rightarrow> nat" where
  "fifo_count f = unat (ff_write_cursor f - ff_read_cursor f)"

definition fifo_cell :: "mem \<Rightarrow> wl_fifo \<Rightarrow> nat \<Rightarrow> byte list" where
  "fifo_cell m f i = read_bytes m (ff_storage f + i * ff_slot_stride f) (ff_value_size f)"

definition fifo_pending :: "mem \<Rightarrow> wl_fifo \<Rightarrow> byte list list" where
  "fifo_pending m f =
     map (\<lambda>k. fifo_cell m f ((unat (ff_read_index f) + k) mod unat (ff_capacity f))) [0..<fifo_count f]"

definition fifo_inv :: "wl_fifo \<Rightarrow> bool" where
  "fifo_inv f \<longleftrightarrow>
     wl_fifo_initialized f \<and> 0 < unat (ff_capacity f) \<and> ff_capacity f < WL_FIFO_MAX_CAPACITY \<and>
     0 < ff_value_size f \<and> ff_value_size f \<le> ff_slot_stride f \<and>
     ff_published_cursor f = ff_write_cursor f \<and> ff_consumed_cursor f = ff_read_cursor f \<and>
     fifo_count f \<le> unat (ff_capacity f) \<and> unat (ff_read_index f) < unat (ff_capacity f) \<and>
     unat (ff_write_index f) = (unat (ff_read_index f) + fifo_count f) mod unat (ff_capacity f) \<and>
     (ff_write_claimed f \<longrightarrow> fifo_count f < unat (ff_capacity f)) \<and>
     (ff_read_borrowed f \<longrightarrow> 0 < fifo_count f) \<and>
     fifo_count f \<le> unat (ff_high_watermark f) \<and> ff_high_watermark f \<le> ff_capacity f"

lemma fifo_invD:
  assumes "fifo_inv f"
  shows "wl_fifo_initialized f" "0 < unat (ff_capacity f)" "unat (ff_capacity f) < 2 ^ 31"
    "0 < ff_value_size f" "ff_value_size f \<le> ff_slot_stride f"
    "ff_published_cursor f = ff_write_cursor f" "ff_consumed_cursor f = ff_read_cursor f"
    "fifo_count f \<le> unat (ff_capacity f)" "unat (ff_read_index f) < unat (ff_capacity f)"
    "unat (ff_write_index f) = (unat (ff_read_index f) + fifo_count f) mod unat (ff_capacity f)"
  using assms by (auto simp: fifo_inv_def word_less_nat_alt)

section \<open>The queue as a channel of values\<close>

text \<open>
  \<open>Fifo_store i b\<close> is the producer writing byte \<open>b\<close> at offset \<open>i\<close> of the value it has claimed. A reset
  removes every queued value at once.
\<close>

datatype fifo_op =
    Fifo_claim | Fifo_store nat byte | Fifo_publish wl_fifo_write_claim_t | Fifo_abort wl_fifo_write_claim_t
  | Fifo_acquire | Fifo_release wl_fifo_view | Fifo_reset | Fifo_stats

fun fifo_exec :: "fifo_op \<Rightarrow> mem \<times> wl_fifo \<Rightarrow> mem \<times> wl_fifo" where
  "fifo_exec Fifo_claim (m, f) = (m, snd (wl_fifo_write_claim f))"
| "fifo_exec (Fifo_store i b) (m, f) =
     (if ff_write_claimed f \<and> i < ff_value_size f
      then m(wl_fifo_slot f (ff_write_index f) + i := b) else m, f)"
| "fifo_exec (Fifo_publish c) (m, f) = (m, snd (wl_fifo_write_publish f c))"
| "fifo_exec (Fifo_abort c) (m, f) = (m, snd (wl_fifo_write_abort f c))"
| "fifo_exec Fifo_acquire (m, f) = (m, snd (wl_fifo_read_acquire f))"
| "fifo_exec (Fifo_release v) (m, f) = (m, snd (wl_fifo_read_release f v))"
| "fifo_exec Fifo_reset (m, f) = (m, snd (wl_fifo_reset f))"
| "fifo_exec Fifo_stats (m, f) = (m, f)"

fun fifo_pushed :: "fifo_op \<Rightarrow> mem \<times> wl_fifo \<Rightarrow> byte list list" where
  "fifo_pushed (Fifo_publish c) (m, f) =
     (if fst (wl_fifo_write_publish f c) = WL_OK
      then [read_bytes m (fcl_value c) (fcl_value_size c)] else [])"
| "fifo_pushed _ _ = []"

text \<open>
  The values that leave the queue: one the consumer releases, or all that a successful reset discards.
  \<open>fifo_released\<close> are those of the first kind, the values that reached the consumer.
\<close>

fun fifo_popped :: "fifo_op \<Rightarrow> mem \<times> wl_fifo \<Rightarrow> byte list list" where
  "fifo_popped (Fifo_release v) (m, f) =
     (if fst (wl_fifo_read_release f v) = WL_OK
      then [read_bytes m (fvw_value v) (fvw_value_size v)] else [])"
| "fifo_popped Fifo_reset (m, f) =
     (if fst (wl_fifo_reset f) = WL_OK then fifo_pending m f else [])"
| "fifo_popped _ _ = []"

definition fifo_released :: "fifo_op \<Rightarrow> mem \<times> wl_fifo \<Rightarrow> byte list list" where
  "fifo_released op s = (if op = Fifo_reset then [] else fifo_popped op s)"

lemma unat_next_index:
  assumes "unat i < unat c"
  shows "unat (wl_fifo_next_index i c) = (unat i + 1) mod unat c"
proof (cases "unat i + 1 = unat c")
  case True
  then have "i + 1 = c" by (metis of_nat_1 of_nat_add of_nat_unat ucast_id)
  then show ?thesis using True by (simp add: wl_fifo_next_index_def)
next
  case False
  have lt: "unat i + 1 < unat c" using assms False by simp
  have "unat c < 2 ^ 32" using unsigned_less [of c] by simp
  then have u: "unat (i + 1) = unat i + 1" using lt by (simp add: unat_word_ariths)
  then have "i + 1 \<noteq> c" using False by auto
  then show ?thesis using u lt by (simp add: wl_fifo_next_index_def)
qed

lemma fifo_count_Suc:
  assumes "unat (w - r) + 1 < 2 ^ 32"
  shows "unat (w + 1 - r :: u32) = unat (w - r) + 1"
proof -
  have "w + 1 - r = (w - r) + 1" by simp
  then show ?thesis using assms by (simp only: unat_word_ariths) simp
qed

lemma fifo_count_pred:
  assumes "0 < unat (w - r)"
  shows "unat (w - (r + 1) :: u32) = unat (w - r) - 1"
proof -
  have "w - (r + 1) = (w - r) - 1" by simp
  moreover have "w - r \<noteq> 0" using assms by auto
  ultimately show ?thesis by (simp only: unat_minus_one not_False_eq_True)
qed

text \<open>What a step promises; the channel laws follow.\<close>

definition fifo_step_ok :: "fifo_op \<Rightarrow> mem \<Rightarrow> wl_fifo \<Rightarrow> bool" where
  "fifo_step_ok op m f \<longleftrightarrow> (case fifo_exec op (m, f) of (m', f') \<Rightarrow>
     fifo_inv f' \<and> ff_capacity f' = ff_capacity f \<and>
     fifo_popped op (m, f) @ fifo_pending m' f' = fifo_pending m f @ fifo_pushed op (m, f))"

text \<open>Steps that touch neither cursors nor slots.\<close>

lemma fifo_pending_cong:
  assumes "ff_read_index f' = ff_read_index f" "ff_write_cursor f' = ff_write_cursor f"
    "ff_read_cursor f' = ff_read_cursor f" "ff_capacity f' = ff_capacity f"
    "ff_storage f' = ff_storage f" "ff_slot_stride f' = ff_slot_stride f" "ff_value_size f' = ff_value_size f"
  shows "fifo_pending m f' = fifo_pending m f" "fifo_count f' = fifo_count f"
  using assms by (simp_all add: fifo_pending_def fifo_count_def fifo_cell_def)

lemma fifo_step_quiet:
  assumes "fifo_inv f"
  shows "fifo_step_ok Fifo_stats m f" "fifo_step_ok (Fifo_abort c) m f"
    "fifo_step_ok Fifo_claim m f" "fifo_step_ok Fifo_acquire m f"
proof -
  note inv = assms [unfolded fifo_inv_def]
  show "fifo_step_ok Fifo_stats m f" using assms by (simp add: fifo_step_ok_def)
  show "fifo_step_ok (Fifo_abort c) m f"
    using inv fifo_pending_cong [of "snd (wl_fifo_write_abort f c)" f]
    by (auto simp: fifo_step_ok_def wl_fifo_write_abort_def wl_fifo_error_def fifo_inv_def
        fifo_count_def wl_fifo_initialized_def)
  show "fifo_step_ok Fifo_claim m f"
    using inv fifo_pending_cong [of "snd (wl_fifo_write_claim f)" f]
    by (auto simp: fifo_step_ok_def wl_fifo_write_claim_def wl_fifo_error_def fifo_inv_def Let_def
        fifo_count_def wl_fifo_initialized_def word_le_nat_alt not_le)
  show "fifo_step_ok Fifo_acquire m f"
    using inv fifo_pending_cong [of "snd (wl_fifo_read_acquire f)" f]
    by (auto simp: fifo_step_ok_def wl_fifo_read_acquire_def wl_fifo_error_def fifo_inv_def Let_def
        fifo_count_def wl_fifo_initialized_def unat_gt_0)
qed

lemma fifo_error_inv: "fifo_inv f \<Longrightarrow> fifo_inv (f\<lparr>ff_errors := e\<rparr>)"
  by (simp add: fifo_inv_def fifo_count_def wl_fifo_initialized_def)

lemma fifo_step_reset:
  assumes "fifo_inv f"
  shows "fifo_step_ok Fifo_reset m f"
  using assms fifo_error_inv [OF assms] fifo_pending_cong(1) [of "f\<lparr>ff_errors := counter_increment (ff_errors f)\<rparr>" f m]
  by (auto simp: fifo_step_ok_def wl_fifo_reset_def wl_fifo_error_def fifo_inv_def fifo_count_def
      fifo_pending_def wl_fifo_initialized_def)

lemma fifo_step_store:
  assumes "fifo_inv f"
  shows "fifo_step_ok (Fifo_store i b) m f"
proof (cases "ff_write_claimed f \<and> i < ff_value_size f")
  case True
  note inv = fifo_invD [OF assms]
  have lt: "fifo_count f < unat (ff_capacity f)" using assms True by (simp add: fifo_inv_def)
  have "fifo_cell (m(wl_fifo_slot f (ff_write_index f) + i := b)) f ((unat (ff_read_index f) + k) mod unat (ff_capacity f)) =
        fifo_cell m f ((unat (ff_read_index f) + k) mod unat (ff_capacity f))" if "k < fifo_count f" for k
  proof -
    have "unat (ff_write_index f) \<noteq> (unat (ff_read_index f) + k) mod unat (ff_capacity f)"
      using mod_window_inj [of "fifo_count f" "unat (ff_capacity f)" k "unat (ff_read_index f)"] lt that inv(10)
      by auto
    then show ?thesis
      unfolding fifo_cell_def wl_fifo_slot_def using True inv(5) by (intro read_slot_store_other) auto
  qed
  then show ?thesis using assms True by (simp add: fifo_step_ok_def fifo_pending_def)
next
  case False
  then show ?thesis using assms by (auto simp: fifo_step_ok_def)
qed

lemma fifo_mismatch_ok:
  assumes "fifo_inv f" "fifo_exec op (m, f) = (m, f\<lparr>ff_errors := e\<rparr>)"
    "fifo_pushed op (m, f) = []" "fifo_popped op (m, f) = []"
  shows "fifo_step_ok op m f"
  using assms fifo_error_inv [OF assms(1)] fifo_pending_cong(1) [of "f\<lparr>ff_errors := e\<rparr>" f m]
  by (simp add: fifo_step_ok_def)

lemma fifo_step_publish:
  assumes "fifo_inv f"
  shows "fifo_step_ok (Fifo_publish c) m f"
proof (cases "wl_fifo_claim_matches f c")
  case True
  note inv = fifo_invD [OF assms]
  define f' where "f' = snd (wl_fifo_write_publish f c)"
  have claimed: "ff_write_claimed f" using True by (simp add: wl_fifo_claim_matches_def)
  then have lt: "fifo_count f < unat (ff_capacity f)" using assms by (simp add: fifo_inv_def)
  have f': "f' = f\<lparr>ff_write_cursor := ff_write_cursor f + 1,
      ff_write_index := wl_fifo_next_index (ff_write_index f) (ff_capacity f),
      ff_write_claimed := False, ff_published_cursor := ff_write_cursor f + 1,
      ff_high_watermark := counter_max (ff_high_watermark f) (ff_write_cursor f + 1 - ff_read_cursor f),
      ff_publishes := counter_increment (ff_publishes f)\<rparr>"
    using True inv(1,7) by (simp add: f'_def wl_fifo_write_publish_def Let_def)
  have cnt: "fifo_count f' = Suc (fifo_count f)"
    using fifo_count_Suc [of "ff_write_cursor f" "ff_read_cursor f"] lt inv(3)
    by (simp add: f' fifo_count_def)
  have wi: "unat (ff_write_index f') = (unat (ff_read_index f) + Suc (fifo_count f)) mod unat (ff_capacity f)"
    using unat_next_index [of "ff_write_index f" "ff_capacity f"] inv(2,10) by (simp add: f' mod_Suc_eq)
  have hw: "fifo_count f' \<le> unat (ff_high_watermark f')" "ff_high_watermark f' \<le> ff_capacity f"
    using counter_max_ge(1) [of "ff_write_cursor f + 1 - ff_read_cursor f" "ff_high_watermark f"] assms lt cnt
    by (auto simp: f' fifo_count_def word_le_nat_alt fifo_inv_def intro!: counter_max_le [unfolded word_le_nat_alt])
  have "fifo_inv f'"
    using assms cnt wi hw lt by (simp add: fifo_inv_def f' wl_fifo_initialized_def)
  moreover have "fifo_pending m f' = fifo_pending m f @ [fifo_cell m f (unat (ff_write_index f))]"
    unfolding fifo_pending_def cnt by (simp add: f' inv(10) fifo_cell_def)
  moreover have "fifo_pushed (Fifo_publish c) (m, f) = [fifo_cell m f (unat (ff_write_index f))]"
    using True inv(1)
    by (auto simp: wl_fifo_write_publish_def Let_def wl_fifo_claim_matches_def fifo_cell_def wl_fifo_slot_def)
  ultimately show ?thesis by (simp add: fifo_step_ok_def f'_def [symmetric] f')
next
  case False
  then show ?thesis
    using fifo_invD(1) [OF assms]
    by (intro fifo_mismatch_ok [OF assms]) (auto simp: wl_fifo_write_publish_def wl_fifo_error_def)
qed

lemma fifo_step_release:
  assumes "fifo_inv f"
  shows "fifo_step_ok (Fifo_release v) m f"
proof (cases "wl_fifo_view_matches f v")
  case True
  note inv = fifo_invD [OF assms]
  define f' where "f' = snd (wl_fifo_read_release f v)"
  have "ff_read_borrowed f" using True by (simp add: wl_fifo_view_matches_def)
  then have pos: "0 < fifo_count f" using assms by (simp add: fifo_inv_def)
  have f': "f' = f\<lparr>ff_read_cursor := ff_read_cursor f + 1,
      ff_read_index := wl_fifo_next_index (ff_read_index f) (ff_capacity f),
      ff_read_borrowed := False, ff_consumed_cursor := ff_read_cursor f + 1,
      ff_consumes := counter_increment (ff_consumes f)\<rparr>"
    using True inv(1) by (simp add: f'_def wl_fifo_read_release_def)
  have cnt: "fifo_count f = Suc (fifo_count f')"
    using fifo_count_pred [of "ff_write_cursor f" "ff_read_cursor f"] pos by (simp add: f' fifo_count_def)
  have ri: "unat (ff_read_index f') = (unat (ff_read_index f) + 1) mod unat (ff_capacity f)"
    using unat_next_index [OF inv(9)] by (simp add: f')
  have wi: "unat (ff_write_index f') = (unat (ff_read_index f') + fifo_count f') mod unat (ff_capacity f)"
    using inv(10) by (simp add: f' cnt ri [unfolded f', simplified] mod_simps)
  have "fifo_inv f'"
    using assms cnt wi ri by (simp add: fifo_inv_def f' wl_fifo_initialized_def)
  moreover have "fifo_pending m f = fifo_cell m f (unat (ff_read_index f)) # fifo_pending m f'"
    unfolding fifo_pending_def cnt ri
    using inv(9) by (simp add: f' fifo_cell_def mod_simps upt_conv_Cons del: upt_Suc flip: map_Suc_upt)
  moreover have "fifo_popped (Fifo_release v) (m, f) = [fifo_cell m f (unat (ff_read_index f))]"
    using True inv(1)
    by (auto simp: wl_fifo_read_release_def wl_fifo_view_matches_def fifo_cell_def wl_fifo_slot_def)
  ultimately show ?thesis by (simp add: fifo_step_ok_def f'_def [symmetric] f')
next
  case False
  then show ?thesis
    using fifo_invD(1) [OF assms]
    by (intro fifo_mismatch_ok [OF assms]) (auto simp: wl_fifo_read_release_def wl_fifo_error_def)
qed

lemma fifo_step:
  assumes "fifo_inv f"
  shows "fifo_step_ok op m f"
  using fifo_step_quiet [OF assms] fifo_step_reset [OF assms] fifo_step_store [OF assms]
    fifo_step_publish [OF assms] fifo_step_release [OF assms]
  by (cases op) auto

interpretation vals: spsc_channel fifo_exec "\<lambda>(m, f). fifo_inv f" "\<lambda>(m, f). fifo_pending m f"
  fifo_pushed fifo_popped "\<lambda>(m, f). unat (ff_capacity f)"
proof unfold_locales
  fix s :: "mem \<times> wl_fifo" and op
  obtain m f where s: "s = (m, f)" by (cases s)
  assume "case s of (m, f) \<Rightarrow> fifo_inv f"
  then have inv: "fifo_inv f" by (simp add: s)
  note step = fifo_step [OF inv, of op m, unfolded fifo_step_ok_def, folded s]
  show "case fifo_exec op s of (m, f) \<Rightarrow> fifo_inv f" using step by (simp add: case_prod_unfold)
  show "fifo_popped op s @ (case fifo_exec op s of (m, f) \<Rightarrow> fifo_pending m f) =
        (case s of (m, f) \<Rightarrow> fifo_pending m f) @ fifo_pushed op s"
    using step by (simp add: case_prod_unfold s)
  show "(case fifo_exec op s of (m, f) \<Rightarrow> unat (ff_capacity f)) = (case s of (m, f) \<Rightarrow> unat (ff_capacity f))"
    using step by (simp add: case_prod_unfold s)
  show "length (case s of (m, f) \<Rightarrow> fifo_pending m f) \<le> (case s of (m, f) \<Rightarrow> unat (ff_capacity f))"
    using fifo_invD(8) [OF inv] by (simp add: s fifo_pending_def)
qed

section \<open>Initialisation and geometry\<close>

lemma wl_fifo_requirements_ok:
  assumes "wl_fifo_requirements c = Inr r"
  shows "ffc_value_size c \<le> ffr_slot_stride r" "ffr_slot_stride r < ffc_value_size c + ffc_value_alignment c"
    "ffc_value_alignment c dvd ffr_slot_stride r" "0 < ffc_value_size c" "0 < unat (ffc_capacity c)"
    "ffc_capacity c < WL_FIFO_MAX_CAPACITY" "ffr_slot_count r = ffc_capacity c"
    "ffr_storage_size r = unat (ffc_capacity c) * ffr_slot_stride r" "ffr_storage_size r \<le> SIZE_MAX"
    "\<exists>k. ffc_value_alignment c = 2 ^ k"
proof -
  define a n where "a = ffc_value_alignment c" and "n = unat (ffc_capacity c)"
  have g: "0 < a" "a AND (a - 1) = 0" "0 < ffc_value_size c" "ffc_capacity c \<noteq> 0"
    "ffc_capacity c < WL_FIFO_MAX_CAPACITY" "align_up (ffc_value_size c) a \<le> SIZE_MAX div n"
    and r: "r = \<lparr>ffr_storage_size = align_up (ffc_value_size c) a * n,
                 ffr_slot_stride = align_up (ffc_value_size c) a, ffr_slot_count = ffc_capacity c\<rparr>"
    using assms unfolding wl_fifo_requirements_def a_def n_def
    by (auto simp: Let_def not_le not_less split: if_splits)
  from g(4) have n: "0 < n" by (simp add: n_def unat_gt_0)
  note b = align_up_bounds [OF g(1,2), of "ffc_value_size c"]
  show "ffc_value_size c \<le> ffr_slot_stride r" "ffr_slot_stride r < ffc_value_size c + ffc_value_alignment c"
    "ffc_value_alignment c dvd ffr_slot_stride r" "0 < ffc_value_size c" "0 < unat (ffc_capacity c)"
    "ffc_capacity c < WL_FIFO_MAX_CAPACITY" "ffr_slot_count r = ffc_capacity c"
    "ffr_storage_size r = unat (ffc_capacity c) * ffr_slot_stride r"
    using g(3,5) n b by (simp_all add: r a_def [symmetric] n_def [symmetric])
  show "ffr_storage_size r \<le> SIZE_MAX"
    using g(6) n by (simp add: r less_eq_div_iff_mult_less_eq)
  show "\<exists>k. ffc_value_alignment c = 2 ^ k" using pow2_test [OF g(1,2)] by (simp add: a_def)
qed

lemma wl_fifo_init_ok:
  assumes "wl_fifo_init lf addr f0 c st = (WL_OK, f)"
  obtains r where "wl_fifo_requirements c = Inr r" "ffr_storage_size r \<le> ffs_size st"
    "ffs_data st AND (ffc_value_alignment c - 1) = 0"
    "f = \<lparr>ff_magic = WL_FIFO_MAGIC, ff_storage = ffs_data st, ff_value_size = ffc_value_size c,
          ff_slot_stride = ffr_slot_stride r, ff_capacity = ffc_capacity c, ff_write_cursor = 0,
          ff_write_index = 0, ff_write_token = 0, ff_write_claimed = False, ff_read_cursor = 0,
          ff_read_index = 0, ff_read_token = 0, ff_read_borrowed = False, ff_published_cursor = 0,
          ff_consumed_cursor = 0, ff_high_watermark = 0, ff_publishes = 0, ff_consumes = 0,
          ff_full_rejections = 0, ff_empty_reads = 0, ff_aborts = 0, ff_resets = 0, ff_errors = 0\<rparr>"
  using assms unfolding wl_fifo_init_def wl_fifo_requirements_def
  by (auto simp: Let_def split: if_splits)

lemma wl_fifo_init_inv:
  assumes "wl_fifo_init lf addr f0 c st = (WL_OK, f)"
  shows "fifo_inv f" "fifo_pending m f = []" "ff_capacity f = ffc_capacity c"
  by (rule wl_fifo_init_ok [OF assms];
      use wl_fifo_requirements_ok in \<open>force simp: fifo_inv_def fifo_count_def fifo_pending_def wl_fifo_initialized_def\<close>)+

lemma fifo_exec_geometry:
  "fifo_exec op (m, f) = (m', f') \<Longrightarrow>
   ff_storage f' = ff_storage f \<and> ff_value_size f' = ff_value_size f \<and>
   ff_slot_stride f' = ff_slot_stride f \<and> ff_capacity f' = ff_capacity f"
  by (cases op)
     (auto simp: wl_fifo_write_claim_def wl_fifo_write_publish_def wl_fifo_write_abort_def
       wl_fifo_read_acquire_def wl_fifo_read_release_def wl_fifo_reset_def wl_fifo_error_def Let_def)

lemma fifo_run_geometry:
  "run_ops fifo_exec ops (m, f) = (m', f') \<Longrightarrow>
   ff_storage f' = ff_storage f \<and> ff_value_size f' = ff_value_size f \<and>
   ff_slot_stride f' = ff_slot_stride f \<and> ff_capacity f' = ff_capacity f"
proof (induction ops arbitrary: m f)
  case (Cons op ops)
  obtain m1 f1 where s: "fifo_exec op (m, f) = (m1, f1)" by (rule prod.exhaust)
  with Cons fifo_exec_geometry [OF s] show ?case by simp
qed simp

lemma fifo_exec_publishes:
  "fifo_exec op (m, f) = (m', f') \<Longrightarrow>
   unat (ff_publishes f') = min (2 ^ 32 - 1) (unat (ff_publishes f) + length (fifo_pushed op (m, f)))"
proof -
  have "unat (ff_publishes f) < 2 ^ 32" using unsigned_less [of "ff_publishes f"] by simp
  then show "fifo_exec op (m, f) = (m', f') \<Longrightarrow> ?thesis"
    by (cases op)
       (auto simp: wl_fifo_write_claim_def wl_fifo_write_publish_def wl_fifo_write_abort_def
         wl_fifo_read_acquire_def wl_fifo_read_release_def wl_fifo_reset_def wl_fifo_error_def Let_def
         unat_counter_increment)
qed

text \<open>The publish counter is the number of published values, up to saturation.\<close>

lemma fifo_run_publishes:
  "run_ops fifo_exec ops (m, f) = (m', f') \<Longrightarrow>
   unat (ff_publishes f') =
     min (2 ^ 32 - 1) (unat (ff_publishes f) + length (trace fifo_exec fifo_pushed ops (m, f)))"
proof (induction ops arbitrary: m f)
  case Nil
  have "unat (ff_publishes f) < 2 ^ 32" using unsigned_less [of "ff_publishes f"] by simp
  then show ?case using Nil by simp
next
  case (Cons op ops)
  obtain m1 f1 where s: "fifo_exec op (m, f) = (m1, f1)" by (rule prod.exhaust)
  with Cons fifo_exec_publishes [OF s] show ?case by simp
qed

lemma pow2_aligned:
  assumes "x AND (a - 1) = 0" "a = 2 ^ k"
  shows "a dvd (x :: nat)"
proof -
  have "x AND mask k = 0" using assms by (simp add: mask_eq_exp_minus_1)
  then show ?thesis using assms(2) by (simp add: take_bit_eq_mask [symmetric] take_bit_eq_mod mod_eq_0_iff_dvd)
qed

section \<open>Properties\<close>

lemma trace_released:
  "Fifo_reset \<notin> set ops \<Longrightarrow> trace fifo_exec fifo_released ops s = trace fifo_exec fifo_popped ops s"
  by (induction ops arbitrary: s) (auto simp: fifo_released_def)

text \<open>
  C21. The FIFO delivers what was published, in order, under every interleaving of claims, stores
  into the claimed slot, publishes, aborts, acquires, releases and resets from initialisation: the
  values that left the queue, released by the consumer or discarded by a reset, followed by the values
  still queued are the published values, and at most \<open>capacity\<close> are queued. No value is duplicated,
  reordered or overwritten while queued or borrowed, and without a reset every value that left the queue
  was released by the consumer. The publish counter is the number of published values, up to saturation.
\<close>

theorem fifo_delivers:
  assumes "wl_fifo_init lf addr f0 c st = (WL_OK, f)" "run_ops fifo_exec ops (m, f) = (m', f')"
  shows "trace fifo_exec fifo_pushed ops (m, f) = trace fifo_exec fifo_popped ops (m, f) @ fifo_pending m' f' \<and>
         (Fifo_reset \<notin> set ops \<longrightarrow>
            trace fifo_exec fifo_pushed ops (m, f) = trace fifo_exec fifo_released ops (m, f) @ fifo_pending m' f') \<and>
         length (fifo_pending m' f') \<le> unat (ffc_capacity c) \<and>
         unat (ff_publishes f') = min (2 ^ 32 - 1) (length (trace fifo_exec fifo_pushed ops (m, f)))"
proof -
  note init = wl_fifo_init_inv [OF assms(1)]
  have "ff_publishes f = 0" by (rule wl_fifo_init_ok [OF assms(1)]) simp
  then show ?thesis
    using vals.run_fifo [of "(m, f)" ops] vals.run_bound [of "(m, f)" ops] init assms(2)
      fifo_run_publishes [OF assms(2)] trace_released [of ops "(m, f)"]
    by simp
qed

definition demo_fifo_config :: wl_fifo_config where
  "demo_fifo_config = \<lparr>ffc_value_size = 1, ffc_value_alignment = 2, ffc_capacity = 2\<rparr>"

definition demo_fifo_storage :: wl_fifo_storage where
  "demo_fifo_storage = \<lparr>ffs_data = 100, ffs_size = 4\<rparr>"

definition blank_fifo :: wl_fifo where
  "blank_fifo = \<lparr>ff_magic = 0, ff_storage = NULL, ff_value_size = 0, ff_slot_stride = 0,
     ff_capacity = 0, ff_write_cursor = 0, ff_write_index = 0, ff_write_token = 0, ff_write_claimed = False,
     ff_read_cursor = 0, ff_read_index = 0, ff_read_token = 0, ff_read_borrowed = False,
     ff_published_cursor = 0, ff_consumed_cursor = 0, ff_high_watermark = 0, ff_publishes = 0,
     ff_consumes = 0, ff_full_rejections = 0, ff_empty_reads = 0, ff_aborts = 0, ff_resets = 0, ff_errors = 0\<rparr>"

definition demo_fifo :: wl_fifo where
  "demo_fifo = blank_fifo\<lparr>ff_magic := WL_FIFO_MAGIC, ff_storage := 100, ff_value_size := 1,
     ff_slot_stride := 2, ff_capacity := 2\<rparr>"

lemma demo_fifo_init: "wl_fifo_init True 1000 blank_fifo demo_fifo_config demo_fifo_storage = (WL_OK, demo_fifo)"
  by (simp add: wl_fifo_init_def wl_fifo_requirements_def demo_fifo_config_def demo_fifo_storage_def
      demo_fifo_def blank_fifo_def Let_def SIZE_MAX_def align_up_eq [of _ 1, simplified])

definition demo_fifo_ops :: "fifo_op list" where
  "demo_fifo_ops =
     [Fifo_claim, Fifo_store 0 7,
      Fifo_publish \<lparr>fcl_value = 100, fcl_value_size = 1, fcl_token = 1, fcl_private_slot = 0\<rparr>,
      Fifo_claim, Fifo_store 0 8,
      Fifo_publish \<lparr>fcl_value = 102, fcl_value_size = 1, fcl_token = 2, fcl_private_slot = 1\<rparr>,
      Fifo_claim, Fifo_acquire, Fifo_store 0 9,
      Fifo_release \<lparr>fvw_value = 100, fvw_value_size = 1, fvw_token = 1, fvw_private_slot = 0\<rparr>]"

lemmas fifo_eval =
  demo_fifo_ops_def demo_fifo_def blank_fifo_def wl_fifo_write_claim_def wl_fifo_write_publish_def
  wl_fifo_read_acquire_def wl_fifo_read_release_def wl_fifo_initialized_def wl_fifo_claim_matches_def
  wl_fifo_view_matches_def wl_fifo_slot_def wl_fifo_next_index_def wl_fifo_error_def next_token_def
  counter_increment_def counter_max_def Let_def read_bytes_def

theorem fifo_delivers_witness:
  "wl_fifo_init True 1000 blank_fifo demo_fifo_config demo_fifo_storage = (WL_OK, demo_fifo) \<and>
   trace fifo_exec fifo_popped demo_fifo_ops (\<lambda>_. 0, demo_fifo) = [[7]] \<and>
   (case run_ops fifo_exec demo_fifo_ops (\<lambda>_. 0, demo_fifo) of (m', f') \<Rightarrow> fifo_pending m' f' = [[8]])"
proof -
  obtain m' f' where e: "run_ops fifo_exec demo_fifo_ops (\<lambda>_. 0, demo_fifo) = (m', f')" by (rule prod.exhaust)
  have "trace fifo_exec fifo_pushed demo_fifo_ops (\<lambda>_. 0, demo_fifo) = [[7], [8]]"
    "trace fifo_exec fifo_popped demo_fifo_ops (\<lambda>_. 0, demo_fifo) = [[7]]"
    by code_simp+
  with fifo_delivers [OF demo_fifo_init e] demo_fifo_init e show ?thesis by simp
qed

text \<open>
  C22. Admission: in every state reached from initialisation a claim is refused exactly when one is
  outstanding (\<^verbatim>\<open>WL_ERR_BUSY\<close>) or the queue holds \<open>capacity\<close> values (\<^verbatim>\<open>WL_ERR_QUEUE_FULL\<close>), and a granted
  claim can be published; an acquire is refused exactly when a view is outstanding or the queue is
  empty (\<^verbatim>\<open>WL_ERR_NO_DATA\<close>), and a granted view shows the oldest value and can be released.
\<close>

theorem fifo_admission:
  assumes "wl_fifo_init lf addr f0 c st = (WL_OK, f)" "run_ops fifo_exec ops (m, f) = (m', f')"
  shows "(case wl_fifo_write_claim f' of
            (Inl e, _) \<Rightarrow>
              e = (if ff_write_claimed f' then WL_ERR_BUSY else WL_ERR_QUEUE_FULL) \<and>
              (ff_write_claimed f' \<or> length (fifo_pending m' f') = unat (ffc_capacity c))
          | (Inr cl, f'') \<Rightarrow>
              \<not> ff_write_claimed f' \<and> length (fifo_pending m' f') < unat (ffc_capacity c) \<and>
              fst (wl_fifo_write_publish f'' cl) = WL_OK) \<and>
         (case wl_fifo_read_acquire f' of
            (Inl e, _) \<Rightarrow>
              e = (if ff_read_borrowed f' then WL_ERR_BUSY else WL_ERR_NO_DATA) \<and>
              (ff_read_borrowed f' \<or> fifo_pending m' f' = [])
          | (Inr v, f'') \<Rightarrow>
              \<not> ff_read_borrowed f' \<and> fifo_pending m' f' \<noteq> [] \<and>
              read_bytes m' (fvw_value v) (fvw_value_size v) = hd (fifo_pending m' f') \<and>
              fst (wl_fifo_read_release f'' v) = WL_OK)"
proof -
  have "fifo_inv f'" using vals.run_inv [of "(m, f)" ops] wl_fifo_init_inv(1) [OF assms(1)] assms(2) by simp
  note inv = fifo_invD [OF this]
  have cap: "ffc_capacity c = ff_capacity f'"
    using fifo_run_geometry [OF assms(2)] wl_fifo_init_inv(3) [OF assms(1)] by simp
  have len: "length (fifo_pending m' f') = fifo_count f'" by (simp add: fifo_pending_def)
  have hd: "hd (fifo_pending m' f') = fifo_cell m' f' (unat (ff_read_index f'))" if "fifo_count f' \<noteq> 0"
    using that inv(9) by (simp add: fifo_pending_def hd_map)
  have emp: "fifo_pending m' f' = [] \<longleftrightarrow> ff_read_cursor f' = ff_write_cursor f'"
    using unat_eq_zero [of "ff_write_cursor f' - ff_read_cursor f'"] by (auto simp: fifo_pending_def fifo_count_def)
  have full: "ff_capacity f' \<le> ff_write_cursor f' - ff_read_cursor f' \<longleftrightarrow> fifo_count f' = unat (ff_capacity f')"
    using inv(8) by (auto simp: word_le_nat_alt fifo_count_def)
  have "fifo_count f' = 0 \<longleftrightarrow> ff_read_cursor f' = ff_write_cursor f'" using emp len by auto
  then show ?thesis
    using inv(1,6,7,8) full emp len hd cap
    by (auto simp: wl_fifo_write_claim_def wl_fifo_write_publish_def wl_fifo_claim_matches_def Let_def
        wl_fifo_error_def wl_fifo_read_acquire_def wl_fifo_read_release_def wl_fifo_view_matches_def
        wl_fifo_initialized_def wl_fifo_slot_def fifo_cell_def)
qed

theorem fifo_admission_witness:
  "case run_ops fifo_exec demo_fifo_ops (\<lambda>_. 0, demo_fifo) of (m', f') \<Rightarrow>
     \<exists>v f''. wl_fifo_read_acquire f' = (Inr v, f'') \<and> read_bytes m' (fvw_value v) (fvw_value_size v) = [8]"
proof -
  obtain m' f' where e: "run_ops fifo_exec demo_fifo_ops (\<lambda>_. 0, demo_fifo) = (m', f')" by (rule prod.exhaust)
  have "\<not> isl (fst (wl_fifo_read_acquire (snd (run_ops fifo_exec demo_fifo_ops (\<lambda>_. 0, demo_fifo)))))"
    "fifo_pending (fst (run_ops fifo_exec demo_fifo_ops (\<lambda>_. 0, demo_fifo)))
       (snd (run_ops fifo_exec demo_fifo_ops (\<lambda>_. 0, demo_fifo))) = [[8]]"
    by code_simp+
  then show ?thesis
    using fifo_admission [OF demo_fifo_init e] e
    by (auto simp: isl_def split: prod.splits sum.splits)
qed

text \<open>
  Storage layout: every value the FIFO hands out, to the producer or the consumer, in any state
  reached from initialisation, lies inside the caller's storage, is aligned as configured and is
  exactly \<open>value_size\<close> bytes long.
\<close>

theorem fifo_layout:
  assumes "wl_fifo_init lf addr f0 c st = (WL_OK, f)" "run_ops fifo_exec ops (m, f) = (m', f')"
    and "fst (wl_fifo_write_claim f') = Inr cl \<and> v = fcl_value cl \<and> n = fcl_value_size cl \<or>
         fst (wl_fifo_read_acquire f') = Inr vw \<and> v = fvw_value vw \<and> n = fvw_value_size vw"
  shows "ffs_data st \<le> v \<and> v + n \<le> ffs_data st + ffs_size st \<and> ffc_value_alignment c dvd v \<and>
         n = ffc_value_size c"
proof -
  have "fifo_inv f'" using vals.run_inv [of "(m, f)" ops] wl_fifo_init_inv(1) [OF assms(1)] assms(2) by simp
  note inv = fifo_invD [OF this]
  obtain r where r: "wl_fifo_requirements c = Inr r" "ffr_storage_size r \<le> ffs_size st"
    "ffs_data st AND (ffc_value_alignment c - 1) = 0"
    and geo: "ff_storage f = ffs_data st" "ff_value_size f = ffc_value_size c"
      "ff_slot_stride f = ffr_slot_stride r" "ff_capacity f = ffc_capacity c"
    by (rule wl_fifo_init_ok [OF assms(1)]) simp
  note req = wl_fifo_requirements_ok [OF r(1)] and geo = geo fifo_run_geometry [OF assms(2)]
  obtain i where i: "i < unat (ffc_capacity c)" "v = ffs_data st + i * ffr_slot_stride r" "n = ffc_value_size c"
  proof -
    have "unat (ff_write_index f') < unat (ff_capacity f')" using inv(2,10) by simp
    then show thesis
      using assms(3) that [of "unat (ff_write_index f')"] that [of "unat (ff_read_index f')"] inv(9) geo
      by (auto simp: wl_fifo_write_claim_def wl_fifo_read_acquire_def Let_def wl_fifo_error_def wl_fifo_slot_def
          split: if_splits)
  qed
  have "(i + 1) * ffr_slot_stride r \<le> unat (ffc_capacity c) * ffr_slot_stride r"
    using i(1) by (intro mult_right_mono) auto
  moreover have "ffc_value_alignment c dvd ffs_data st"
    using req(10) pow2_aligned [OF r(3)] by blast
  ultimately show ?thesis using i req(1,3,8) r(2) by (auto simp: algebra_simps)
qed

theorem fifo_layout_witness:
  "fst (wl_fifo_write_claim demo_fifo) =
     Inr \<lparr>fcl_value = 100, fcl_value_size = 1, fcl_token = 1, fcl_private_slot = 0\<rparr> \<and>
   (100 :: nat) + 1 \<le> ffs_data demo_fifo_storage + ffs_size demo_fifo_storage"
  using fifo_layout [OF demo_fifo_init, of "[]" "\<lambda>_. 0" _ demo_fifo
      "\<lparr>fcl_value = 100, fcl_value_size = 1, fcl_token = 1, fcl_private_slot = 0\<rparr>" 100 1]
  by (simp add: fifo_eval)

end
