(* ===== verification/Latest.thy ===== *)
theory Latest
  imports Slots Channel
begin

unbundle bit_operations_syntax

text \<open>
  The wait-free latest-value mailbox, \<^verbatim>\<open>src/latest.c\<close>: three slots, one owned by the writer, one by the
  reader, and one exchanged through the atomic word \<^verbatim>\<open>middle\<close>, whose top bit says that it holds an
  unread value. The record holds every field of \<^verbatim>\<open>wl_latest_impl_t\<close>.

  The specification is an abstract mailbox with at most one unread and one borrowed value. The
  theory shows that the three owners always hold three different slots, that the operations refine
  the abstract mailbox, and that the two-step atomic sequences inside a publish and an acquire may be
  interleaved with the other role without changing their outcome.
\<close>

section \<open>State\<close>

abbreviation (input) "WL_LATEST_MAGIC \<equiv> 0x574c4c54 :: u32"
abbreviation (input) "WL_LATEST_DIRTY \<equiv> 0x80000000 :: u32"
abbreviation (input) "WL_LATEST_INDEX_MASK \<equiv> 3 :: u32"
abbreviation (input) "WL_LATEST_SLOT_COUNT \<equiv> 3 :: nat"
abbreviation (input) "WL_LATEST_CONTEXT_STORAGE_SIZE \<equiv> 128 :: nat"

record wl_latest =
  lt_magic :: u32
  lt_storage :: addr
  lt_value_size :: nat
  lt_slot_stride :: nat
  lt_writer_back :: u32
  lt_write_token :: u32
  lt_write_claimed :: bool
  lt_reader_front :: u32
  lt_read_token :: u32
  lt_read_borrowed :: bool
  lt_slot_generation :: "u32 list"
  lt_middle :: u32
  lt_generation :: u32
  lt_publishes :: u32
  lt_reads :: u32
  lt_coalesced :: u32
  lt_empty_reads :: u32
  lt_resets :: u32
  lt_errors :: u32

record wl_latest_config =
  ltc_value_size :: nat
  ltc_value_alignment :: nat
  ltc_initial_generation :: u32

record wl_latest_requirements_t =
  ltr_storage_size :: nat
  ltr_slot_stride :: nat
  ltr_slot_count :: nat

record wl_latest_storage =
  lts_data :: addr
  lts_size :: nat

record wl_latest_write_claim_t =
  lcl_value :: addr
  lcl_value_size :: nat
  lcl_token :: u32
  lcl_private_slot :: u32

record wl_latest_view =
  lvw_value :: addr
  lvw_value_size :: nat
  lvw_generation :: u32
  lvw_token :: u32
  lvw_private_slot :: u32

record wl_latest_stats =
  lst_generation :: u32
  lst_publishes :: u32
  lst_reads :: u32
  lst_coalesced :: u32
  lst_empty_reads :: u32
  lst_resets :: u32
  lst_errors :: u32

section \<open>Operations\<close>

definition wl_latest_initialized :: "wl_latest \<Rightarrow> bool" where
  "wl_latest_initialized impl \<longleftrightarrow> lt_magic impl = WL_LATEST_MAGIC"

definition wl_latest_slot :: "wl_latest \<Rightarrow> u32 \<Rightarrow> addr" where
  "wl_latest_slot impl index = lt_storage impl + unat index * lt_slot_stride impl"

definition wl_latest_error :: "wl_latest \<Rightarrow> wl_err \<Rightarrow> wl_err \<times> wl_latest" where
  "wl_latest_error impl err = (err, impl\<lparr>lt_errors := counter_increment (lt_errors impl)\<rparr>)"

definition wl_latest_claim_matches :: "wl_latest \<Rightarrow> wl_latest_write_claim_t \<Rightarrow> bool" where
  "wl_latest_claim_matches impl claim \<longleftrightarrow>
     lt_write_claimed impl \<and> lcl_token claim \<noteq> 0 \<and> lcl_token claim = lt_write_token impl \<and>
     lcl_private_slot claim = lt_writer_back impl \<and>
     lcl_value claim = wl_latest_slot impl (lt_writer_back impl) \<and>
     lcl_value_size claim = lt_value_size impl"

definition wl_latest_view_matches :: "wl_latest \<Rightarrow> wl_latest_view \<Rightarrow> bool" where
  "wl_latest_view_matches impl view \<longleftrightarrow>
     lt_read_borrowed impl \<and> lvw_token view \<noteq> 0 \<and> lvw_token view = lt_read_token impl \<and>
     lvw_private_slot view = lt_reader_front impl \<and>
     lvw_value view = wl_latest_slot impl (lt_reader_front impl) \<and>
     lvw_value_size view = lt_value_size impl \<and>
     lvw_generation view = lt_slot_generation impl ! unat (lt_reader_front impl)"

definition wl_latest_requirements :: "wl_latest_config \<Rightarrow> wl_err + wl_latest_requirements_t" where
  "wl_latest_requirements config =
     (if ltc_value_size config = 0 \<or> ltc_value_alignment config = 0 then Inl WL_ERR_INVALID_ARG
      else
        let alignment = ltc_value_alignment config
        in if alignment AND (alignment - 1) \<noteq> 0 \<or> ltc_value_size config > SIZE_MAX - (alignment - 1)
           then Inl WL_ERR_INVALID_ARG
           else
             let stride = align_up (ltc_value_size config) alignment
             in if stride > SIZE_MAX div WL_LATEST_SLOT_COUNT then Inl WL_ERR_INVALID_ARG
                else Inr \<lparr>ltr_storage_size = stride * WL_LATEST_SLOT_COUNT, ltr_slot_stride = stride,
                          ltr_slot_count = WL_LATEST_SLOT_COUNT\<rparr>)"

definition wl_latest_init ::
    "bool \<Rightarrow> addr \<Rightarrow> wl_latest \<Rightarrow> wl_latest_config \<Rightarrow> wl_latest_storage \<Rightarrow> wl_err \<times> wl_latest" where
  "wl_latest_init lock_free mailbox_address mailbox config storage =
     (if lts_data storage = NULL then (WL_ERR_INVALID_ARG, mailbox)
      else
        case wl_latest_requirements config of
          Inl err \<Rightarrow> (err, mailbox)
        | Inr requirements \<Rightarrow>
            (if lts_size storage < ltr_storage_size requirements then (WL_ERR_BUF_TOO_SMALL, mailbox)
             else
               let storage_address = lts_data storage
               in if storage_address AND (ltc_value_alignment config - 1) \<noteq> 0
                  then (WL_ERR_INVALID_ARG, mailbox)
                  else if (storage_address \<le> mailbox_address \<and>
                           mailbox_address - storage_address < ltr_storage_size requirements) \<or>
                          (mailbox_address < storage_address \<and>
                           storage_address - mailbox_address < WL_LATEST_CONTEXT_STORAGE_SIZE)
                  then (WL_ERR_INVALID_ARG, mailbox)
                  else
                    let impl = \<lparr>lt_magic = 0, lt_storage = lts_data storage,
                                lt_value_size = ltc_value_size config,
                                lt_slot_stride = ltr_slot_stride requirements,
                                lt_writer_back = 2, lt_write_token = 0, lt_write_claimed = False,
                                lt_reader_front = 0, lt_read_token = 0, lt_read_borrowed = False,
                                lt_slot_generation = replicate WL_LATEST_SLOT_COUNT 0, lt_middle = 1,
                                lt_generation = ltc_initial_generation config, lt_publishes = 0,
                                lt_reads = 0, lt_coalesced = 0, lt_empty_reads = 0, lt_resets = 0,
                                lt_errors = 0\<rparr>
                    in if \<not> lock_free then (WL_ERR_NOT_SUPPORTED, impl)
                       else (WL_OK, impl\<lparr>lt_magic := WL_LATEST_MAGIC\<rparr>)))"

definition wl_latest_write_claim :: "wl_latest \<Rightarrow> (wl_err + wl_latest_write_claim_t) \<times> wl_latest" where
  "wl_latest_write_claim impl =
     (if \<not> wl_latest_initialized impl then (Inl WL_ERR_NOT_INITIALIZED, impl)
      else if lt_write_claimed impl then apfst Inl (wl_latest_error impl WL_ERR_BUSY)
      else
        let impl = impl\<lparr>lt_write_token := next_token (lt_write_token impl), lt_write_claimed := True\<rparr>
        in (Inr \<lparr>lcl_value = wl_latest_slot impl (lt_writer_back impl),
                 lcl_value_size = lt_value_size impl, lcl_token = lt_write_token impl,
                 lcl_private_slot = lt_writer_back impl\<rparr>, impl))"

text \<open>
  A publish first numbers the value in the writer's own slot, then exchanges that slot with the
  middle one; the exchange is its only effect on the reader.
\<close>

definition latest_publish_number :: "wl_latest \<Rightarrow> wl_latest" where
  "latest_publish_number impl =
     (let generation = lt_generation impl + 1
      in impl\<lparr>lt_generation := generation,
              lt_slot_generation := (lt_slot_generation impl)[unat (lt_writer_back impl) := generation]\<rparr>)"

definition latest_publish_swap :: "wl_latest \<Rightarrow> wl_latest" where
  "latest_publish_swap impl =
     (let old_middle = lt_middle impl
      in impl\<lparr>lt_middle := lt_writer_back impl OR WL_LATEST_DIRTY,
              lt_writer_back := old_middle AND WL_LATEST_INDEX_MASK,
              lt_write_claimed := False,
              lt_publishes := counter_increment (lt_publishes impl),
              lt_coalesced := (if old_middle AND WL_LATEST_DIRTY \<noteq> 0
                               then counter_increment (lt_coalesced impl) else lt_coalesced impl)\<rparr>)"

definition wl_latest_write_publish :: "wl_latest \<Rightarrow> wl_latest_write_claim_t \<Rightarrow> wl_err \<times> wl_latest" where
  "wl_latest_write_publish impl claim =
     (if \<not> wl_latest_initialized impl then (WL_ERR_NOT_INITIALIZED, impl)
      else if \<not> wl_latest_claim_matches impl claim then wl_latest_error impl WL_ERR_INVALID_STATE
      else (WL_OK, latest_publish_swap (latest_publish_number impl)))"

definition wl_latest_write_abort :: "wl_latest \<Rightarrow> wl_latest_write_claim_t \<Rightarrow> wl_err \<times> wl_latest" where
  "wl_latest_write_abort impl claim =
     (if \<not> wl_latest_initialized impl then (WL_ERR_NOT_INITIALIZED, impl)
      else if \<not> wl_latest_claim_matches impl claim then wl_latest_error impl WL_ERR_INVALID_STATE
      else (WL_OK, impl\<lparr>lt_write_claimed := False\<rparr>))"

text \<open>An acquire first looks at the dirty bit, then exchanges the reader's slot with the middle one.\<close>

definition latest_acquire_probe :: "wl_latest \<Rightarrow> bool" where
  "latest_acquire_probe impl \<longleftrightarrow> lt_middle impl AND WL_LATEST_DIRTY \<noteq> 0"

definition latest_acquire_swap :: "wl_latest \<Rightarrow> wl_latest_view \<times> wl_latest" where
  "latest_acquire_swap impl =
     (let middle = lt_middle impl;
          impl = impl\<lparr>lt_middle := lt_reader_front impl,
                      lt_reader_front := middle AND WL_LATEST_INDEX_MASK,
                      lt_read_token := next_token (lt_read_token impl), lt_read_borrowed := True,
                      lt_reads := counter_increment (lt_reads impl)\<rparr>
      in (\<lparr>lvw_value = wl_latest_slot impl (lt_reader_front impl), lvw_value_size = lt_value_size impl,
           lvw_generation = lt_slot_generation impl ! unat (lt_reader_front impl),
           lvw_token = lt_read_token impl, lvw_private_slot = lt_reader_front impl\<rparr>, impl))"

definition wl_latest_read_acquire :: "wl_latest \<Rightarrow> (wl_err + wl_latest_view) \<times> wl_latest" where
  "wl_latest_read_acquire impl =
     (if \<not> wl_latest_initialized impl then (Inl WL_ERR_NOT_INITIALIZED, impl)
      else if lt_read_borrowed impl then apfst Inl (wl_latest_error impl WL_ERR_BUSY)
      else if \<not> latest_acquire_probe impl
      then (Inl WL_ERR_NO_DATA, impl\<lparr>lt_empty_reads := counter_increment (lt_empty_reads impl)\<rparr>)
      else apfst Inr (latest_acquire_swap impl))"

definition wl_latest_read_release :: "wl_latest \<Rightarrow> wl_latest_view \<Rightarrow> wl_err \<times> wl_latest" where
  "wl_latest_read_release impl view =
     (if \<not> wl_latest_initialized impl then (WL_ERR_NOT_INITIALIZED, impl)
      else if \<not> wl_latest_view_matches impl view then wl_latest_error impl WL_ERR_INVALID_STATE
      else (WL_OK, impl\<lparr>lt_read_borrowed := False\<rparr>))"

definition wl_latest_reset :: "wl_latest \<Rightarrow> wl_err \<times> wl_latest" where
  "wl_latest_reset impl =
     (if \<not> wl_latest_initialized impl then (WL_ERR_NOT_INITIALIZED, impl)
      else if lt_write_claimed impl \<or> lt_read_borrowed impl then wl_latest_error impl WL_ERR_BUSY
      else (WL_OK, impl\<lparr>lt_reader_front := 0, lt_writer_back := 2, lt_middle := 1,
                        lt_resets := counter_increment (lt_resets impl)\<rparr>))"

definition wl_latest_get_stats :: "wl_latest \<Rightarrow> wl_err + wl_latest_stats" where
  "wl_latest_get_stats impl =
     (if \<not> wl_latest_initialized impl then Inl WL_ERR_NOT_INITIALIZED
      else Inr \<lparr>lst_generation = lt_generation impl, lst_publishes = lt_publishes impl,
                lst_reads = lt_reads impl, lst_coalesced = lt_coalesced impl,
                lst_empty_reads = lt_empty_reads impl, lst_resets = lt_resets impl,
                lst_errors = lt_errors impl\<rparr>)"

section \<open>The abstract mailbox\<close>

record mailbox =
  mb_unread :: "(byte list \<times> u32) option"
  mb_borrowed :: "(byte list \<times> u32) option"
  mb_generation :: u32

datatype mail_event = Mail_publish "byte list" | Mail_take | Mail_return | Mail_clear

fun mail_step :: "mail_event \<Rightarrow> mailbox \<Rightarrow> mailbox" where
  "mail_step (Mail_publish v) mb =
     mb\<lparr>mb_unread := Some (v, mb_generation mb + 1), mb_generation := mb_generation mb + 1\<rparr>"
| "mail_step Mail_take mb = mb\<lparr>mb_unread := None, mb_borrowed := mb_unread mb\<rparr>"
| "mail_step Mail_return mb = mb\<lparr>mb_borrowed := None\<rparr>"
| "mail_step Mail_clear mb = mb\<lparr>mb_unread := None\<rparr>"

fun published :: "mail_event list \<Rightarrow> byte list list" where
  "published [] = []"
| "published (Mail_publish v # es) = v # published es"
| "published (_ # es) = published es"

lemma published_append [simp]: "published (xs @ ys) = published xs @ published ys"
  by (induction xs rule: published.induct) auto

text \<open>Generations count publishes, and an unread value is the last one published.\<close>

lemma mail_unread_is_last:
  assumes "mb_unread mb = None"
  shows "mb_generation (fold mail_step es mb) = mb_generation mb + of_nat (length (published es)) \<and>
         (\<forall>v g. mb_unread (fold mail_step es mb) = Some (v, g) \<longrightarrow>
            published es \<noteq> [] \<and> v = last (published es) \<and> g = mb_generation (fold mail_step es mb))"
proof (induction es rule: rev_induct)
  case (snoc e es)
  then show ?case by (cases e) auto
qed (use assms in simp)

section \<open>Abstraction and invariant\<close>

definition latest_cell :: "mem \<Rightarrow> wl_latest \<Rightarrow> u32 \<Rightarrow> byte list" where
  "latest_cell m f i = read_bytes m (wl_latest_slot f i) (lt_value_size f)"

definition latest_value :: "mem \<Rightarrow> wl_latest \<Rightarrow> u32 \<Rightarrow> byte list \<times> u32" where
  "latest_value m f i = (latest_cell m f i, lt_slot_generation f ! unat i)"

definition latest_abs :: "mem \<Rightarrow> wl_latest \<Rightarrow> mailbox" where
  "latest_abs m f =
     \<lparr>mb_unread = (if latest_acquire_probe f then Some (latest_value m f (lt_middle f AND 3)) else None),
      mb_borrowed = (if lt_read_borrowed f then Some (latest_value m f (lt_reader_front f)) else None),
      mb_generation = lt_generation f\<rparr>"

text \<open>Writer, middle and reader own the three slots, one each.\<close>

definition latest_owners :: "wl_latest \<Rightarrow> bool" where
  "latest_owners f \<longleftrightarrow>
     lt_writer_back f < 3 \<and> lt_middle f AND 3 < 3 \<and> lt_reader_front f < 3 \<and>
     distinct [lt_writer_back f, lt_middle f AND 3, lt_reader_front f]"

definition latest_inv :: "wl_latest \<Rightarrow> bool" where
  "latest_inv f \<longleftrightarrow>
     wl_latest_initialized f \<and> 0 < lt_value_size f \<and> lt_value_size f \<le> lt_slot_stride f \<and>
     length (lt_slot_generation f) = WL_LATEST_SLOT_COUNT \<and> latest_owners f"

section \<open>Runs of the mailbox\<close>

datatype latest_op =
    Latest_claim | Latest_store nat byte | Latest_publish wl_latest_write_claim_t
  | Latest_abort wl_latest_write_claim_t | Latest_acquire | Latest_release wl_latest_view
  | Latest_reset | Latest_stats

fun latest_exec :: "latest_op \<Rightarrow> mem \<times> wl_latest \<Rightarrow> mem \<times> wl_latest" where
  "latest_exec Latest_claim (m, f) = (m, snd (wl_latest_write_claim f))"
| "latest_exec (Latest_store i b) (m, f) =
     (if lt_write_claimed f \<and> i < lt_value_size f
      then m(wl_latest_slot f (lt_writer_back f) + i := b) else m, f)"
| "latest_exec (Latest_publish c) (m, f) = (m, snd (wl_latest_write_publish f c))"
| "latest_exec (Latest_abort c) (m, f) = (m, snd (wl_latest_write_abort f c))"
| "latest_exec Latest_acquire (m, f) = (m, snd (wl_latest_read_acquire f))"
| "latest_exec (Latest_release v) (m, f) = (m, snd (wl_latest_read_release f v))"
| "latest_exec Latest_reset (m, f) = (m, snd (wl_latest_reset f))"
| "latest_exec Latest_stats (m, f) = (m, f)"

fun latest_events :: "latest_op \<Rightarrow> mem \<times> wl_latest \<Rightarrow> mail_event list" where
  "latest_events (Latest_publish c) (m, f) =
     (if fst (wl_latest_write_publish f c) = WL_OK
      then [Mail_publish (read_bytes m (lcl_value c) (lcl_value_size c))] else [])"
| "latest_events Latest_acquire (m, f) = (if isl (fst (wl_latest_read_acquire f)) then [] else [Mail_take])"
| "latest_events (Latest_release v) (m, f) =
     (if fst (wl_latest_read_release f v) = WL_OK then [Mail_return] else [])"
| "latest_events Latest_reset (m, f) = (if fst (wl_latest_reset f) = WL_OK then [Mail_clear] else [])"
| "latest_events _ _ = []"

lemma slot_index_bits:
  assumes "(i :: u32) < 3"
  shows "(i OR WL_LATEST_DIRTY) AND 3 = i" "(i OR WL_LATEST_DIRTY) AND WL_LATEST_DIRTY \<noteq> 0"
    "i AND 3 = i" "i AND WL_LATEST_DIRTY = 0" "unat i < 3"
proof -
  show u: "unat i < 3" using assms by (simp add: word_less_nat_alt)
  then have "unat i = unat (0 :: u32) \<or> unat i = unat (1 :: u32) \<or> unat i = unat (2 :: u32)" by (simp; arith)
  then consider "i = 0" | "i = 1" | "i = 2" by (auto simp only: word_unat_eq_iff [symmetric])
  then show "(i OR WL_LATEST_DIRTY) AND 3 = i" "(i OR WL_LATEST_DIRTY) AND WL_LATEST_DIRTY \<noteq> 0"
    "i AND 3 = i" "i AND WL_LATEST_DIRTY = 0"
    by (cases; simp)+
qed

lemma latest_owners_publish:
  "latest_owners f \<Longrightarrow> latest_owners (latest_publish_swap f)"
  "latest_owners f \<Longrightarrow> lt_middle (latest_publish_swap f) AND 3 = lt_writer_back f"
  "latest_owners f \<Longrightarrow> latest_acquire_probe (latest_publish_swap f)"
  by (auto simp: latest_owners_def latest_publish_swap_def Let_def latest_acquire_probe_def slot_index_bits)

lemma latest_owners_acquire:
  "latest_owners f \<Longrightarrow> latest_owners (snd (latest_acquire_swap f))"
  "latest_owners f \<Longrightarrow> \<not> latest_acquire_probe (snd (latest_acquire_swap f))"
  by (auto simp: latest_owners_def latest_acquire_swap_def Let_def latest_acquire_probe_def slot_index_bits)

lemma latest_invD:
  assumes "latest_inv f"
  shows "wl_latest_initialized f" "lt_value_size f \<le> lt_slot_stride f" "latest_owners f"
    "unat (lt_writer_back f) < length (lt_slot_generation f)"
    "unat (lt_reader_front f) \<noteq> unat (lt_writer_back f)"
    "unat (lt_middle f AND 3) \<noteq> unat (lt_writer_back f)"
  using assms slot_index_bits(5) [of "lt_writer_back f"]
  by (auto simp: latest_inv_def latest_owners_def word_unat_eq_iff [symmetric])

definition latest_step_ok :: "latest_op \<Rightarrow> mem \<Rightarrow> wl_latest \<Rightarrow> bool" where
  "latest_step_ok op m f \<longleftrightarrow> (case latest_exec op (m, f) of (m', f') \<Rightarrow>
     latest_inv f' \<and> latest_abs m' f' = fold mail_step (latest_events op (m, f)) (latest_abs m f))"

lemma latest_value_cong:
  "lt_storage f' = lt_storage f \<Longrightarrow> lt_slot_stride f' = lt_slot_stride f \<Longrightarrow>
   lt_value_size f' = lt_value_size f \<Longrightarrow>
   lt_slot_generation f' ! unat i = lt_slot_generation f ! unat i \<Longrightarrow> latest_value m f' i = latest_value m f i"
  by (simp add: latest_value_def latest_cell_def wl_latest_slot_def)

lemmas latest_frame = latest_abs_def latest_value_def latest_cell_def wl_latest_slot_def
  latest_acquire_probe_def latest_inv_def latest_owners_def wl_latest_initialized_def

lemma latest_step_quiet:
  assumes "latest_inv f"
  shows "latest_step_ok Latest_claim m f" "latest_step_ok (Latest_abort c) m f"
    "latest_step_ok (Latest_release v) m f" "latest_step_ok Latest_stats m f" "latest_step_ok Latest_reset m f"
  using assms
  by (auto simp: latest_step_ok_def wl_latest_write_claim_def wl_latest_write_abort_def Let_def
      wl_latest_read_release_def wl_latest_reset_def wl_latest_error_def latest_frame)

lemma latest_step_store:
  assumes "latest_inv f"
  shows "latest_step_ok (Latest_store i b) m f"
proof (cases "lt_write_claimed f \<and> i < lt_value_size f")
  case True
  note inv = latest_invD [OF assms]
  have "latest_value (m(wl_latest_slot f (lt_writer_back f) + i := b)) f j = latest_value m f j"
    if "unat j \<noteq> unat (lt_writer_back f)" for j
    unfolding latest_value_def latest_cell_def wl_latest_slot_def using that inv(2) True
    by (subst read_slot_store_other) auto
  then show ?thesis using assms inv(5,6) True by (simp add: latest_step_ok_def latest_abs_def)
next
  case False
  then show ?thesis using assms by (auto simp: latest_step_ok_def)
qed

lemma latest_number_value:
  assumes "latest_inv f"
  shows "unat i \<noteq> unat (lt_writer_back f) \<Longrightarrow> latest_value m (latest_publish_number f) i = latest_value m f i"
    "latest_value m (latest_publish_number f) (lt_writer_back f) =
       (latest_cell m f (lt_writer_back f), lt_generation f + 1)"
    "latest_inv (latest_publish_number f)"
  using assms latest_invD(4) [OF assms]
  by (auto simp: latest_publish_number_def Let_def latest_value_def latest_cell_def wl_latest_slot_def
      latest_inv_def latest_owners_def wl_latest_initialized_def)

lemma latest_swap_value:
  "latest_value m (latest_publish_swap f) i = latest_value m f i"
  "lt_reader_front (latest_publish_swap f) = lt_reader_front f"
  "lt_read_borrowed (latest_publish_swap f) = lt_read_borrowed f"
  "lt_generation (latest_publish_swap f) = lt_generation f"
  "wl_latest_initialized (latest_publish_swap f) = wl_latest_initialized f"
  "lt_value_size (latest_publish_swap f) = lt_value_size f"
  "lt_slot_stride (latest_publish_swap f) = lt_slot_stride f"
  "lt_slot_generation (latest_publish_swap f) = lt_slot_generation f"
  by (simp_all add: latest_publish_swap_def Let_def latest_value_def latest_cell_def wl_latest_slot_def
      wl_latest_initialized_def)

lemma latest_number_fields:
  "lt_writer_back (latest_publish_number f) = lt_writer_back f"
  "lt_reader_front (latest_publish_number f) = lt_reader_front f"
  "lt_read_borrowed (latest_publish_number f) = lt_read_borrowed f"
  "lt_middle (latest_publish_number f) = lt_middle f"
  "lt_generation (latest_publish_number f) = lt_generation f + 1"
  by (simp_all add: latest_publish_number_def Let_def)

lemma latest_publish_abs:
  assumes "latest_inv f"
  shows "latest_inv (latest_publish_swap (latest_publish_number f))"
    "latest_abs m (latest_publish_swap (latest_publish_number f)) =
       mail_step (Mail_publish (latest_cell m f (lt_writer_back f))) (latest_abs m f)"
proof -
  let ?f = "latest_publish_number f"
  have inv: "latest_inv ?f" and own: "latest_owners ?f"
    using latest_number_value(3) [OF assms] latest_invD(3) by blast+
  show "latest_inv (latest_publish_swap ?f)"
    using inv latest_owners_publish(1) [OF own] by (simp add: latest_inv_def latest_swap_value)
  show "latest_abs m (latest_publish_swap ?f) =
       mail_step (Mail_publish (latest_cell m f (lt_writer_back f))) (latest_abs m f)"
    using latest_owners_publish(2,3) [OF own] latest_number_value [OF assms] latest_invD(5) [OF assms]
    by (simp add: latest_abs_def latest_swap_value latest_number_fields)
qed

lemma latest_mismatch:
  "latest_inv f \<Longrightarrow> latest_inv (f\<lparr>lt_errors := e\<rparr>) \<and> latest_abs m (f\<lparr>lt_errors := e\<rparr>) = latest_abs m f"
  by (simp add: latest_frame)

lemma latest_step_publish:
  assumes "latest_inv f"
  shows "latest_step_ok (Latest_publish c) m f"
  using latest_publish_abs [OF assms] latest_invD(1) [OF assms] latest_mismatch [OF assms]
  by (auto simp: latest_step_ok_def wl_latest_write_publish_def wl_latest_error_def
      wl_latest_claim_matches_def latest_cell_def)

lemma latest_acquire_abs:
  assumes "latest_inv f" "latest_acquire_probe f"
  shows "latest_inv (snd (latest_acquire_swap f))"
    "latest_abs m (snd (latest_acquire_swap f)) = mail_step Mail_take (latest_abs m f)"
proof -
  note own = latest_owners_acquire [OF latest_invD(3) [OF assms(1)]]
  show "latest_inv (snd (latest_acquire_swap f))"
    using assms own(1) by (simp add: latest_inv_def latest_acquire_swap_def Let_def wl_latest_initialized_def)
  show "latest_abs m (snd (latest_acquire_swap f)) = mail_step Mail_take (latest_abs m f)"
    using assms(2) own(2)
    by (simp add: latest_abs_def) (simp add: latest_acquire_swap_def Let_def latest_value_def latest_cell_def wl_latest_slot_def)
qed

lemma latest_step_acquire:
  assumes "latest_inv f"
  shows "latest_step_ok Latest_acquire m f"
  using latest_acquire_abs [OF assms] latest_invD(1) [OF assms] latest_mismatch [OF assms] assms
  by (auto simp: latest_step_ok_def wl_latest_read_acquire_def wl_latest_error_def latest_frame
      apfst_def map_prod_def split_beta)

lemma latest_step:
  assumes "latest_inv f"
  shows "latest_step_ok op m f"
  using latest_step_quiet [OF assms] latest_step_store [OF assms] latest_step_publish [OF assms]
    latest_step_acquire [OF assms]
  by (cases op) auto

interpretation mail: simulation latest_exec "\<lambda>(m, f). latest_inv f" "\<lambda>(m, f). latest_abs m f"
  latest_events mail_step
  by unfold_locales
     (use latest_step in \<open>auto simp: latest_step_ok_def split_beta\<close>)

section \<open>Properties\<close>

lemma wl_latest_requirements_error: "wl_latest_requirements c \<noteq> Inl WL_OK"
  by (simp add: wl_latest_requirements_def Let_def)

lemma wl_latest_init_ok:
  assumes "wl_latest_init lf addr f0 c st = (WL_OK, f)"
  shows "latest_inv f"
    "latest_abs m f = \<lparr>mb_unread = None, mb_borrowed = None, mb_generation = ltc_initial_generation c\<rparr>"
proof -
  obtain r where r: "wl_latest_requirements c = Inr r" "lt_value_size f = ltc_value_size c"
    "lt_slot_stride f = ltr_slot_stride r" "wl_latest_initialized f" "length (lt_slot_generation f) = 3"
    "lt_writer_back f = 2" "lt_middle f = 1" "lt_reader_front f = 0" "\<not> lt_read_borrowed f"
    "lt_generation f = ltc_initial_generation c"
    using assms wl_latest_requirements_error [of c] unfolding wl_latest_init_def
    by (auto simp: Let_def wl_latest_initialized_def split: if_splits sum.splits)
  then have "0 < ltc_value_size c" "ltc_value_size c \<le> ltr_slot_stride r"
    using align_up_bounds(1) [of "ltc_value_alignment c" "ltc_value_size c"]
    by (auto simp: wl_latest_requirements_def Let_def split: if_splits)
  with r show "latest_inv f" by (simp add: latest_inv_def latest_owners_def)
  show "latest_abs m f = \<lparr>mb_unread = None, mb_borrowed = None, mb_generation = ltc_initial_generation c\<rparr>"
    using r by (simp add: latest_abs_def latest_acquire_probe_def)
qed

text \<open>
  C23. The triple-buffer mailbox refines the abstract mailbox: after every run of claims, stores,
  publishes, aborts, acquires, releases and resets from initialisation, its unread value, its
  borrowed value and its generation are those of the abstract mailbox after the corresponding
  events. In particular a borrowed value is immutable until it is returned, whatever the producer
  writes or publishes meanwhile.
\<close>

theorem latest_refines_mailbox:
  assumes "wl_latest_init lf addr f0 c st = (WL_OK, f)" "run_ops latest_exec ops (m, f) = (m', f')"
  shows "latest_abs m' f' =
           fold mail_step (trace latest_exec latest_events ops (m, f))
             \<lparr>mb_unread = None, mb_borrowed = None, mb_generation = ltc_initial_generation c\<rparr>"
  using mail.run_sim [of "(m, f)" ops] wl_latest_init_ok [OF assms(1)] assms(2) by simp

definition blank_latest :: wl_latest where
  "blank_latest = \<lparr>lt_magic = 0, lt_storage = NULL, lt_value_size = 0, lt_slot_stride = 0, lt_writer_back = 0,
     lt_write_token = 0, lt_write_claimed = False, lt_reader_front = 0, lt_read_token = 0,
     lt_read_borrowed = False, lt_slot_generation = [], lt_middle = 0, lt_generation = 0, lt_publishes = 0,
     lt_reads = 0, lt_coalesced = 0, lt_empty_reads = 0, lt_resets = 0, lt_errors = 0\<rparr>"

definition demo_latest_config :: wl_latest_config where
  "demo_latest_config = \<lparr>ltc_value_size = 1, ltc_value_alignment = 1, ltc_initial_generation = UINT32_MAX\<rparr>"

definition demo_latest :: wl_latest where
  "demo_latest = blank_latest\<lparr>lt_magic := WL_LATEST_MAGIC, lt_storage := 100, lt_value_size := 1,
     lt_slot_stride := 1, lt_writer_back := 2, lt_slot_generation := [0, 0, 0], lt_middle := 1,
     lt_generation := UINT32_MAX\<rparr>"

lemma demo_latest_init:
  "wl_latest_init True 1000 blank_latest demo_latest_config \<lparr>lts_data = 100, lts_size = 3\<rparr> = (WL_OK, demo_latest)"
proof -
  have "replicate 3 (0 :: u32) = [0, 0, 0]" by (simp add: numeral_3_eq_3)
  then show ?thesis
    by (simp add: wl_latest_init_def wl_latest_requirements_def demo_latest_config_def demo_latest_def
        blank_latest_def Let_def SIZE_MAX_def align_up_eq [of _ 0, simplified])
qed

text \<open>Two publishes, the second after the first was acquired; the generation wraps to zero.\<close>

definition demo_latest_ops :: "latest_op list" where
  "demo_latest_ops =
     [Latest_claim, Latest_store 0 7,
      Latest_publish \<lparr>lcl_value = 102, lcl_value_size = 1, lcl_token = 1, lcl_private_slot = 2\<rparr>,
      Latest_acquire, Latest_claim, Latest_store 0 8,
      Latest_publish \<lparr>lcl_value = 101, lcl_value_size = 1, lcl_token = 2, lcl_private_slot = 1\<rparr>]"

lemma demo_latest_events:
  "trace latest_exec latest_events demo_latest_ops (\<lambda>_. 0, demo_latest) =
     [Mail_publish [7], Mail_take, Mail_publish [8]]"
  by code_simp

theorem latest_refines_mailbox_witness:
  "case run_ops latest_exec demo_latest_ops (\<lambda>_. 0, demo_latest) of (m', f') \<Rightarrow>
     latest_abs m' f' = \<lparr>mb_unread = Some ([8], 1), mb_borrowed = Some ([7], 0), mb_generation = 1\<rparr>"
proof -
  obtain m' f' where e: "run_ops latest_exec demo_latest_ops (\<lambda>_. 0, demo_latest) = (m', f')"
    by (rule prod.exhaust)
  show ?thesis
    using latest_refines_mailbox [OF demo_latest_init e] e
    by (simp add: demo_latest_events demo_latest_config_def)
qed

lemma latest_view_shows:
  assumes "wl_latest_read_acquire f = (Inr v, f'')"
  shows "\<not> lt_read_borrowed f"
    "mb_unread (latest_abs m f) = Some (read_bytes m (lvw_value v) (lvw_value_size v), lvw_generation v)"
  using assms
  by (auto simp: wl_latest_read_acquire_def wl_latest_error_def latest_abs_def latest_acquire_swap_def Let_def
      latest_value_def latest_cell_def wl_latest_slot_def split: if_splits)

text \<open>
  C24. An acquire yields the freshest value: in every state reached from initialisation a granted
  view shows the last value published, with generation the initial one plus the number of publishes
  modulo \<open>2^32\<close>; an acquire is refused with \<^verbatim>\<open>WL_ERR_BUSY\<close> while a view is outstanding and with
  \<^verbatim>\<open>WL_ERR_NO_DATA\<close> exactly when the abstract mailbox holds nothing unread.
\<close>

theorem latest_acquire_freshest:
  assumes "wl_latest_init lf addr f0 c st = (WL_OK, f)" "run_ops latest_exec ops (m, f) = (m', f')"
    and "es = trace latest_exec latest_events ops (m, f)"
  shows "case fst (wl_latest_read_acquire f') of
           Inl e \<Rightarrow> e = (if lt_read_borrowed f' then WL_ERR_BUSY else WL_ERR_NO_DATA) \<and>
                    (lt_read_borrowed f' \<or> mb_unread (latest_abs m' f') = None)
         | Inr v \<Rightarrow> \<not> lt_read_borrowed f' \<and> published es \<noteq> [] \<and>
                    read_bytes m' (lvw_value v) (lvw_value_size v) = last (published es) \<and>
                    lvw_generation v = ltc_initial_generation c + of_nat (length (published es))"
proof -
  let ?mb = "\<lparr>mb_unread = None, mb_borrowed = None, mb_generation = ltc_initial_generation c\<rparr>"
  have abs: "latest_abs m' f' = fold mail_step es ?mb"
    using mail.run_sim [of "(m, f)" ops] wl_latest_init_ok [OF assms(1)] assms(2,3) by simp
  note last = mail_unread_is_last [of ?mb es, folded abs]
  have "latest_inv f'" using mail.run_keeps [of "(m, f)" ops] wl_latest_init_ok(1) [OF assms(1)] assms(2) by simp
  then have init: "wl_latest_initialized f'" by (rule latest_invD(1))
  show ?thesis
  proof (cases "fst (wl_latest_read_acquire f')")
    case (Inl e)
    then show ?thesis
      using init by (auto simp: wl_latest_read_acquire_def wl_latest_error_def latest_abs_def split: if_splits)
  next
    case (Inr v)
    then obtain f'' where "wl_latest_read_acquire f' = (Inr v, f'')" by (metis prod.collapse)
    from latest_view_shows(1) [OF this] latest_view_shows(2) [OF this, of m'] last Inr show ?thesis by simp
  qed
qed

theorem latest_acquire_freshest_witness:
  "case run_ops latest_exec (take 3 demo_latest_ops) (\<lambda>_. 0, demo_latest) of (m', f') \<Rightarrow>
     \<exists>v. fst (wl_latest_read_acquire f') = Inr v \<and>
         read_bytes m' (lvw_value v) (lvw_value_size v) = [7] \<and> lvw_generation v = 0"
proof -
  obtain m' f' where e: "run_ops latest_exec (take 3 demo_latest_ops) (\<lambda>_. 0, demo_latest) = (m', f')"
    by (rule prod.exhaust)
  have "trace latest_exec latest_events (take 3 demo_latest_ops) (\<lambda>_. 0, demo_latest) = [Mail_publish [7]]"
    "\<not> isl (fst (wl_latest_read_acquire (snd (run_ops latest_exec (take 3 demo_latest_ops) (\<lambda>_. 0, demo_latest)))))"
    by code_simp+
  then show ?thesis
    using latest_acquire_freshest [OF demo_latest_init e refl] e
    by (cases "fst (wl_latest_read_acquire f')") (auto simp: demo_latest_config_def)
qed

text \<open>The operations of the two roles.\<close>

fun producer_op :: "latest_op \<Rightarrow> bool" where
  "producer_op Latest_claim = True"
| "producer_op (Latest_store i b) = True"
| "producer_op (Latest_publish c) = True"
| "producer_op (Latest_abort c) = True"
| "producer_op _ = False"

lemma latest_exec_probe:
  assumes "latest_inv f" "latest_acquire_probe f" "producer_op op" "latest_exec op (m, f) = (m', f')"
  shows "latest_acquire_probe f' \<and> lt_read_borrowed f' = lt_read_borrowed f"
  using assms latest_owners_publish(3) [of "latest_publish_number f"]
    latest_number_value(3) [OF assms(1)] latest_invD(3) [of "latest_publish_number f"]
  by (cases op)
     (auto simp: wl_latest_write_claim_def wl_latest_write_publish_def wl_latest_write_abort_def Let_def
       wl_latest_error_def latest_acquire_probe_def latest_swap_value latest_number_fields split: if_splits)

lemma latest_run_probe:
  "latest_inv f \<Longrightarrow> latest_acquire_probe f \<Longrightarrow> list_all producer_op ops \<Longrightarrow>
   run_ops latest_exec ops (m, f) = (m', f') \<Longrightarrow>
   latest_inv f' \<and> latest_acquire_probe f' \<and> lt_read_borrowed f' = lt_read_borrowed f"
proof (induction ops arbitrary: m f)
  case (Cons op ops)
  obtain m1 f1 where s: "latest_exec op (m, f) = (m1, f1)" by (rule prod.exhaust)
  have "latest_inv f1" using latest_step [OF Cons.prems(1), of op m] s by (simp add: latest_step_ok_def)
  with Cons latest_exec_probe [OF Cons.prems(1,2) _ s] s show ?case by simp
qed simp

text \<open>
  C25. The two-step sequences are atomic in effect. Between the numbering of a value and its exchange
  in a publish, any consumer operation has the same result and commutes with the numbering. Between
  the dirty-bit test and the exchange in an acquire, any producer operations leave the test true, so
  that the exchange is what an acquire started after them would do.
\<close>

theorem latest_exchange_atomic:
  assumes "latest_inv f"
  shows "(\<forall>op \<in> {Latest_acquire, Latest_release v, Latest_stats}.
            latest_exec op (m, latest_publish_number f) = apsnd latest_publish_number (latest_exec op (m, f))) \<and>
         fst (wl_latest_read_acquire (latest_publish_number f)) = fst (wl_latest_read_acquire f) \<and>
         fst (wl_latest_read_release (latest_publish_number f) v) = fst (wl_latest_read_release f v) \<and>
         (\<forall>ops m' f'. latest_acquire_probe f \<longrightarrow> \<not> lt_read_borrowed f \<longrightarrow> list_all producer_op ops \<longrightarrow>
            run_ops latest_exec ops (m, f) = (m', f') \<longrightarrow>
            wl_latest_read_acquire f' = apfst Inr (latest_acquire_swap f'))"
proof -
  note inv = latest_invD [OF assms]
  have gen: "lt_slot_generation (latest_publish_number f) ! unat i = lt_slot_generation f ! unat i"
    if "unat i \<noteq> unat (lt_writer_back f)" for i :: u32
    using that by (simp add: latest_publish_number_def Let_def)
  have rel: "wl_latest_view_matches (latest_publish_number f) v = wl_latest_view_matches f v"
    using gen [OF inv(5)]
    by (simp add: wl_latest_view_matches_def latest_publish_number_def Let_def wl_latest_slot_def)
  have comm: "latest_acquire_swap (latest_publish_number f) = apsnd latest_publish_number (latest_acquire_swap f)"
    using gen [OF inv(6)] by (simp add: latest_acquire_swap_def latest_publish_number_def Let_def wl_latest_slot_def)
  have "wl_latest_read_acquire f' = apfst Inr (latest_acquire_swap f')"
    if "latest_acquire_probe f" "\<not> lt_read_borrowed f" "list_all producer_op ops"
      "run_ops latest_exec ops (m, f) = (m', f')" for ops m' f'
    using latest_run_probe [OF assms that(1,3,4)] that(2) latest_invD(1)
    by (auto simp: wl_latest_read_acquire_def)
  moreover have "latest_exec Latest_acquire (m, latest_publish_number f) =
      apsnd latest_publish_number (latest_exec Latest_acquire (m, f)) \<and>
      fst (wl_latest_read_acquire (latest_publish_number f)) = fst (wl_latest_read_acquire f)"
    by (simp add: wl_latest_read_acquire_def comm wl_latest_error_def)
       (simp add: latest_publish_number_def Let_def wl_latest_initialized_def latest_acquire_probe_def)
  moreover have "latest_exec (Latest_release v) (m, latest_publish_number f) =
      apsnd latest_publish_number (latest_exec (Latest_release v) (m, f)) \<and>
      fst (wl_latest_read_release (latest_publish_number f) v) = fst (wl_latest_read_release f v)"
    by (simp add: wl_latest_read_release_def rel wl_latest_error_def)
       (simp add: latest_publish_number_def Let_def wl_latest_initialized_def)
  ultimately show ?thesis by simp
qed

definition demo_latest_view :: wl_latest_view where
  "demo_latest_view = \<lparr>lvw_value = 100, lvw_value_size = 1, lvw_generation = 0, lvw_token = 1, lvw_private_slot = 0\<rparr>"

theorem latest_exchange_atomic_witness:
  "case run_ops latest_exec (take 3 demo_latest_ops) (\<lambda>_. 0, demo_latest) of (m1, f1) \<Rightarrow>
     latest_inv f1 \<and> latest_acquire_probe f1 \<and>
     (case run_ops latest_exec [Latest_claim, Latest_store 0 9] (m1, f1) of (m2, f2) \<Rightarrow>
        wl_latest_read_acquire f2 = apfst Inr (latest_acquire_swap f2))"
proof -
  let ?f1 = "snd (run_ops latest_exec (take 3 demo_latest_ops) (\<lambda>_. 0, demo_latest))"
  let ?m1 = "fst (run_ops latest_exec (take 3 demo_latest_ops) (\<lambda>_. 0, demo_latest))"
  have f1: "latest_acquire_probe ?f1" "\<not> lt_read_borrowed ?f1" by code_simp+
  have inv: "latest_inv ?f1"
    using mail.run_keeps [of "(\<lambda>_. 0, demo_latest)" "take 3 demo_latest_ops"] wl_latest_init_ok(1) [OF demo_latest_init]
    by (simp add: split_beta)
  obtain m2 f2 where r: "run_ops latest_exec [Latest_claim, Latest_store 0 9] (?m1, ?f1) = (m2, f2)"
    by (rule prod.exhaust)
  have "wl_latest_read_acquire f2 = apfst Inr (latest_acquire_swap f2)"
    by (rule latest_exchange_atomic [OF inv, of demo_latest_view ?m1, THEN conjunct2, THEN conjunct2,
          THEN conjunct2, rule_format, OF f1 _ r]) simp
  then show ?thesis using f1 inv r by (simp add: split_beta del: run_ops.simps)
qed

end
