(* ===== verification/Outbox.thy ===== *)
theory Outbox
  imports Slots Channel
begin

text \<open>
  The coalescing outbox, \<^verbatim>\<open>src/outbox.c\<close>: one lane per message id, each holding at most the newest
  unsent value; the sender copies a value out, sends it, and completes it. The record holds every
  field of \<^verbatim>\<open>wl_outbox_impl_t\<close>, with the slot array as a list; payloads live in the flat memory.

  The specification is a finite map from message ids to the value waiting there. The theory shows
  that the outbox refines it, what an acquire hands out, and that a completed snapshot never removes a
  newer value of its lane. The order of service is the subject of \<open>Outbox_Rotation\<close>.
\<close>

section \<open>State\<close>

abbreviation (input) "WL_OUTBOX_MAGIC \<equiv> 0x4f555442 :: u32"

record wl_outbox_slot =
  os_generation :: u64
  os_payload_length :: nat
  os_message_id :: u16
  os_valid :: bool

definition empty_slot :: wl_outbox_slot where
  "empty_slot = \<lparr>os_generation = 0, os_payload_length = 0, os_message_id = 0, os_valid = False\<rparr>"

record wl_outbox =
  ob_slots :: "wl_outbox_slot list"
  ob_payload_storage :: addr
  ob_next_generation :: u64
  ob_submitted :: u64
  ob_coalesced :: u64
  ob_queue_full :: u64
  ob_acquired :: u64
  ob_accepted :: u64
  ob_deferred :: u64
  ob_rejected :: u64
  ob_superseded :: u64
  ob_resets :: u64
  ob_active_token :: u64
  ob_magic :: u32
  ob_slot_count :: u16
  ob_payload_capacity :: u16
  ob_cursor :: u16
  ob_depth :: u16
  ob_active_index :: u16
  ob_active :: bool

record wl_outbox_config =
  obc_slots :: addr
  obc_slot_count :: u16
  obc_payload_storage :: addr
  obc_payload_storage_size :: nat
  obc_payload_capacity_per_slot :: u16
  obc_initial_generation :: u64

record wl_outbox_item =
  oi_token :: u64
  oi_slot_index :: u16
  oi_message_id :: u16
  oi_payload_length :: nat

type_synonym wl_outbox_completion = int

abbreviation (input) "WL_OUTBOX_ACCEPTED \<equiv> 0 :: wl_outbox_completion"
abbreviation (input) "WL_OUTBOX_DEFERRED \<equiv> 1 :: wl_outbox_completion"
abbreviation (input) "WL_OUTBOX_REJECTED \<equiv> 2 :: wl_outbox_completion"

record wl_outbox_stats =
  ost_submitted :: u64
  ost_coalesced :: u64
  ost_queue_full :: u64
  ost_acquired :: u64
  ost_accepted :: u64
  ost_deferred :: u64
  ost_rejected :: u64
  ost_superseded :: u64
  ost_resets :: u64
  ost_depth :: u16

section \<open>Operations\<close>

definition outbox_initialized :: "wl_outbox \<Rightarrow> bool" where
  "outbox_initialized ob \<longleftrightarrow> ob_magic ob = WL_OUTBOX_MAGIC"

definition payload_at :: "wl_outbox \<Rightarrow> nat \<Rightarrow> addr" where
  "payload_at ob index = ob_payload_storage ob + index * unat (ob_payload_capacity ob)"

definition wl_outbox_init :: "wl_outbox \<Rightarrow> wl_outbox_config \<Rightarrow> wl_err \<times> wl_outbox" where
  "wl_outbox_init ob config =
     (if obc_slots config = NULL \<or> obc_slot_count config = 0 \<or> obc_payload_storage config = NULL \<or>
         obc_payload_capacity_per_slot config = 0 \<or>
         unat (obc_slot_count config) > SIZE_MAX div unat (obc_payload_capacity_per_slot config)
      then (WL_ERR_INVALID_ARG, ob)
      else
        let required = unat (obc_slot_count config) * unat (obc_payload_capacity_per_slot config)
        in if obc_payload_storage_size config < required then (WL_ERR_INVALID_ARG, ob)
           else (WL_OK,
                 \<lparr>ob_slots = replicate (unat (obc_slot_count config)) empty_slot,
                  ob_payload_storage = obc_payload_storage config,
                  ob_next_generation = obc_initial_generation config, ob_submitted = 0,
                  ob_coalesced = 0, ob_queue_full = 0, ob_acquired = 0, ob_accepted = 0,
                  ob_deferred = 0, ob_rejected = 0, ob_superseded = 0, ob_resets = 0,
                  ob_active_token = 0, ob_magic = WL_OUTBOX_MAGIC,
                  ob_slot_count = obc_slot_count config,
                  ob_payload_capacity = obc_payload_capacity_per_slot config, ob_cursor = 0,
                  ob_depth = 0, ob_active_index = 0, ob_active = False\<rparr>))"

text \<open>The two search loops of a submit: the first slot from \<open>index\<close> on that satisfies the test.\<close>

fun slot_search :: "(wl_outbox_slot \<Rightarrow> bool) \<Rightarrow> wl_outbox_slot list \<Rightarrow> nat \<Rightarrow> nat option" where
  "slot_search test [] index = None"
| "slot_search test (candidate # rest) index =
     (if test candidate then Some index else slot_search test rest (index + 1))"

definition next_generation :: "u64 \<Rightarrow> u64" where
  "next_generation g = (let g = g + 1 in if g = 0 then g + 1 else g)"

definition wl_outbox_submit_latest ::
    "mem \<Rightarrow> wl_outbox \<Rightarrow> u16 \<Rightarrow> addr \<Rightarrow> nat \<Rightarrow> wl_err \<times> bool \<times> mem \<times> wl_outbox" where
  "wl_outbox_submit_latest m ob message_id payload payload_length =
     (if \<not> outbox_initialized ob then (WL_ERR_NOT_INITIALIZED, False, m, ob)
      else if message_id = 0 \<or> payload_length > unat (ob_payload_capacity ob) \<or>
              (payload = NULL \<and> payload_length \<noteq> 0)
      then (WL_ERR_INVALID_ARG, False, m, ob)
      else
        let lane = slot_search (\<lambda>s. os_valid s \<and> os_message_id s = message_id) (ob_slots ob) 0;
            replaced = (lane \<noteq> None);
            selected = (if replaced then lane else slot_search (\<lambda>s. \<not> os_valid s) (ob_slots ob) 0)
        in case selected of
             None \<Rightarrow> (WL_ERR_QUEUE_FULL, False, m, ob\<lparr>ob_queue_full := ob_queue_full ob + 1\<rparr>)
           | Some i \<Rightarrow>
               let g = next_generation (ob_next_generation ob);
                   m' = (if payload_length \<noteq> 0
                         then write_bytes m (payload_at ob i) (read_bytes m payload payload_length) else m);
                   ob' = ob\<lparr>ob_next_generation := g,
                            ob_slots := (ob_slots ob)[i := \<lparr>os_generation = g, os_payload_length = payload_length,
                                                           os_message_id = message_id, os_valid = True\<rparr>],
                            ob_submitted := ob_submitted ob + 1\<rparr>
               in (WL_OK, replaced, m',
                   if replaced then ob'\<lparr>ob_coalesced := ob_coalesced ob + 1\<rparr>
                   else ob'\<lparr>ob_depth := ob_depth ob + 1\<rparr>))"

text \<open>The acquire loop: \<open>n\<close> candidates are left, the next one at \<open>offset\<close> from the cursor.\<close>

fun acquire_search :: "wl_outbox \<Rightarrow> nat \<Rightarrow> nat \<Rightarrow> nat option" where
  "acquire_search ob 0 offset = None"
| "acquire_search ob (Suc n) offset =
     (let index = (unat (ob_cursor ob) + offset) mod unat (ob_slot_count ob)
      in if os_valid (ob_slots ob ! index) then Some index else acquire_search ob n (offset + 1))"

definition wl_outbox_acquire_copy ::
    "mem \<Rightarrow> wl_outbox \<Rightarrow> addr \<Rightarrow> nat \<Rightarrow> (wl_err + wl_outbox_item) \<times> mem \<times> wl_outbox" where
  "wl_outbox_acquire_copy m ob payload payload_capacity =
     (if \<not> outbox_initialized ob then (Inl WL_ERR_NOT_INITIALIZED, m, ob)
      else if payload = NULL then (Inl WL_ERR_INVALID_ARG, m, ob)
      else if ob_active ob then (Inl WL_ERR_BUSY, m, ob)
      else
        case acquire_search ob (unat (ob_slot_count ob)) 0 of
          None \<Rightarrow> (Inl WL_ERR_NO_DATA, m, ob)
        | Some index \<Rightarrow>
            (let candidate = ob_slots ob ! index
             in if os_payload_length candidate > payload_capacity then (Inl WL_ERR_NO_SPACE, m, ob)
                else
                  (Inr \<lparr>oi_token = os_generation candidate, oi_slot_index = of_nat index,
                        oi_message_id = os_message_id candidate,
                        oi_payload_length = os_payload_length candidate\<rparr>,
                   (if os_payload_length candidate \<noteq> 0
                    then write_bytes m payload (read_bytes m (payload_at ob index) (os_payload_length candidate))
                    else m),
                   ob\<lparr>ob_active := True, ob_active_index := of_nat index,
                      ob_active_token := os_generation candidate, ob_acquired := ob_acquired ob + 1\<rparr>)))"

definition wl_outbox_complete ::
    "wl_outbox \<Rightarrow> wl_outbox_item \<Rightarrow> wl_outbox_completion \<Rightarrow> wl_err \<times> wl_outbox" where
  "wl_outbox_complete ob item completion =
     (if \<not> outbox_initialized ob then (WL_ERR_NOT_INITIALIZED, ob)
      else if oi_slot_index item \<ge> ob_slot_count ob \<or>
              (completion \<noteq> WL_OUTBOX_ACCEPTED \<and> completion \<noteq> WL_OUTBOX_DEFERRED \<and>
               completion \<noteq> WL_OUTBOX_REJECTED)
      then (WL_ERR_INVALID_ARG, ob)
      else if \<not> ob_active ob \<or> ob_active_index ob \<noteq> oi_slot_index item \<or> ob_active_token ob \<noteq> oi_token item
      then (WL_ERR_INVALID_STATE, ob)
      else
        let ob = ob\<lparr>ob_active := False, ob_active_token := 0\<rparr>
        in if completion = WL_OUTBOX_DEFERRED then (WL_OK, ob\<lparr>ob_deferred := ob_deferred ob + 1\<rparr>)
           else
             let i = unat (oi_slot_index item);
                 current = ob_slots ob ! i;
                 ob = (if os_valid current \<and> os_generation current = oi_token item
                       then ob\<lparr>ob_slots := (ob_slots ob)[i := empty_slot], ob_depth := ob_depth ob - 1\<rparr>
                       else ob\<lparr>ob_superseded := ob_superseded ob + 1\<rparr>);
                 ob = ob\<lparr>ob_cursor := of_nat ((i + 1) mod unat (ob_slot_count ob))\<rparr>
             in (WL_OK,
                 if completion = WL_OUTBOX_ACCEPTED then ob\<lparr>ob_accepted := ob_accepted ob + 1\<rparr>
                 else ob\<lparr>ob_rejected := ob_rejected ob + 1\<rparr>))"

definition wl_outbox_reset :: "wl_outbox \<Rightarrow> (wl_err + u16) \<times> wl_outbox" where
  "wl_outbox_reset ob =
     (if \<not> outbox_initialized ob then (Inl WL_ERR_NOT_INITIALIZED, ob)
      else if ob_active ob then (Inl WL_ERR_BUSY, ob)
      else (Inr (ob_depth ob),
            ob\<lparr>ob_slots := replicate (unat (ob_slot_count ob)) empty_slot, ob_depth := 0, ob_cursor := 0,
               ob_resets := ob_resets ob + 1\<rparr>))"

definition wl_outbox_get_stats :: "wl_outbox \<Rightarrow> wl_err + wl_outbox_stats" where
  "wl_outbox_get_stats ob =
     (if \<not> outbox_initialized ob then Inl WL_ERR_NOT_INITIALIZED
      else Inr \<lparr>ost_submitted = ob_submitted ob, ost_coalesced = ob_coalesced ob,
                ost_queue_full = ob_queue_full ob, ost_acquired = ob_acquired ob,
                ost_accepted = ob_accepted ob, ost_deferred = ob_deferred ob,
                ost_rejected = ob_rejected ob, ost_superseded = ob_superseded ob,
                ost_resets = ob_resets ob, ost_depth = ob_depth ob\<rparr>)"

section \<open>Abstraction and invariant\<close>

type_synonym lanes = "u16 \<rightharpoonup> byte list \<times> u64"

definition is_lane :: "u16 \<Rightarrow> wl_outbox_slot \<Rightarrow> bool" where
  "is_lane message_id s \<longleftrightarrow> os_valid s \<and> os_message_id s = message_id"

definition slot_value :: "mem \<Rightarrow> wl_outbox \<Rightarrow> nat \<Rightarrow> byte list \<times> u64" where
  "slot_value m ob i =
     (read_bytes m (payload_at ob i) (os_payload_length (ob_slots ob ! i)), os_generation (ob_slots ob ! i))"

definition outbox_abs :: "mem \<Rightarrow> wl_outbox \<Rightarrow> lanes" where
  "outbox_abs m ob message_id = map_option (slot_value m ob) (slot_search (is_lane message_id) (ob_slots ob) 0)"

definition outbox_inv :: "wl_outbox \<Rightarrow> bool" where
  "outbox_inv ob \<longleftrightarrow>
     outbox_initialized ob \<and> 0 < unat (ob_slot_count ob) \<and>
     length (ob_slots ob) = unat (ob_slot_count ob) \<and>
     (\<forall>i < length (ob_slots ob). \<forall>j < length (ob_slots ob).
        os_valid (ob_slots ob ! i) \<and> os_valid (ob_slots ob ! j) \<and>
        os_message_id (ob_slots ob ! i) = os_message_id (ob_slots ob ! j) \<longrightarrow> i = j) \<and>
     (\<forall>i < length (ob_slots ob). os_payload_length (ob_slots ob ! i) \<le> unat (ob_payload_capacity ob)) \<and>
     unat (ob_depth ob) = length (filter os_valid (ob_slots ob)) \<and>
     unat (ob_cursor ob) < unat (ob_slot_count ob) \<and>
     (ob_active ob \<longrightarrow> unat (ob_active_index ob) < unat (ob_slot_count ob))"

lemma outbox_invD:
  assumes "outbox_inv ob"
  shows "outbox_initialized ob" "0 < unat (ob_slot_count ob)" "length (ob_slots ob) = unat (ob_slot_count ob)"
    "unat (ob_depth ob) = length (filter os_valid (ob_slots ob))"
    "unat (ob_cursor ob) < unat (ob_slot_count ob)"
    "i < length (ob_slots ob) \<Longrightarrow> j < length (ob_slots ob) \<Longrightarrow> os_valid (ob_slots ob ! i) \<Longrightarrow>
     os_valid (ob_slots ob ! j) \<Longrightarrow> os_message_id (ob_slots ob ! i) = os_message_id (ob_slots ob ! j) \<Longrightarrow> i = j"
    "i < length (ob_slots ob) \<Longrightarrow> os_payload_length (ob_slots ob ! i) \<le> unat (ob_payload_capacity ob)"
  using assms unfolding outbox_inv_def by blast+

lemma slot_search_Some:
  "slot_search P xs k = Some i \<Longrightarrow> k \<le> i \<and> i - k < length xs \<and> P (xs ! (i - k))"
proof (induction P xs k rule: slot_search.induct)
  case (2 P x xs k)
  then show ?case by (cases "P x") (auto simp: nth_Cons diff_Suc split: nat.split nat.split_asm)
qed simp

lemma slot_search_None: "slot_search P xs k = None \<longleftrightarrow> (\<forall>x \<in> set xs. \<not> P x)"
  by (induction P xs k rule: slot_search.induct) auto

lemma slot_search_SomeD:
  "slot_search P xs 0 = Some i \<Longrightarrow> i < length xs" "slot_search P xs 0 = Some i \<Longrightarrow> P (xs ! i)"
  using slot_search_Some [of P xs 0 i] by auto

lemma outbox_abs_lane:
  assumes "outbox_inv ob" "i < length (ob_slots ob)" "is_lane n (ob_slots ob ! i)"
  shows "outbox_abs m ob n = Some (slot_value m ob i)"
proof -
  obtain j where j: "slot_search (is_lane n) (ob_slots ob) 0 = Some j"
    using assms(2,3) slot_search_None [of "is_lane n" "ob_slots ob" 0] by (metis nth_mem option.exhaust)
  then have "j = i"
    using slot_search_SomeD [OF j] outbox_invD(6) [OF assms(1), of i j] assms(2,3) by (auto simp: is_lane_def)
  then show ?thesis using j by (simp add: outbox_abs_def)
qed

lemma outbox_abs_none:
  "outbox_abs m ob n = None \<longleftrightarrow> (\<forall>i < length (ob_slots ob). \<not> is_lane n (ob_slots ob ! i))"
  by (simp add: outbox_abs_def slot_search_None all_set_conv_all_nth)

text \<open>Two outboxes agree on a lane when the lane's slot and its bytes agree.\<close>

lemma outbox_abs_agree:
  assumes "outbox_inv ob" "outbox_inv ob'" "length (ob_slots ob') = length (ob_slots ob)"
    and "\<And>i. i < length (ob_slots ob) \<Longrightarrow> is_lane n (ob_slots ob' ! i) = is_lane n (ob_slots ob ! i)"
    and "\<And>i. i < length (ob_slots ob) \<Longrightarrow> is_lane n (ob_slots ob ! i) \<Longrightarrow> slot_value m' ob' i = slot_value m ob i"
  shows "outbox_abs m' ob' n = outbox_abs m ob n"
proof (cases "outbox_abs m ob n")
  case None
  then show ?thesis using assms(3,4) outbox_abs_none by metis
next
  case (Some v)
  then obtain i where i: "i < length (ob_slots ob)" "is_lane n (ob_slots ob ! i)"
    using outbox_abs_none [of m ob n] by auto
  then show ?thesis
    using outbox_abs_lane [OF assms(1) i] outbox_abs_lane [OF assms(2), of i n] assms(3,4,5) by simp
qed

section \<open>Runs of the outbox\<close>

text \<open>
  The operations of a run, and the application's own stores. The application does not write into the
  outbox's payload storage and does not acquire into it; a run skips such a call.
\<close>

datatype outbox_op =
    Outbox_submit u16 addr nat | Outbox_acquire addr nat | Outbox_complete wl_outbox_item wl_outbox_completion
  | Outbox_reset | Outbox_app addr byte

definition outside_storage :: "wl_outbox \<Rightarrow> addr \<Rightarrow> nat \<Rightarrow> bool" where
  "outside_storage ob a n \<longleftrightarrow>
     disjoint_ranges a n (ob_payload_storage ob) (unat (ob_slot_count ob) * unat (ob_payload_capacity ob))"

fun outbox_exec :: "outbox_op \<Rightarrow> mem \<times> wl_outbox \<Rightarrow> mem \<times> wl_outbox" where
  "outbox_exec (Outbox_submit n a k) (m, ob) = snd (snd (wl_outbox_submit_latest m ob n a k))"
| "outbox_exec (Outbox_acquire a k) (m, ob) =
     (if outside_storage ob a k then snd (wl_outbox_acquire_copy m ob a k) else (m, ob))"
| "outbox_exec (Outbox_complete item c) (m, ob) = (m, snd (wl_outbox_complete ob item c))"
| "outbox_exec Outbox_reset (m, ob) = (m, snd (wl_outbox_reset ob))"
| "outbox_exec (Outbox_app a b) (m, ob) = (if outside_storage ob a 1 then m(a := b) else m, ob)"

datatype lane_event = Lane_put u16 "byte list" | Lane_drop u16 | Lane_clear

record outbox_spec =
  sp_lanes :: lanes
  sp_generation :: u64

fun lane_step :: "lane_event \<Rightarrow> outbox_spec \<Rightarrow> outbox_spec" where
  "lane_step (Lane_put n v) sp =
     sp\<lparr>sp_generation := next_generation (sp_generation sp),
        sp_lanes := (sp_lanes sp)(n \<mapsto> (v, next_generation (sp_generation sp)))\<rparr>"
| "lane_step (Lane_drop n) sp = sp\<lparr>sp_lanes := (sp_lanes sp)(n := None)\<rparr>"
| "lane_step Lane_clear sp = sp\<lparr>sp_lanes := Map.empty\<rparr>"

definition outbox_spec_of :: "mem \<Rightarrow> wl_outbox \<Rightarrow> outbox_spec" where
  "outbox_spec_of m ob = \<lparr>sp_lanes = outbox_abs m ob, sp_generation = ob_next_generation ob\<rparr>"

text \<open>
  An accepted or rejected completion drops its lane only while the lane still holds the value that was
  acquired.
\<close>

fun outbox_events :: "outbox_op \<Rightarrow> mem \<times> wl_outbox \<Rightarrow> lane_event list" where
  "outbox_events (Outbox_submit n a k) (m, ob) =
     (if fst (wl_outbox_submit_latest m ob n a k) = WL_OK then [Lane_put n (read_bytes m a k)] else [])"
| "outbox_events (Outbox_complete item c) (m, ob) =
     (let s = ob_slots ob ! unat (oi_slot_index item)
      in if fst (wl_outbox_complete ob item c) = WL_OK \<and> c \<noteq> WL_OUTBOX_DEFERRED \<and>
            map_option snd (outbox_abs m ob (os_message_id s)) = Some (oi_token item) \<and> os_valid s
         then [Lane_drop (os_message_id s)] else [])"
| "outbox_events Outbox_reset (m, ob) = (if isl (fst (wl_outbox_reset ob)) then [] else [Lane_clear])"
| "outbox_events _ _ = []"

definition outbox_step_ok :: "outbox_op \<Rightarrow> mem \<Rightarrow> wl_outbox \<Rightarrow> bool" where
  "outbox_step_ok op m ob \<longleftrightarrow> (case outbox_exec op (m, ob) of (m', ob') \<Rightarrow>
     outbox_inv ob' \<and> outbox_spec_of m' ob' = fold lane_step (outbox_events op (m, ob)) (outbox_spec_of m ob))"

lemma slot_value_outside:
  assumes "outbox_inv ob" "i < length (ob_slots ob)" "outside_storage ob a (length bs)"
  shows "slot_value (write_bytes m a bs) ob i = slot_value m ob i"
proof -
  have "(i + 1) * unat (ob_payload_capacity ob) \<le> unat (ob_slot_count ob) * unat (ob_payload_capacity ob)"
    using assms(2) outbox_invD(3) [OF assms(1)] by (intro mult_right_mono) auto
  then have "disjoint_ranges (payload_at ob i) (os_payload_length (ob_slots ob ! i)) a (length bs)"
    using outbox_invD(7) [OF assms(1,2)] assms(3)
    by (auto simp: disjoint_ranges_def outside_storage_def payload_at_def algebra_simps)
  then show ?thesis by (simp add: slot_value_def read_write_disjoint)
qed

lemma outbox_abs_outside:
  assumes "outbox_inv ob" "outside_storage ob a (length bs)"
  shows "outbox_abs (write_bytes m a bs) ob = outbox_abs m ob"
  by (rule ext, rule outbox_abs_agree) (use assms slot_value_outside in auto)

lemma outbox_step_app: "outbox_inv ob \<Longrightarrow> outbox_step_ok (Outbox_app a b) m ob"
  using outbox_abs_outside [of ob a "[b]" m]
  by (auto simp: outbox_step_ok_def outbox_spec_of_def write_bytes_single)

lemma outbox_frame:
  assumes "outbox_inv ob" "ob_slots ob' = ob_slots ob" "ob_payload_storage ob' = ob_payload_storage ob"
    "ob_payload_capacity ob' = ob_payload_capacity ob" "ob_slot_count ob' = ob_slot_count ob"
    "ob_magic ob' = ob_magic ob" "ob_depth ob' = ob_depth ob"
    "unat (ob_cursor ob') < unat (ob_slot_count ob)"
    "ob_active ob' \<Longrightarrow> unat (ob_active_index ob') < unat (ob_slot_count ob)"
  shows "outbox_inv ob'" "outbox_abs m ob' = outbox_abs m ob"
proof -
  show "outbox_inv ob'" using assms by (simp add: outbox_inv_def outbox_initialized_def)
  have "slot_value m ob' = slot_value m ob" using assms by (simp add: slot_value_def payload_at_def fun_eq_iff)
  then show "outbox_abs m ob' = outbox_abs m ob" using assms(2)
    by (intro ext) (simp add: outbox_abs_def)
qed

lemma acquire_search_Some:
  "acquire_search ob n k = Some i \<Longrightarrow>
   \<exists>j < n. i = (unat (ob_cursor ob) + (k + j)) mod unat (ob_slot_count ob) \<and> os_valid (ob_slots ob ! i) \<and>
     (\<forall>j' < j. \<not> os_valid (ob_slots ob ! ((unat (ob_cursor ob) + (k + j')) mod unat (ob_slot_count ob))))"
proof (induction n arbitrary: k)
  case (Suc n)
  show ?case
  proof (cases "os_valid (ob_slots ob ! ((unat (ob_cursor ob) + k) mod unat (ob_slot_count ob)))")
    case True
    then show ?thesis using Suc.prems by (intro exI [of _ 0]) (simp add: Let_def)
  next
    case False
    then obtain j where j: "j < n" "i = (unat (ob_cursor ob) + (k + 1 + j)) mod unat (ob_slot_count ob)"
      "os_valid (ob_slots ob ! i)"
      "\<forall>j' < j. \<not> os_valid (ob_slots ob ! ((unat (ob_cursor ob) + (k + 1 + j')) mod unat (ob_slot_count ob)))"
      using Suc.prems Suc.IH [of "k + 1"] by (auto simp: Let_def)
    then show ?thesis using False by (intro exI [of _ "Suc j"]) (auto simp: less_Suc_eq_0_disj)
  qed
qed simp

lemma acquire_search_None:
  "acquire_search ob n k = None \<longleftrightarrow>
   (\<forall>j < n. \<not> os_valid (ob_slots ob ! ((unat (ob_cursor ob) + (k + j)) mod unat (ob_slot_count ob))))"
  by (induction n arbitrary: k) (auto simp: Let_def less_Suc_eq_0_disj)

lemma acquire_search_less:
  "outbox_inv ob \<Longrightarrow> acquire_search ob n k = Some i \<Longrightarrow> i < unat (ob_slot_count ob)"
  using acquire_search_Some [of ob n k i] outbox_invD(2) [of ob] by auto

lemma unat_of_nat_index:
  assumes "i < unat (c :: u16)"
  shows "unat (of_nat i :: u16) = i"
proof -
  have "unat c < 2 ^ 16" using unsigned_less [of c] by simp
  then show ?thesis using assms by (simp add: unat_of_nat)
qed

lemma outbox_step_acquire:
  assumes "outbox_inv ob"
  shows "outbox_step_ok (Outbox_acquire a k) m ob"
proof -
  define m' ob' where "m' = fst (snd (wl_outbox_acquire_copy m ob a k))"
    and "ob' = snd (snd (wl_outbox_acquire_copy m ob a k))"
  have act: "ob_active ob \<Longrightarrow> unat (ob_active_index ob) < unat (ob_slot_count ob)"
    using assms by (simp add: outbox_inv_def)
  have idx: "unat (of_nat i :: u16) < unat (ob_slot_count ob)" if "acquire_search ob n k = Some i" for n k i
    using acquire_search_less [OF assms that] unat_of_nat_index by simp
  have "ob_active ob' \<Longrightarrow> unat (ob_active_index ob') < unat (ob_slot_count ob)"
    using act idx
    by (auto simp: ob'_def wl_outbox_acquire_copy_def Let_def split: option.splits if_splits)
  moreover have "ob_slots ob' = ob_slots ob" "ob_payload_storage ob' = ob_payload_storage ob"
    "ob_payload_capacity ob' = ob_payload_capacity ob" "ob_slot_count ob' = ob_slot_count ob"
    "ob_magic ob' = ob_magic ob" "ob_depth ob' = ob_depth ob" "ob_cursor ob' = ob_cursor ob"
    and gen: "ob_next_generation ob' = ob_next_generation ob"
    by (auto simp: ob'_def wl_outbox_acquire_copy_def Let_def split: option.splits)
  ultimately have "outbox_inv ob' \<and> outbox_abs m'' ob' = outbox_abs m'' ob \<and>
      ob_next_generation ob' = ob_next_generation ob" for m''
    using outbox_frame [OF assms, of ob'] outbox_invD(5) [OF assms] gen by simp
  moreover have "outbox_abs m' ob = outbox_abs m ob" if out: "outside_storage ob a k"
  proof -
    have "outside_storage ob a n" if "n \<le> k" for n
      using out that by (auto simp: outside_storage_def disjoint_ranges_def)
    then show ?thesis
      using outbox_abs_outside [OF assms]
      by (auto simp: m'_def wl_outbox_acquire_copy_def Let_def split: option.splits)
  qed
  ultimately show ?thesis
    using assms by (auto simp: outbox_step_ok_def outbox_spec_of_def m'_def ob'_def split_beta)
qed

lemma outbox_step_reset:
  assumes "outbox_inv ob"
  shows "outbox_step_ok Outbox_reset m ob"
proof (cases "ob_active ob")
  case False
  let ?ob = "snd (wl_outbox_reset ob)"
  have ob: "?ob = ob\<lparr>ob_slots := replicate (unat (ob_slot_count ob)) empty_slot, ob_depth := 0, ob_cursor := 0,
      ob_resets := ob_resets ob + 1\<rparr>"
    using False outbox_invD(1) [OF assms] by (simp add: wl_outbox_reset_def)
  have "outbox_inv ?ob"
    unfolding ob using False outbox_invD(1,2) [OF assms] by (simp add: outbox_inv_def outbox_initialized_def empty_slot_def)
  moreover have "outbox_abs m ?ob = Map.empty"
    by (rule ext) (simp add: outbox_abs_none ob is_lane_def empty_slot_def)
  ultimately show ?thesis
    using False outbox_invD(1) [OF assms]
    by (simp add: outbox_step_ok_def outbox_spec_of_def) (simp add: wl_outbox_reset_def)
next
  case True
  then show ?thesis using assms outbox_invD(1) [OF assms]
    by (simp add: outbox_step_ok_def wl_outbox_reset_def)
qed

text \<open>Replacing one slot keeps the invariant when its lane is its own and the depth is adjusted.\<close>

lemma outbox_inv_update:
  assumes "outbox_inv ob" "i < length (ob_slots ob)"
    and "os_payload_length s \<le> unat (ob_payload_capacity ob)"
    and "\<And>j. j < length (ob_slots ob) \<Longrightarrow> j \<noteq> i \<Longrightarrow> os_valid s \<Longrightarrow> \<not> is_lane (os_message_id s) (ob_slots ob ! j)"
    and "ob_slots ob' = (ob_slots ob)[i := s]" "ob_payload_capacity ob' = ob_payload_capacity ob"
      "ob_slot_count ob' = ob_slot_count ob" "ob_magic ob' = ob_magic ob"
      "unat (ob_depth ob') + of_bool (os_valid (ob_slots ob ! i)) = unat (ob_depth ob) + of_bool (os_valid s)"
      "unat (ob_cursor ob') < unat (ob_slot_count ob)"
      "ob_active ob' \<Longrightarrow> unat (ob_active_index ob') < unat (ob_slot_count ob)"
  shows "outbox_inv ob'"
proof -
  note inv = outbox_invD [OF assms(1)]
  have "unat (ob_depth ob') = length (filter os_valid (ob_slots ob'))"
    using assms(9) inv(4) length_filter_update [OF assms(2), of os_valid s] by (simp add: assms(5))
  moreover have "j = k" if "j < length (ob_slots ob)" "k < length (ob_slots ob)"
    "os_valid ((ob_slots ob)[i := s] ! j)" "os_valid ((ob_slots ob)[i := s] ! k)"
    "os_message_id ((ob_slots ob)[i := s] ! j) = os_message_id ((ob_slots ob)[i := s] ! k)" for j k
    using that inv(6) [of j k] assms(2) assms(4) [of j] assms(4) [of k]
    by (cases "j = i"; cases "k = i") (auto simp: is_lane_def)
  moreover have "os_payload_length ((ob_slots ob)[i := s] ! j) \<le> unat (ob_payload_capacity ob)"
    if "j < length (ob_slots ob)" for j
    using that inv(7) [of j] assms(2,3) by (cases "j = i") auto
  ultimately show ?thesis
    unfolding outbox_inv_def using assms(5-8,10,11) inv(1-3) by (simp add: outbox_initialized_def)
qed

lemma slot_value_other:
  assumes "outbox_inv ob" "i \<noteq> j" "j < length (ob_slots ob)" "length bs \<le> unat (ob_payload_capacity ob)"
    "ob_slots ob' = (ob_slots ob)[i := s]" "ob_payload_storage ob' = ob_payload_storage ob"
    "ob_payload_capacity ob' = ob_payload_capacity ob"
  shows "slot_value (write_bytes m (payload_at ob i) bs) ob' j = slot_value m ob j"
proof -
  let ?c = "unat (ob_payload_capacity ob)"
  have "i * ?c + ?c \<le> j * ?c \<or> j * ?c + ?c \<le> i * ?c"
    using assms(2) mult_le_mono1 [of "i + 1" j ?c] mult_le_mono1 [of "j + 1" i ?c] by (simp add: nat_neq_iff) linarith
  then have "disjoint_ranges (payload_at ob j) (os_payload_length (ob_slots ob ! j)) (payload_at ob i) (length bs)"
    using outbox_invD(7) [OF assms(1,3)] assms(4) by (auto simp: disjoint_ranges_def payload_at_def)
  then show ?thesis
    using assms(2,5-7) by (simp add: slot_value_def payload_at_def read_write_disjoint)
qed

lemma outbox_abs_put:
  assumes inv: "outbox_inv ob" "outbox_inv ob'" and i: "i < length (ob_slots ob)" "length bs \<le> unat (ob_payload_capacity ob)"
    and own: "\<And>j. j < length (ob_slots ob) \<Longrightarrow> j \<noteq> i \<Longrightarrow> \<not> is_lane n (ob_slots ob ! j)"
    and free: "os_valid (ob_slots ob ! i) \<Longrightarrow> os_message_id (ob_slots ob ! i) = n"
    and ob': "ob_slots ob' = (ob_slots ob)[i := \<lparr>os_generation = g, os_payload_length = length bs,
                                                os_message_id = n, os_valid = True\<rparr>]"
      "ob_payload_storage ob' = ob_payload_storage ob" "ob_payload_capacity ob' = ob_payload_capacity ob"
  shows "outbox_abs (write_bytes m (payload_at ob i) bs) ob' = (outbox_abs m ob)(n \<mapsto> (bs, g))"
proof
  fix k
  let ?m = "write_bytes m (payload_at ob i) bs"
  show "outbox_abs ?m ob' k = ((outbox_abs m ob)(n \<mapsto> (bs, g))) k"
  proof (cases "k = n")
    case True
    then show ?thesis
      using outbox_abs_lane [OF inv(2), of i n ?m] i
      by (simp add: ob'(1) is_lane_def slot_value_def payload_at_def ob'(2,3))
  next
    case False
    have "outbox_abs ?m ob' k = outbox_abs m ob k"
    proof (rule outbox_abs_agree [OF inv])
      fix j assume j: "j < length (ob_slots ob)"
      show lane: "is_lane k (ob_slots ob' ! j) = is_lane k (ob_slots ob ! j)"
        using False free j by (cases "j = i") (auto simp: ob'(1) is_lane_def)
      show "slot_value ?m ob' j = slot_value m ob j" if "is_lane k (ob_slots ob ! j)"
        using slot_value_other [OF inv(1) _ j i(2) ob'] that False free by (auto simp: is_lane_def)
    qed (simp add: ob'(1))
    then show ?thesis using False by simp
  qed
qed

lemma outbox_abs_drop:
  assumes inv: "outbox_inv ob" "outbox_inv ob'" and i: "i < length (ob_slots ob)" "is_lane n (ob_slots ob ! i)"
    and ob': "ob_slots ob' = (ob_slots ob)[i := empty_slot]"
      "ob_payload_storage ob' = ob_payload_storage ob" "ob_payload_capacity ob' = ob_payload_capacity ob"
  shows "outbox_abs m ob' = (outbox_abs m ob)(n := None)"
proof
  fix k
  show "outbox_abs m ob' k = ((outbox_abs m ob)(n := None)) k"
  proof (cases "k = n")
    case True
    have "\<not> is_lane n (ob_slots ob' ! j)" if "j < length (ob_slots ob)" for j
      using that i outbox_invD(6) [OF inv(1), of i j]
      by (cases "j = i") (auto simp: ob'(1) is_lane_def empty_slot_def)
    then show ?thesis using True by (simp add: outbox_abs_none ob'(1))
  next
    case False
    have "outbox_abs m ob' k = outbox_abs m ob k"
    proof (rule outbox_abs_agree [OF inv])
      fix j assume j: "j < length (ob_slots ob)"
      show "is_lane k (ob_slots ob' ! j) = is_lane k (ob_slots ob ! j)"
        using False i(2) j by (cases "j = i") (auto simp: ob'(1) is_lane_def empty_slot_def)
      show "slot_value m ob' j = slot_value m ob j" if "is_lane k (ob_slots ob ! j)"
        using that False i(2) by (cases "j = i") (auto simp: is_lane_def slot_value_def payload_at_def ob')
    qed (simp add: ob'(1))
    then show ?thesis using False by simp
  qed
qed

text \<open>A successful submit: its slot is the lane's own slot, or a free one when the lane is empty.\<close>

definition submitted_slot :: "wl_outbox \<Rightarrow> u16 \<Rightarrow> nat option" where
  "submitted_slot ob n =
     (case slot_search (is_lane n) (ob_slots ob) 0 of
        Some i \<Rightarrow> Some i | None \<Rightarrow> slot_search (\<lambda>s. \<not> os_valid s) (ob_slots ob) 0)"

definition put_slot :: "wl_outbox \<Rightarrow> nat \<Rightarrow> u16 \<Rightarrow> nat \<Rightarrow> wl_outbox" where
  "put_slot ob i n k =
     (let g = next_generation (ob_next_generation ob)
      in ob\<lparr>ob_next_generation := g,
            ob_slots := (ob_slots ob)[i := \<lparr>os_generation = g, os_payload_length = k,
                                           os_message_id = n, os_valid = True\<rparr>],
            ob_submitted := ob_submitted ob + 1,
            ob_coalesced := (if is_lane n (ob_slots ob ! i) then ob_coalesced ob + 1 else ob_coalesced ob),
            ob_depth := (if is_lane n (ob_slots ob ! i) then ob_depth ob else ob_depth ob + 1)\<rparr>)"

lemma put_slot_generation [simp]:
  "ob_next_generation (put_slot ob i n k) = next_generation (ob_next_generation ob)"
  by (simp add: put_slot_def Let_def)

lemma submitted_slotD:
  assumes "submitted_slot ob n = Some i"
  shows "i < length (ob_slots ob)" "os_valid (ob_slots ob ! i) \<Longrightarrow> os_message_id (ob_slots ob ! i) = n"
    "is_lane n (ob_slots ob ! i) \<longleftrightarrow> slot_search (is_lane n) (ob_slots ob) 0 \<noteq> None"
proof -
  show "i < length (ob_slots ob)"
    using assms slot_search_SomeD(1) by (auto simp: submitted_slot_def split: option.splits)
  show "os_valid (ob_slots ob ! i) \<Longrightarrow> os_message_id (ob_slots ob ! i) = n"
    "is_lane n (ob_slots ob ! i) \<longleftrightarrow> slot_search (is_lane n) (ob_slots ob) 0 \<noteq> None"
    using assms slot_search_SomeD(2) [of "is_lane n" "ob_slots ob" i]
      slot_search_SomeD(2) [of "\<lambda>s. \<not> os_valid s" "ob_slots ob" i]
    by (auto simp: submitted_slot_def is_lane_def split: option.splits)
qed

lemma submitted_slot_own:
  assumes "outbox_inv ob" "submitted_slot ob n = Some i" "j < length (ob_slots ob)" "j \<noteq> i"
  shows "\<not> is_lane n (ob_slots ob ! j)"
proof (cases "slot_search (is_lane n) (ob_slots ob) 0")
  case None
  then show ?thesis using assms(3) by (auto simp: slot_search_None)
next
  case (Some i')
  then have "is_lane n (ob_slots ob ! i)" "i < length (ob_slots ob)"
    using submitted_slotD [OF assms(2)] by auto
  then show ?thesis using outbox_invD(6) [OF assms(1), of i j] assms(3,4) by (auto simp: is_lane_def)
qed

lemma wl_outbox_submit_latest_eq:
  assumes "outbox_inv ob"
  shows "wl_outbox_submit_latest m ob n a k =
     (if n = 0 \<or> k > unat (ob_payload_capacity ob) \<or> (a = NULL \<and> k \<noteq> 0)
      then (WL_ERR_INVALID_ARG, False, m, ob)
      else case submitted_slot ob n of
             None \<Rightarrow> (WL_ERR_QUEUE_FULL, False, m, ob\<lparr>ob_queue_full := ob_queue_full ob + 1\<rparr>)
           | Some i \<Rightarrow> (WL_OK, is_lane n (ob_slots ob ! i),
                         write_bytes m (payload_at ob i) (read_bytes m a k), put_slot ob i n k))"
proof -
  have "(\<lambda>s. os_valid s \<and> os_message_id s = n) = is_lane n" by (auto simp: is_lane_def)
  then show ?thesis
    using outbox_invD(1) [OF assms] submitted_slotD(3) [of ob n]
    by (cases "slot_search (is_lane n) (ob_slots ob) 0"; cases "k = 0")
       (auto simp: wl_outbox_submit_latest_def submitted_slot_def put_slot_def Let_def split: option.splits)
qed

lemma put_slot_inv:
  assumes "outbox_inv ob" "submitted_slot ob n = Some i" "k \<le> unat (ob_payload_capacity ob)"
  shows "outbox_inv (put_slot ob i n k)"
proof (rule outbox_inv_update [OF assms(1)])
  note inv = outbox_invD [OF assms(1)] and i = submitted_slotD [OF assms(2)]
  show "i < length (ob_slots ob)" by (rule i)
  show "unat (ob_depth (put_slot ob i n k)) + of_bool (os_valid (ob_slots ob ! i)) =
        unat (ob_depth ob) + of_bool (os_valid \<lparr>os_generation = next_generation (ob_next_generation ob),
          os_payload_length = k, os_message_id = n, os_valid = True\<rparr>)"
  proof (cases "os_valid (ob_slots ob ! i)")
    case True
    then show ?thesis using i(2) by (simp add: put_slot_def Let_def is_lane_def)
  next
    case False
    then have "length (filter os_valid (ob_slots ob)) < length (ob_slots ob)"
      using i(1) by (metis length_filter_less nth_mem)
    then have "unat (ob_depth ob) + 1 < 2 ^ 16"
      using inv(3,4) unat_u16_bound [of "ob_slot_count ob"] by simp
    then show ?thesis using False by (simp add: put_slot_def Let_def is_lane_def unat_word_ariths)
  qed
qed (use assms submitted_slot_own [OF assms(1,2)] outbox_invD [OF assms(1)] in
     \<open>auto simp: put_slot_def Let_def outbox_inv_def\<close>)

lemma outbox_step_submit:
  assumes "outbox_inv ob"
  shows "outbox_step_ok (Outbox_submit n a k) m ob"
proof (cases "n = 0 \<or> k > unat (ob_payload_capacity ob) \<or> (a = NULL \<and> k \<noteq> 0)")
  case True
  then show ?thesis
    using assms by (auto simp: outbox_step_ok_def wl_outbox_submit_latest_eq [OF assms])
next
  case False
  show ?thesis
  proof (cases "submitted_slot ob n")
    case None
    have "outbox_inv (ob\<lparr>ob_queue_full := ob_queue_full ob + 1\<rparr>)"
      "outbox_abs m (ob\<lparr>ob_queue_full := ob_queue_full ob + 1\<rparr>) = outbox_abs m ob"
      by (rule outbox_frame [OF assms]; use assms in \<open>simp add: outbox_inv_def\<close>)+
    then show ?thesis
      using False None
      by (auto simp: outbox_step_ok_def wl_outbox_submit_latest_eq [OF assms] outbox_spec_of_def)
  next
    case (Some i)
    have inv: "outbox_inv (put_slot ob i n k)" using put_slot_inv [OF assms Some] False by simp
    have "outbox_abs (write_bytes m (payload_at ob i) (read_bytes m a k)) (put_slot ob i n k) =
          (outbox_abs m ob)(n \<mapsto> (read_bytes m a k, next_generation (ob_next_generation ob)))"
      by (rule outbox_abs_put [OF assms inv])
         (use False submitted_slotD [OF Some] submitted_slot_own [OF assms Some] in
          \<open>auto simp: put_slot_def Let_def\<close>)
    then show ?thesis
      using False Some inv
      by (auto simp: outbox_step_ok_def wl_outbox_submit_latest_eq [OF assms] outbox_spec_of_def)
  qed
qed

text \<open>The guard of a completion, and the state it leaves.\<close>

definition completes :: "wl_outbox \<Rightarrow> wl_outbox_item \<Rightarrow> bool" where
  "completes ob item \<longleftrightarrow> ob_active ob \<and> ob_active_index ob = oi_slot_index item \<and> ob_active_token ob = oi_token item"

definition finished :: "wl_outbox \<Rightarrow> wl_outbox_item \<Rightarrow> wl_outbox" where
  "finished ob item =
     (let i = unat (oi_slot_index item);
          live = (os_valid (ob_slots ob ! i) \<and> os_generation (ob_slots ob ! i) = oi_token item)
      in ob\<lparr>ob_active := False, ob_active_token := 0,
            ob_slots := (if live then (ob_slots ob)[i := empty_slot] else ob_slots ob),
            ob_depth := (if live then ob_depth ob - 1 else ob_depth ob),
            ob_superseded := (if live then ob_superseded ob else ob_superseded ob + 1),
            ob_cursor := of_nat ((i + 1) mod unat (ob_slot_count ob))\<rparr>)"

lemma wl_outbox_complete_eq:
  assumes "outbox_inv ob" "completes ob item"
  shows "wl_outbox_complete ob item WL_OUTBOX_ACCEPTED =
           (WL_OK, (finished ob item)\<lparr>ob_accepted := ob_accepted ob + 1\<rparr>)"
    "wl_outbox_complete ob item WL_OUTBOX_REJECTED =
       (WL_OK, (finished ob item)\<lparr>ob_rejected := ob_rejected ob + 1\<rparr>)"
    "wl_outbox_complete ob item WL_OUTBOX_DEFERRED =
       (WL_OK, ob\<lparr>ob_active := False, ob_active_token := 0, ob_deferred := ob_deferred ob + 1\<rparr>)"
    "unat (oi_slot_index item) < length (ob_slots ob)"
proof -
  show "unat (oi_slot_index item) < length (ob_slots ob)"
    using assms by (auto simp: outbox_inv_def completes_def)
  then have "\<not> oi_slot_index item \<ge> ob_slot_count ob"
    using outbox_invD(3) [OF assms(1)] by (simp add: word_le_nat_alt)
  then show "wl_outbox_complete ob item WL_OUTBOX_ACCEPTED =
           (WL_OK, (finished ob item)\<lparr>ob_accepted := ob_accepted ob + 1\<rparr>)"
    "wl_outbox_complete ob item WL_OUTBOX_REJECTED =
       (WL_OK, (finished ob item)\<lparr>ob_rejected := ob_rejected ob + 1\<rparr>)"
    "wl_outbox_complete ob item WL_OUTBOX_DEFERRED =
       (WL_OK, ob\<lparr>ob_active := False, ob_active_token := 0, ob_deferred := ob_deferred ob + 1\<rparr>)"
    using assms(2) outbox_invD(1) [OF assms(1)]
    by (auto simp: wl_outbox_complete_def finished_def completes_def Let_def)
qed

lemma wl_outbox_complete_refused:
  assumes "\<not> completes ob item \<or> c \<notin> {WL_OUTBOX_ACCEPTED, WL_OUTBOX_DEFERRED, WL_OUTBOX_REJECTED}"
  shows "fst (wl_outbox_complete ob item c) \<noteq> WL_OK" "snd (wl_outbox_complete ob item c) = ob"
  using assms by (auto simp: wl_outbox_complete_def completes_def Let_def)

lemma finished_ok:
  assumes "outbox_inv ob" "completes ob item"
  shows "outbox_inv (finished ob item)"
    "outbox_abs m (finished ob item) =
       (let s = ob_slots ob ! unat (oi_slot_index item)
        in if os_valid s \<and> os_generation s = oi_token item
           then (outbox_abs m ob)(os_message_id s := None) else outbox_abs m ob)"
proof -
  define i where "i = unat (oi_slot_index item)"
  note inv = outbox_invD [OF assms(1)]
  have i: "i < length (ob_slots ob)" using wl_outbox_complete_eq(4) [OF assms] by (simp add: i_def)
  have cur: "unat (ob_cursor (finished ob item)) < unat (ob_slot_count ob)"
    using inv(2) by (simp add: finished_def Let_def unat_of_nat_index [of _ "ob_slot_count ob"])
  have ob: "ob_payload_storage (finished ob item) = ob_payload_storage ob"
    "ob_payload_capacity (finished ob item) = ob_payload_capacity ob"
    "ob_slot_count (finished ob item) = ob_slot_count ob" "ob_magic (finished ob item) = ob_magic ob"
    "\<not> ob_active (finished ob item)"
    by (simp_all add: finished_def Let_def)
  have "outbox_inv (finished ob item) \<and> outbox_abs m (finished ob item) =
       (if os_valid (ob_slots ob ! i) \<and> os_generation (ob_slots ob ! i) = oi_token item
        then (outbox_abs m ob)(os_message_id (ob_slots ob ! i) := None) else outbox_abs m ob)"
  proof (cases "os_valid (ob_slots ob ! i) \<and> os_generation (ob_slots ob ! i) = oi_token item")
    case True
    have sl: "ob_slots (finished ob item) = (ob_slots ob)[i := empty_slot]"
      and d: "ob_depth (finished ob item) = ob_depth ob - 1"
      using True by (simp_all add: finished_def Let_def i_def)
    have "ob_slots ob ! i \<in> set (filter os_valid (ob_slots ob))" using True i by simp
    then have "0 < unat (ob_depth ob)" unfolding inv(4) by (rule length_pos_if_in_set)
    then have "unat (ob_depth ob - 1) + 1 = unat (ob_depth ob)"
      by (simp add: unat_minus_one unat_gt_0)
    then have inv': "outbox_inv (finished ob item)"
      using True cur ob d
      by (intro outbox_inv_update [OF assms(1) i _ _ sl]) (auto simp: empty_slot_def)
    moreover have "outbox_abs m (finished ob item) = (outbox_abs m ob)(os_message_id (ob_slots ob ! i) := None)"
      by (rule outbox_abs_drop [OF assms(1) inv' i _ sl ob(1,2)]) (use True in \<open>simp add: is_lane_def\<close>)
    ultimately show ?thesis using True by simp
  next
    case False
    have "ob_slots (finished ob item) = ob_slots ob" "ob_depth (finished ob item) = ob_depth ob"
      using False by (auto simp: finished_def Let_def i_def)
    then show ?thesis
      using outbox_frame [OF assms(1), of "finished ob item"] cur ob False by auto
  qed
  then show "outbox_inv (finished ob item)"
    "outbox_abs m (finished ob item) =
       (let s = ob_slots ob ! unat (oi_slot_index item)
        in if os_valid s \<and> os_generation s = oi_token item
           then (outbox_abs m ob)(os_message_id s := None) else outbox_abs m ob)"
    by (simp_all add: i_def Let_def)
qed

lemma outbox_counter_frame:
  assumes "outbox_inv ob"
  shows "outbox_inv (ob\<lparr>ob_accepted := x\<rparr>)" "outbox_abs m (ob\<lparr>ob_accepted := x\<rparr>) = outbox_abs m ob"
    "outbox_inv (ob\<lparr>ob_rejected := x\<rparr>)" "outbox_abs m (ob\<lparr>ob_rejected := x\<rparr>) = outbox_abs m ob"
    "outbox_inv (ob\<lparr>ob_active := False, ob_active_token := t, ob_deferred := x\<rparr>)"
    "outbox_abs m (ob\<lparr>ob_active := False, ob_active_token := t, ob_deferred := x\<rparr>) = outbox_abs m ob"
  by (rule outbox_frame [OF assms]; use assms in \<open>simp add: outbox_inv_def\<close>)+

lemma outbox_step_complete:
  assumes "outbox_inv ob"
  shows "outbox_step_ok (Outbox_complete item c) m ob"
proof (cases "completes ob item \<and> c \<in> {WL_OUTBOX_ACCEPTED, WL_OUTBOX_DEFERRED, WL_OUTBOX_REJECTED}")
  case False
  then show ?thesis
    using assms wl_outbox_complete_refused [of ob item c] by (auto simp: outbox_step_ok_def Let_def)
next
  case True
  then have comp: "completes ob item" by simp
  let ?s = "ob_slots ob ! unat (oi_slot_index item)"
  note eq = wl_outbox_complete_eq [OF assms comp] and fin = finished_ok [OF assms comp]
  have "os_valid ?s \<Longrightarrow> map_option snd (outbox_abs m ob (os_message_id ?s)) = Some (oi_token item) \<longleftrightarrow>
      os_generation ?s = oi_token item"
    using outbox_abs_lane [OF assms eq(4), of "os_message_id ?s" m] by (auto simp: is_lane_def slot_value_def)
  then have ev: "outbox_events (Outbox_complete item c) (m, ob) =
      (if c \<noteq> WL_OUTBOX_DEFERRED \<and> os_valid ?s \<and> os_generation ?s = oi_token item
       then [Lane_drop (os_message_id ?s)] else [])"
    using True eq(1-3) by (auto simp: Let_def)
  have gen: "ob_next_generation (finished ob item) = ob_next_generation ob" by (simp add: finished_def Let_def)
  show ?thesis
    using True fin outbox_counter_frame [OF fin(1)] outbox_counter_frame [OF assms] gen
    unfolding outbox_step_ok_def ev by (auto simp: eq(1-3) outbox_spec_of_def Let_def)
qed

lemma outbox_step:
  assumes "outbox_inv ob"
  shows "outbox_step_ok op m ob"
  using outbox_step_submit [OF assms] outbox_step_acquire [OF assms] outbox_step_complete [OF assms]
    outbox_step_reset [OF assms] outbox_step_app [OF assms]
  by (cases op) auto

interpretation obx: simulation outbox_exec "\<lambda>(m, ob). outbox_inv ob" "\<lambda>(m, ob). outbox_spec_of m ob"
  outbox_events lane_step
  by unfold_locales (use outbox_step in \<open>auto simp: outbox_step_ok_def split_beta\<close>)

section \<open>Generations\<close>

lemma unat_next_generation:
  "unat (next_generation g) = (if unat g = 2 ^ 64 - 1 then 1 else unat g + 1)"
proof (cases "g + 1 = 0")
  case True
  then have "g = - 1" by (metis add_eq_0_iff2)
  then show ?thesis by (simp add: next_generation_def Let_def unsigned_minus_1_eq_mask mask_eq_exp_minus_1)
next
  case False
  then have "unat (g + 1) \<noteq> 0" by (simp only: unat_eq_zero not_False_eq_True)
  moreover have "unat g < 2 ^ 64" using unsigned_less [of g] by simp
  moreover have "unat (g + 1) = (unat g + 1) mod 2 ^ 64" by (simp add: unat_word_ariths)
  ultimately have "unat g + 1 < 2 ^ 64" by (cases "unat g + 1 = 2 ^ 64") auto
  then show ?thesis using False by (simp add: next_generation_def Let_def unat_word_ariths)
qed

text \<open>The generation of the \<open>n\<close>-th submit; all of them differ for \<open>2^64 - 1\<close> submits.\<close>

definition generation_nth :: "u64 \<Rightarrow> nat \<Rightarrow> u64" where
  "generation_nth g n = (next_generation ^^ n) g"

lemma unat_generation_nth:
  "unat (generation_nth g (Suc n)) = (unat g mod (2 ^ 64 - 1) + n) mod (2 ^ 64 - 1) + 1"
proof (induction n)
  case 0
  have "unat g < 2 ^ 64" using unsigned_less [of g] by simp
  then have "unat g = 2 ^ 64 - 1 \<or> unat g < 2 ^ 64 - 1" by linarith
  then show ?case by (auto simp: generation_nth_def unat_next_generation)
next
  case (Suc n)
  define M x where "M = (2 ^ 64 - 1 :: nat)" and "x = unat g mod M + n"
  have "unat (generation_nth g (Suc (Suc n))) = (if x mod M + 1 = M then 1 else x mod M + 1 + 1)"
    using Suc unat_next_generation [of "generation_nth g (Suc n)"]
    by (simp only: generation_nth_def funpow.simps(2) comp_apply M_def [symmetric] x_def [symmetric])
  also have "\<dots> = (x + 1) mod M + 1"
    using mod_Suc [of x M] by (auto simp: M_def)
  finally show ?case by (simp add: x_def M_def)
qed

lemma generation_nth_inj:
  assumes "generation_nth g i = generation_nth g j" "0 < i" "0 < j" "i < 2 ^ 64" "j < 2 ^ 64"
  shows "i = j"
proof -
  define M a where "M = (2 ^ 64 - 1 :: nat)" and "a = unat g mod M"
  obtain i' j' where ij: "i = Suc i'" "j = Suc j'" using assms(2,3) by (auto simp: gr0_conv_Suc)
  then have "(a + i') mod M = (a + j') mod M"
    using assms(1) unat_generation_nth [of g i'] unat_generation_nth [of g j'] by (simp add: a_def M_def)
  then have "i' = j'" using mod_window_inj [of i' M j' a] assms(4,5) ij by (simp add: M_def)
  then show ?thesis using ij by simp
qed

fun puts :: "lane_event list \<Rightarrow> u16 list" where
  "puts [] = []"
| "puts (Lane_put n v # es) = n # puts es"
| "puts (_ # es) = puts es"

lemma puts_append [simp]: "puts (xs @ ys) = puts xs @ puts ys"
  by (induction xs rule: puts.induct) auto

text \<open>Every waiting value carries the number of the submit that stored it.\<close>

definition numbered :: "u64 \<Rightarrow> nat \<Rightarrow> outbox_spec \<Rightarrow> bool" where
  "numbered g0 N sp \<longleftrightarrow>
     sp_generation sp = generation_nth g0 N \<and> snd ` ran (sp_lanes sp) \<subseteq> generation_nth g0 ` {1..N}"

lemma ran_upd_subset: "ran (f(k := x)) \<subseteq> ran f \<union> set_option x"
  by (auto simp: ran_def)

lemma numbered_step:
  assumes "numbered g0 N sp"
  shows "numbered g0 (N + length (puts [e])) (lane_step e sp)"
proof (cases e)
  case (Lane_put k v)
  define g where "g = generation_nth g0 (Suc N)"
  have g: "next_generation (sp_generation sp) = g"
    using assms by (simp add: numbered_def generation_nth_def g_def)
  have "snd ` ran ((sp_lanes sp)(k \<mapsto> (v, g))) \<subseteq> snd ` (ran (sp_lanes sp) \<union> {(v, g)})"
    using ran_upd_subset [of "sp_lanes sp" k "Some (v, g)"] by (intro image_mono) simp
  also have "\<dots> \<subseteq> generation_nth g0 ` {1..N} \<union> {g}"
    using assms unfolding numbered_def image_Un by (intro Un_mono) auto
  also have "\<dots> = generation_nth g0 ` {1..Suc N}"
    by (simp add: atLeastAtMostSuc_conv g_def)
  finally show ?thesis
    by (simp add: numbered_def Lane_put g) (simp add: g_def)
next
  case (Lane_drop k)
  then show ?thesis
    using assms ran_upd_subset [of "sp_lanes sp" k None] unfolding numbered_def by auto
next
  case Lane_clear
  then show ?thesis using assms by (simp add: numbered_def)
qed

lemma lane_generations:
  assumes "sp_lanes sp = Map.empty"
  shows "numbered (sp_generation sp) (length (puts es)) (fold lane_step es sp)"
proof (induction es rule: rev_induct)
  case Nil
  show ?case using assms by (simp add: numbered_def generation_nth_def)
next
  case (snoc e es)
  from numbered_step [OF this, of e] show ?case by simp
qed

text \<open>After submits alone: lanes not named are as before, the others hold newer generations.\<close>

definition renewed :: "outbox_spec \<Rightarrow> u16 \<Rightarrow> u16 list \<Rightarrow> outbox_spec \<Rightarrow> bool" where
  "renewed sp n ns sp' \<longleftrightarrow>
     sp_generation sp' = (next_generation ^^ length ns) (sp_generation sp) \<and>
     (if n \<in> set ns
      then \<exists>v j. j \<in> {1..length ns} \<and> sp_lanes sp' n = Some (v, (next_generation ^^ j) (sp_generation sp))
      else sp_lanes sp' n = sp_lanes sp n)"

lemma renewed_step:
  assumes "renewed sp n ns sp'"
  shows "renewed sp n (ns @ [k]) (lane_step (Lane_put k v) sp')"
proof -
  define G where "G = (next_generation ^^ length (ns @ [k])) (sp_generation sp)"
  have g: "next_generation (sp_generation sp') = G"
    using assms by (simp add: renewed_def G_def)
  then have gen: "sp_generation (lane_step (Lane_put k v) sp') = G" by simp
  show ?thesis
  proof (cases "k = n")
    case True
    then have "sp_lanes (lane_step (Lane_put k v) sp') n = Some (v, G)" by (simp add: g)
    moreover have "length (ns @ [k]) \<in> {1..length (ns @ [k])}" by simp
    moreover have "n \<in> set (ns @ [k])" using True by simp
    ultimately show ?thesis
      using gen unfolding renewed_def G_def by (simp only: if_True simp_thms) blast
  next
    case False
    then have "sp_lanes (lane_step (Lane_put k v) sp') n = sp_lanes sp' n" by simp
    moreover have "{1..length ns} \<subseteq> {1..length (ns @ [k])}" "n \<in> set (ns @ [k]) \<longleftrightarrow> n \<in> set ns"
      using False by auto
    ultimately show ?thesis
      using assms gen unfolding renewed_def G_def by (simp only: if_splits) blast
  qed
qed

lemma lane_puts_only:
  assumes "list_all (\<lambda>e. \<exists>n v. e = Lane_put n v) es"
  shows "renewed sp n (puts es) (fold lane_step es sp)"
  using assms
proof (induction es rule: rev_induct)
  case Nil
  show ?case by (simp add: renewed_def)
next
  case (snoc e es)
  then obtain k v where e: "e = Lane_put k v" by auto
  have "renewed sp n (puts es) (fold lane_step es sp)" using snoc by simp
  from renewed_step [OF this, of k v] show ?case by (simp add: e)
qed

text \<open>A lane still carries its old generation exactly when no submit renewed it.\<close>

lemma renewed_token:
  assumes num: "numbered g N sp" and ren: "renewed sp n ns sp'"
    and lane: "sp_lanes sp n = Some (v, t)" "sp_lanes sp' n = Some (v', t')" and bound: "N + length ns < 2 ^ 64"
  shows "t' = t \<longleftrightarrow> n \<notin> set ns"
proof (cases "n \<in> set ns")
  case False
  then show ?thesis using ren lane by (simp add: renewed_def)
next
  case True
  then obtain j where j: "j \<in> {1..length ns}" "t' = (next_generation ^^ j) (sp_generation sp)"
    using ren lane by (auto simp: renewed_def)
  then have t': "t' = generation_nth g (j + N)"
    using num by (simp add: numbered_def generation_nth_def funpow_add)
  have "(v, t) \<in> ran (sp_lanes sp)" using lane(1) by (rule ranI)
  then have "t \<in> generation_nth g ` {1..N}" using num unfolding numbered_def by (auto simp: image_subset_iff)
  then obtain j0 where "j0 \<in> {1..N}" "t = generation_nth g j0" by blast
  then show ?thesis using t' generation_nth_inj [of g j0 "j + N"] j(1) bound True by auto
qed

section \<open>Properties\<close>

lemma wl_outbox_init_ok:
  assumes "wl_outbox_init ob0 c = (WL_OK, ob)"
  shows "outbox_inv ob"
    "outbox_spec_of m ob = \<lparr>sp_lanes = Map.empty, sp_generation = obc_initial_generation c\<rparr>"
proof -
  have ob: "ob_slots ob = replicate (unat (obc_slot_count c)) empty_slot" "ob_magic ob = WL_OUTBOX_MAGIC"
    "ob_slot_count ob = obc_slot_count c" "ob_depth ob = 0" "ob_cursor ob = 0" "\<not> ob_active ob"
    "ob_next_generation ob = obc_initial_generation c" "obc_slot_count c \<noteq> 0"
    using assms by (auto simp: wl_outbox_init_def Let_def split: if_splits)
  then show "outbox_inv ob" by (simp add: outbox_inv_def outbox_initialized_def empty_slot_def unat_gt_0)
  have "outbox_abs m ob = Map.empty" by (rule ext) (simp add: outbox_abs_none ob is_lane_def empty_slot_def)
  then show "outbox_spec_of m ob = \<lparr>sp_lanes = Map.empty, sp_generation = obc_initial_generation c\<rparr>"
    by (simp add: outbox_spec_of_def ob)
qed

lemma outbox_depth_card:
  assumes "outbox_inv ob"
  shows "card (dom (outbox_abs m ob)) = unat (ob_depth ob)"
proof -
  let ?I = "{i. i < length (ob_slots ob) \<and> os_valid (ob_slots ob ! i)}"
  have "dom (outbox_abs m ob) = (\<lambda>i. os_message_id (ob_slots ob ! i)) ` ?I"
  proof (rule set_eqI)
    fix n
    have "n \<in> dom (outbox_abs m ob) \<longleftrightarrow> (\<exists>i < length (ob_slots ob). is_lane n (ob_slots ob ! i))"
      using outbox_abs_none [of m ob n] by auto
    then show "n \<in> dom (outbox_abs m ob) \<longleftrightarrow> n \<in> (\<lambda>i. os_message_id (ob_slots ob ! i)) ` ?I"
      by (auto simp: is_lane_def)
  qed
  moreover have "inj_on (\<lambda>i. os_message_id (ob_slots ob ! i)) ?I"
    using outbox_invD(6) [OF assms] by (intro inj_onI) auto
  ultimately show ?thesis
    using outbox_invD(4) [OF assms] by (simp add: card_image length_filter_conv_card)
qed

text \<open>
  C26. The outbox refines a map from message ids to values: after every run of submits, acquires,
  completions, resets and stores of the application from initialisation, the waiting values and the
  generation counter are those of the abstract map after the corresponding events (a put per
  successful submit, a drop per completion of a value that is still current, a clear per reset), and
  \<^verbatim>\<open>depth\<close> is the number of waiting lanes.
\<close>

theorem outbox_refines_lanes:
  assumes "wl_outbox_init ob0 c = (WL_OK, ob)" "run_ops outbox_exec ops (m, ob) = (m', ob')"
  shows "outbox_spec_of m' ob' =
           fold lane_step (trace outbox_exec outbox_events ops (m, ob))
             \<lparr>sp_lanes = Map.empty, sp_generation = obc_initial_generation c\<rparr> \<and>
         unat (ob_depth ob') = card (dom (sp_lanes (outbox_spec_of m' ob')))"
proof
  show "outbox_spec_of m' ob' =
           fold lane_step (trace outbox_exec outbox_events ops (m, ob))
             \<lparr>sp_lanes = Map.empty, sp_generation = obc_initial_generation c\<rparr>"
    using obx.run_sim [of "(m, ob)" ops] wl_outbox_init_ok [OF assms(1)] assms(2) by simp
  show "unat (ob_depth ob') = card (dom (sp_lanes (outbox_spec_of m' ob')))"
    using obx.run_keeps [of "(m, ob)" ops] wl_outbox_init_ok(1) [OF assms(1)] assms(2)
      outbox_depth_card [of ob' m'] by (simp add: outbox_spec_of_def)
qed

definition blank_outbox :: wl_outbox where
  "blank_outbox = \<lparr>ob_slots = [], ob_payload_storage = NULL, ob_next_generation = 0, ob_submitted = 0,
     ob_coalesced = 0, ob_queue_full = 0, ob_acquired = 0, ob_accepted = 0, ob_deferred = 0, ob_rejected = 0,
     ob_superseded = 0, ob_resets = 0, ob_active_token = 0, ob_magic = 0, ob_slot_count = 0,
     ob_payload_capacity = 0, ob_cursor = 0, ob_depth = 0, ob_active_index = 0, ob_active = False\<rparr>"

definition demo_outbox_config :: wl_outbox_config where
  "demo_outbox_config = \<lparr>obc_slots = 900, obc_slot_count = 2, obc_payload_storage = 100,
     obc_payload_storage_size = 4, obc_payload_capacity_per_slot = 2, obc_initial_generation = 0\<rparr>"

definition demo_outbox :: wl_outbox where
  "demo_outbox = blank_outbox\<lparr>ob_slots := [empty_slot, empty_slot], ob_payload_storage := 100,
     ob_magic := WL_OUTBOX_MAGIC, ob_slot_count := 2, ob_payload_capacity := 2\<rparr>"

lemma demo_outbox_init: "wl_outbox_init blank_outbox demo_outbox_config = (WL_OK, demo_outbox)"
proof -
  have "replicate 2 empty_slot = [empty_slot, empty_slot]" by (simp add: numeral_2_eq_2)
  then show ?thesis
    by (simp add: wl_outbox_init_def demo_outbox_config_def demo_outbox_def blank_outbox_def Let_def SIZE_MAX_def)
qed

text \<open>Two lanes are filled from bytes the application wrote, then the first one is replaced.\<close>

definition demo_outbox_ops :: "outbox_op list" where
  "demo_outbox_ops =
     [Outbox_app 10 7, Outbox_submit 5 10 1, Outbox_submit 6 10 2, Outbox_app 10 9, Outbox_submit 5 10 1]"

lemma demo_outbox_trace:
  "trace outbox_exec outbox_events demo_outbox_ops (\<lambda>_. 0, demo_outbox) =
     [Lane_put 5 [7], Lane_put 6 [7, 0], Lane_put 5 [9]]"
  by code_simp

theorem outbox_refines_lanes_witness:
  "case run_ops outbox_exec demo_outbox_ops (\<lambda>_. 0, demo_outbox) of (m', ob') \<Rightarrow>
     outbox_abs m' ob' = [5 \<mapsto> ([9], 3), 6 \<mapsto> ([7, 0], 2)]"
proof -
  obtain m' ob' where e: "run_ops outbox_exec demo_outbox_ops (\<lambda>_. 0, demo_outbox) = (m', ob')"
    by (rule prod.exhaust)
  have "next_generation 0 = 1" "next_generation 1 = 2" "next_generation 2 = 3"
    by (simp_all add: next_generation_def Let_def)
  then show ?thesis
    using outbox_refines_lanes [OF demo_outbox_init e] e
    by (auto simp: demo_outbox_trace demo_outbox_config_def outbox_spec_of_def)
qed

lemma acquire_copy_Inr:
  assumes "outbox_inv ob" "wl_outbox_acquire_copy m ob a k = (Inr item, m', ob')"
  shows "\<exists>i. acquire_search ob (unat (ob_slot_count ob)) 0 = Some i \<and> i < length (ob_slots ob) \<and>
     os_valid (ob_slots ob ! i) \<and> unat (oi_slot_index item) = i \<and>
     oi_message_id item = os_message_id (ob_slots ob ! i) \<and> oi_token item = os_generation (ob_slots ob ! i) \<and>
     oi_payload_length item = os_payload_length (ob_slots ob ! i) \<and> oi_payload_length item \<le> k \<and>
     m' = write_bytes m a (read_bytes m (payload_at ob i) (os_payload_length (ob_slots ob ! i))) \<and>
     ob' = ob\<lparr>ob_active := True, ob_active_index := oi_slot_index item, ob_active_token := oi_token item,
              ob_acquired := ob_acquired ob + 1\<rparr>"
proof -
  obtain i where i: "acquire_search ob (unat (ob_slot_count ob)) 0 = Some i"
    using assms(2) by (auto simp: wl_outbox_acquire_copy_def split: if_splits option.splits)
  note less = acquire_search_less [OF assms(1) i]
  moreover have "os_valid (ob_slots ob ! i)" using acquire_search_Some [OF i] by blast
  ultimately show ?thesis
    using assms(2) i unat_of_nat_index [OF less] outbox_invD(3) [OF assms(1)]
    by (auto simp: wl_outbox_acquire_copy_def Let_def split: if_splits)
qed

text \<open>
  C27. An acquire copies a current value: in every state reached from initialisation, with a buffer
  outside the outbox's storage, it returns \<^verbatim>\<open>WL_ERR_BUSY\<close> and changes nothing exactly when an item is
  outstanding, else \<^verbatim>\<open>WL_ERR_NO_DATA\<close> exactly when no lane waits, \<^verbatim>\<open>WL_ERR_NO_SPACE\<close> only when a waiting
  value is longer than the buffer, and otherwise an item whose id, token and copied bytes are a waiting
  lane's; no lane changes.
\<close>

theorem outbox_acquire_snapshot:
  assumes "wl_outbox_init ob0 c = (WL_OK, ob)" "run_ops outbox_exec ops (m, ob) = (m1, ob1)"
    and "a \<noteq> NULL" "outside_storage ob1 a k"
  shows "case wl_outbox_acquire_copy m1 ob1 a k of
           (Inl e, m2, ob2) \<Rightarrow>
             m2 = m1 \<and> ob2 = ob1 \<and>
             (if ob_active ob1 then e = WL_ERR_BUSY
              else if outbox_abs m1 ob1 = Map.empty then e = WL_ERR_NO_DATA
              else e = WL_ERR_NO_SPACE \<and> (\<exists>n v g. outbox_abs m1 ob1 n = Some (v, g) \<and> k < length v))
         | (Inr item, m2, ob2) \<Rightarrow>
             \<not> ob_active ob1 \<and> outbox_abs m1 ob1 (oi_message_id item) =
               Some (read_bytes m2 a (oi_payload_length item), oi_token item) \<and>
             oi_payload_length item \<le> k \<and> outbox_abs m2 ob2 = outbox_abs m1 ob1"
proof -
  have inv: "outbox_inv ob1"
    using obx.run_keeps [of "(m, ob)" ops] wl_outbox_init_ok(1) [OF assms(1)] assms(2) by simp
  note invD = outbox_invD [OF inv]
  obtain r m2 ob2 where acq: "wl_outbox_acquire_copy m1 ob1 a k = (r, m2, ob2)" by (rule prod_cases3)
  show ?thesis
  proof (cases r)
    case (Inr item)
    obtain i where i: "i < length (ob_slots ob1)" "is_lane (oi_message_id item) (ob_slots ob1 ! i)"
      "oi_token item = os_generation (ob_slots ob1 ! i)"
      "oi_payload_length item = os_payload_length (ob_slots ob1 ! i)" "oi_payload_length item \<le> k"
      "m2 = write_bytes m1 a (read_bytes m1 (payload_at ob1 i) (os_payload_length (ob_slots ob1 ! i)))"
      using acquire_copy_Inr [OF inv acq [unfolded Inr]] by (auto simp: is_lane_def)
    have "outbox_spec_of m2 ob2 = outbox_spec_of m1 ob1"
      using outbox_step_acquire [OF inv, of a k m1] assms(4) acq by (simp add: outbox_step_ok_def)
    moreover have "\<not> ob_active ob1"
      using acq Inr by (auto simp: wl_outbox_acquire_copy_def split: if_splits)
    ultimately show ?thesis
      using outbox_abs_lane [OF inv i(1,2), of m1] i(3-6) acq Inr by (simp add: slot_value_def outbox_spec_of_def)
  next
    case (Inl e)
    then have same: "m2 = m1" "ob2 = ob1"
      using acq by (auto simp: wl_outbox_acquire_copy_def Let_def split: if_splits option.splits)
    show ?thesis
    proof (cases "acquire_search ob1 (unat (ob_slot_count ob1)) 0")
      case None
      have "\<not> os_valid (ob_slots ob1 ! i)" if "i < length (ob_slots ob1)" for i
      proof -
        let ?n = "unat (ob_slot_count ob1)" and ?c = "unat (ob_cursor ob1)"
        have "(?c + (i + ?n - ?c) mod ?n) mod ?n = i" using that invD(3,5) by (simp add: mod_simps)
        moreover have "(i + ?n - ?c) mod ?n < ?n" using invD(2) by simp
        ultimately show ?thesis using None unfolding acquire_search_None by (metis add_0)
      qed
      then have "outbox_abs m1 ob1 = Map.empty" by (intro ext) (simp add: outbox_abs_none is_lane_def)
      then show ?thesis
        using None acq Inl same invD(1) assms(3) by (auto simp: wl_outbox_acquire_copy_def split: if_splits)
    next
      case (Some i)
      have i: "i < length (ob_slots ob1)" "os_valid (ob_slots ob1 ! i)"
        using acquire_search_less [OF inv Some] acquire_search_Some [OF Some] invD(3) by auto
      have "outbox_abs m1 ob1 (os_message_id (ob_slots ob1 ! i)) = Some (slot_value m1 ob1 i)"
        by (rule outbox_abs_lane [OF inv i(1)]) (use i(2) in \<open>simp add: is_lane_def\<close>)
      moreover have "if ob_active ob1 then e = WL_ERR_BUSY else e = WL_ERR_NO_SPACE \<and> k < os_payload_length (ob_slots ob1 ! i)"
        using Some acq Inl invD(1) assms(3) by (auto simp: wl_outbox_acquire_copy_def Let_def split: if_splits)
      ultimately show ?thesis
        using acq Inl same by (auto simp: slot_value_def intro!: exI [of _ "os_message_id (ob_slots ob1 ! i)"])
    qed
  qed
qed

theorem outbox_acquire_snapshot_witness:
  "case run_ops outbox_exec demo_outbox_ops (\<lambda>_. 0, demo_outbox) of (m1, ob1) \<Rightarrow>
     \<exists>item m2 ob2. wl_outbox_acquire_copy m1 ob1 200 2 = (Inr item, m2, ob2) \<and>
       outbox_abs m1 ob1 (oi_message_id item) = Some (read_bytes m2 200 (oi_payload_length item), oi_token item)"
proof -
  let ?s = "run_ops outbox_exec demo_outbox_ops (\<lambda>_. 0, demo_outbox)"
  obtain m1 ob1 where e: "?s = (m1, ob1)" by (rule prod.exhaust)
  have "\<not> ob_active (snd ?s)" "outside_storage (snd ?s) 200 2"
    "\<not> isl (fst (wl_outbox_acquire_copy (fst ?s) (snd ?s) 200 2))" by code_simp+
  then have f: "\<not> ob_active ob1" "outside_storage ob1 200 2" "\<not> isl (fst (wl_outbox_acquire_copy m1 ob1 200 2))"
    using e by simp_all
  show ?thesis
    using outbox_acquire_snapshot [OF demo_outbox_init e _ f(2)] f(1,3) e
    by (cases "wl_outbox_acquire_copy m1 ob1 200 2"; cases "fst (wl_outbox_acquire_copy m1 ob1 200 2)") auto
qed

text \<open>Submits and stores of the application leave the outstanding snapshot and its slot in place.\<close>

fun submit_op :: "outbox_op \<Rightarrow> bool" where
  "submit_op (Outbox_submit n a k) = True"
| "submit_op (Outbox_app a b) = True"
| "submit_op _ = False"

lemma submit_keeps:
  assumes "outbox_inv ob" "submit_op op" "outbox_exec op (m, ob) = (m', ob')"
    "i < length (ob_slots ob)" "is_lane n (ob_slots ob ! i)"
  shows "ob_active ob' = ob_active ob \<and> ob_active_index ob' = ob_active_index ob \<and>
         ob_active_token ob' = ob_active_token ob \<and> length (ob_slots ob') = length (ob_slots ob) \<and>
         is_lane n (ob_slots ob' ! i) \<and> list_all (\<lambda>e. \<exists>n v. e = Lane_put n v) (outbox_events op (m, ob))"
proof (cases op)
  case (Outbox_submit k a l)
  show ?thesis
  proof (cases "submitted_slot ob k")
    case None
    then show ?thesis
      using assms by (auto simp: Outbox_submit wl_outbox_submit_latest_eq [OF assms(1)] split: if_splits)
  next
    case (Some j)
    have "is_lane n (ob_slots (put_slot ob j k l) ! i)"
      using submitted_slotD(2) [OF Some] assms(4,5)
      by (cases "i = j") (auto simp: put_slot_def Let_def is_lane_def)
    then show ?thesis
      using assms Some
      by (auto simp: Outbox_submit wl_outbox_submit_latest_eq [OF assms(1)] put_slot_def Let_def split: if_splits)
  qed
qed (use assms in auto)

lemma submits_keep:
  "outbox_inv ob \<Longrightarrow> list_all submit_op ops \<Longrightarrow> run_ops outbox_exec ops (m, ob) = (m', ob') \<Longrightarrow>
   i < length (ob_slots ob) \<Longrightarrow> is_lane n (ob_slots ob ! i) \<Longrightarrow>
   ob_active ob' = ob_active ob \<and> ob_active_index ob' = ob_active_index ob \<and>
   ob_active_token ob' = ob_active_token ob \<and> length (ob_slots ob') = length (ob_slots ob) \<and>
   is_lane n (ob_slots ob' ! i) \<and>
   list_all (\<lambda>e. \<exists>n v. e = Lane_put n v) (trace outbox_exec outbox_events ops (m, ob))"
proof (induction ops arbitrary: m ob)
  case (Cons op ops)
  obtain m1 ob1 where s: "outbox_exec op (m, ob) = (m1, ob1)" by (rule prod.exhaust)
  have "submit_op op" using Cons.prems by simp
  note keep = submit_keeps [OF Cons.prems(1) this s Cons.prems(4,5)]
  have "outbox_inv ob1" using outbox_step [OF Cons.prems(1), of op m] s by (simp add: outbox_step_ok_def)
  with Cons keep s show ?case by simp
qed simp

text \<open>
  C28. Completing a snapshot never loses a newer value. After an acquire and any number of submits
  (fewer than \<open>2^64\<close> since initialisation), an accepted or rejected completion of the item succeeds; it
  removes the lane if no submit replaced it meanwhile, and leaves every lane alone if one did. A deferred
  completion succeeds and leaves every lane alone.
\<close>

theorem outbox_newest_survives:
  assumes "wl_outbox_init ob0 c = (WL_OK, ob)" "run_ops outbox_exec ops (m, ob) = (m1, ob1)"
    and "outside_storage ob1 a k" "wl_outbox_acquire_copy m1 ob1 a k = (Inr item, m2, ob2)"
    and "list_all submit_op ops2" "run_ops outbox_exec ops2 (m2, ob2) = (m3, ob3)"
    and "es = trace outbox_exec outbox_events ops (m, ob)" "es2 = trace outbox_exec outbox_events ops2 (m2, ob2)"
    and "length (puts es) + length (puts es2) < 2 ^ 64"
    and "how \<in> {WL_OUTBOX_ACCEPTED, WL_OUTBOX_DEFERRED, WL_OUTBOX_REJECTED}"
  shows "\<exists>ob4. wl_outbox_complete ob3 item how = (WL_OK, ob4) \<and>
           outbox_abs m3 ob4 =
             (if how = WL_OUTBOX_DEFERRED \<or> oi_message_id item \<in> set (puts es2) then outbox_abs m3 ob3
              else (outbox_abs m3 ob3)(oi_message_id item := None))"
proof -
  let ?n = "oi_message_id item" and ?g = "obc_initial_generation c"
  have inv1: "outbox_inv ob1"
    using obx.run_keeps [of "(m, ob)" ops] wl_outbox_init_ok(1) [OF assms(1)] assms(2) by simp
  obtain i where i: "i < length (ob_slots ob1)" "is_lane ?n (ob_slots ob1 ! i)" "unat (oi_slot_index item) = i"
    "oi_token item = os_generation (ob_slots ob1 ! i)" "ob_slots ob2 = ob_slots ob1"
    "ob_active ob2" "ob_active_index ob2 = oi_slot_index item" "ob_active_token ob2 = oi_token item"
    using acquire_copy_Inr [OF inv1 assms(4)] by (auto simp: is_lane_def)
  have step: "outbox_inv ob2" "outbox_spec_of m2 ob2 = outbox_spec_of m1 ob1"
    using outbox_step_acquire [OF inv1, of a k m1] assms(3,4) by (simp_all add: outbox_step_ok_def)
  note keep = submits_keep [OF step(1) assms(5,6), of i ?n, folded assms(8)]
  have inv3: "outbox_inv ob3" using obx.run_keeps [of "(m2, ob2)" ops2] step(1) assms(6) by simp
  have i3: "i < length (ob_slots ob3)" "is_lane ?n (ob_slots ob3 ! i)" "completes ob3 item"
    and puts2: "list_all (\<lambda>e. \<exists>n v. e = Lane_put n v) es2"
    using keep i by (simp_all add: completes_def)
  have num: "numbered ?g (length (puts es)) (outbox_spec_of m2 ob2)"
    using obx.run_sim [of "(m, ob)" ops] wl_outbox_init_ok [OF assms(1)] assms(2,7) step(2)
      lane_generations [of "\<lparr>sp_lanes = Map.empty, sp_generation = ?g\<rparr>" es] by simp
  have ren: "renewed (outbox_spec_of m2 ob2) ?n (puts es2) (outbox_spec_of m3 ob3)"
    using lane_puts_only [OF puts2] obx.run_sim [of "(m2, ob2)" ops2] step(1) assms(6,8) by simp
  have lane2: "sp_lanes (outbox_spec_of m2 ob2) ?n = Some (slot_value m2 ob2 i)"
    using outbox_abs_lane [OF step(1), of i ?n m2] i by (simp add: outbox_spec_of_def)
  have lane3: "sp_lanes (outbox_spec_of m3 ob3) ?n = Some (slot_value m3 ob3 i)"
    using outbox_abs_lane [OF inv3 i3(1,2), of m3] by (simp add: outbox_spec_of_def)
  have live: "os_generation (ob_slots ob3 ! i) = oi_token item \<longleftrightarrow> ?n \<notin> set (puts es2)"
    using renewed_token [OF num ren lane2 [unfolded slot_value_def] lane3 [unfolded slot_value_def] assms(9)] i(4,5)
    by simp
  have "outbox_abs m3 (finished ob3 item) =
      (if ?n \<in> set (puts es2) then outbox_abs m3 ob3 else (outbox_abs m3 ob3)(?n := None))"
    using finished_ok(2) [OF inv3 i3(3), of m3] live i(3) i3(2) by (simp add: Let_def is_lane_def)
  then show ?thesis
    using wl_outbox_complete_eq(1-3) [OF inv3 i3(3)] outbox_counter_frame [OF finished_ok(1) [OF inv3 i3(3)]]
      outbox_counter_frame(6) [OF inv3] assms(10)
    by auto
qed

theorem outbox_newest_survives_witness:
  "case run_ops outbox_exec demo_outbox_ops (\<lambda>_. 0, demo_outbox) of (m1, ob1) \<Rightarrow>
   case wl_outbox_acquire_copy m1 ob1 200 2 of (r, m2, ob2) \<Rightarrow>
   case run_ops outbox_exec [Outbox_submit 5 10 2] (m2, ob2) of (m3, ob3) \<Rightarrow>
     r = Inr \<lparr>oi_token = 3, oi_slot_index = 0, oi_message_id = 5, oi_payload_length = 1\<rparr> \<and>
     (\<exists>ob4. wl_outbox_complete ob3 (projr r) WL_OUTBOX_ACCEPTED = (WL_OK, ob4) \<and>
            outbox_abs m3 ob4 = outbox_abs m3 ob3)"
proof -
  let ?s = "run_ops outbox_exec demo_outbox_ops (\<lambda>_. 0, demo_outbox)"
  let ?item = "\<lparr>oi_token = 3, oi_slot_index = 0, oi_message_id = 5, oi_payload_length = 1\<rparr>"
  obtain m1 ob1 where e: "?s = (m1, ob1)" by (rule prod.exhaust)
  obtain r m2 ob2 where acq: "wl_outbox_acquire_copy m1 ob1 200 2 = (r, m2, ob2)" by (rule prod_cases3)
  obtain m3 ob3 where e2: "run_ops outbox_exec [Outbox_submit 5 10 2] (m2, ob2) = (m3, ob3)" by (rule prod.exhaust)
  have f: "outside_storage (snd ?s) 200 2" "fst (wl_outbox_acquire_copy (fst ?s) (snd ?s) 200 2) = Inr ?item"
    "trace outbox_exec outbox_events [Outbox_submit 5 10 2] (snd (wl_outbox_acquire_copy (fst ?s) (snd ?s) 200 2)) =
       [Lane_put 5 [9, 0]]"
    by code_simp+
  have g: "outside_storage ob1 200 2" "r = Inr ?item"
    "trace outbox_exec outbox_events [Outbox_submit 5 10 2] (m2, ob2) = [Lane_put 5 [9, 0]]"
    using f e acq by simp_all
  show ?thesis
    using outbox_newest_survives [OF demo_outbox_init e g(1) acq [unfolded g(2)] _ e2 demo_outbox_trace [symmetric] refl,
        of WL_OUTBOX_ACCEPTED] e acq e2 g(2,3) by simp
qed

end
