(* ===== verification/Outbox_Rotation.thy ===== *)
theory Outbox_Rotation
  imports Outbox
begin

text \<open>
  In which order the outbox of \<^verbatim>\<open>src/outbox.c\<close> serves its lanes. An acquire takes the first waiting slot from the
  cursor on, and an accepted or rejected completion moves the cursor behind the slot it completed, while
  submits and deferred completions leave the cursor alone. A bound on the turns a waiting lane still has
  to let others have is kept by every operation and used up by every such completion.
\<close>

section \<open>Distances in the rotation\<close>

definition rotation :: "nat \<Rightarrow> nat \<Rightarrow> nat \<Rightarrow> nat" where
  "rotation n c i = (i + n - c) mod n"

lemma rotation_if: "c < n \<Longrightarrow> i < n \<Longrightarrow> rotation n c i = (if c \<le> i then i - c else i + n - c)"
  by (auto simp: rotation_def mod_if)

lemma mod_succ: "j < n \<Longrightarrow> Suc j mod n = (if Suc j = n then 0 else Suc j)"
  by auto

lemma rotation_reaches: "c < n \<Longrightarrow> i < n \<Longrightarrow> (c + rotation n c i) mod n = i \<and> rotation n c i < n"
  by (auto simp: rotation_if)

lemma rotation_behind: "i < n \<Longrightarrow> j < n \<Longrightarrow> j \<noteq> i \<Longrightarrow> Suc (rotation n (Suc j mod n) i) < n"
  by (auto simp: mod_succ rotation_if)

lemma rotation_advance:
  assumes "c < n" "i < n" "d < rotation n c i" "j = (c + d) mod n"
  shows "Suc (rotation n (Suc j mod n) i) \<le> rotation n c i"
proof -
  have "d < n" using assms rotation_reaches [of c n i] by simp
  then have "j = (if c + d < n then c + d else c + d - n)" "j < n" using assms by (auto simp: mod_if)
  then show ?thesis using assms(1-3) by (auto simp: mod_succ rotation_if split: if_splits)
qed

section \<open>Turns\<close>

text \<open>The messages that the acquires of a run hand out, and the completions that end a turn.\<close>

fun outbox_acquired :: "outbox_op \<Rightarrow> mem \<times> wl_outbox \<Rightarrow> u16 list" where
  "outbox_acquired (Outbox_acquire a k) (m, ob) =
     (if outside_storage ob a k
      then case fst (wl_outbox_acquire_copy m ob a k) of Inl e \<Rightarrow> [] | Inr item \<Rightarrow> [oi_message_id item] else [])"
| "outbox_acquired _ _ = []"

fun outbox_settled :: "outbox_op \<Rightarrow> mem \<times> wl_outbox \<Rightarrow> wl_outbox_item list" where
  "outbox_settled (Outbox_complete item how) (m, ob) =
     (if how \<noteq> WL_OUTBOX_DEFERRED \<and> fst (wl_outbox_complete ob item how) = WL_OK then [item] else [])"
| "outbox_settled _ _ = []"

definition handed_out :: "wl_outbox \<Rightarrow> u16 \<Rightarrow> bool" where
  "handed_out ob n \<longleftrightarrow> ob_active ob \<and> is_lane n (ob_slots ob ! unat (ob_active_index ob))"

text \<open>
  How many turns others may still have before slot \<open>i\<close> is served. The item that is outstanding may lie
  behind slot \<open>i\<close> in the rotation, when slot \<open>i\<close> was filled after it was acquired.
\<close>

definition turns :: "wl_outbox \<Rightarrow> nat \<Rightarrow> nat" where
  "turns ob i =
     (let n = unat (ob_slot_count ob); w = rotation n (unat (ob_cursor ob)) i
      in if ob_active ob then max w (Suc (rotation n (Suc (unat (ob_active_index ob)) mod n) i)) else w)"

definition waits :: "wl_outbox \<Rightarrow> nat \<Rightarrow> u16 \<Rightarrow> bool" where
  "waits ob i n \<longleftrightarrow> outbox_inv ob \<and> i < unat (ob_slot_count ob) \<and> is_lane n (ob_slots ob ! i) \<and>
     (ob_active ob \<longrightarrow> unat (ob_active_index ob) \<noteq> i)"

lemma active_index_less: "outbox_inv ob \<Longrightarrow> ob_active ob \<Longrightarrow> unat (ob_active_index ob) < unat (ob_slot_count ob)"
  by (simp add: outbox_inv_def)

lemma turns_bound: "waits ob i n \<Longrightarrow> turns ob i < unat (ob_slot_count ob)"
  using rotation_reaches [of "unat (ob_cursor ob)" "unat (ob_slot_count ob)" i] outbox_invD(5) [of ob]
    rotation_behind [of i "unat (ob_slot_count ob)" "unat (ob_active_index ob)"] active_index_less [of ob]
  by (auto simp: waits_def turns_def Let_def)

section \<open>Every operation keeps the bound\<close>

text \<open>What a step must do for a lane that goes on waiting.\<close>

definition keeps_turn :: "nat \<Rightarrow> u16 \<Rightarrow> wl_outbox \<Rightarrow> wl_outbox \<Rightarrow> nat \<Rightarrow> bool" where
  "keeps_turn i n ob ob' used \<longleftrightarrow> ob_slot_count ob' = ob_slot_count ob \<and> is_lane n (ob_slots ob' ! i) \<and>
     (ob_active ob' \<longrightarrow> unat (ob_active_index ob') \<noteq> i) \<and> used + turns ob' i \<le> turns ob i"

lemma keeps_turn_refl: "waits ob i n \<Longrightarrow> keeps_turn i n ob ob 0"
  by (simp add: keeps_turn_def waits_def)

lemma submit_turn:
  assumes "waits ob i n" "submit_op op" "outbox_exec op (m, ob) = (m', ob')"
  shows "keeps_turn i n ob ob' 0"
proof -
  have inv: "outbox_inv ob" and i: "i < length (ob_slots ob)" "is_lane n (ob_slots ob ! i)"
    using assms(1) outbox_invD(3) [of ob] by (auto simp: waits_def)
  have cur: "ob_cursor ob' = ob_cursor ob \<and> ob_slot_count ob' = ob_slot_count ob"
    using assms(2,3) inv
    by (cases op) (auto simp: wl_outbox_submit_latest_eq [OF inv] put_slot_def Let_def split: if_splits option.splits)
  show ?thesis
    using submit_keeps [OF inv assms(2,3) i] cur assms(1) by (simp add: keeps_turn_def turns_def waits_def Let_def)
qed

lemma acquire_turn:
  assumes "waits ob i n" "wl_outbox_acquire_copy m ob a k = (r, m', ob')"
    "case r of Inl e \<Rightarrow> True | Inr item \<Rightarrow> oi_message_id item \<noteq> n"
  shows "keeps_turn i n ob ob' 0"
proof (cases r)
  case (Inl e)
  then have "ob' = ob" using assms(2) by (auto simp: wl_outbox_acquire_copy_def Let_def split: if_splits option.splits)
  then show ?thesis using keeps_turn_refl [OF assms(1)] by simp
next
  case (Inr item)
  let ?n = "unat (ob_slot_count ob)" and ?c = "unat (ob_cursor ob)"
  have inv: "outbox_inv ob" and i: "i < ?n" "is_lane n (ob_slots ob ! i)" using assms(1) by (simp_all add: waits_def)
  obtain j where j: "acquire_search ob ?n 0 = Some j" "unat (oi_slot_index item) = j"
    "oi_message_id item = os_message_id (ob_slots ob ! j)"
    "ob' = ob\<lparr>ob_active := True, ob_active_index := oi_slot_index item, ob_active_token := oi_token item,
       ob_acquired := ob_acquired ob + 1\<rparr>"
    using acquire_copy_Inr [OF inv assms(2) [unfolded Inr]] by blast
  have ne: "j \<noteq> i" using j(3) assms(3) Inr i(2) by (auto simp: is_lane_def)
  obtain d where d: "d < ?n" "j = (?c + d) mod ?n" "\<forall>d' < d. \<not> os_valid (ob_slots ob ! ((?c + d') mod ?n))"
    using acquire_search_Some [OF j(1)] by auto
  have reach: "(?c + rotation ?n ?c i) mod ?n = i" using rotation_reaches outbox_invD(5) [OF inv] i(1) by blast
  have "\<not> rotation ?n ?c i < d" using d(3) reach i(2) by (auto simp: is_lane_def)
  moreover have "rotation ?n ?c i \<noteq> d" using reach d(2) ne by auto
  ultimately have "Suc (rotation ?n (Suc j mod ?n) i) \<le> rotation ?n ?c i"
    using rotation_advance [OF outbox_invD(5) [OF inv] i(1) _ d(2)] by simp
  moreover have "\<not> ob_active ob" using assms(2) Inr by (auto simp: wl_outbox_acquire_copy_def split: if_splits)
  ultimately show ?thesis using j ne i(2) by (simp add: keeps_turn_def turns_def Let_def)
qed

lemma complete_turn:
  assumes "waits ob i n"
  shows "keeps_turn i n ob (snd (wl_outbox_complete ob item how)) (length (outbox_settled (Outbox_complete item how) (m, ob)))"
proof (cases "completes ob item \<and> how \<in> {WL_OUTBOX_ACCEPTED, WL_OUTBOX_DEFERRED, WL_OUTBOX_REJECTED}")
  case False
  then have "fst (wl_outbox_complete ob item how) \<noteq> WL_OK \<and> snd (wl_outbox_complete ob item how) = ob"
    by (auto simp: wl_outbox_complete_def completes_def Let_def)
  then show ?thesis using keeps_turn_refl [OF assms] by simp
next
  case True
  let ?n = "unat (ob_slot_count ob)" and ?j = "unat (oi_slot_index item)"
  have w: "outbox_inv ob" "i < ?n" "is_lane n (ob_slots ob ! i)" "?j \<noteq> i" "ob_active ob" "ob_active_index ob = oi_slot_index item"
    using assms True by (auto simp: waits_def completes_def)
  note eq = wl_outbox_complete_eq [OF w(1) True [THEN conjunct1]]
  have cur: "unat (ob_cursor (finished ob item)) = Suc ?j mod ?n"
    using outbox_invD(2) [OF w(1)] by (simp add: finished_def Let_def unat_of_nat_index [of _ "ob_slot_count ob"])
  have "ob_slots (finished ob item) ! i = ob_slots ob ! i" "\<not> ob_active (finished ob item)"
    "ob_slot_count (finished ob item) = ob_slot_count ob"
    using w(4) by (auto simp: finished_def Let_def)
  then show ?thesis using True eq(1-3) w cur by (auto simp: keeps_turn_def turns_def Let_def)
qed

lemma step_turn:
  assumes "waits ob i n" "op \<noteq> Outbox_reset" "n \<notin> set (outbox_acquired op (m, ob))" "outbox_exec op (m, ob) = (m', ob')"
  shows "waits ob' i n" "length (outbox_settled op (m, ob)) + turns ob' i \<le> turns ob i"
    "ob_slot_count ob' = ob_slot_count ob"
proof -
  have "keeps_turn i n ob ob' (length (outbox_settled op (m, ob)))"
  proof (cases op)
    case (Outbox_acquire a k)
    obtain r m2 ob2 where acq: "wl_outbox_acquire_copy m ob a k = (r, m2, ob2)" by (rule prod_cases3)
    show ?thesis
    proof (cases "outside_storage ob a k")
      case True
      then have "case r of Inl e \<Rightarrow> True | Inr item \<Rightarrow> oi_message_id item \<noteq> n"
        using assms(3) acq Outbox_acquire by (cases r) auto
      then show ?thesis using acquire_turn [OF assms(1) acq] True assms(4) acq Outbox_acquire by simp
    next
      case False
      then show ?thesis using keeps_turn_refl [OF assms(1)] assms(4) Outbox_acquire by simp
    qed
  next
    case (Outbox_complete item how)
    then show ?thesis using complete_turn [OF assms(1), of item how m] assms(4) by simp
  next
    case (Outbox_submit k a l)
    then show ?thesis using submit_turn [OF assms(1) _ assms(4)] by simp
  next
    case (Outbox_app a b)
    then show ?thesis using submit_turn [OF assms(1) _ assms(4)] by simp
  qed (use assms(2) in simp)
  moreover have "outbox_inv ob'"
    using outbox_step [of ob op m] assms(1,4) by (simp add: waits_def outbox_step_ok_def)
  ultimately show "waits ob' i n" "length (outbox_settled op (m, ob)) + turns ob' i \<le> turns ob i"
    "ob_slot_count ob' = ob_slot_count ob"
    using assms(1) by (simp_all add: keeps_turn_def waits_def)
qed

lemma run_turn:
  "waits ob i n \<Longrightarrow> Outbox_reset \<notin> set ops \<Longrightarrow> n \<notin> set (trace outbox_exec outbox_acquired ops (m, ob)) \<Longrightarrow>
   run_ops outbox_exec ops (m, ob) = (m', ob') \<Longrightarrow>
   waits ob' i n \<and> length (trace outbox_exec outbox_settled ops (m, ob)) + turns ob' i \<le> turns ob i \<and>
   ob_slot_count ob' = ob_slot_count ob"
proof (induction ops arbitrary: m ob)
  case (Cons op ops)
  obtain m1 ob1 where s: "outbox_exec op (m, ob) = (m1, ob1)" by (rule prod.exhaust)
  have "op \<noteq> Outbox_reset" "n \<notin> set (outbox_acquired op (m, ob))" using Cons.prems by auto
  note step = step_turn [OF Cons.prems(1) this s]
  show ?case using Cons.IH [OF step(1), of m1] Cons.prems s step(2,3) by simp
qed simp

lemma waits_acquire:
  assumes "waits ob i n" "\<not> ob_active ob" "a \<noteq> NULL" "unat (ob_payload_capacity ob) \<le> k"
  shows "\<not> isl (fst (wl_outbox_acquire_copy m ob a k))"
proof -
  let ?n = "unat (ob_slot_count ob)" and ?c = "unat (ob_cursor ob)"
  have inv: "outbox_inv ob" and i: "i < ?n" "os_valid (ob_slots ob ! i)" using assms(1) by (simp_all add: waits_def is_lane_def)
  have "acquire_search ob ?n 0 \<noteq> None"
    using rotation_reaches [OF outbox_invD(5) [OF inv] i(1)] i(2) unfolding acquire_search_None by (metis add_0)
  then obtain j where j: "acquire_search ob ?n 0 = Some j" by blast
  have "j < length (ob_slots ob)" using acquire_search_less [OF inv j] outbox_invD(3) [OF inv] by simp
  from outbox_invD(7) [OF inv this] show ?thesis
    using j assms(2-4) outbox_invD(1) [OF inv] by (simp add: wl_outbox_acquire_copy_def Let_def)
qed

section \<open>Properties\<close>

text \<open>
  C29. No lane starves. Take any state reached from initialisation in which message \<open>n\<close> waits and is not the
  outstanding item, and let any operations but a reset follow: submits of any messages, acquires, and
  accepted, rejected and deferred completions. Then an acquire hands out \<open>n\<close>, or fewer than \<open>slot_count\<close>
  items have been accepted or rejected so far; in the second case \<open>n\<close> still waits, and when no item is
  outstanding the next acquire into a buffer of the payload capacity succeeds.
\<close>

theorem outbox_serves_in_rotation:
  assumes "wl_outbox_init ob0 c = (WL_OK, ob)" "run_ops outbox_exec ops (m, ob) = (m1, ob1)"
    and "outbox_abs m1 ob1 n \<noteq> None" "\<not> handed_out ob1 n"
    and "Outbox_reset \<notin> set ops2" "run_ops outbox_exec ops2 (m1, ob1) = (m2, ob2)"
  shows "n \<in> set (trace outbox_exec outbox_acquired ops2 (m1, ob1)) \<or>
    length (trace outbox_exec outbox_settled ops2 (m1, ob1)) < unat (ob_slot_count ob1) \<and>
    outbox_abs m2 ob2 n \<noteq> None \<and>
    (ob_active ob2 \<or> (\<forall>a k. a = NULL \<or> k < unat (ob_payload_capacity ob2) \<or>
       \<not> isl (fst (wl_outbox_acquire_copy m2 ob2 a k))))"
proof (cases "n \<in> set (trace outbox_exec outbox_acquired ops2 (m1, ob1))")
  case False
  have inv: "outbox_inv ob1"
    using obx.run_keeps [of "(m, ob)" ops] wl_outbox_init_ok(1) [OF assms(1)] assms(2) by simp
  obtain i where i: "i < length (ob_slots ob1)" "is_lane n (ob_slots ob1 ! i)"
    using assms(3) slot_search_SomeD [of "is_lane n" "ob_slots ob1"] by (auto simp: outbox_abs_def)
  have w: "waits ob1 i n"
    using inv i assms(4) outbox_invD(3) [OF inv] by (auto simp: waits_def handed_out_def)
  note r = run_turn [OF w assms(5) False assms(6)]
  have "waits ob2 i n" using r by blast
  then have "outbox_abs m2 ob2 n \<noteq> None"
    using outbox_abs_lane [of ob2 i n m2] outbox_invD(3) [of ob2] by (auto simp: waits_def)
  then show ?thesis
    using r turns_bound [OF w] waits_acquire [OF \<open>waits ob2 i n\<close>, of _ _ m2] by (auto simp: not_less)
qed simp

text \<open>
  Two slots, message 6 in the second. Message 5 is served first and submitted again at once; the next
  acquire hands out message 6.
\<close>

definition demo_rotation :: "outbox_op list" where
  "demo_rotation =
     [Outbox_acquire 200 2,
      Outbox_complete \<lparr>oi_token = 3, oi_slot_index = 0, oi_message_id = 5, oi_payload_length = 1\<rparr> WL_OUTBOX_ACCEPTED,
      Outbox_submit 5 10 1, Outbox_acquire 200 2,
      Outbox_complete \<lparr>oi_token = 2, oi_slot_index = 1, oi_message_id = 6, oi_payload_length = 2\<rparr> WL_OUTBOX_REJECTED]"

theorem outbox_serves_in_rotation_witness:
  "6 \<in> set (trace outbox_exec outbox_acquired demo_rotation (run_ops outbox_exec demo_outbox_ops (\<lambda>_. 0, demo_outbox)))"
proof -
  let ?s = "run_ops outbox_exec demo_outbox_ops (\<lambda>_. 0, demo_outbox)"
  obtain m1 ob1 where e: "?s = (m1, ob1)" by (rule prod.exhaust)
  obtain m2 ob2 where e2: "run_ops outbox_exec demo_rotation (m1, ob1) = (m2, ob2)" by (rule prod.exhaust)
  have "outbox_abs (fst ?s) (snd ?s) 6 \<noteq> None" "\<not> handed_out (snd ?s) 6" "Outbox_reset \<notin> set demo_rotation"
    "length (trace outbox_exec outbox_settled demo_rotation ?s) = unat (ob_slot_count (snd ?s))" by code_simp+
  then show ?thesis
    using outbox_serves_in_rotation [OF demo_outbox_init e _ _ _ e2, of 6] e by simp
qed

end
