(* ===== verification/Link_Context.thy ===== *)
theory Link_Context
  imports Frame_Codec Rx_Ring Unit_Queue
begin

text \<open>
  The link context, \<^verbatim>\<open>src/context.h\<close> and \<^verbatim>\<open>include/wirelink/link.h\<close>, its initialiser \<^verbatim>\<open>src/init.c\<close>, and
  the transport queries and setters of \<^verbatim>\<open>src/transport.c\<close>.

  The context record has the fields of \<^verbatim>\<open>wl_ctx_impl_t\<close> in the order of the source; flag bytes are
  truth values. Two fields are added: \<open>ctx_mem\<close> is the flat memory the link shares with the
  application, the adapter and its own storage, and \<open>sink_log\<close> is the history of sink calls. A sink
  is a function of that history, the token and the bytes it is given, so an arbitrary sink that does
  not call back into the link is covered. The sink callback is a parameter of the context: nothing
  is fixed about its answers.
\<close>

section \<open>Public types\<close>

datatype wl_tx_state =
    WL_TX_STATE_IDLE | WL_TX_STATE_SENDING | WL_TX_STATE_WAITING_ACK
  | WL_TX_STATE_SUCCESS | WL_TX_STATE_FAILED | WL_TX_STATE_CANCELLED

datatype wl_tx_wait_reason = WL_TX_WAIT_NONE | WL_TX_WAIT_ACK | WL_TX_WAIT_DRAIN

datatype wl_event_type =
    WL_EVT_NONE | WL_EVT_UNRELIABLE_RX | WL_EVT_RELIABLE_RX
  | WL_EVT_TX_SUCCESS | WL_EVT_TX_TIMEOUT | WL_EVT_TX_FAILED

datatype wl_rx_source = WL_RX_SOURCE_NONE | WL_RX_SOURCE_RING | WL_RX_SOURCE_FALLBACK | WL_RX_SOURCE_UNIT

datatype wl_sink_result = WL_SINK_SENT | WL_SINK_STARTED | WL_SINK_BUSY | WL_SINK_FAILED

abbreviation (input) "WL_DELIVERY_UNRELIABLE \<equiv> 0 :: int"
abbreviation (input) "WL_DELIVERY_RELIABLE \<equiv> 1 :: int"
abbreviation (input) "WL_NO_DEADLINE \<equiv> - 1 :: u32"

record wl_event =
  ev_type :: wl_event_type
  ev_message_id :: u16
  ev_payload :: addr
  ev_payload_len :: nat
  ev_handle :: u32
  ev_io_result :: int
  ev_lease :: u32
  ev_peer_session_id :: u64

record wl_tx_result =
  res_state :: wl_tx_state
  res_result :: wl_err
  res_retries_used :: u16

record wl_storage =
  st_tx_payload :: addr
  st_tx_payload_size :: nat
  st_tx_unit :: addr
  st_tx_unit_size :: nat
  st_control_unit :: addr
  st_control_unit_size :: nat
  st_rx_fifo :: addr
  st_rx_fifo_size :: nat
  st_rx_fallback :: addr
  st_rx_fallback_size :: nat

record wl_storage_requirements =
  req_tx_payload_size :: nat
  req_tx_unit_size :: nat
  req_control_unit_size :: nat
  req_rx_fifo_size :: nat
  req_rx_fallback_size :: nat

record wl_rx_counters =
  malformed :: u32
  bad_integrity :: u32
  overflow :: u32
  duplicate :: u32
  unsupported :: u32

record wl_tx_payload_claim_t =
  txc_span :: wl_span
  txc_token :: u32

text \<open>The history of the sink also says which unit each call submitted.\<close>

datatype wl_sink_unit = Reliable_unit | Unreliable_unit | Control_unit

record wl_sink_call =
  sc_unit :: wl_sink_unit
  sc_token :: u32
  sc_data :: "byte list"
  sc_result :: wl_sink_result

type_synonym wl_sink_fn = "wl_sink_call list \<Rightarrow> u32 \<Rightarrow> byte list \<Rightarrow> wl_sink_result"

section \<open>The context\<close>

record wl_ctx_impl =
  ctx_mem :: mem
  sink_log :: "wl_sink_call list"
  rx_ring :: wl_rx_bipbuf
  rx_units :: wl_rx_unit_queue
  ctx_config :: wl_config
  ctx_storage :: wl_storage
  initialized :: bool
  sink :: "wl_sink_fn option"
  tx_state :: wl_tx_state
  tx_pending_event :: wl_event_type
  tx_handle :: u32
  tx_unreliable_completions :: u32
  tx_token :: u32
  tx_start_ts :: u32
  tx_retries_left :: u16
  tx_retries_max :: u16
  tx_retries_used :: u16
  tx_sequence :: u32
  tx_waiting_seq :: u32
  tx_inflight :: bool
  tx_writable :: bool
  resource_generation :: u32
  tx_drain_required :: bool
  tx_drain_pending :: bool
  tx_drain_reliable :: bool
  tx_drain_token :: u32
  tx_wait_state :: wl_tx_wait_reason
  tx_cancel_requested :: bool
  tx_generation :: u16
  tx_result_code :: wl_err
  tx_last_message_id :: u16
  tx_claim_active :: bool
  tx_claim_reliable :: bool
  tx_claim_message_id :: u16
  tx_claim_token :: u32
  tx_claim_payload :: wl_span
  session_id :: u64
  rx_sequence :: u32
  rx_session_id :: u64
  rx_have_reliable :: bool
  ctx_event :: wl_event
  has_event :: bool
  in_callback :: bool
  in_flight_reliable :: bool
  control_pending :: bool
  control_inflight :: bool
  tx_queued :: bool
  tx_encoded_len :: nat
  tx_unreliable_len :: nat
  control_len :: nat
  rx_event_leased :: bool
  rx_candidate_source :: wl_rx_source
  rx_event_generation :: u32
  rx_pending_consume :: nat
  rx_counters :: wl_rx_counters
  now_ms :: u32
  rx_payload :: wl_span
  tx_payload :: wl_span

definition wl_tx_retry_due :: "wl_ctx_impl \<Rightarrow> u32 \<Rightarrow> bool" where
  "wl_tx_retry_due c now \<longleftrightarrow>
     tx_state c = WL_TX_STATE_WAITING_ACK \<and> tx_wait_state c = WL_TX_WAIT_ACK \<and>
     ack_timeout_ms (ctx_config c) \<noteq> 0 \<and> now - tx_start_ts c \<ge> ack_timeout_ms (ctx_config c)"

section \<open>Initialisation\<close>

definition wl_link_session_id :: "wl_ctx_impl \<Rightarrow> u64" where
  "wl_link_session_id c = session_id c"

definition storage_overlaps :: "addr \<Rightarrow> nat \<Rightarrow> addr \<Rightarrow> nat \<Rightarrow> bool" where
  "storage_overlaps a a_size b b_size = (if a \<le> b then b - a < a_size else a - b < b_size)"

definition wl_max_unit_size :: "wl_config \<Rightarrow> nat" where
  "wl_max_unit_size config =
     (let raw = wl_frame_raw_size (unat (max_payload_len config)) (integrity config)
      in if raw = 0 then 0
         else if envelope config = WL_ENVELOPE_COBS_STREAM then wl_cobs_encoded_max_size raw + 1
         else if envelope config = WL_ENVELOPE_BUS_LENGTH16 then raw + 2
         else raw)"

definition wl_config_requirements :: "wl_config \<Rightarrow> wl_err + wl_storage_requirements" where
  "wl_config_requirements config =
     (if max_payload_len config = 0 \<or> unat (max_payload_len config) > WL_PACKET_MAX_PAYLOAD
      then Inl WL_ERR_INVALID_ARG
      else if \<not> wl_profile_envelope_valid (envelope config) then Inl WL_ERR_INVALID_ARG
      else if \<not> wl_profile_integrity_valid (integrity config) then Inl WL_ERR_INVALID_ARG
      else if cfg_session_id config = 0 then Inl WL_ERR_INVALID_ARG
      else if ack_timeout_ms config \<ge> 0x80000000 then Inl WL_ERR_INVALID_ARG
      else if \<not> wl_profile_supported (envelope config) (integrity config) then Inl WL_ERR_NOT_SUPPORTED
      else
        let unit_size = wl_max_unit_size config;
            control = wl_frame_encode_overhead (envelope config) (integrity config)
        in if unit_size = 0 \<or> control = 0 \<or>
              (max_transmission_unit config \<noteq> 0 \<and> max_transmission_unit config < unit_size)
           then Inl WL_ERR_INVALID_ARG
           else Inr \<lparr>req_tx_payload_size = unat (max_payload_len config),
                     req_tx_unit_size = unit_size,
                     req_control_unit_size = control,
                     req_rx_fifo_size =
                       (if envelope config = WL_ENVELOPE_COBS_STREAM
                        then wl_rx_ring_storage_size unit_size else 0),
                     req_rx_fallback_size =
                       (if envelope config = WL_ENVELOPE_COBS_STREAM then unit_size - 1 else unit_size)\<rparr>)"

text \<open>The context after \<^verbatim>\<open>memset\<close>: memory and the history of the sink are outside of it.\<close>

definition zero_units :: wl_rx_unit_queue where
  "zero_units = \<lparr>uq_storage = NULL, uq_unit_size = 0, uq_lengths = replicate WL_RX_UNIT_QUEUE_MAX_SLOTS 0,
     uq_write_cursor = 0, uq_read_cursor = 0, uq_claim_cursor = 0, uq_claim_token = 0,
     uq_slot_count = 0, uq_claim_active = False, uq_initialized = False\<rparr>"

definition zero_event :: wl_event where
  "zero_event = \<lparr>ev_type = WL_EVT_NONE, ev_message_id = 0, ev_payload = NULL, ev_payload_len = 0,
     ev_handle = 0, ev_io_result = 0, ev_lease = 0, ev_peer_session_id = 0\<rparr>"

definition zero_span :: wl_span where
  "zero_span = \<lparr>span_data = NULL, span_length = 0\<rparr>"

definition zero_ctx :: "mem \<Rightarrow> wl_sink_call list \<Rightarrow> wl_config \<Rightarrow> wl_storage \<Rightarrow> wl_ctx_impl" where
  "zero_ctx m log config storage =
     \<lparr>ctx_mem = m, sink_log = log, rx_ring = blank_ring, rx_units = zero_units,
      ctx_config = config, ctx_storage = storage, initialized = False, sink = None,
      tx_state = WL_TX_STATE_IDLE, tx_pending_event = WL_EVT_NONE, tx_handle = 0,
      tx_unreliable_completions = 0, tx_token = 0, tx_start_ts = 0, tx_retries_left = 0,
      tx_retries_max = 0, tx_retries_used = 0, tx_sequence = 0, tx_waiting_seq = 0,
      tx_inflight = False, tx_writable = False, resource_generation = 0, tx_drain_required = False,
      tx_drain_pending = False, tx_drain_reliable = False, tx_drain_token = 0,
      tx_wait_state = WL_TX_WAIT_NONE, tx_cancel_requested = False, tx_generation = 0,
      tx_result_code = WL_OK, tx_last_message_id = 0, tx_claim_active = False,
      tx_claim_reliable = False, tx_claim_message_id = 0, tx_claim_token = 0,
      tx_claim_payload = zero_span, session_id = 0, rx_sequence = 0, rx_session_id = 0,
      rx_have_reliable = False, ctx_event = zero_event, has_event = False, in_callback = False,
      in_flight_reliable = False, control_pending = False, control_inflight = False,
      tx_queued = False, tx_encoded_len = 0, tx_unreliable_len = 0, control_len = 0,
      rx_event_leased = False, rx_candidate_source = WL_RX_SOURCE_NONE, rx_event_generation = 0,
      rx_pending_consume = 0,
      rx_counters = \<lparr>malformed = 0, bad_integrity = 0, overflow = 0, duplicate = 0, unsupported = 0\<rparr>,
      now_ms = 0, rx_payload = zero_span, tx_payload = zero_span\<rparr>"

definition wl_init :: "bool \<Rightarrow> wl_ctx_impl \<Rightarrow> wl_config \<Rightarrow> wl_storage \<Rightarrow> wl_err \<times> wl_ctx_impl" where
  "wl_init lock_free c config storage =
     (case wl_config_requirements config of
        Inl config_error \<Rightarrow> (config_error, c)
      | Inr requirements \<Rightarrow>
        if st_tx_payload storage = NULL \<or> st_tx_unit storage = NULL \<or>
           st_control_unit storage = NULL \<or> st_rx_fallback storage = NULL \<or>
           st_tx_payload_size storage < req_tx_payload_size requirements \<or>
           st_tx_unit_size storage < req_tx_unit_size requirements \<or>
           st_control_unit_size storage < req_control_unit_size requirements \<or>
           st_rx_fallback_size storage < req_rx_fallback_size requirements \<or>
           (req_rx_fifo_size requirements \<noteq> 0 \<and>
            (st_rx_fifo storage = NULL \<or> st_rx_fifo_size storage < req_rx_fifo_size requirements))
        then (WL_ERR_BUF_TOO_SMALL, c)
        else if storage_overlaps (st_tx_payload storage) (st_tx_payload_size storage)
                  (st_tx_unit storage) (st_tx_unit_size storage) \<or>
                storage_overlaps (st_tx_payload storage) (st_tx_payload_size storage)
                  (st_control_unit storage) (st_control_unit_size storage) \<or>
                storage_overlaps (st_tx_unit storage) (st_tx_unit_size storage)
                  (st_control_unit storage) (st_control_unit_size storage)
        then (WL_ERR_INVALID_ARG, c)
        else
          let c = (zero_ctx (ctx_mem c) (sink_log c) config storage)
                \<lparr>tx_retries_max := max_retries config, tx_retries_left := max_retries config,
                 session_id := cfg_session_id config, tx_token := 1,
                 tx_payload := \<lparr>span_data = st_tx_payload storage, span_length = 0\<rparr>,
                 rx_payload := \<lparr>span_data = st_rx_fallback storage, span_length = 0\<rparr>\<rparr>;
              (err, ring) = (if req_rx_fifo_size requirements \<noteq> 0
                             then wl_rx_ring_init lock_free (rx_ring c) (st_rx_fifo storage)
                                    (st_rx_fifo_size storage)
                             else (WL_OK, rx_ring c));
              c = c\<lparr>rx_ring := ring\<rparr>
          in if err \<noteq> WL_OK then (WL_ERR_INVALID_ARG, c)
             else (WL_OK, c\<lparr>tx_writable := True, initialized := True\<rparr>))"

section \<open>Transport setters and queries\<close>

definition wl_set_sink :: "wl_ctx_impl \<Rightarrow> wl_sink_fn option \<Rightarrow> wl_err \<times> wl_ctx_impl" where
  "wl_set_sink c f =
     (if \<not> initialized c then (WL_ERR_NOT_INITIALIZED, c)
      else if in_callback c then (WL_ERR_REENTRANT, c)
      else (WL_OK, c\<lparr>sink := f\<rparr>))"

definition wl_set_tx_drain_required :: "wl_ctx_impl \<Rightarrow> bool \<Rightarrow> wl_err \<times> wl_ctx_impl" where
  "wl_set_tx_drain_required c required =
     (if \<not> initialized c then (WL_ERR_NOT_INITIALIZED, c)
      else if tx_inflight c \<or> control_inflight c \<or> tx_drain_pending c then (WL_ERR_BUSY, c)
      else (WL_OK, c\<lparr>tx_drain_required := required\<rparr>))"

definition wl_tx_writable :: "wl_ctx_impl \<Rightarrow> wl_err \<times> wl_ctx_impl" where
  "wl_tx_writable c =
     (if \<not> initialized c then (WL_ERR_NOT_INITIALIZED, c)
      else (WL_OK, c\<lparr>tx_writable := True, resource_generation := resource_generation c + 1\<rparr>))"

definition tx_terminal :: "wl_tx_state \<Rightarrow> bool" where
  "tx_terminal s \<longleftrightarrow> s = WL_TX_STATE_SUCCESS \<or> s = WL_TX_STATE_FAILED \<or> s = WL_TX_STATE_CANCELLED"

definition wl_tx_can_take :: "wl_ctx_impl \<Rightarrow> u32 \<Rightarrow> bool" where
  "wl_tx_can_take c handle \<longleftrightarrow>
     initialized c \<and> handle \<noteq> 0 \<and> handle = tx_handle c \<and>
     \<not> (tx_inflight c \<and> in_flight_reliable c) \<and> tx_terminal (tx_state c)"

definition wl_link_resource_generation :: "wl_ctx_impl \<Rightarrow> u32" where
  "wl_link_resource_generation c = resource_generation c"

definition wl_tx_can_submit :: "wl_ctx_impl \<Rightarrow> int \<Rightarrow> bool" where
  "wl_tx_can_submit c delivery \<longleftrightarrow>
     initialized c \<and> sink c \<noteq> None \<and> \<not> tx_inflight c \<and> \<not> tx_drain_pending c \<and>
     \<not> control_pending c \<and> \<not> control_inflight c \<and> \<not> tx_queued c \<and> \<not> tx_claim_active c \<and>
     (if delivery = WL_DELIVERY_RELIABLE then tx_handle c = 0 else \<not> wl_tx_retry_due c (now_ms c))"

definition wl_rx_has_space :: "wl_ctx_impl \<Rightarrow> bool" where
  "wl_rx_has_space c \<longleftrightarrow> initialized c \<and> wl_rx_ring_has_space (rx_ring c)"

definition wl_get_config :: "wl_ctx_impl \<Rightarrow> wl_err + wl_config" where
  "wl_get_config c = (if \<not> initialized c then Inl WL_ERR_NOT_INITIALIZED else Inr (ctx_config c))"

definition wl_tx_cancel :: "wl_ctx_impl \<Rightarrow> u32 \<Rightarrow> wl_err \<times> wl_ctx_impl" where
  "wl_tx_cancel c handle =
     (if \<not> initialized c then (WL_ERR_NOT_INITIALIZED, c)
      else if handle = 0 \<or> handle \<noteq> tx_handle c then (WL_ERR_NOT_FOUND, c)
      else if tx_state c = WL_TX_STATE_IDLE \<or> tx_terminal (tx_state c) then (WL_ERR_INVALID_STATE, c)
      else
        let c = (if tx_inflight c \<and> in_flight_reliable c then c\<lparr>tx_cancel_requested := True\<rparr>
                 else if tx_queued c \<and> in_flight_reliable c
                 then c\<lparr>tx_queued := False, in_flight_reliable := False\<rparr> else c)
        in (WL_OK, c\<lparr>tx_state := WL_TX_STATE_CANCELLED, tx_wait_state := WL_TX_WAIT_NONE,
                     tx_waiting_seq := 0, tx_retries_left := 0, tx_result_code := WL_ERR_CANCELLED\<rparr>))"

definition wl_tx_status :: "wl_ctx_impl \<Rightarrow> u32 \<Rightarrow> wl_err + wl_tx_state" where
  "wl_tx_status c handle =
     (if \<not> initialized c then Inl WL_ERR_NOT_INITIALIZED
      else if handle = 0 \<or> handle \<noteq> tx_handle c then Inl WL_ERR_NOT_FOUND
      else Inr (tx_state c))"

definition wl_tx_take :: "wl_ctx_impl \<Rightarrow> u32 \<Rightarrow> (wl_err + wl_tx_result) \<times> wl_ctx_impl" where
  "wl_tx_take c handle =
     (if \<not> initialized c then (Inl WL_ERR_NOT_INITIALIZED, c)
      else if handle = 0 \<or> handle \<noteq> tx_handle c then (Inl WL_ERR_NOT_FOUND, c)
      else if tx_inflight c \<and> in_flight_reliable c \<or> \<not> tx_terminal (tx_state c)
      then (Inl WL_ERR_INVALID_STATE, c)
      else
        (Inr \<lparr>res_state = tx_state c, res_result = tx_result_code c, res_retries_used = tx_retries_used c\<rparr>,
         c\<lparr>resource_generation := resource_generation c + 1, tx_handle := 0,
           tx_pending_event := WL_EVT_NONE, tx_state := WL_TX_STATE_IDLE, tx_cancel_requested := False,
           tx_wait_state := WL_TX_WAIT_NONE, tx_waiting_seq := 0,
           tx_payload := \<lparr>span_data = st_tx_payload (ctx_storage c), span_length = 0\<rparr>,
           tx_encoded_len := 0\<rparr>))"

definition wl_feed_recover_reset :: "wl_ctx_impl \<Rightarrow> wl_err \<times> wl_ctx_impl" where
  "wl_feed_recover_reset c =
     (if \<not> initialized c then (WL_ERR_NOT_INITIALIZED, c)
      else if envelope (ctx_config c) \<noteq> WL_ENVELOPE_COBS_STREAM then (WL_ERR_NOT_SUPPORTED, c)
      else if rx_event_leased c then (WL_ERR_WOULD_BLOCK, c)
      else (WL_OK, c\<lparr>rx_ring := snd (wl_rx_ring_consumer_consume (rx_ring c)
                                       (wl_rx_ring_readable (rx_ring c)))\<rparr>))"

definition wl_rx_get_counters :: "wl_ctx_impl \<Rightarrow> wl_err + wl_rx_counters" where
  "wl_rx_get_counters c = (if \<not> initialized c then Inl WL_ERR_NOT_INITIALIZED else Inr (rx_counters c))"

definition is_rx_type :: "wl_event_type \<Rightarrow> bool" where
  "is_rx_type t \<longleftrightarrow> t = WL_EVT_UNRELIABLE_RX \<or> t = WL_EVT_RELIABLE_RX"

lemma is_rx_type_simps [simp]:
  "\<not> is_rx_type WL_EVT_NONE" "is_rx_type WL_EVT_UNRELIABLE_RX" "is_rx_type WL_EVT_RELIABLE_RX"
  "\<not> is_rx_type WL_EVT_TX_SUCCESS" "\<not> is_rx_type WL_EVT_TX_TIMEOUT" "\<not> is_rx_type WL_EVT_TX_FAILED"
  by (simp_all add: is_rx_type_def)

definition wl_event_release :: "wl_ctx_impl \<Rightarrow> wl_event \<Rightarrow> wl_ctx_impl" where
  "wl_event_release c event =
     (if \<not> initialized c then c
      else if is_rx_type (ev_type event) \<and> rx_event_leased c \<and> ev_lease event = rx_event_generation c
      then
        let c = c\<lparr>rx_event_leased := False, resource_generation := resource_generation c + 1\<rparr>;
            c = (if rx_pending_consume c \<noteq> 0
                 then
                   let c = (if rx_candidate_source c = WL_RX_SOURCE_UNIT
                            then c\<lparr>rx_units := snd (wl_rx_unit_consumer_consume (rx_units c))\<rparr>
                            else c\<lparr>rx_ring := snd (wl_rx_ring_consumer_consume (rx_ring c)
                                                     (rx_pending_consume c))\<rparr>)
                   in c\<lparr>rx_pending_consume := 0\<rparr>
                 else c)
        in c\<lparr>rx_candidate_source := WL_RX_SOURCE_NONE, rx_payload := (rx_payload c)\<lparr>span_length := 0\<rparr>\<rparr>
      else c)"

definition wl_rx_can_accept_unit :: "wl_ctx_impl \<Rightarrow> bool" where
  "wl_rx_can_accept_unit c =
     (if \<not> initialized c \<or> envelope (ctx_config c) = WL_ENVELOPE_COBS_STREAM then False
      else if \<not> uq_initialized (rx_units c) then \<not> rx_event_leased c \<and> \<not> has_event c
      else if uq_claim_active (rx_units c) then False
      else unat (uq_write_cursor (rx_units c) - uq_read_cursor (rx_units c)) < uq_slot_count (rx_units c))"

end
