(* ===== verification/Link_Tx.thy ===== *)
theory Link_Tx
  imports Link_Context
begin

text \<open>
  The transmit half of the link engine, \<^verbatim>\<open>src/protocol.c\<close>: the single physical transmit unit, the
  reliable transaction with its retries, the control unit that carries acknowledgements, payload
  claims and the completion reports of the adapter.

  Each operation returns the status of the C function and the context. Internal routines that the
  source calls for their effect only return the context alone.
\<close>

section \<open>Events\<close>

definition wl_push_event ::
    "wl_ctx_impl \<Rightarrow> wl_event_type \<Rightarrow> u16 \<Rightarrow> addr \<Rightarrow> nat \<Rightarrow> u32 \<Rightarrow> wl_err \<times> wl_ctx_impl" where
  "wl_push_event c type message_id payload payload_len handle =
     (let is_rx = is_rx_type type
      in if has_event c \<or> is_rx \<and> rx_event_leased c then (WL_ERR_QUEUE_FULL, c)
         else if is_rx \<and>
                 (payload_len > unat (max_payload_len (ctx_config c)) \<or>
                  payload_len \<noteq> 0 \<and> payload = NULL \<or> rx_candidate_source c = WL_RX_SOURCE_NONE)
         then (WL_ERR_PAYLOAD_TOO_LONG, c)
         else
           let c = (if is_rx
                    then
                      let generation = rx_event_generation c + 1
                      in c\<lparr>rx_payload := \<lparr>span_data = payload, span_length = payload_len\<rparr>,
                           rx_event_generation := (if generation = 0 then 1 else generation)\<rparr>
                    else c)
           in (WL_OK,
               c\<lparr>ctx_event := \<lparr>ev_type = type, ev_message_id = message_id,
                    ev_payload = (if is_rx then span_data (rx_payload c) else payload),
                    ev_payload_len = payload_len, ev_handle = handle, ev_io_result = 0,
                    ev_lease = (if is_rx then rx_event_generation c else 0),
                    ev_peer_session_id = 0\<rparr>,
                 has_event := True\<rparr>))"

definition wl_push_tx_event :: "wl_ctx_impl \<Rightarrow> wl_event_type \<Rightarrow> wl_ctx_impl" where
  "wl_push_tx_event c type =
     (if tx_inflight c \<and> in_flight_reliable c then c\<lparr>tx_pending_event := type\<rparr>
      else
        let (err, c) = wl_push_event c type 0 NULL 0 (tx_handle c)
        in if err \<noteq> WL_OK then c\<lparr>tx_pending_event := type\<rparr> else c)"

definition wl_complete_unreliable_tx :: "wl_ctx_impl \<Rightarrow> wl_err \<times> wl_ctx_impl" where
  "wl_complete_unreliable_tx c =
     (if tx_unreliable_completions c = UINT32_MAX then (WL_ERR_QUEUE_FULL, c)
      else (WL_OK, c\<lparr>tx_unreliable_completions := tx_unreliable_completions c + 1,
                     tx_unreliable_len := 0\<rparr>))"

section \<open>Submitting units to the sink\<close>

text \<open>
  A sink call: the token advances, the sink sees the bytes of the unit, and the call is recorded.
  \<^verbatim>\<open>in_callback\<close> is set only while the sink runs.
\<close>

definition next_io_token :: "u32 \<Rightarrow> u32" where
  "next_io_token token = (if token = UINT32_MAX then 1 else token + 1)"

definition call_sink ::
    "wl_ctx_impl \<Rightarrow> wl_sink_fn \<Rightarrow> wl_sink_unit \<Rightarrow> addr \<Rightarrow> nat \<Rightarrow> wl_sink_result \<times> wl_ctx_impl" where
  "call_sink c f unit_kind data len =
     (let token = next_io_token (tx_token c);
          bytes = read_bytes (ctx_mem c) data len;
          result = f (sink_log c) token bytes
      in (result,
          c\<lparr>tx_token := token,
            sink_log := sink_log c @ [\<lparr>sc_unit = unit_kind, sc_token = token, sc_data = bytes, sc_result = result\<rparr>]\<rparr>))"

definition wl_submit_data :: "wl_ctx_impl \<Rightarrow> bool \<Rightarrow> wl_err \<times> wl_ctx_impl" where
  "wl_submit_data c reliable =
     (case sink c of
        None \<Rightarrow> (WL_ERR_NOT_INITIALIZED, c)
      | Some f \<Rightarrow>
        let len = (if reliable then tx_encoded_len c else tx_unreliable_len c);
            (result, c) = call_sink c f (if reliable then Reliable_unit else Unreliable_unit)
                            (st_tx_unit (ctx_storage c)) len;
            c = c\<lparr>in_flight_reliable := reliable\<rparr>
        in (case result of
             WL_SINK_STARTED \<Rightarrow>
               let c = c\<lparr>tx_inflight := True, tx_queued := False\<rparr>
               in (WL_OK, if reliable then c\<lparr>tx_state := WL_TX_STATE_SENDING\<rparr> else c)
           | WL_SINK_BUSY \<Rightarrow>
               let c = c\<lparr>tx_inflight := False, tx_queued := True, tx_writable := False\<rparr>
               in (WL_OK, if reliable then c\<lparr>tx_state := WL_TX_STATE_SENDING\<rparr> else c)
           | WL_SINK_SENT \<Rightarrow>
               let c = c\<lparr>tx_inflight := False, tx_queued := False, in_flight_reliable := False\<rparr>
               in if reliable
                  then (WL_OK, c\<lparr>tx_state := WL_TX_STATE_WAITING_ACK, tx_wait_state := WL_TX_WAIT_ACK,
                                 tx_start_ts := now_ms c\<rparr>)
                  else wl_complete_unreliable_tx c
           | WL_SINK_FAILED \<Rightarrow>
               let c = c\<lparr>tx_queued := False, tx_inflight := False, in_flight_reliable := False\<rparr>
               in (WL_ERR_IO, if \<not> reliable then c\<lparr>tx_unreliable_len := 0\<rparr> else c)))"

definition wl_send_tx_payload :: "wl_ctx_impl \<Rightarrow> wl_err \<times> wl_ctx_impl" where
  "wl_send_tx_payload c =
     (if \<not> initialized c \<or> sink c = None then (WL_ERR_NOT_INITIALIZED, c)
      else if in_callback c then (WL_ERR_REENTRANT, c)
      else if tx_encoded_len c = 0 then
        let wire = \<lparr>pkt_type = WL_PACKET_DATA, pkt_integrity = integrity (ctx_config c),
                    pkt_flags = WL_PACKET_FLAG_RELIABLE, pkt_message_id = tx_last_message_id c,
                    pkt_session_id = session_id c, pkt_sequence = tx_waiting_seq c,
                    pkt_payload = span_data (tx_payload c), pkt_payload_len = span_length (tx_payload c)\<rparr>;
            (ret, encoded_len, m) = wl_link_encode (ctx_config c) (ctx_mem c) wire
                                      (st_tx_unit (ctx_storage c)) (st_tx_unit_size (ctx_storage c));
            c = c\<lparr>ctx_mem := m\<rparr>
        in if ret \<noteq> WL_OK then (ret, c)
           else wl_submit_data (c\<lparr>tx_encoded_len := encoded_len\<rparr>) True
      else wl_submit_data c True)"

definition wl_submit_control :: "wl_ctx_impl \<Rightarrow> wl_err \<times> wl_ctx_impl" where
  "wl_submit_control c =
     (if \<not> control_pending c \<or> control_inflight c \<or> tx_inflight c \<or> tx_drain_pending c \<or> \<not> tx_writable c
      then (WL_OK, c)
      else (case sink c of
              None \<Rightarrow> (WL_ERR_NOT_INITIALIZED, c)
            | Some f \<Rightarrow>
              if in_callback c then (WL_ERR_REENTRANT, c)
              else
                let (result, c) = call_sink c f Control_unit (st_control_unit (ctx_storage c)) (control_len c)
                in (case result of
                      WL_SINK_SENT \<Rightarrow> (WL_OK, c\<lparr>control_pending := False\<rparr>)
                    | WL_SINK_STARTED \<Rightarrow> (WL_OK, c\<lparr>control_inflight := True\<rparr>)
                    | WL_SINK_BUSY \<Rightarrow> (WL_OK, c\<lparr>tx_writable := False\<rparr>)
                    | WL_SINK_FAILED \<Rightarrow> (WL_ERR_IO, c\<lparr>control_pending := False\<rparr>))))"

definition wl_invalidate_tx_image :: "wl_ctx_impl \<Rightarrow> wl_ctx_impl" where
  "wl_invalidate_tx_image c =
     (let c = (if tx_handle c \<noteq> 0 \<and> span_data (tx_payload c) \<noteq> st_tx_payload (ctx_storage c)
               then
                 c\<lparr>ctx_mem := (if span_length (tx_payload c) \<noteq> 0
                                then memmove (ctx_mem c) (st_tx_payload (ctx_storage c))
                                       (span_data (tx_payload c)) (span_length (tx_payload c))
                                else ctx_mem c),
                   tx_payload := (tx_payload c)\<lparr>span_data := st_tx_payload (ctx_storage c)\<rparr>\<rparr>
               else c)
      in c\<lparr>tx_encoded_len := 0\<rparr>)"

definition wl_data_busy :: "wl_ctx_impl \<Rightarrow> bool \<Rightarrow> bool" where
  "wl_data_busy c reliable \<longleftrightarrow>
     tx_inflight c \<or> tx_drain_pending c \<or> control_pending c \<or> control_inflight c \<or> tx_queued c \<or>
     (if reliable then tx_handle c \<noteq> 0 else wl_tx_retry_due c (now_ms c))"

definition wl_prepare_reliable_payload :: "wl_ctx_impl \<Rightarrow> wl_wire_packet \<Rightarrow> bool \<Rightarrow> wl_ctx_impl" where
  "wl_prepare_reliable_payload c pkt direct =
     (let c = c\<lparr>tx_encoded_len := 0, tx_last_message_id := pkt_message_id pkt,
                tx_payload := \<lparr>span_data = (if direct then pkt_payload pkt
                                             else st_tx_payload (ctx_storage c)),
                               span_length = pkt_payload_len pkt\<rparr>\<rparr>
      in if \<not> direct \<and> pkt_payload_len pkt \<noteq> 0
         then c\<lparr>ctx_mem := memmove (ctx_mem c) (st_tx_payload (ctx_storage c)) (pkt_payload pkt)
                              (pkt_payload_len pkt)\<rparr>
         else c)"

section \<open>Completion reports\<close>

definition tx_fail :: "wl_ctx_impl \<Rightarrow> wl_err \<Rightarrow> wl_event_type \<Rightarrow> wl_ctx_impl" where
  "tx_fail c code type =
     wl_push_tx_event (c\<lparr>tx_state := WL_TX_STATE_FAILED, tx_wait_state := WL_TX_WAIT_NONE,
                          tx_waiting_seq := 0, tx_result_code := code\<rparr>) type"

text \<open>
  \<open>note_consumed\<close> is the bookkeeping common to all completions; \<open>consumed_retry\<close> is the decision
  after an I/O error on a reliable unit, and \<open>consumed_reliable\<close> the completion of a reliable unit.
\<close>

definition note_consumed :: "wl_ctx_impl \<Rightarrow> u32 \<Rightarrow> int \<Rightarrow> wl_ctx_impl" where
  "note_consumed c token io_result =
     (let c = c\<lparr>tx_writable := True, resource_generation := resource_generation c + 1\<rparr>
      in if io_result = 0 \<and> tx_drain_required c
         then c\<lparr>tx_drain_pending := True, tx_drain_token := token,
                tx_drain_reliable := tx_inflight c \<and> in_flight_reliable c\<rparr>
         else c)"

definition consumed_retry :: "wl_ctx_impl \<Rightarrow> wl_ctx_impl" where
  "consumed_retry c =
     (let (retry, c) =
            (if tx_retries_left c = 0 then (WL_ERR_IO, c)
             else if control_pending c
             then (WL_OK, c\<lparr>tx_queued := True, in_flight_reliable := True\<rparr>)
             else wl_send_tx_payload c)
      in if retry = WL_OK
         then c\<lparr>tx_retries_left := tx_retries_left c - 1, tx_retries_used := tx_retries_used c + 1\<rparr>
         else tx_fail c WL_ERR_IO WL_EVT_TX_FAILED)"

definition consumed_reliable :: "wl_ctx_impl \<Rightarrow> int \<Rightarrow> wl_ctx_impl" where
  "consumed_reliable c io_result =
     (if tx_cancel_requested c
      then c\<lparr>tx_cancel_requested := False,
             tx_payload := \<lparr>span_data = st_tx_payload (ctx_storage c), span_length = 0\<rparr>,
             tx_encoded_len := 0\<rparr>
      else if tx_state c \<noteq> WL_TX_STATE_SENDING then c
      else if io_result = 0
      then c\<lparr>tx_state := WL_TX_STATE_WAITING_ACK,
             tx_wait_state := (if tx_drain_pending c then WL_TX_WAIT_DRAIN else WL_TX_WAIT_ACK),
             tx_start_ts := now_ms c\<rparr>
      else consumed_retry c)"

definition wl_tx_consumed :: "wl_ctx_impl \<Rightarrow> u32 \<Rightarrow> int \<Rightarrow> wl_err \<times> wl_ctx_impl" where
  "wl_tx_consumed c token io_result =
     (if \<not> initialized c then (WL_ERR_NOT_INITIALIZED, c)
      else if token \<noteq> tx_token c then (WL_ERR_NOT_FOUND, c)
      else if \<not> tx_inflight c \<and> \<not> control_inflight c then (WL_ERR_NOT_FOUND, c)
      else
        let c = note_consumed c token io_result
        in if control_inflight c
           then (if io_result = 0 then WL_OK else WL_ERR_IO,
                 c\<lparr>control_inflight := False, control_pending := False\<rparr>)
           else if \<not> tx_inflight c then (WL_OK, c)
           else
             let reliable = in_flight_reliable c;
                 c = c\<lparr>tx_inflight := False, in_flight_reliable := False\<rparr>
             in if \<not> reliable
                then
                  let (result, c) = (if io_result = 0 then wl_complete_unreliable_tx c else (WL_OK, c))
                  in (result, snd (wl_submit_control (c\<lparr>tx_unreliable_len := 0\<rparr>)))
                else (WL_OK, snd (wl_submit_control (consumed_reliable c io_result))))"

definition wl_tx_drained :: "wl_ctx_impl \<Rightarrow> u32 \<Rightarrow> int \<Rightarrow> wl_err \<times> wl_ctx_impl" where
  "wl_tx_drained c token io_result =
     (if \<not> initialized c then (WL_ERR_NOT_INITIALIZED, c)
      else if \<not> tx_drain_pending c \<or> token \<noteq> tx_drain_token c then (WL_ERR_NOT_FOUND, c)
      else
        let c = c\<lparr>tx_drain_pending := False, tx_writable := True,
                  resource_generation := resource_generation c + 1\<rparr>;
            c = (if tx_drain_reliable c \<and> tx_state c = WL_TX_STATE_WAITING_ACK \<and>
                    tx_wait_state c = WL_TX_WAIT_DRAIN
                 then
                   if io_result = 0 then c\<lparr>tx_wait_state := WL_TX_WAIT_ACK, tx_start_ts := now_ms c\<rparr>
                   else wl_push_tx_event
                          (c\<lparr>tx_state := WL_TX_STATE_FAILED, tx_wait_state := WL_TX_WAIT_NONE,
                             tx_result_code := WL_ERR_IO\<rparr>) WL_EVT_TX_FAILED
                 else c)
        in (WL_OK, c\<lparr>tx_drain_reliable := False\<rparr>))"

section \<open>Acknowledgements\<close>

definition ack_packet :: "wl_config \<Rightarrow> wl_frame_view \<Rightarrow> wl_wire_packet" where
  "ack_packet config view =
     \<lparr>pkt_type = WL_PACKET_ACK, pkt_integrity = integrity config, pkt_flags = 0, pkt_message_id = 0,
      pkt_session_id = view_session_id view, pkt_sequence = view_sequence view,
      pkt_payload = NULL, pkt_payload_len = 0\<rparr>"

definition wl_send_ack :: "wl_ctx_impl \<Rightarrow> wl_frame_view \<Rightarrow> wl_err \<times> wl_ctx_impl" where
  "wl_send_ack c view =
     (if \<not> initialized c \<or> sink c = None then (WL_ERR_NOT_INITIALIZED, c)
      else if in_callback c then (WL_ERR_REENTRANT, c)
      else if control_pending c then (WL_ERR_QUEUE_FULL, c)
      else
        let (ret, encoded_len, m) = wl_link_encode (ctx_config c) (ctx_mem c) (ack_packet (ctx_config c) view)
              (st_control_unit (ctx_storage c)) (st_control_unit_size (ctx_storage c));
            c = c\<lparr>ctx_mem := m\<rparr>
        in if ret \<noteq> WL_OK then (ret, c)
           else wl_submit_control (c\<lparr>control_len := encoded_len, control_pending := True\<rparr>))"

definition wl_handle_ack :: "wl_ctx_impl \<Rightarrow> wl_frame_view \<Rightarrow> wl_err \<times> wl_ctx_impl" where
  "wl_handle_ack c view =
     (if tx_state c \<noteq> WL_TX_STATE_WAITING_ACK \<and> tx_state c \<noteq> WL_TX_STATE_SENDING then (WL_OK, c)
      else if session_id c \<noteq> view_session_id view \<or> tx_waiting_seq c \<noteq> view_sequence view then (WL_OK, c)
      else
        let c = c\<lparr>tx_state := WL_TX_STATE_SUCCESS, tx_wait_state := WL_TX_WAIT_NONE,
                  tx_waiting_seq := 0, tx_retries_left := 0, tx_result_code := WL_OK\<rparr>;
            c = (if tx_queued c \<and> in_flight_reliable c
                 then c\<lparr>tx_queued := False, in_flight_reliable := False\<rparr> else c)
        in (WL_OK, wl_push_tx_event c WL_EVT_TX_SUCCESS))"

section \<open>Sending\<close>

text \<open>
  The handle is returned with the status; zero stands for the value the source stores when it has no
  transaction to report.
\<close>

definition next_tx_generation :: "u16 \<Rightarrow> u16" where
  "next_tx_generation g = (if g + 1 = 0 then 1 else g + 1)"

definition wl_send_frame_internal ::
    "wl_ctx_impl \<Rightarrow> wl_wire_packet \<Rightarrow> bool \<Rightarrow> bool \<Rightarrow> u32 \<Rightarrow> wl_err \<times> u32 \<times> wl_ctx_impl" where
  "wl_send_frame_internal c pkt reliable direct now =
     (if pkt_payload_len pkt \<noteq> 0 \<and> pkt_payload pkt = NULL then (WL_ERR_INVALID_ARG, 0, c)
      else if \<not> initialized c then (WL_ERR_NOT_INITIALIZED, 0, c)
      else if session_id c = 0 then (WL_ERR_INVALID_ARG, 0, c)
      else if pkt_payload_len pkt > unat (max_payload_len (ctx_config c)) then (WL_ERR_PAYLOAD_TOO_LONG, 0, c)
      else if wl_data_busy c reliable then (WL_ERR_BUSY, 0, c)
      else if in_callback c then (WL_ERR_REENTRANT, 0, c)
      else if \<not> reliable \<and> tx_unreliable_completions c = UINT32_MAX then (WL_ERR_QUEUE_FULL, 0, c)
      else if pkt_message_id pkt = 0 then (WL_ERR_INVALID_ARG, 0, c)
      else if \<not> reliable then
        let c = wl_invalidate_tx_image c;
            (result, len, m) = wl_link_encode (ctx_config c) (ctx_mem c) pkt
                                 (st_tx_unit (ctx_storage c)) (st_tx_unit_size (ctx_storage c));
            c = c\<lparr>ctx_mem := m, tx_unreliable_len := len\<rparr>
        in if result \<noteq> WL_OK then (result, 0, c)
           else let (err, c) = wl_submit_data c False in (err, 0, c)
      else
        let c = wl_prepare_reliable_payload (c\<lparr>now_ms := now\<rparr>) pkt direct;
            generation = next_tx_generation (tx_generation c);
            handle = push_bit 16 (ucast generation) OR 1;
            c = c\<lparr>tx_generation := generation, tx_handle := handle, tx_waiting_seq := pkt_sequence pkt,
                  tx_wait_state := WL_TX_WAIT_NONE, tx_retries_left := tx_retries_max c,
                  tx_retries_used := 0\<rparr>;
            (ret, c) = wl_send_tx_payload c
        in if ret \<noteq> WL_OK
           then (ret, 0,
                 c\<lparr>tx_handle := 0, tx_state := WL_TX_STATE_IDLE, tx_waiting_seq := 0,
                   tx_wait_state := WL_TX_WAIT_NONE, tx_retries_left := 0,
                   tx_payload := \<lparr>span_data = st_tx_payload (ctx_storage c), span_length = 0\<rparr>,
                   tx_last_message_id := 0, tx_encoded_len := 0\<rparr>)
           else (WL_OK, handle, c\<lparr>tx_result_code := WL_ERR_BUSY\<rparr>))"

text \<open>\<^verbatim>\<open>memset\<close> leaves the packet's integrity selector at zero and its session at zero; the encoder reads
  the configured selector, and the session of reliable frames is taken from the context when they
  are encoded.\<close>

definition wl_send_unreliable ::
    "wl_ctx_impl \<Rightarrow> u16 \<Rightarrow> addr \<Rightarrow> nat \<Rightarrow> wl_err \<times> wl_ctx_impl" where
  "wl_send_unreliable c message_id payload payload_len =
     (if \<not> initialized c then (WL_ERR_NOT_INITIALIZED, c)
      else if tx_claim_active c then (WL_ERR_BUSY, c)
      else
        let (err, _, c) = wl_send_frame_internal c
              \<lparr>pkt_type = WL_PACKET_DATA, pkt_integrity = 0, pkt_flags = 0,
               pkt_message_id = message_id, pkt_session_id = 0, pkt_sequence = 0,
               pkt_payload = payload, pkt_payload_len = payload_len\<rparr> False False 0
        in (err, c))"

definition wl_send_reliable ::
    "wl_ctx_impl \<Rightarrow> u16 \<Rightarrow> addr \<Rightarrow> nat \<Rightarrow> u32 \<Rightarrow> wl_err \<times> u32 \<times> wl_ctx_impl" where
  "wl_send_reliable c message_id payload payload_len now =
     (if \<not> initialized c then (WL_ERR_NOT_INITIALIZED, 0, c)
      else if tx_sequence c = UINT32_MAX then (WL_ERR_INVALID_STATE, 0, c)
      else
        let sequence = tx_sequence c;
            c = c\<lparr>tx_sequence := tx_sequence c + 1\<rparr>
        in if tx_claim_active c then (WL_ERR_BUSY, 0, c)
           else wl_send_frame_internal c
                  \<lparr>pkt_type = WL_PACKET_DATA, pkt_integrity = 0, pkt_flags = WL_PACKET_FLAG_RELIABLE,
                   pkt_message_id = message_id, pkt_session_id = 0, pkt_sequence = sequence,
                   pkt_payload = payload, pkt_payload_len = payload_len\<rparr> True False now)"

section \<open>Payload claims\<close>

definition wl_tx_payload_claim ::
    "wl_ctx_impl \<Rightarrow> u16 \<Rightarrow> int \<Rightarrow> (wl_err + wl_tx_payload_claim_t) \<times> wl_ctx_impl" where
  "wl_tx_payload_claim c message_id delivery =
     (if message_id = 0 \<or> delivery \<noteq> WL_DELIVERY_UNRELIABLE \<and> delivery \<noteq> WL_DELIVERY_RELIABLE
      then (Inl WL_ERR_INVALID_ARG, c)
      else if \<not> initialized c then (Inl WL_ERR_NOT_INITIALIZED, c)
      else if tx_claim_active c \<or> wl_data_busy c (delivery = WL_DELIVERY_RELIABLE)
      then (Inl WL_ERR_BUSY, c)
      else if delivery = WL_DELIVERY_UNRELIABLE \<and> tx_unreliable_completions c = UINT32_MAX
      then (Inl WL_ERR_QUEUE_FULL, c)
      else
        let c = (if delivery = WL_DELIVERY_UNRELIABLE then wl_invalidate_tx_image c else c);
            payload =
              (if envelope (ctx_config c) = WL_ENVELOPE_NATIVE_PACKET
               then st_tx_unit (ctx_storage c) +
                    wl_frame_packet_header_size WL_PACKET_DATA
                      (if delivery = WL_DELIVERY_RELIABLE then WL_PACKET_FLAG_RELIABLE else 0)
               else if delivery = WL_DELIVERY_UNRELIABLE \<and> tx_handle c \<noteq> 0
               then st_tx_unit (ctx_storage c) else st_tx_payload (ctx_storage c));
            token = tx_claim_token c + 1;
            token = (if token = 0 then token + 1 else token);
            span = \<lparr>span_data = payload, span_length = unat (max_payload_len (ctx_config c))\<rparr>
        in (Inr \<lparr>txc_span = span, txc_token = token\<rparr>,
            c\<lparr>tx_claim_token := token, tx_claim_active := True,
              tx_claim_reliable := (delivery = WL_DELIVERY_RELIABLE),
              tx_claim_message_id := message_id, tx_claim_payload := span\<rparr>))"

definition tx_claim_matches :: "wl_ctx_impl \<Rightarrow> wl_tx_payload_claim_t \<Rightarrow> bool" where
  "tx_claim_matches c claim \<longleftrightarrow>
     tx_claim_active c \<and> txc_token claim = tx_claim_token c \<and>
     span_data (txc_span claim) = span_data (tx_claim_payload c)"

text \<open>\<open>want_handle\<close> says whether the caller passed a place for the handle.\<close>

definition wl_tx_payload_commit ::
    "wl_ctx_impl \<Rightarrow> wl_tx_payload_claim_t \<Rightarrow> nat \<Rightarrow> u32 \<Rightarrow> bool \<Rightarrow> wl_err \<times> u32 \<times> wl_ctx_impl" where
  "wl_tx_payload_commit c claim payload_len now want_handle =
     (if \<not> initialized c then (WL_ERR_NOT_INITIALIZED, 0, c)
      else if \<not> tx_claim_matches c claim then (WL_ERR_NOT_FOUND, 0, c)
      else
        let reliable = tx_claim_reliable c;
            capacity = span_length (tx_claim_payload c);
            c = c\<lparr>tx_claim_active := False, tx_claim_payload := zero_span\<rparr>
        in if payload_len > capacity \<or> reliable \<and> \<not> want_handle then (WL_ERR_INVALID_ARG, 0, c)
           else if reliable \<and> tx_sequence c = UINT32_MAX then (WL_ERR_INVALID_STATE, 0, c)
           else
             let packet = \<lparr>pkt_type = WL_PACKET_DATA, pkt_integrity = integrity (ctx_config c),
                           pkt_flags = (if reliable then WL_PACKET_FLAG_RELIABLE else 0),
                           pkt_message_id = tx_claim_message_id c, pkt_session_id = session_id c,
                           pkt_sequence = (if reliable then tx_sequence c else 0),
                           pkt_payload = span_data (txc_span claim), pkt_payload_len = payload_len\<rparr>;
                 c = (if reliable then c\<lparr>tx_sequence := tx_sequence c + 1\<rparr> else c)
             in wl_send_frame_internal c packet reliable True now)"

definition wl_tx_payload_abort :: "wl_ctx_impl \<Rightarrow> wl_tx_payload_claim_t \<Rightarrow> wl_err \<times> wl_ctx_impl" where
  "wl_tx_payload_abort c claim =
     (if \<not> initialized c then (WL_ERR_NOT_INITIALIZED, c)
      else if \<not> tx_claim_matches c claim then (WL_ERR_NOT_FOUND, c)
      else (WL_OK, c\<lparr>tx_claim_active := False, tx_claim_payload := zero_span,
                     resource_generation := resource_generation c + 1\<rparr>))"

end
