(* ===== verification/Link_Rx.thy ===== *)
theory Link_Rx
  imports Link_Tx
begin

text \<open>
  The receive half of the link engine and the poll that drives both halves: routing of validated
  frames, the byte-stream and packet-unit receive loops, the producer wrappers of the receive ring
  (\<^verbatim>\<open>src/protocol.c\<close>, \<^verbatim>\<open>src/unit_frame.c\<close>), \<^verbatim>\<open>wl_poll\<close>, and the readiness report of
  \<^verbatim>\<open>src/schedule.c\<close>.

  The two receive loops take a bound on their iterations. Every iteration of the stream loop consumes
  at least one byte of the ring and every iteration of the unit loop consumes one unit, or the loop
  ends; \<open>wl_frame_process_stream\<close> and \<open>wl_frame_process_units\<close> pass the number of
  readable bytes or of slots plus one, and the theory \<open>Link_Loops\<close> shows that this is enough.
\<close>

section \<open>Routing\<close>

definition count_bad_frame :: "wl_rx_counters \<Rightarrow> wl_err \<Rightarrow> wl_rx_counters" where
  "count_bad_frame k ret =
     (if ret = WL_ERR_CRC then k\<lparr>bad_integrity := bad_integrity k + 1\<rparr>
      else if ret = WL_ERR_NOT_SUPPORTED then k\<lparr>unsupported := unsupported k + 1\<rparr>
      else k\<lparr>malformed := malformed k + 1\<rparr>)"

definition wl_frame_bad_frame :: "wl_ctx_impl \<Rightarrow> wl_err \<Rightarrow> wl_err \<times> wl_ctx_impl" where
  "wl_frame_bad_frame c ret = (ret, c\<lparr>rx_counters := count_bad_frame (rx_counters c) ret\<rparr>)"

definition wl_frame_route_view :: "wl_ctx_impl \<Rightarrow> wl_frame_view \<Rightarrow> wl_err \<times> wl_ctx_impl" where
  "wl_frame_route_view c view =
     (let payload = span_data (view_payload view); payload_len = span_length (view_payload view)
      in if payload_len > unat (max_payload_len (ctx_config c)) then (WL_ERR_PAYLOAD_TOO_LONG, c)
         else if view_type view = WL_PACKET_DATA then
           if view_flags view AND WL_PACKET_FLAG_RELIABLE \<noteq> 0 then
             if rx_have_reliable c \<and> rx_session_id c = view_session_id view \<and>
                rx_sequence c = view_sequence view
             then wl_send_ack
                    (c\<lparr>rx_counters := (rx_counters c)\<lparr>duplicate := duplicate (rx_counters c) + 1\<rparr>\<rparr>) view
             else
               let (ret, c) = wl_push_event c WL_EVT_RELIABLE_RX (view_message_id view) payload payload_len 0
               in if ret \<noteq> WL_OK then (ret, c)
                  else wl_send_ack
                         (c\<lparr>ctx_event := (ctx_event c)\<lparr>ev_peer_session_id := view_session_id view\<rparr>,
                            rx_session_id := view_session_id view, rx_sequence := view_sequence view,
                            rx_have_reliable := True\<rparr>) view
           else wl_push_event c WL_EVT_UNRELIABLE_RX (view_message_id view) payload payload_len 0
         else if view_type view = WL_PACKET_ACK then wl_handle_ack c view
         else if view_type view = WL_PACKET_NACK
         then (WL_ERR_NOT_SUPPORTED,
               c\<lparr>rx_counters := (rx_counters c)\<lparr>unsupported := unsupported (rx_counters c) + 1\<rparr>\<rparr>)
         else (WL_OK, c))"

definition wl_feed_parse_stream :: "wl_ctx_impl \<Rightarrow> addr \<Rightarrow> nat \<Rightarrow> wl_err \<times> wl_ctx_impl" where
  "wl_feed_parse_stream c encoded encoded_len =
     (let (ret, m) = wl_link_decode_stream (ctx_config c) (ctx_mem c) encoded encoded_len;
          c = c\<lparr>ctx_mem := m\<rparr>
      in case ret of
           Inl e \<Rightarrow> if e = WL_ERR_INVALID_ARG then (e, c) else wl_frame_bad_frame c e
         | Inr view \<Rightarrow> wl_frame_route_view c view)"

definition wl_feed_parse_wire :: "wl_ctx_impl \<Rightarrow> addr \<Rightarrow> nat \<Rightarrow> wl_err \<times> wl_ctx_impl" where
  "wl_feed_parse_wire c data len =
     (if data = NULL \<or> len = 0 then (WL_ERR_INVALID_ARG, c)
      else case wl_frame_decode (ctx_mem c) data len (integrity (ctx_config c)) of
             Inl e \<Rightarrow> wl_frame_bad_frame c e
           | Inr view \<Rightarrow> wl_frame_route_view c view)"

definition count_malformed :: "wl_ctx_impl \<Rightarrow> wl_ctx_impl" where
  "count_malformed c =
     c\<lparr>rx_counters := (rx_counters c)\<lparr>malformed := malformed (rx_counters c) + 1\<rparr>\<rparr>"

definition wl_feed_unit_raw :: "wl_ctx_impl \<Rightarrow> addr \<Rightarrow> nat \<Rightarrow> wl_err \<times> wl_ctx_impl" where
  "wl_feed_unit_raw c unit_addr len =
     (if unit_addr = NULL then (WL_ERR_INVALID_ARG, c)
      else if envelope (ctx_config c) = WL_ENVELOPE_BUS_LENGTH16 then
        if len < 2 then (WL_ERR_BAD_FRAME, count_malformed c)
        else
          let m = ctx_mem c; mtu = max_transmission_unit (ctx_config c);
              raw_len = unat (m unit_addr) * 256 + unat (m (unit_addr + 1))
          in if raw_len + 2 > len \<or> mtu \<noteq> 0 \<and> raw_len + 2 > mtu
             then (WL_ERR_BAD_FRAME, count_malformed c)
             else if \<exists>b \<in> set (read_bytes m (unit_addr + (raw_len + 2)) (len - (raw_len + 2))). b \<noteq> 0
             then (WL_ERR_BAD_FRAME, count_malformed c)
             else wl_feed_parse_wire c (unit_addr + 2) raw_len
      else wl_feed_parse_wire c unit_addr len)"

section \<open>Receive loops\<close>

definition consume_rx :: "wl_ctx_impl \<Rightarrow> nat \<Rightarrow> wl_ctx_impl" where
  "consume_rx c len = c\<lparr>rx_ring := snd (wl_rx_ring_consumer_consume (rx_ring c) len)\<rparr>"

definition has_rx_event :: "wl_ctx_impl \<Rightarrow> bool" where
  "has_rx_event c \<longleftrightarrow> has_event c \<and> is_rx_type (ev_type (ctx_event c))"

text \<open>The bytes to parse: in place when they are contiguous, else copied to the fallback buffer.\<close>

definition stream_candidate :: "wl_ctx_impl \<Rightarrow> nat \<Rightarrow> (addr \<times> wl_ctx_impl) option" where
  "stream_candidate c delimiter_offset =
     (let contiguous = wl_rx_ring_consumer_peek (rx_ring c)
      in if delimiter_offset \<le> span_length contiguous
         then Some (span_data contiguous, c\<lparr>rx_candidate_source := WL_RX_SOURCE_RING\<rparr>)
         else if delimiter_offset > st_rx_fallback_size (ctx_storage c) then None
         else
           let (err, m) = wl_rx_ring_consumer_copy (ctx_mem c) (rx_ring c) 0
                            (st_rx_fallback (ctx_storage c)) delimiter_offset
           in if err \<noteq> WL_OK then None
              else Some (st_rx_fallback (ctx_storage c),
                         c\<lparr>ctx_mem := m, rx_candidate_source := WL_RX_SOURCE_FALLBACK\<rparr>))"

text \<open>One iteration of the stream loop: the new context, and whether the loop goes on.\<close>

definition stream_iteration :: "wl_ctx_impl \<Rightarrow> bool \<times> wl_ctx_impl" where
  "stream_iteration c =
     (let (found, ring) = wl_rx_ring_consumer_find (ctx_mem c) (rx_ring c) 0;
          c = c\<lparr>rx_ring := ring\<rparr>
      in case found of
           Inl e \<Rightarrow> (False, c)
         | Inr delimiter_offset \<Rightarrow>
           let physical_len = delimiter_offset + 1
           in if delimiter_offset = 0 then (True, consume_rx c physical_len)
              else (case stream_candidate c delimiter_offset of
                      None \<Rightarrow>
                        (True, consume_rx
                                 (c\<lparr>rx_counters := (rx_counters c)\<lparr>overflow := overflow (rx_counters c) + 1\<rparr>\<rparr>)
                                 physical_len)
                    | Some (encoded, c) \<Rightarrow>
                        let c = snd (wl_feed_parse_stream c encoded delimiter_offset)
                        in if has_rx_event c
                           then
                             if rx_candidate_source c = WL_RX_SOURCE_RING
                             then (False, c\<lparr>rx_pending_consume := physical_len\<rparr>)
                             else (False, (consume_rx c physical_len)\<lparr>rx_pending_consume := 0\<rparr>)
                           else
                             let c = (consume_rx c physical_len)\<lparr>rx_candidate_source := WL_RX_SOURCE_NONE\<rparr>
                             in (\<not> has_event c, c)))"

fun stream_loop :: "nat \<Rightarrow> wl_ctx_impl \<Rightarrow> wl_ctx_impl" where
  "stream_loop 0 c = c"
| "stream_loop (Suc fuel) c =
     (if \<not> has_event c \<and> \<not> rx_event_leased c
      then let (again, c') = stream_iteration c in if again then stream_loop fuel c' else c'
      else c)"

definition wl_frame_process_stream :: "wl_ctx_impl \<Rightarrow> wl_ctx_impl" where
  "wl_frame_process_stream c =
     (let (events, ring) = wl_rx_ring_consumer_take_overflow (rx_ring c);
          c = c\<lparr>rx_ring := ring\<rparr>;
          c = (if events \<noteq> 0
               then
                 let readable = wl_rx_ring_readable (rx_ring c);
                     remaining = UINT32_MAX - overflow (rx_counters c);
                     increment = (if events > remaining then remaining else events);
                     c = c\<lparr>rx_counters := (rx_counters c)\<lparr>overflow := overflow (rx_counters c) + increment\<rparr>\<rparr>
                 in consume_rx c readable
               else c)
      in stream_loop (wl_rx_ring_readable (rx_ring c) + 1) c)"

definition unit_iteration :: "wl_ctx_impl \<Rightarrow> bool \<times> wl_ctx_impl" where
  "unit_iteration c =
     (let u = wl_rx_unit_consumer_peek (rx_units c)
      in if span_data u = NULL \<or> span_length u = 0 then (False, c)
         else
           let c = snd (wl_feed_unit_raw (c\<lparr>rx_candidate_source := WL_RX_SOURCE_UNIT\<rparr>)
                          (span_data u) (span_length u))
           in if has_rx_event c then (False, c\<lparr>rx_pending_consume := 1\<rparr>)
              else
                let c = c\<lparr>rx_units := snd (wl_rx_unit_consumer_consume (rx_units c)),
                          rx_candidate_source := WL_RX_SOURCE_NONE\<rparr>
                in (\<not> has_event c, c))"

fun unit_loop :: "nat \<Rightarrow> wl_ctx_impl \<Rightarrow> wl_ctx_impl" where
  "unit_loop 0 c = c"
| "unit_loop (Suc fuel) c =
     (if \<not> has_event c \<and> \<not> rx_event_leased c
      then let (again, c') = unit_iteration c in if again then unit_loop fuel c' else c'
      else c)"

definition wl_frame_process_units :: "wl_ctx_impl \<Rightarrow> wl_ctx_impl" where
  "wl_frame_process_units c =
     (if \<not> uq_initialized (rx_units c) then c else unit_loop (uq_count (rx_units c) + 1) c)"

definition wl_link_process_rx :: "wl_ctx_impl \<Rightarrow> wl_ctx_impl" where
  "wl_link_process_rx c =
     (if envelope (ctx_config c) \<noteq> WL_ENVELOPE_COBS_STREAM then wl_frame_process_units c
      else wl_frame_process_stream c)"

section \<open>Producers\<close>

definition wl_frame_receive_unit :: "wl_ctx_impl \<Rightarrow> addr \<Rightarrow> nat \<Rightarrow> wl_err \<times> wl_ctx_impl" where
  "wl_frame_receive_unit c unit_addr len =
     (if has_event c \<or> rx_event_leased c then (WL_ERR_WOULD_BLOCK, c)
      else if len > st_rx_fallback_size (ctx_storage c) then (WL_ERR_PAYLOAD_TOO_LONG, c)
      else
        let c = (if len \<noteq> 0
                 then c\<lparr>ctx_mem := memmove (ctx_mem c) (st_rx_fallback (ctx_storage c)) unit_addr len\<rparr>
                 else c)
        in wl_feed_unit_raw (c\<lparr>rx_candidate_source := WL_RX_SOURCE_FALLBACK\<rparr>)
             (st_rx_fallback (ctx_storage c)) len)"

definition stream_only :: "wl_ctx_impl \<Rightarrow> wl_err" where
  "stream_only c =
     (if \<not> initialized c then WL_ERR_NOT_INITIALIZED
      else if envelope (ctx_config c) \<noteq> WL_ENVELOPE_COBS_STREAM then WL_ERR_NOT_SUPPORTED
      else WL_OK)"

definition wl_rx_reserve :: "wl_ctx_impl \<Rightarrow> (wl_err + wl_span) \<times> wl_ctx_impl" where
  "wl_rx_reserve c =
     (if stream_only c \<noteq> WL_OK then (Inl (stream_only c), c)
      else let (ret, ring) = wl_rx_ring_producer_reserve (rx_ring c) in (ret, c\<lparr>rx_ring := ring\<rparr>))"

definition wl_rx_commit :: "wl_ctx_impl \<Rightarrow> nat \<Rightarrow> wl_err \<times> wl_ctx_impl" where
  "wl_rx_commit c len =
     (if stream_only c \<noteq> WL_OK then (stream_only c, c)
      else let (ret, ring) = wl_rx_ring_producer_commit (rx_ring c) len in (ret, c\<lparr>rx_ring := ring\<rparr>))"

definition wl_rx_dma_claim :: "wl_ctx_impl \<Rightarrow> nat \<Rightarrow> (wl_err + wl_rx_dma_claim) \<times> wl_ctx_impl" where
  "wl_rx_dma_claim c maximum_length =
     (if stream_only c \<noteq> WL_OK then (Inl (stream_only c), c)
      else let (ret, ring) = wl_rx_ring_dma_claim (rx_ring c) maximum_length
           in (ret, c\<lparr>rx_ring := ring\<rparr>))"

definition wl_rx_dma_publish ::
    "wl_ctx_impl \<Rightarrow> wl_rx_dma_claim \<Rightarrow> nat \<Rightarrow> nat \<Rightarrow> wl_err \<times> wl_ctx_impl" where
  "wl_rx_dma_publish c claim offset len =
     (if stream_only c \<noteq> WL_OK then (stream_only c, c)
      else let (ret, ring) = wl_rx_ring_dma_publish (rx_ring c) claim offset len
           in (ret, c\<lparr>rx_ring := ring\<rparr>))"

definition wl_rx_dma_finish :: "wl_ctx_impl \<Rightarrow> wl_rx_dma_claim \<Rightarrow> wl_err \<times> wl_ctx_impl" where
  "wl_rx_dma_finish c claim =
     (if stream_only c \<noteq> WL_OK then (stream_only c, c)
      else let (ret, ring) = wl_rx_ring_dma_finish (rx_ring c) claim in (ret, c\<lparr>rx_ring := ring\<rparr>))"

definition wl_rx_dma_abort :: "wl_ctx_impl \<Rightarrow> wl_err \<times> wl_ctx_impl" where
  "wl_rx_dma_abort c =
     (if stream_only c \<noteq> WL_OK then (stream_only c, c)
      else let (ret, ring) = wl_rx_ring_dma_abort (rx_ring c) in (ret, c\<lparr>rx_ring := ring\<rparr>))"

definition wl_rx_note_overflow :: "wl_ctx_impl \<Rightarrow> wl_ctx_impl" where
  "wl_rx_note_overflow c =
     (if stream_only c = WL_OK then c\<lparr>rx_ring := wl_rx_ring_producer_note_overflow (rx_ring c)\<rparr> else c)"

text \<open>The copy loop of \<^verbatim>\<open>wl_feed_bytes\<close>: the status, the number of bytes accepted, the context.\<close>

function feed_bytes_loop ::
    "wl_ctx_impl \<Rightarrow> addr \<Rightarrow> nat \<Rightarrow> nat \<Rightarrow> wl_err \<times> nat \<times> wl_ctx_impl" where
  "feed_bytes_loop c data len accepted =
     (if accepted < len then
        case wl_rx_reserve c of
          (Inl ret, c) \<Rightarrow> (ret, accepted, c)
        | (Inr span, c) \<Rightarrow>
          if span_length span = 0 then (WL_OK, accepted, snd (wl_rx_commit c 0))
          else
            let chunk = (if len - accepted > span_length span then span_length span else len - accepted);
                c = c\<lparr>ctx_mem := memmove (ctx_mem c) (span_data span) (data + accepted) chunk\<rparr>;
                (ret, c) = wl_rx_commit c chunk
            in if ret \<noteq> WL_OK then (ret, accepted, c)
               else feed_bytes_loop c data len (accepted + chunk)
      else (WL_OK, accepted, c))"
  by pat_completeness auto
termination
  by (relation "measure (\<lambda>(c, data, len, accepted). len - accepted)") (auto split: if_splits)

definition wl_feed_bytes :: "wl_ctx_impl \<Rightarrow> addr \<Rightarrow> nat \<Rightarrow> wl_err \<times> nat \<times> wl_ctx_impl" where
  "wl_feed_bytes c data len =
     (if data = NULL \<and> len \<noteq> 0 then (WL_ERR_INVALID_ARG, 0, c)
      else if stream_only c \<noteq> WL_OK then (stream_only c, 0, c)
      else
        let (ret, accepted, c) = feed_bytes_loop c data len 0
        in if ret \<noteq> WL_OK then (ret, accepted, c)
           else if accepted \<noteq> len
           then (WL_ERR_WOULD_BLOCK, accepted,
                 c\<lparr>rx_ring := wl_rx_ring_producer_note_overflow (rx_ring c)\<rparr>)
           else (WL_OK, accepted, c))"

definition wl_feed_unit :: "wl_ctx_impl \<Rightarrow> addr \<Rightarrow> nat \<Rightarrow> wl_err \<times> wl_ctx_impl" where
  "wl_feed_unit c unit_addr len =
     (if unit_addr = NULL \<and> len \<noteq> 0 then (WL_ERR_INVALID_ARG, c)
      else if \<not> initialized c then (WL_ERR_NOT_INITIALIZED, c)
      else if envelope (ctx_config c) = WL_ENVELOPE_COBS_STREAM
      then let (ret, _, c) = wl_feed_bytes c unit_addr len in (ret, c)
      else wl_frame_receive_unit c unit_addr len)"

section \<open>Poll\<close>

definition poll_pending_event :: "wl_ctx_impl \<Rightarrow> wl_ctx_impl" where
  "poll_pending_event c =
     (if tx_pending_event c \<noteq> WL_EVT_NONE \<and> \<not> has_event c \<and> \<not> (tx_inflight c \<and> in_flight_reliable c)
      then (snd (wl_push_event c (tx_pending_event c) 0 NULL 0 (tx_handle c)))\<lparr>tx_pending_event := WL_EVT_NONE\<rparr>
      else c)"

definition poll_receive :: "wl_ctx_impl \<Rightarrow> wl_ctx_impl" where
  "poll_receive c =
     (if \<not> control_pending c \<and> \<not> has_event c \<and> \<not> rx_event_leased c then wl_link_process_rx c else c)"

definition poll_queued :: "wl_ctx_impl \<Rightarrow> wl_ctx_impl" where
  "poll_queued c =
     (if \<not> has_event c \<and> \<not> control_pending c \<and> \<not> tx_claim_active c \<and> tx_queued c \<and>
         \<not> tx_inflight c \<and> \<not> tx_drain_pending c \<and> tx_writable c
      then
        let reliable = in_flight_reliable c;
            (sent, c) = (if reliable then wl_send_tx_payload c else wl_submit_data c False)
        in if sent \<noteq> WL_OK
           then
             let c = c\<lparr>tx_queued := False, in_flight_reliable := False\<rparr>
             in if reliable then tx_fail c WL_ERR_IO WL_EVT_TX_FAILED else c\<lparr>tx_unreliable_len := 0\<rparr>
           else c
      else c)"

definition poll_timeout :: "wl_ctx_impl \<Rightarrow> u32 \<Rightarrow> wl_ctx_impl" where
  "poll_timeout c now =
     (if \<not> has_event c \<and> \<not> control_pending c \<and> \<not> tx_inflight c \<and> \<not> tx_queued c \<and>
         \<not> tx_claim_active c \<and> tx_state c = WL_TX_STATE_WAITING_ACK \<and>
         tx_wait_state c = WL_TX_WAIT_ACK \<and> initialized c \<and> ack_timeout_ms (ctx_config c) \<noteq> 0 \<and>
         now - tx_start_ts c \<ge> ack_timeout_ms (ctx_config c)
      then
        if tx_retries_left c = 0 then tx_fail c WL_ERR_TIMEOUT WL_EVT_TX_TIMEOUT
        else
          let (retry, c) = wl_send_tx_payload c
          in if retry = WL_OK
             then
               let c = c\<lparr>tx_retries_left := tx_retries_left c - 1, tx_retries_used := tx_retries_used c + 1\<rparr>
               in if tx_state c = WL_TX_STATE_WAITING_ACK then c\<lparr>tx_start_ts := now\<rparr> else c
             else tx_fail c WL_ERR_IO WL_EVT_TX_FAILED
      else c)"

definition wl_poll_transport_progress :: "wl_ctx_impl \<Rightarrow> u32 \<Rightarrow> wl_ctx_impl" where
  "wl_poll_transport_progress c now =
     (let c = snd (wl_submit_control c);
          c = poll_pending_event c;
          c = poll_receive c;
          c = poll_queued c
      in poll_timeout c now)"

definition poll_has_progress :: "wl_ctx_impl \<Rightarrow> bool" where
  "poll_has_progress c \<longleftrightarrow>
     control_pending c \<or> tx_pending_event c \<noteq> WL_EVT_NONE \<or> tx_queued c \<or>
     tx_state c = WL_TX_STATE_WAITING_ACK \<or>
     \<not> has_event c \<and> \<not> rx_event_leased c \<and>
     (envelope (ctx_config c) = WL_ENVELOPE_COBS_STREAM \<or> uq_initialized (rx_units c))"

definition wl_poll :: "wl_ctx_impl \<Rightarrow> u32 \<Rightarrow> (wl_err + wl_event) \<times> wl_ctx_impl" where
  "wl_poll c now =
     (if \<not> initialized c then (Inl WL_ERR_NOT_INITIALIZED, c)
      else
        let c = c\<lparr>now_ms := now\<rparr>;
            c = (if poll_has_progress c then wl_poll_transport_progress c now else c);
            c = (if \<not> has_event c \<and> tx_unreliable_completions c \<noteq> 0
                 then
                   let (ret, c) = wl_push_event c WL_EVT_TX_SUCCESS 0 NULL 0 0
                   in if ret = WL_OK
                      then c\<lparr>tx_unreliable_completions := tx_unreliable_completions c - 1\<rparr> else c
                 else c)
        in if \<not> has_event c then (Inl WL_ERR_NO_DATA, c)
           else
             let event = ctx_event c;
                 c = c\<lparr>has_event := False\<rparr>
             in (Inr event, if is_rx_type (ev_type event) then c\<lparr>rx_event_leased := True\<rparr> else c))"

section \<open>Readiness\<close>

record wl_readiness =
  runnable :: bool
  next_deadline_ms :: u32
  blocked :: bool

definition wl_readiness_idle :: wl_readiness where
  "wl_readiness_idle = \<lparr>runnable = False, next_deadline_ms = WL_NO_DEADLINE, blocked = False\<rparr>"

definition wl_readiness_at :: "u32 \<Rightarrow> wl_readiness" where
  "wl_readiness_at deadline =
     \<lparr>runnable = (deadline = 0), next_deadline_ms = deadline, blocked = (deadline \<noteq> WL_NO_DEADLINE)\<rparr>"

definition wl_readiness_merge :: "wl_readiness \<Rightarrow> wl_readiness \<Rightarrow> wl_readiness" where
  "wl_readiness_merge v s =
     \<lparr>runnable = (runnable v \<or> runnable s),
      next_deadline_ms = (if next_deadline_ms s < next_deadline_ms v then next_deadline_ms s
                          else next_deadline_ms v),
      blocked = (blocked v \<or> blocked s)\<rparr>"

text \<open>
  The search for a delimiter updates the cache of the ring through a pointer to a constant context,
  so the queries return the ring they leave behind.
\<close>

definition wl_rx_runnable :: "wl_ctx_impl \<Rightarrow> bool \<times> wl_rx_bipbuf" where
  "wl_rx_runnable c =
     (if rx_event_leased c then (False, rx_ring c)
      else if envelope (ctx_config c) = WL_ENVELOPE_COBS_STREAM then
        if wl_rx_ring_consumer_overflow_pending (rx_ring c) then (True, rx_ring c)
        else
          let (found, ring) = wl_rx_ring_consumer_find (ctx_mem c) (rx_ring c) 0
          in case found of
               Inr delimiter_offset \<Rightarrow> (True, ring)
             | Inl e \<Rightarrow> (wl_rx_unit_consumer_has_data (rx_units c), ring)
      else (wl_rx_unit_consumer_has_data (rx_units c), rx_ring c))"

definition retry_timer_armed :: "wl_ctx_impl \<Rightarrow> bool" where
  "retry_timer_armed c \<longleftrightarrow>
     \<not> control_pending c \<and> \<not> tx_inflight c \<and> \<not> tx_queued c \<and> \<not> tx_claim_active c \<and>
     tx_state c = WL_TX_STATE_WAITING_ACK \<and> tx_wait_state c = WL_TX_WAIT_ACK \<and>
     ack_timeout_ms (ctx_config c) \<noteq> 0"

definition wl_link_get_readiness :: "wl_ctx_impl \<Rightarrow> u32 \<Rightarrow> (wl_err \<times> wl_readiness) \<times> wl_ctx_impl" where
  "wl_link_get_readiness c now =
     (if \<not> initialized c then ((WL_ERR_NOT_INITIALIZED, wl_readiness_idle), c)
      else
        let has_work = (has_event c \<or> tx_unreliable_completions c \<noteq> 0 \<or>
                        tx_pending_event c \<noteq> WL_EVT_NONE \<and> \<not> (tx_inflight c \<and> in_flight_reliable c));
            (rx, ring) = (if \<not> has_work \<and> \<not> control_pending c then wl_rx_runnable c
                          else (False, rx_ring c));
            can_submit = (tx_writable c \<and> \<not> tx_inflight c \<and> \<not> control_inflight c \<and>
                          \<not> tx_drain_pending c \<and> \<not> tx_claim_active c);
            wants_submit = (control_pending c \<or> tx_queued c);
            elapsed = now - tx_start_ts c;
            timeout = ack_timeout_ms (ctx_config c);
            due = (retry_timer_armed c \<and> elapsed \<ge> timeout);
            waiting = (retry_timer_armed c \<and> \<not> elapsed \<ge> timeout)
        in ((WL_OK,
             \<lparr>runnable = (has_work \<or> rx \<or> wants_submit \<and> can_submit \<or> due),
              next_deadline_ms = (if due then 0 else if waiting then timeout - elapsed else WL_NO_DEADLINE),
              blocked = (wants_submit \<and> \<not> can_submit \<or> tx_inflight c \<or> control_inflight c \<or>
                         tx_drain_pending c \<or> rx_event_leased c \<or> tx_claim_active c \<or> waiting)\<rparr>),
            c\<lparr>rx_ring := ring\<rparr>))"

end
