(* ===== verification/Link_Inv.thy ===== *)
theory Link_Inv
  imports Link_Rx
begin

text \<open>
  The control state of the link. \<open>link_inv\<close> says which combinations of its flags occur: one unit in
  flight at most, a queued unit never in flight, the kind flag only with a queued or in-flight unit, no
  transmission under a payload claim, a handle exactly when there is a transaction, the wait reason of
  a waiting transaction, and the accounting of retries. The theory shows that every operation keeps it,
  from the submissions upwards.
\<close>

declare stream_loop.simps [simp del] unit_loop.simps [simp del] feed_bytes_loop.simps [simp del]

section \<open>The invariant\<close>

definition tx_active :: "wl_ctx_impl \<Rightarrow> bool" where
  "tx_active c \<longleftrightarrow> tx_state c = WL_TX_STATE_SENDING \<or> tx_state c = WL_TX_STATE_WAITING_ACK"

definition setup_inv :: "wl_ctx_impl \<Rightarrow> bool" where
  "setup_inv c \<longleftrightarrow> initialized c \<and> \<not> in_callback c \<and> session_id c \<noteq> 0 \<and>
     max_retries (ctx_config c) = tx_retries_max c"

definition phys_inv :: "wl_ctx_impl \<Rightarrow> bool" where
  "phys_inv c \<longleftrightarrow>
     \<not> (tx_inflight c \<and> control_inflight c) \<and> (control_inflight c \<longrightarrow> control_pending c) \<and>
     (tx_queued c \<longrightarrow> \<not> tx_inflight c) \<and> (in_flight_reliable c \<longrightarrow> tx_inflight c \<or> tx_queued c) \<and>
     (tx_claim_active c \<longrightarrow> \<not> tx_inflight c \<and> \<not> tx_queued c)"

definition trans_inv :: "wl_ctx_impl \<Rightarrow> bool" where
  "trans_inv c \<longleftrightarrow>
     (tx_handle c = 0 \<longleftrightarrow> tx_state c = WL_TX_STATE_IDLE) \<and>
     (tx_state c = WL_TX_STATE_SENDING \<longrightarrow> in_flight_reliable c) \<and>
     (in_flight_reliable c \<longrightarrow> tx_state c = WL_TX_STATE_SENDING \<or>
        tx_inflight c \<and> (tx_state c = WL_TX_STATE_SUCCESS \<or> tx_state c = WL_TX_STATE_CANCELLED)) \<and>
     (tx_state c = WL_TX_STATE_WAITING_ACK \<longrightarrow> tx_wait_state c = WL_TX_WAIT_ACK \<or>
        tx_wait_state c = WL_TX_WAIT_DRAIN \<and> tx_drain_pending c \<and> tx_drain_reliable c \<and>
        \<not> tx_inflight c \<and> \<not> control_inflight c) \<and>
     (tx_cancel_requested c \<longrightarrow> tx_inflight c \<and> in_flight_reliable c \<and> tx_state c = WL_TX_STATE_CANCELLED) \<and>
     (tx_pending_event c \<noteq> WL_EVT_NONE \<longrightarrow>
        tx_state c = WL_TX_STATE_SUCCESS \<or> tx_state c = WL_TX_STATE_FAILED) \<and>
     \<not> is_rx_type (tx_pending_event c) \<and> (tx_drain_pending c \<longrightarrow> tx_drain_required c)"

definition retry_inv :: "wl_ctx_impl \<Rightarrow> bool" where
  "retry_inv c \<longleftrightarrow>
     (tx_active c \<longrightarrow> unat (tx_retries_used c) + unat (tx_retries_left c) = unat (tx_retries_max c)) \<and>
     tx_retries_used c \<le> tx_retries_max c"

definition link_inv :: "wl_ctx_impl \<Rightarrow> bool" where
  "link_inv c \<longleftrightarrow> setup_inv c \<and> phys_inv c \<and> trans_inv c \<and> retry_inv c"

lemma link_invI: "setup_inv c \<Longrightarrow> phys_inv c \<Longrightarrow> trans_inv c \<Longrightarrow> retry_inv c \<Longrightarrow> link_inv c"
  by (simp add: link_inv_def)

lemmas link_inv_parts = setup_inv_def phys_inv_def trans_inv_def retry_inv_def tx_active_def

text \<open>Fields the invariant does not mention.\<close>

lemma link_inv_unrelated [simp]:
  "link_inv (c\<lparr>ctx_mem := m\<rparr>) = link_inv c"
  "link_inv (c\<lparr>sink_log := l\<rparr>) = link_inv c"
  "link_inv (c\<lparr>rx_ring := r\<rparr>) = link_inv c"
  "link_inv (c\<lparr>rx_units := q\<rparr>) = link_inv c"
  "link_inv (c\<lparr>tx_unreliable_completions := u\<rparr>) = link_inv c"
  "link_inv (c\<lparr>tx_token := tok\<rparr>) = link_inv c"
  "link_inv (c\<lparr>tx_start_ts := ts\<rparr>) = link_inv c"
  "link_inv (c\<lparr>tx_sequence := s\<rparr>) = link_inv c"
  "link_inv (c\<lparr>tx_waiting_seq := s\<rparr>) = link_inv c"
  "link_inv (c\<lparr>tx_writable := b\<rparr>) = link_inv c"
  "link_inv (c\<lparr>sink := f\<rparr>) = link_inv c"
  "link_inv (c\<lparr>resource_generation := g\<rparr>) = link_inv c"
  "link_inv (c\<lparr>tx_result_code := e\<rparr>) = link_inv c"
  "link_inv (c\<lparr>tx_claim_payload := sp\<rparr>) = link_inv c"
  "link_inv (c\<lparr>tx_claim_token := tok\<rparr>) = link_inv c"
  "link_inv (c\<lparr>tx_claim_reliable := b\<rparr>) = link_inv c"
  "link_inv (c\<lparr>tx_claim_message_id := mid\<rparr>) = link_inv c"
  "link_inv (c\<lparr>ctx_event := ev\<rparr>) = link_inv c"
  "link_inv (c\<lparr>has_event := b\<rparr>) = link_inv c"
  "link_inv (c\<lparr>tx_encoded_len := n\<rparr>) = link_inv c"
  "link_inv (c\<lparr>tx_unreliable_len := n\<rparr>) = link_inv c"
  "link_inv (c\<lparr>control_len := n\<rparr>) = link_inv c"
  "link_inv (c\<lparr>rx_event_leased := b\<rparr>) = link_inv c"
  "link_inv (c\<lparr>rx_candidate_source := src\<rparr>) = link_inv c"
  "link_inv (c\<lparr>rx_event_generation := g\<rparr>) = link_inv c"
  "link_inv (c\<lparr>rx_pending_consume := n\<rparr>) = link_inv c"
  "link_inv (c\<lparr>rx_counters := k\<rparr>) = link_inv c"
  "link_inv (c\<lparr>now_ms := t\<rparr>) = link_inv c"
  "link_inv (c\<lparr>rx_payload := sp\<rparr>) = link_inv c"
  "link_inv (c\<lparr>tx_payload := sp\<rparr>) = link_inv c"
  "link_inv (c\<lparr>rx_session_id := sid\<rparr>) = link_inv c"
  "link_inv (c\<lparr>rx_sequence := s\<rparr>) = link_inv c"
  "link_inv (c\<lparr>rx_have_reliable := b\<rparr>) = link_inv c"
  by (simp_all add: link_inv_def link_inv_parts)

section \<open>Submissions keep the invariant\<close>

lemma wl_submit_control_parts:
  "setup_inv c \<Longrightarrow> setup_inv (snd (wl_submit_control c))"
  "phys_inv c \<Longrightarrow> phys_inv (snd (wl_submit_control c))"
  "trans_inv c \<Longrightarrow> trans_inv (snd (wl_submit_control c))"
  "retry_inv c \<Longrightarrow> retry_inv (snd (wl_submit_control c))"
  by (auto simp: wl_submit_control_def call_sink_def Let_def link_inv_parts
      split: option.splits wl_sink_result.splits)

lemma wl_submit_control_inv: "link_inv c \<Longrightarrow> link_inv (snd (wl_submit_control c))"
  using wl_submit_control_parts [of c] by (simp add: link_inv_def)

lemma wl_push_event_inv [simp]: "link_inv (snd (wl_push_event c t mid a n h)) = link_inv c"
  by (simp add: wl_push_event_def Let_def)

lemma wl_complete_unreliable_tx_inv [simp]: "link_inv (snd (wl_complete_unreliable_tx c)) = link_inv c"
  by (simp add: wl_complete_unreliable_tx_def)

lemma wl_push_tx_event_inv:
  assumes "link_inv c" "tx_state c = WL_TX_STATE_SUCCESS \<or> tx_state c = WL_TX_STATE_FAILED" "\<not> is_rx_type t"
  shows "link_inv (wl_push_tx_event c t)"
proof -
  have "link_inv (c\<lparr>tx_pending_event := t\<rparr>)"
    using assms by (simp add: link_inv_def link_inv_parts)
  moreover have "link_inv (snd (wl_push_event c t 0 NULL 0 (tx_handle c)))" using assms by simp
  ultimately show ?thesis
    by (auto simp: wl_push_tx_event_def wl_push_event_def Let_def)
qed

lemma wl_submit_unreliable_parts:
  assumes "\<not> tx_inflight c" "\<not> tx_claim_active c" "\<not> control_inflight c" "\<not> in_flight_reliable c" "\<not> tx_drain_pending c"
  shows
  "setup_inv c \<Longrightarrow> setup_inv (snd (wl_submit_data c False))"
  "phys_inv c \<Longrightarrow> phys_inv (snd (wl_submit_data c False))"
  "trans_inv c \<Longrightarrow> trans_inv (snd (wl_submit_data c False))"
  "retry_inv c \<Longrightarrow> retry_inv (snd (wl_submit_data c False))"
  using assms by (auto simp: wl_submit_data_def wl_complete_unreliable_tx_def call_sink_def Let_def link_inv_parts
      split: option.splits wl_sink_result.splits)

lemma wl_submit_unreliable_inv:
  "link_inv c \<Longrightarrow> \<not> tx_inflight c \<Longrightarrow> \<not> tx_claim_active c \<Longrightarrow> \<not> control_inflight c \<Longrightarrow>
   \<not> in_flight_reliable c \<Longrightarrow> \<not> tx_drain_pending c \<Longrightarrow> link_inv (snd (wl_submit_data c False))"
  using wl_submit_unreliable_parts [of c] by (simp add: link_inv_def)

text \<open>What holds when a reliable unit is submitted, and what holds afterwards.\<close>

definition submit_ready :: "wl_ctx_impl \<Rightarrow> bool" where
  "submit_ready c \<longleftrightarrow>
     setup_inv c \<and> \<not> tx_inflight c \<and> \<not> control_inflight c \<and> \<not> tx_claim_active c \<and> tx_handle c \<noteq> 0 \<and>
     \<not> tx_cancel_requested c \<and> tx_pending_event c = WL_EVT_NONE \<and>
     (tx_drain_pending c \<longrightarrow> tx_drain_required c) \<and>
     unat (tx_retries_used c) + unat (tx_retries_left c) = unat (tx_retries_max c)"

definition reliable_outcome :: "wl_ctx_impl \<Rightarrow> wl_err \<times> wl_ctx_impl \<Rightarrow> bool" where
  "reliable_outcome c = (\<lambda>(ret, c').
     if ret = WL_OK then link_inv c' \<and> tx_active c' \<and> tx_retries_left c' = tx_retries_left c \<and>
          tx_retries_used c' = tx_retries_used c
     else submit_ready c' \<and> (tx_queued c' \<longrightarrow> tx_queued c) \<and> (in_flight_reliable c' \<longrightarrow> in_flight_reliable c))"

lemma wl_submit_reliable_outcome: "submit_ready c \<Longrightarrow> reliable_outcome c (wl_submit_data c True)"
  by (auto simp: reliable_outcome_def submit_ready_def wl_submit_data_def call_sink_def Let_def link_inv_def link_inv_parts
        is_rx_type_def word_le_nat_alt
      split: option.splits wl_sink_result.splits)

lemma submit_ready_unrelated [simp]:
  "submit_ready (c\<lparr>ctx_mem := m\<rparr>) = submit_ready c"
  "submit_ready (c\<lparr>tx_encoded_len := n\<rparr>) = submit_ready c"
  by (simp_all add: submit_ready_def setup_inv_def)

lemma wl_send_tx_payload_outcome:
  assumes "submit_ready c"
  shows "reliable_outcome c (wl_send_tx_payload c)"
proof -
  have "reliable_outcome c (wl_submit_data (c\<lparr>ctx_mem := m, tx_encoded_len := n\<rparr>) True)" for m n
    using wl_submit_reliable_outcome [of "c\<lparr>ctx_mem := m, tx_encoded_len := n\<rparr>"] assms
    by (cases "wl_submit_data (c\<lparr>ctx_mem := m, tx_encoded_len := n\<rparr>) True")
       (simp add: reliable_outcome_def split: if_splits)
  moreover have "reliable_outcome c (wl_submit_data c True)" by (rule wl_submit_reliable_outcome [OF assms])
  moreover have "ret \<noteq> WL_OK \<Longrightarrow> reliable_outcome c (ret, c\<lparr>ctx_mem := m\<rparr>)" for ret m
    using assms by (simp add: reliable_outcome_def)
  moreover have "ret \<noteq> WL_OK \<Longrightarrow> reliable_outcome c (ret, c)" for ret
    using assms by (simp add: reliable_outcome_def)
  ultimately show ?thesis
    by (simp add: wl_send_tx_payload_def Let_def split: prod.split)
qed

lemma tx_fail_inv:
  assumes "submit_ready c" "\<not> tx_queued c" "\<not> in_flight_reliable c" "\<not> is_rx_type t"
  shows "link_inv (tx_fail c code t)"
  unfolding tx_fail_def
  by (rule wl_push_tx_event_inv)
     (use assms in \<open>simp_all add: submit_ready_def link_inv_def link_inv_parts is_rx_type_def word_le_nat_alt\<close>)

lemma retry_step_inv:
  assumes "link_inv c" "tx_active c" "tx_retries_left c \<noteq> 0"
  shows "link_inv (c\<lparr>tx_retries_left := tx_retries_left c - 1, tx_retries_used := tx_retries_used c + 1\<rparr>)"
proof -
  have *: "unat (tx_retries_used c) + unat (tx_retries_left c) = unat (tx_retries_max c)"
    using assms by (simp add: link_inv_def retry_inv_def)
  have "unat (tx_retries_left c - 1) = unat (tx_retries_left c) - 1" "0 < unat (tx_retries_left c)"
    using assms(3) by (simp_all add: unat_minus_one unat_gt_0)
  moreover have "unat (tx_retries_used c + 1) = unat (tx_retries_used c) + 1"
    using * calculation(2) unsigned_less [of "tx_retries_max c", where ?'a = nat]
    by (simp add: unat_word_ariths)
  ultimately show ?thesis
    using assms * by (simp add: link_inv_def link_inv_parts word_le_nat_alt)
qed

section \<open>Completion reports keep the invariant\<close>

lemma link_inv_waiting:
  assumes "link_inv c" "tx_active c" "\<not> in_flight_reliable c"
    "w = WL_TX_WAIT_ACK \<or> w = WL_TX_WAIT_DRAIN \<and> tx_drain_pending c \<and> tx_drain_reliable c \<and>
      \<not> tx_inflight c \<and> \<not> control_inflight c"
  shows "link_inv (c\<lparr>tx_state := WL_TX_STATE_WAITING_ACK, tx_wait_state := w, tx_start_ts := ts\<rparr>)"
  using assms by (auto simp: link_inv_def link_inv_parts)

text \<open>The state between a completed reliable unit and the decision what comes next.\<close>

definition reliable_done :: "wl_ctx_impl \<Rightarrow> bool" where
  "reliable_done c \<longleftrightarrow> setup_inv c \<and> phys_inv c \<and> retry_inv c \<and> \<not> tx_inflight c \<and> \<not> tx_queued c \<and>
     \<not> control_inflight c \<and> \<not> tx_claim_active c \<and> tx_handle c \<noteq> 0 \<and>
     (tx_state c = WL_TX_STATE_SENDING \<or> tx_state c = WL_TX_STATE_SUCCESS \<or> tx_state c = WL_TX_STATE_CANCELLED) \<and>
     (tx_pending_event c \<noteq> WL_EVT_NONE \<longrightarrow> tx_state c = WL_TX_STATE_SUCCESS) \<and>
     (tx_cancel_requested c \<longrightarrow> tx_state c = WL_TX_STATE_CANCELLED) \<and>
     \<not> is_rx_type (tx_pending_event c) \<and> (tx_drain_pending c \<longrightarrow> tx_drain_required c)"

lemma reliable_done_submit_ready:
  "reliable_done c \<Longrightarrow> tx_state c = WL_TX_STATE_SENDING \<Longrightarrow>
   submit_ready c \<and> \<not> tx_queued c \<and> \<not> in_flight_reliable c"
  by (auto simp: reliable_done_def submit_ready_def link_inv_parts)

lemma consumed_retry_inv:
  assumes "reliable_done c" "tx_state c = WL_TX_STATE_SENDING"
  shows "link_inv (consumed_retry c)"
proof -
  note ready = reliable_done_submit_ready [OF assms]
  have queued: "link_inv (c\<lparr>tx_queued := True, in_flight_reliable := True\<rparr>)"
    using assms by (simp add: reliable_done_def link_inv_def link_inv_parts)
  obtain ret c' where send: "wl_send_tx_payload c = (ret, c')" by (cases "wl_send_tx_payload c")
  then have out: "reliable_outcome c (ret, c')" using wl_send_tx_payload_outcome [of c] ready by simp
  show ?thesis
    using tx_fail_inv [of c] tx_fail_inv [of c'] retry_step_inv [OF queued] retry_step_inv [of c']
      ready out assms(2) send
    by (auto simp: consumed_retry_def reliable_outcome_def tx_active_def)
qed

lemma consumed_reliable_inv:
  assumes "reliable_done c" "io_result = 0 \<Longrightarrow> tx_drain_pending c \<Longrightarrow> tx_drain_reliable c"
  shows "link_inv (consumed_reliable c io_result)"
proof -
  note retry = consumed_retry_inv [OF assms(1)]
  consider "tx_cancel_requested c" | "\<not> tx_cancel_requested c" "tx_state c \<noteq> WL_TX_STATE_SENDING"
    | "\<not> tx_cancel_requested c" "tx_state c = WL_TX_STATE_SENDING" by blast
  then show ?thesis
  proof cases
    case 1 then show ?thesis
      using assms by (cases "tx_state c") (auto simp: consumed_reliable_def reliable_done_def link_inv_def link_inv_parts)
  next
    case 2 then show ?thesis
      using assms by (cases "tx_state c") (auto simp: consumed_reliable_def reliable_done_def link_inv_def link_inv_parts)
  next
    case 3 then show ?thesis
      using assms retry by (auto simp: consumed_reliable_def reliable_done_def link_inv_def link_inv_parts)
  qed
qed

lemma note_consumed_parts:
  "setup_inv c \<Longrightarrow> setup_inv (note_consumed c token io_result)"
  "phys_inv c \<Longrightarrow> phys_inv (note_consumed c token io_result)"
  "retry_inv c \<Longrightarrow> retry_inv (note_consumed c token io_result)"
  "trans_inv c \<Longrightarrow> tx_inflight c \<or> control_inflight c \<Longrightarrow>
   trans_inv (note_consumed c token io_result)"
  by (auto simp: note_consumed_def Let_def link_inv_parts)

lemma note_consumed_inv:
  "link_inv c \<Longrightarrow> tx_inflight c \<or> control_inflight c \<Longrightarrow> link_inv (note_consumed c token io_result)"
  by (simp add: link_inv_def note_consumed_parts)

lemma note_consumed_fields [simp]:
  "tx_inflight (note_consumed c token io_result) = tx_inflight c"
  "control_inflight (note_consumed c token io_result) = control_inflight c"
  "in_flight_reliable (note_consumed c token io_result) = in_flight_reliable c"
  by (simp_all add: note_consumed_def Let_def)

lemma control_done_inv:
  "link_inv c \<Longrightarrow> control_inflight c \<Longrightarrow> link_inv (c\<lparr>control_inflight := False, control_pending := False\<rparr>)"
  by (simp add: link_inv_def link_inv_parts) blast

lemma unreliable_done_inv:
  "link_inv c \<Longrightarrow> tx_inflight c \<Longrightarrow> \<not> in_flight_reliable c \<Longrightarrow>
   link_inv (c\<lparr>tx_inflight := False, in_flight_reliable := False\<rparr>)"
  by (simp add: link_inv_def link_inv_parts)

lemma reliable_done_intro:
  assumes "link_inv c" "tx_inflight c" "in_flight_reliable c"
  shows "reliable_done (c\<lparr>tx_inflight := False, in_flight_reliable := False\<rparr>)"
proof -
  have "tx_state c = WL_TX_STATE_SENDING \<or> tx_state c = WL_TX_STATE_SUCCESS \<or>
        tx_state c = WL_TX_STATE_CANCELLED"
    using assms by (auto simp: link_inv_def trans_inv_def)
  then show ?thesis using assms
    by (elim disjE) (auto simp: reliable_done_def link_inv_def link_inv_parts)
qed

lemma drain_reliable_noted:
  assumes "link_inv c" "tx_inflight c" "in_flight_reliable c"
    "tx_drain_pending (note_consumed c token 0)"
  shows "tx_drain_reliable (note_consumed c token 0)"
  using assms by (auto simp: note_consumed_def Let_def link_inv_def trans_inv_def)

lemma wl_tx_consumed_inv:
  assumes inv: "link_inv c"
  shows "link_inv (snd (wl_tx_consumed c token io_result))"
proof (cases "token = tx_token c \<and> initialized c \<and> (tx_inflight c \<or> control_inflight c)")
  case True
  define d where "d = note_consumed c token io_result"
  have d: "link_inv d" using note_consumed_inv [OF inv] True by (simp add: d_def)
  consider "control_inflight d" | "\<not> control_inflight d" "tx_inflight d" "\<not> in_flight_reliable d"
    | "\<not> control_inflight d" "tx_inflight d" "in_flight_reliable d"
    using True by (auto simp: d_def)
  then show ?thesis
  proof cases
    case 1 then show ?thesis
      using True control_done_inv [OF d] by (simp add: wl_tx_consumed_def Let_def d_def)
  next
    case 2
    define e where "e = d\<lparr>tx_inflight := False, in_flight_reliable := False\<rparr>"
    have e: "link_inv e" using unreliable_done_inv [OF d] 2 by (simp add: e_def)
    then have "link_inv ((snd (wl_complete_unreliable_tx e))\<lparr>tx_unreliable_len := 0\<rparr>)"
      "link_inv (e\<lparr>tx_unreliable_len := 0\<rparr>)" by simp_all
    then show ?thesis
      using 2 True by (auto simp: wl_tx_consumed_def Let_def d_def e_def case_prod_beta wl_submit_control_inv)
  next
    case 3
    have "link_inv (consumed_reliable (d\<lparr>tx_inflight := False, in_flight_reliable := False\<rparr>) io_result)"
      by (rule consumed_reliable_inv [OF reliable_done_intro [OF d]])
         (use 3 drain_reliable_noted [OF inv, of token] in \<open>auto simp: d_def\<close>)
    then show ?thesis
      using 3 True wl_submit_control_inv by (simp add: wl_tx_consumed_def Let_def d_def)
  qed
qed (use inv in \<open>auto simp: wl_tx_consumed_def\<close>)

lemma drained_parts:
  assumes "link_inv c" "\<not> (tx_state c = WL_TX_STATE_WAITING_ACK \<and> tx_wait_state c = WL_TX_WAIT_DRAIN)"
  shows "link_inv (c\<lparr>tx_drain_pending := False, tx_writable := b, resource_generation := g,
    tx_drain_reliable := False\<rparr>)"
  using assms by (simp add: link_inv_def link_inv_parts)

lemma drained_not_reliable:
  "link_inv c \<Longrightarrow> tx_state c = WL_TX_STATE_WAITING_ACK \<Longrightarrow> tx_wait_state c = WL_TX_WAIT_DRAIN \<Longrightarrow> tx_drain_reliable c"
  by (simp add: link_inv_def trans_inv_def)

lemma clear_drain_reliable_inv:
  "link_inv c \<Longrightarrow> tx_state c \<noteq> WL_TX_STATE_WAITING_ACK \<Longrightarrow> link_inv (c\<lparr>tx_drain_reliable := b\<rparr>)"
  by (simp add: link_inv_def link_inv_parts)

lemma wl_push_tx_event_state [simp]: "tx_state (wl_push_tx_event c t) = tx_state c"
  by (simp add: wl_push_tx_event_def wl_push_event_def Let_def)

lemma wl_tx_drained_inv:
  assumes inv: "link_inv c"
  shows "link_inv (snd (wl_tx_drained c token io_result))"
proof (cases "initialized c \<and> tx_drain_pending c \<and> token = tx_drain_token c")
  case True
  define d where "d = c\<lparr>tx_drain_pending := False, tx_writable := True,
                  resource_generation := resource_generation c + 1\<rparr>"
  show ?thesis
  proof (cases "tx_state c = WL_TX_STATE_WAITING_ACK \<and> tx_wait_state c = WL_TX_WAIT_DRAIN")
    case waiting: True
    then have rel: "tx_drain_reliable c" using drained_not_reliable [OF inv] by simp
    have ack: "link_inv (d\<lparr>tx_wait_state := WL_TX_WAIT_ACK, tx_start_ts := t, tx_drain_reliable := False\<rparr>)" for t
      using inv waiting by (simp add: d_def link_inv_def link_inv_parts)
    define e where "e = d\<lparr>tx_state := WL_TX_STATE_FAILED, tx_wait_state := WL_TX_WAIT_NONE,
        tx_result_code := WL_ERR_IO\<rparr>"
    have "link_inv e" using inv waiting by (simp add: e_def d_def link_inv_def link_inv_parts)
    then have "link_inv ((wl_push_tx_event e WL_EVT_TX_FAILED)\<lparr>tx_drain_reliable := False\<rparr>)"
      by (intro clear_drain_reliable_inv wl_push_tx_event_inv) (simp_all add: e_def)
    then show ?thesis using True waiting rel ack
      by (simp add: wl_tx_drained_def Let_def d_def e_def)
  next
    case False
    then show ?thesis
      using True drained_parts [OF inv] by (auto simp: wl_tx_drained_def Let_def)
  qed
qed (use inv in \<open>auto simp: wl_tx_drained_def\<close>)

section \<open>The other operations keep the invariant\<close>

lemma wl_send_ack_inv:
  assumes "link_inv c" shows "link_inv (snd (wl_send_ack c view))"
proof -
  have "link_inv (c\<lparr>ctx_mem := m, control_len := n, control_pending := True\<rparr>)" for m n
    using assms by (simp add: link_inv_def link_inv_parts)
  then show ?thesis
    using assms by (auto simp: wl_send_ack_def Let_def wl_submit_control_inv split: prod.split)
qed

lemma acked_inv:
  assumes "link_inv c" "tx_active c"
  shows "link_inv (let c = c\<lparr>tx_state := WL_TX_STATE_SUCCESS, tx_wait_state := WL_TX_WAIT_NONE,
                  tx_waiting_seq := 0, tx_retries_left := 0, tx_result_code := WL_OK\<rparr>
      in if tx_queued c \<and> in_flight_reliable c
         then c\<lparr>tx_queued := False, in_flight_reliable := False\<rparr> else c)"
proof -
  have "tx_state c = WL_TX_STATE_SENDING \<or> tx_state c = WL_TX_STATE_WAITING_ACK"
    using assms(2) by (simp add: tx_active_def)
  then show ?thesis
    using assms(1) by (elim disjE) (auto simp: Let_def link_inv_def link_inv_parts)
qed

lemma wl_handle_ack_inv:
  assumes "link_inv c" shows "link_inv (snd (wl_handle_ack c view))"
proof (cases "tx_active c \<and> session_id c = view_session_id view \<and> tx_waiting_seq c = view_sequence view")
  case True
  then show ?thesis
    using wl_push_tx_event_inv [OF acked_inv [OF assms]] assms
    by (simp add: wl_handle_ack_def Let_def tx_active_def)
next
  case False
  then show ?thesis using assms by (auto simp: wl_handle_ack_def tx_active_def)
qed

lemma wl_invalidate_tx_image_inv [simp]: "link_inv (wl_invalidate_tx_image c) = link_inv c"
  by (simp add: wl_invalidate_tx_image_def Let_def)

lemma wl_invalidate_tx_image_flags [simp]:
  "tx_inflight (wl_invalidate_tx_image c) = tx_inflight c"
  "tx_claim_active (wl_invalidate_tx_image c) = tx_claim_active c"
  "control_inflight (wl_invalidate_tx_image c) = control_inflight c"
  "in_flight_reliable (wl_invalidate_tx_image c) = in_flight_reliable c"
  "tx_drain_pending (wl_invalidate_tx_image c) = tx_drain_pending c"
  "tx_handle (wl_invalidate_tx_image c) = tx_handle c"
  by (simp_all add: wl_invalidate_tx_image_def Let_def)

lemma handle_nonzero: "push_bit 16 (ucast (g :: u16)) OR (1 :: u32) \<noteq> 0"
proof
  assume "push_bit 16 (ucast g) OR (1 :: u32) = 0"
  then have "bit (push_bit 16 (ucast g) OR (1 :: u32)) 0 = bit (0 :: u32) 0" by (rule arg_cong)
  then show False by (simp add: bit_simps)
qed

lemma data_idle:
  assumes "link_inv c" "\<not> wl_data_busy c reliable"
  shows "\<not> tx_inflight c" "\<not> tx_drain_pending c" "\<not> control_pending c" "\<not> control_inflight c"
    "\<not> tx_queued c" "\<not> in_flight_reliable c" "reliable \<Longrightarrow> tx_handle c = 0 \<and> tx_state c = WL_TX_STATE_IDLE"
  using assms by (auto simp: wl_data_busy_def link_inv_def phys_inv_def trans_inv_def split: if_splits)

lemma prepared_submit_ready:
  assumes "link_inv c" "\<not> wl_data_busy c True" "\<not> tx_claim_active c"
  shows "submit_ready ((wl_prepare_reliable_payload (c\<lparr>now_ms := now\<rparr>) pkt direct)
     \<lparr>tx_generation := g, tx_handle := push_bit 16 (ucast g) OR 1, tx_waiting_seq := s, tx_wait_state := WL_TX_WAIT_NONE,
      tx_retries_left := tx_retries_max (wl_prepare_reliable_payload (c\<lparr>now_ms := now\<rparr>) pkt direct),
      tx_retries_used := 0\<rparr>)"
  using assms(1,3) data_idle [OF assms(1,2)]
  by (auto simp: wl_prepare_reliable_payload_def Let_def submit_ready_def handle_nonzero link_inv_def link_inv_parts)

lemma aborted_send_inv:
  assumes "submit_ready c" "\<not> tx_queued c" "\<not> in_flight_reliable c"
  shows "link_inv (c\<lparr>tx_handle := 0, tx_state := WL_TX_STATE_IDLE, tx_waiting_seq := q,
    tx_wait_state := WL_TX_WAIT_NONE, tx_retries_left := r, tx_payload := p, tx_last_message_id := mid, tx_encoded_len := n\<rparr>)"
  using assms by (auto simp: submit_ready_def link_inv_def link_inv_parts word_le_nat_alt)

lemma wl_send_frame_internal_inv:
  assumes inv: "link_inv c" and claim: "\<not> tx_claim_active c"
  shows "link_inv (snd (snd (wl_send_frame_internal c pkt reliable direct now)))"
proof (cases "wl_data_busy c reliable")
  case False
  note idle = data_idle [OF inv False]
  show ?thesis
  proof (cases reliable)
    case True
    define d where "d = (wl_prepare_reliable_payload (c\<lparr>now_ms := now\<rparr>) pkt direct)"
    define e where "e = (let g = next_tx_generation (tx_generation d) in
       d\<lparr>tx_generation := g, tx_handle := push_bit 16 (ucast g) OR 1, tx_waiting_seq := pkt_sequence pkt,
         tx_wait_state := WL_TX_WAIT_NONE, tx_retries_left := tx_retries_max d, tx_retries_used := 0\<rparr>)"
    have ready: "submit_ready e"
      using prepared_submit_ready [OF inv] False True claim by (simp add: e_def d_def Let_def)
    have flags: "\<not> tx_queued e" "\<not> in_flight_reliable e"
      using idle by (simp_all add: e_def d_def Let_def wl_prepare_reliable_payload_def)
    obtain ret c' where send: "wl_send_tx_payload e = (ret, c')" by (cases "wl_send_tx_payload e")
    then have out: "reliable_outcome e (ret, c')" using wl_send_tx_payload_outcome [OF ready] by simp
    show ?thesis
      using True out flags inv send aborted_send_inv [of c']
      by (auto simp: wl_send_frame_internal_def Let_def d_def e_def reliable_outcome_def)
  next
    case unreliable: False
    show ?thesis
      using unreliable idle inv claim
      by (auto simp: wl_send_frame_internal_def Let_def case_prod_beta wl_submit_unreliable_inv)
  qed
qed (use inv in \<open>auto simp: wl_send_frame_internal_def\<close>)

lemma wl_send_unreliable_inv: "link_inv c \<Longrightarrow> link_inv (snd (wl_send_unreliable c mid a n))"
  by (simp add: wl_send_unreliable_def case_prod_beta wl_send_frame_internal_inv)

lemma wl_send_reliable_inv: "link_inv c \<Longrightarrow> link_inv (snd (snd (wl_send_reliable c mid a n now)))"
  by (simp add: wl_send_reliable_def Let_def wl_send_frame_internal_inv)

lemma claim_active_parts:
  "setup_inv (c\<lparr>tx_claim_active := b\<rparr>) = setup_inv c"
  "trans_inv (c\<lparr>tx_claim_active := b\<rparr>) = trans_inv c"
  "retry_inv (c\<lparr>tx_claim_active := b\<rparr>) = retry_inv c"
  by (simp_all add: setup_inv_def trans_inv_def retry_inv_def tx_active_def)

lemma claimed_inv [simp]:
  "link_inv c \<Longrightarrow> \<not> tx_inflight c \<Longrightarrow> \<not> tx_queued c \<Longrightarrow> link_inv (c\<lparr>tx_claim_active := True\<rparr>)"
  "link_inv c \<Longrightarrow> link_inv (c\<lparr>tx_claim_active := False\<rparr>)"
  by (simp_all add: link_inv_def claim_active_parts phys_inv_def)

lemma wl_invalidate_tx_image_queued [simp]: "tx_queued (wl_invalidate_tx_image c) = tx_queued c"
  by (simp add: wl_invalidate_tx_image_def Let_def)

lemma wl_tx_payload_claim_inv: "link_inv c \<Longrightarrow> link_inv (snd (wl_tx_payload_claim c mid delivery))"
  by (simp add: wl_tx_payload_claim_def Let_def wl_data_busy_def)

lemma wl_tx_payload_commit_inv:
  "link_inv c \<Longrightarrow> link_inv (snd (snd (wl_tx_payload_commit c claim n now want)))"
  by (auto simp: wl_tx_payload_commit_def Let_def wl_send_frame_internal_inv)

lemma wl_tx_payload_abort_inv: "link_inv c \<Longrightarrow> link_inv (snd (wl_tx_payload_abort c claim))"
  by (simp add: wl_tx_payload_abort_def)

lemma wl_tx_cancel_parts:
  "setup_inv c \<Longrightarrow> setup_inv (snd (wl_tx_cancel c handle))"
  "phys_inv c \<Longrightarrow> phys_inv (snd (wl_tx_cancel c handle))"
  "retry_inv c \<Longrightarrow> retry_inv (snd (wl_tx_cancel c handle))"
  by (auto simp: wl_tx_cancel_def Let_def link_inv_parts)

lemma wl_tx_cancel_trans:
  assumes "phys_inv c" "trans_inv c" shows "trans_inv (snd (wl_tx_cancel c handle))"
proof (cases "tx_state c")
  case WL_TX_STATE_SENDING
  then show ?thesis
    using assms by (simp add: wl_tx_cancel_def Let_def phys_inv_def trans_inv_def tx_terminal_def) blast
next
  case WL_TX_STATE_WAITING_ACK
  then show ?thesis
    using assms by (simp add: wl_tx_cancel_def Let_def phys_inv_def trans_inv_def tx_terminal_def)
qed (use assms in \<open>simp_all add: wl_tx_cancel_def tx_terminal_def\<close>)

lemma wl_tx_cancel_inv: "link_inv c \<Longrightarrow> link_inv (snd (wl_tx_cancel c handle))"
  by (simp add: link_inv_def wl_tx_cancel_parts wl_tx_cancel_trans)

lemma wl_tx_take_parts:
  "setup_inv c \<Longrightarrow> setup_inv (snd (wl_tx_take c handle))"
  "phys_inv c \<Longrightarrow> phys_inv (snd (wl_tx_take c handle))"
  "retry_inv c \<Longrightarrow> retry_inv (snd (wl_tx_take c handle))"
  by (auto simp: wl_tx_take_def Let_def link_inv_parts)

lemma wl_tx_take_trans:
  assumes "phys_inv c" "trans_inv c" shows "trans_inv (snd (wl_tx_take c handle))"
proof (cases "wl_tx_can_take c handle")
  case True
  then have "\<not> in_flight_reliable c"
    using assms by (auto simp: wl_tx_can_take_def tx_terminal_def phys_inv_def trans_inv_def)
  then show ?thesis using assms by (auto simp: wl_tx_take_def trans_inv_def)
next
  case False
  then show ?thesis using assms by (auto simp: wl_tx_take_def wl_tx_can_take_def)
qed

lemma wl_tx_take_inv: "link_inv c \<Longrightarrow> link_inv (snd (wl_tx_take c handle))"
  by (simp add: link_inv_def wl_tx_take_parts wl_tx_take_trans)

lemma drain_required_inv:
  "link_inv c \<Longrightarrow> \<not> tx_drain_pending c \<Longrightarrow> link_inv (c\<lparr>tx_drain_required := b\<rparr>)"
  by (simp add: link_inv_def link_inv_parts)

lemma wl_set_tx_drain_required_inv: "link_inv c \<Longrightarrow> link_inv (snd (wl_set_tx_drain_required c b))"
  by (simp add: wl_set_tx_drain_required_def drain_required_inv)

lemma simple_ops_inv [simp]:
  "link_inv (snd (wl_set_sink c f)) = link_inv c"
  "link_inv (snd (wl_tx_writable c)) = link_inv c"
  "link_inv (snd (wl_feed_recover_reset c)) = link_inv c"
  "link_inv (wl_event_release c ev) = link_inv c"
  "link_inv (consume_rx c n) = link_inv c"
  by (simp_all add: wl_set_sink_def wl_tx_writable_def wl_feed_recover_reset_def wl_event_release_def
      Let_def consume_rx_def)

section \<open>Receiving and polling keep the invariant\<close>

lemma wl_frame_route_view_inv: "link_inv c \<Longrightarrow> link_inv (snd (wl_frame_route_view c view))"
  by (auto simp: wl_frame_route_view_def Let_def case_prod_beta wl_send_ack_inv wl_handle_ack_inv)

lemma wl_feed_parse_stream_inv: "link_inv c \<Longrightarrow> link_inv (snd (wl_feed_parse_stream c a n))"
  by (simp add: wl_feed_parse_stream_def Let_def case_prod_beta wl_frame_bad_frame_def
      wl_frame_route_view_inv split: sum.split)

lemma wl_feed_unit_raw_inv: "link_inv c \<Longrightarrow> link_inv (snd (wl_feed_unit_raw c a n))"
  by (simp add: wl_feed_unit_raw_def wl_feed_parse_wire_def count_malformed_def Let_def
      wl_frame_bad_frame_def wl_frame_route_view_inv split: sum.split)

lemma stream_candidate_inv: "link_inv c \<Longrightarrow> stream_candidate c n = Some (a, c') \<Longrightarrow> link_inv c'"
  by (auto simp: stream_candidate_def Let_def split: if_splits prod.splits)

lemma stream_iteration_inv:
  assumes "link_inv c" shows "link_inv (snd (stream_iteration c))"
proof -
  have "link_inv (snd (wl_feed_parse_stream c' a k))" if "stream_candidate d n = Some (a, c')" "link_inv d" for d n a c' k
    using that stream_candidate_inv wl_feed_parse_stream_inv by blast
  then show ?thesis
    using assms by (simp add: stream_iteration_def Let_def case_prod_beta split: sum.split option.split)
qed

lemma stream_loop_inv: "link_inv c \<Longrightarrow> link_inv (stream_loop fuel c)"
  by (induction fuel arbitrary: c)
     (auto simp: stream_loop.simps case_prod_beta Let_def stream_iteration_inv)

lemma unit_iteration_inv: "link_inv c \<Longrightarrow> link_inv (snd (unit_iteration c))"
  by (simp add: unit_iteration_def Let_def wl_feed_unit_raw_inv)

lemma unit_loop_inv: "link_inv c \<Longrightarrow> link_inv (unit_loop fuel c)"
  by (induction fuel arbitrary: c)
     (auto simp: unit_loop.simps case_prod_beta Let_def unit_iteration_inv)

lemma wl_link_process_rx_inv: "link_inv c \<Longrightarrow> link_inv (wl_link_process_rx c)"
  by (simp add: wl_link_process_rx_def wl_frame_process_units_def wl_frame_process_stream_def Let_def
      case_prod_beta stream_loop_inv unit_loop_inv)

lemma poll_pending_event_inv: "link_inv c \<Longrightarrow> link_inv (poll_pending_event c)"
proof -
  assume "link_inv c"
  then have "link_inv (snd (wl_push_event c t mid a n h))" for t mid a n h by simp
  then have "link_inv ((snd (wl_push_event c t mid a n h))\<lparr>tx_pending_event := WL_EVT_NONE\<rparr>)" for t mid a n h
    by (simp add: link_inv_def link_inv_parts)
  with \<open>link_inv c\<close> show ?thesis by (simp add: poll_pending_event_def)
qed

lemma poll_receive_inv: "link_inv c \<Longrightarrow> link_inv (poll_receive c)"
  by (simp add: poll_receive_def wl_link_process_rx_inv)

lemma queued_submit_ready:
  assumes "link_inv c" "tx_queued c" "in_flight_reliable c" "\<not> control_inflight c"
  shows "submit_ready c" "tx_state c = WL_TX_STATE_SENDING"
  using assms by (auto simp: submit_ready_def link_inv_def link_inv_parts)

lemma requeue_cleared: "submit_ready c \<Longrightarrow> submit_ready (c\<lparr>tx_queued := False, in_flight_reliable := False\<rparr>)"
  by (simp add: submit_ready_def setup_inv_def)

lemma unreliable_failed_inv:
  "link_inv c \<Longrightarrow> \<not> tx_inflight c \<Longrightarrow> \<not> in_flight_reliable c \<Longrightarrow>
   link_inv (c\<lparr>tx_queued := False, in_flight_reliable := False, tx_unreliable_len := 0\<rparr>)"
  by (auto simp: link_inv_def link_inv_parts)

lemma submit_unreliable_failed:
  assumes "\<not> in_flight_reliable c" "\<not> tx_inflight c" "fst (wl_submit_data c False) \<noteq> WL_OK"
  shows "\<not> in_flight_reliable (snd (wl_submit_data c False))" "\<not> tx_inflight (snd (wl_submit_data c False))"
  using assms by (auto simp: wl_submit_data_def wl_complete_unreliable_tx_def call_sink_def Let_def
      split: option.splits wl_sink_result.splits)

lemma poll_queued_inv:
  assumes inv: "link_inv c" shows "link_inv (poll_queued c)"
proof (cases "\<not> has_event c \<and> \<not> control_pending c \<and> \<not> tx_claim_active c \<and> tx_queued c \<and>
         \<not> tx_inflight c \<and> \<not> tx_drain_pending c \<and> tx_writable c")
  case True
  then have idle: "\<not> control_inflight c" using inv by (auto simp: link_inv_def phys_inv_def)
  show ?thesis
  proof (cases "in_flight_reliable c")
    case rel: True
    obtain ret c' where send: "wl_send_tx_payload c = (ret, c')" by (cases "wl_send_tx_payload c")
    then have "reliable_outcome c (ret, c')"
      using wl_send_tx_payload_outcome [of c] queued_submit_ready [OF inv] True rel idle by simp
    then show ?thesis
      using True rel send tx_fail_inv [of "c'\<lparr>tx_queued := False, in_flight_reliable := False\<rparr>"]
      by (auto simp: poll_queued_def reliable_outcome_def requeue_cleared split: if_splits)
  next
    case False
    define r where "r = wl_submit_data c False"
    have "link_inv (snd r)"
      using wl_submit_unreliable_inv [OF inv] True False idle by (simp add: r_def)
    moreover have "fst r \<noteq> WL_OK \<Longrightarrow> \<not> in_flight_reliable (snd r) \<and> \<not> tx_inflight (snd r)"
      using submit_unreliable_failed [of c] False True by (simp add: r_def)
    ultimately show ?thesis
      using True False unreliable_failed_inv [of "snd r"]
      by (auto simp: poll_queued_def Let_def case_prod_beta r_def [symmetric])
  qed
next
  case False
  then have "poll_queued c = c" unfolding poll_queued_def by (rule if_not_P)
  then show ?thesis using inv by simp
qed

lemma waiting_submit_ready:
  assumes "link_inv c" "tx_state c = WL_TX_STATE_WAITING_ACK" "\<not> tx_inflight c" "\<not> tx_queued c"
    "\<not> control_pending c" "\<not> tx_claim_active c"
  shows "submit_ready c" "\<not> in_flight_reliable c"
  using assms by (auto simp: submit_ready_def link_inv_def link_inv_parts)

lemma poll_timeout_inv:
  assumes inv: "link_inv c" shows "link_inv (poll_timeout c now)"
proof (cases "\<not> has_event c \<and> \<not> control_pending c \<and> \<not> tx_inflight c \<and> \<not> tx_queued c \<and>
         \<not> tx_claim_active c \<and> tx_state c = WL_TX_STATE_WAITING_ACK")
  case True
  note ready = waiting_submit_ready [OF inv]
  obtain ret c' where send: "wl_send_tx_payload c = (ret, c')" by (cases "wl_send_tx_payload c")
  then have "reliable_outcome c (ret, c')" using wl_send_tx_payload_outcome [of c] ready True by simp
  then show ?thesis
    using True send ready tx_fail_inv [of c] tx_fail_inv [of c'] retry_step_inv [of c'] inv
    by (auto simp: poll_timeout_def Let_def reliable_outcome_def split: if_splits)
qed (use inv in \<open>auto simp: poll_timeout_def\<close>)

lemma wl_poll_inv:
  assumes "link_inv c" shows "link_inv (snd (wl_poll c now))"
proof -
  have "link_inv (wl_poll_transport_progress d now)" if "link_inv d" for d
    using that by (simp add: wl_poll_transport_progress_def Let_def poll_timeout_inv poll_queued_inv
        poll_receive_inv poll_pending_event_inv wl_submit_control_inv)
  then show ?thesis
    using assms by (simp add: wl_poll_def Let_def case_prod_beta)
qed

lemma wl_link_get_readiness_inv [simp]: "link_inv (snd (wl_link_get_readiness c now)) = link_inv c"
  by (simp add: wl_link_get_readiness_def Let_def case_prod_beta)

lemma feed_bytes_loop_inv: "link_inv c \<Longrightarrow> link_inv (snd (snd (feed_bytes_loop c data len k)))"
proof (induction c data len k rule: feed_bytes_loop.induct)
  case (1 c data len k)
  then show ?case
    by (subst feed_bytes_loop.simps)
       (auto simp: wl_rx_reserve_def wl_rx_commit_def Let_def case_prod_beta split: prod.split sum.split)
qed

lemma wl_feed_bytes_inv: "link_inv c \<Longrightarrow> link_inv (snd (snd (wl_feed_bytes c data len)))"
  by (simp add: wl_feed_bytes_def Let_def case_prod_beta feed_bytes_loop_inv)

lemma wl_feed_unit_inv: "link_inv c \<Longrightarrow> link_inv (snd (wl_feed_unit c a n))"
  by (simp add: wl_feed_unit_def wl_frame_receive_unit_def Let_def case_prod_beta wl_feed_bytes_inv wl_feed_unit_raw_inv)

end
