(* ===== verification/Link_Ops.thy ===== *)
theory Link_Ops
  imports Link_Inv "HOL-Library.Sublist"
begin

text \<open>
  The link as a machine: every public operation of \<^verbatim>\<open>wirelink/link.h\<close> and \<^verbatim>\<open>wirelink/port.h\<close> as one step, the
  invariant of the control state along every run, the exclusive use of the physical transmit
  resource, and the bound on the transmissions of a reliable transaction.

  \<open>Op_store\<close> is any write to memory by the application, the adapter or a DMA engine.
\<close>

section \<open>Operations\<close>

datatype link_op =
    Op_set_sink "wl_sink_fn option" | Op_drain_required bool | Op_writable
  | Op_consumed u32 int | Op_drained u32 int
  | Op_send_unreliable u16 addr nat | Op_send_reliable u16 addr nat u32
  | Op_claim u16 int | Op_commit wl_tx_payload_claim_t nat u32 bool | Op_abort wl_tx_payload_claim_t
  | Op_cancel u32 | Op_take u32
  | Op_feed_bytes addr nat | Op_feed_unit addr nat
  | Op_rx_reserve | Op_rx_commit nat | Op_rx_note_overflow
  | Op_dma_claim nat | Op_dma_publish wl_rx_dma_claim nat nat | Op_dma_finish wl_rx_dma_claim | Op_dma_abort
  | Op_units_init bool wl_rx_unit_queue_config
  | Op_unit_claim nat | Op_unit_commit wl_rx_unit_claim_t nat | Op_unit_abort wl_rx_unit_claim_t
  | Op_recover_reset | Op_release wl_event
  | Op_poll u32 | Op_readiness u32 | Op_store addr byte

definition upd_units :: "wl_ctx_impl \<Rightarrow> wl_rx_unit_queue \<Rightarrow> wl_ctx_impl" where
  "upd_units c q = c\<lparr>rx_units := q\<rparr>"

fun link_exec :: "link_op \<Rightarrow> wl_ctx_impl \<Rightarrow> wl_ctx_impl" where
  "link_exec (Op_set_sink f) c = snd (wl_set_sink c f)"
| "link_exec (Op_drain_required b) c = snd (wl_set_tx_drain_required c b)"
| "link_exec Op_writable c = snd (wl_tx_writable c)"
| "link_exec (Op_consumed token io) c = snd (wl_tx_consumed c token io)"
| "link_exec (Op_drained token io) c = snd (wl_tx_drained c token io)"
| "link_exec (Op_send_unreliable mid a n) c = snd (wl_send_unreliable c mid a n)"
| "link_exec (Op_send_reliable mid a n now) c = snd (snd (wl_send_reliable c mid a n now))"
| "link_exec (Op_claim mid d) c = snd (wl_tx_payload_claim c mid d)"
| "link_exec (Op_commit k n now want) c = snd (snd (wl_tx_payload_commit c k n now want))"
| "link_exec (Op_abort k) c = snd (wl_tx_payload_abort c k)"
| "link_exec (Op_cancel h) c = snd (wl_tx_cancel c h)"
| "link_exec (Op_take h) c = snd (wl_tx_take c h)"
| "link_exec (Op_feed_bytes a n) c = snd (snd (wl_feed_bytes c a n))"
| "link_exec (Op_feed_unit a n) c = snd (wl_feed_unit c a n)"
| "link_exec Op_rx_reserve c = snd (wl_rx_reserve c)"
| "link_exec (Op_rx_commit n) c = snd (wl_rx_commit c n)"
| "link_exec Op_rx_note_overflow c = wl_rx_note_overflow c"
| "link_exec (Op_dma_claim n) c = snd (wl_rx_dma_claim c n)"
| "link_exec (Op_dma_publish k off n) c = snd (wl_rx_dma_publish c k off n)"
| "link_exec (Op_dma_finish k) c = snd (wl_rx_dma_finish c k)"
| "link_exec Op_dma_abort c = snd (wl_rx_dma_abort c)"
| "link_exec (Op_units_init lf k) c =
     upd_units c (snd (wl_rx_unit_queue_init lf (initialized c) (ctx_config c) (rx_units c) k))"
| "link_exec (Op_unit_claim n) c = upd_units c (snd (wl_rx_unit_claim (initialized c) (rx_units c) n))"
| "link_exec (Op_unit_commit k n) c = upd_units c (snd (wl_rx_unit_commit (initialized c) (rx_units c) k n))"
| "link_exec (Op_unit_abort k) c = upd_units c (snd (wl_rx_unit_abort (initialized c) (rx_units c) k))"
| "link_exec Op_recover_reset c = snd (wl_feed_recover_reset c)"
| "link_exec (Op_release ev) c = wl_event_release c ev"
| "link_exec (Op_poll now) c = snd (wl_poll c now)"
| "link_exec (Op_readiness now) c = snd (wl_link_get_readiness c now)"
| "link_exec (Op_store a v) c = c\<lparr>ctx_mem := (ctx_mem c)(a := v)\<rparr>"

lemma rx_wrappers_inv [simp]:
  "link_inv (snd (wl_rx_reserve c)) = link_inv c"
  "link_inv (snd (wl_rx_commit c n)) = link_inv c"
  "link_inv (wl_rx_note_overflow c) = link_inv c"
  "link_inv (snd (wl_rx_dma_claim c n)) = link_inv c"
  "link_inv (snd (wl_rx_dma_publish c k off n)) = link_inv c"
  "link_inv (snd (wl_rx_dma_finish c k)) = link_inv c"
  "link_inv (snd (wl_rx_dma_abort c)) = link_inv c"
  "link_inv (upd_units c q) = link_inv c"
  by (simp_all add: wl_rx_reserve_def wl_rx_commit_def wl_rx_note_overflow_def wl_rx_dma_claim_def
      wl_rx_dma_publish_def wl_rx_dma_finish_def wl_rx_dma_abort_def upd_units_def case_prod_beta)

lemma link_exec_inv: "link_inv c \<Longrightarrow> link_inv (link_exec op c)"
  by (cases op) (simp_all add: wl_set_tx_drain_required_inv wl_tx_consumed_inv wl_tx_drained_inv
      wl_send_unreliable_inv wl_send_reliable_inv wl_tx_payload_claim_inv wl_tx_payload_commit_inv
      wl_tx_payload_abort_inv wl_tx_cancel_inv wl_tx_take_inv wl_feed_bytes_inv wl_feed_unit_inv wl_poll_inv)

lemma wl_config_requirements_not_ok [simp]: "wl_config_requirements config \<noteq> Inl WL_OK"
  by (simp add: wl_config_requirements_def Let_def)

text \<open>The context a successful initialisation leaves, up to the receive ring.\<close>

lemma wl_init_result:
  assumes "wl_init lock_free c0 config storage = (WL_OK, c)"
  obtains ring where
    "c = (zero_ctx (ctx_mem c0) (sink_log c0) config storage)
       \<lparr>tx_retries_max := max_retries config, tx_retries_left := max_retries config,
        session_id := cfg_session_id config, tx_token := 1,
        tx_payload := \<lparr>span_data = st_tx_payload storage, span_length = 0\<rparr>,
        rx_payload := \<lparr>span_data = st_rx_fallback storage, span_length = 0\<rparr>,
        rx_ring := ring, tx_writable := True, initialized := True\<rparr>"
  by (rule that [of "rx_ring c"])
     (use assms in \<open>auto simp: wl_init_def zero_ctx_def Let_def split: sum.splits if_splits prod.splits\<close>)

lemma wl_init_session:
  "wl_init lock_free c0 config storage = (WL_OK, c) \<Longrightarrow> cfg_session_id config \<noteq> 0"
  by (auto simp: wl_init_def wl_config_requirements_def split: sum.splits if_splits)

lemma wl_init_link_inv:
  assumes "wl_init lock_free c0 config storage = (WL_OK, c)" shows "link_inv c"
  by (rule wl_init_result [OF assms])
     (use wl_init_session [OF assms] in \<open>simp add: zero_ctx_def link_inv_def link_inv_parts\<close>)

section \<open>The physical resource\<close>

text \<open>
  What the adapter sees: submissions with their answers, and the completion reports the link accepts.
  The resource is owned from a submission answered \<^verbatim>\<open>STARTED\<close> to its completion report.
\<close>

datatype phys_event = Submitted wl_sink_call | Completed u32

datatype phys_state = Phys_idle | Phys_owned u32 | Phys_violated

fun phys_step :: "phys_event \<Rightarrow> phys_state \<Rightarrow> phys_state" where
  "phys_step (Submitted call) Phys_idle =
     (if sc_result call = WL_SINK_STARTED then Phys_owned (sc_token call) else Phys_idle)"
| "phys_step (Completed token) (Phys_owned t) = (if token = t then Phys_idle else Phys_violated)"
| "phys_step _ _ = Phys_violated"

definition phys_abs :: "wl_ctx_impl \<Rightarrow> phys_state" where
  "phys_abs c = (if tx_inflight c \<or> control_inflight c then Phys_owned (tx_token c) else Phys_idle)"

lemma phys_abs_sound: "phys_abs c \<noteq> Phys_violated"
  by (simp add: phys_abs_def)

definition new_calls :: "wl_ctx_impl \<Rightarrow> wl_ctx_impl \<Rightarrow> wl_sink_call list" where
  "new_calls c c' = drop (length (sink_log c)) (sink_log c')"

definition phys_events :: "link_op \<Rightarrow> wl_ctx_impl \<Rightarrow> phys_event list" where
  "phys_events op c =
     (case op of
        Op_consumed token io \<Rightarrow>
          if fst (wl_tx_consumed c token io) \<in> {WL_ERR_NOT_INITIALIZED, WL_ERR_NOT_FOUND} then []
          else [Completed token]
      | _ \<Rightarrow> []) @ map Submitted (new_calls c (link_exec op c))"

definition accepted_reliable :: "wl_sink_call \<Rightarrow> bool" where
  "accepted_reliable call \<longleftrightarrow>
     sc_unit call = Reliable_unit \<and> (sc_result call = WL_SINK_SENT \<or> sc_result call = WL_SINK_STARTED)"

text \<open>
  Transmissions the transaction may still make: the retries left, and one for a queued unit.
\<close>

definition credit :: "wl_ctx_impl \<Rightarrow> nat" where
  "credit c = (if tx_active c
     then unat (tx_retries_left c) + (if tx_queued c \<and> in_flight_reliable c then 1 else 0) else 0)"

definition same_setup :: "wl_ctx_impl \<Rightarrow> wl_ctx_impl \<Rightarrow> bool" where
  "same_setup c c' \<longleftrightarrow>
     ctx_config c' = ctx_config c \<and> ctx_storage c' = ctx_storage c \<and> session_id c' = session_id c"

text \<open>
  \<open>moves k c c'\<close>: the link went from \<open>c\<close> to \<open>c'\<close> with the sink calls appended to the history; they
  drove the physical resource from its state in \<open>c\<close> to its state in \<open>c'\<close>, and the transmissions
  among them are paid for by the credit of \<open>c\<close> and \<open>k\<close> more.
\<close>

definition moves :: "nat \<Rightarrow> wl_ctx_impl \<Rightarrow> wl_ctx_impl \<Rightarrow> bool" where
  "moves k c c' \<longleftrightarrow> same_setup c c' \<and>
     (\<exists>calls. sink_log c' = sink_log c @ calls \<and>
        fold phys_step (map Submitted calls) (phys_abs c) = phys_abs c' \<and>
        length (filter accepted_reliable calls) + credit c' \<le> credit c + k)"

lemma moves_trans: "moves j c c' \<Longrightarrow> moves k c' c'' \<Longrightarrow> moves (j + k) c c''"
proof -
  assume "moves j c c'" "moves k c' c''"
  moreover from this have "same_setup c c''" by (simp add: moves_def same_setup_def)
  ultimately obtain xs ys where *: "same_setup c c''" "sink_log c' = sink_log c @ xs" "sink_log c'' = sink_log c' @ ys"
    "fold phys_step (map Submitted xs) (phys_abs c) = phys_abs c'"
    "fold phys_step (map Submitted ys) (phys_abs c') = phys_abs c''"
    "length (filter accepted_reliable xs) + credit c' \<le> credit c + j"
    "length (filter accepted_reliable ys) + credit c'' \<le> credit c' + k"
    by (auto simp: moves_def)
  then show ?thesis unfolding moves_def by (intro conjI exI [of _ "xs @ ys"]) simp_all
qed

lemma moves_trans0: "moves 0 c c' \<Longrightarrow> moves k c' c'' \<Longrightarrow> moves k c c''"
  using moves_trans [of 0 c c' k c''] by simp

lemma moves_refl [simp]: "moves k c c"
  by (simp add: moves_def same_setup_def)

lemma moves_silent:
  "sink_log c' = sink_log c \<Longrightarrow> ctx_config c' = ctx_config c \<Longrightarrow> ctx_storage c' = ctx_storage c \<Longrightarrow>
   session_id c' = session_id c \<Longrightarrow> tx_token c' = tx_token c \<Longrightarrow> tx_inflight c' = tx_inflight c \<Longrightarrow>
   control_inflight c' = control_inflight c \<Longrightarrow> credit c' \<le> credit c + k \<Longrightarrow> moves k c c'"
  by (simp add: moves_def phys_abs_def same_setup_def)

section \<open>Each operation moves the link\<close>

lemma credit_unrelated [simp]:
  "credit (c\<lparr>ctx_mem := m\<rparr>) = credit c"
  "credit (c\<lparr>tx_token := t\<rparr>) = credit c"
  "credit (c\<lparr>sink_log := l\<rparr>) = credit c"
  "credit (c\<lparr>tx_writable := b\<rparr>) = credit c"
  "credit (c\<lparr>control_pending := b\<rparr>) = credit c"
  "credit (c\<lparr>control_inflight := b\<rparr>) = credit c"
  "credit (c\<lparr>control_len := n\<rparr>) = credit c"
  "credit (c\<lparr>tx_encoded_len := n\<rparr>) = credit c"
  "credit (c\<lparr>tx_unreliable_len := n\<rparr>) = credit c"
  "credit (c\<lparr>has_event := b\<rparr>) = credit c"
  "credit (c\<lparr>ctx_event := ev\<rparr>) = credit c"
  "credit (c\<lparr>rx_session_id := sid\<rparr>) = credit c"
  "credit (c\<lparr>rx_sequence := t\<rparr>) = credit c"
  "credit (c\<lparr>rx_have_reliable := b\<rparr>) = credit c"
  "credit (c\<lparr>rx_event_leased := b\<rparr>) = credit c"
  "credit (c\<lparr>rx_ring := r\<rparr>) = credit c"
  "credit (c\<lparr>rx_counters := ct\<rparr>) = credit c"
  "credit (c\<lparr>rx_candidate_source := src\<rparr>) = credit c"
  "credit (c\<lparr>rx_pending_consume := n\<rparr>) = credit c"
  "credit (c\<lparr>rx_units := q\<rparr>) = credit c"
  "credit (c\<lparr>now_ms := ts\<rparr>) = credit c"
  "credit (c\<lparr>tx_start_ts := ts\<rparr>) = credit c"
  "credit (c\<lparr>tx_unreliable_completions := u\<rparr>) = credit c"
  "credit (c\<lparr>resource_generation := u\<rparr>) = credit c"
  "credit (c\<lparr>tx_pending_event := t'\<rparr>) = credit c"
  by (simp_all add: credit_def tx_active_def)

lemma wl_submit_control_moves: "moves 0 c (snd (wl_submit_control c))"
  unfolding moves_def
  by (cases "sink c")
     (auto simp: wl_submit_control_def call_sink_def Let_def phys_abs_def accepted_reliable_def same_setup_def
      split: wl_sink_result.split)

lemma wl_push_event_moves: "moves 0 c (snd (wl_push_event c t mid a n h))"
  by (rule moves_silent) (simp_all add: wl_push_event_def Let_def credit_def tx_active_def)

lemma wl_push_tx_event_moves: "moves 0 c (wl_push_tx_event c t)"
  by (rule moves_silent)
     (simp_all add: wl_push_tx_event_def wl_push_event_def Let_def credit_def tx_active_def)

lemma wl_complete_unreliable_tx_moves: "moves 0 c (snd (wl_complete_unreliable_tx c))"
  by (rule moves_silent) (simp_all add: wl_complete_unreliable_tx_def credit_def tx_active_def)

lemma wl_submit_unreliable_moves:
  assumes "\<not> tx_inflight c" "\<not> control_inflight c" "\<not> in_flight_reliable c"
  shows "moves 0 c (snd (wl_submit_data c False))"
  using assms unfolding moves_def
  by (cases "sink c")
     (auto simp: wl_submit_data_def wl_complete_unreliable_tx_def call_sink_def Let_def phys_abs_def
      accepted_reliable_def credit_def tx_active_def same_setup_def split: wl_sink_result.split)

text \<open>A reliable submission spends at most one transmission, counted against a queued unit.\<close>

lemma wl_submit_reliable_moves:
  assumes "\<not> tx_inflight c" "\<not> control_inflight c"
    "unat (tx_retries_left c) + 1 \<le> credit c + k"
  shows "moves k c (snd (wl_submit_data c True))"
  using assms unfolding moves_def
  by (cases "sink c")
     (auto simp: wl_submit_data_def call_sink_def Let_def phys_abs_def
      accepted_reliable_def credit_def tx_active_def same_setup_def split: wl_sink_result.split)

lemma wl_send_tx_payload_moves:
  assumes "\<not> tx_inflight c" "\<not> control_inflight c" "unat (tx_retries_left c) + 1 \<le> credit c + k"
  shows "moves k c (snd (wl_send_tx_payload c))"
proof -
  have *: "moves 0 c (c\<lparr>ctx_mem := m, tx_encoded_len := n\<rparr>)" "moves 0 c (c\<lparr>ctx_mem := m\<rparr>)" for m n
    by (rule moves_silent; simp add: credit_def tx_active_def)+
  have "moves k c (snd (wl_submit_data (c\<lparr>ctx_mem := m, tx_encoded_len := n\<rparr>) True))" for m n
    by (rule moves_trans0 [OF *(1) wl_submit_reliable_moves])
       (use assms in simp_all)
  moreover have "moves k c (c\<lparr>ctx_mem := m\<rparr>)" for m using moves_trans0 [OF *(2) moves_refl] .
  ultimately show ?thesis
    using wl_submit_reliable_moves [OF assms] by (simp add: wl_send_tx_payload_def Let_def case_prod_beta)
qed

lemma tx_fail_moves: "moves 0 c (tx_fail c code t)"
  unfolding tx_fail_def
  by (rule moves_trans0 [OF moves_silent wl_push_tx_event_moves]) (simp_all add: credit_def tx_active_def)

lemma retry_spends:
  assumes "link_inv c" "tx_active c" "tx_retries_left c \<noteq> 0"
  shows "credit (c\<lparr>tx_retries_left := tx_retries_left c - 1, tx_retries_used := u\<rparr>) + 1 = credit c"
proof -
  have "unat (tx_retries_left c - 1) + 1 = unat (tx_retries_left c)"
    using assms(3) by (simp add: unat_minus_one unat_gt_0)
  then show ?thesis using assms(2) by (simp add: credit_def tx_active_def)
qed

lemma moves_spend:
  assumes "moves 1 c c'" "same_setup c' c''" "sink_log c'' = sink_log c'" "phys_abs c'' = phys_abs c'" "credit c'' + 1 \<le> credit c'"
  shows "moves 0 c c''"
proof -
  obtain calls where "sink_log c' = sink_log c @ calls"
    "fold phys_step (map Submitted calls) (phys_abs c) = phys_abs c'"
    "length (filter accepted_reliable calls) + credit c' \<le> credit c + 1" "same_setup c c'"
    using assms(1) by (auto simp: moves_def)
  then show ?thesis
    using assms(2-) unfolding moves_def by (intro conjI exI [of _ calls]) (simp_all add: same_setup_def)
qed

lemma wl_submit_reliable_fails:
  assumes "\<not> tx_inflight c" "\<not> control_inflight c" "fst (wl_submit_data c True) \<noteq> WL_OK"
  shows "moves 0 c (snd (wl_submit_data c True))"
  using assms unfolding moves_def
  by (cases "sink c")
     (auto simp: wl_submit_data_def call_sink_def Let_def phys_abs_def
      accepted_reliable_def credit_def tx_active_def same_setup_def split: wl_sink_result.splits)

lemma wl_send_tx_payload_fails:
  assumes "\<not> tx_inflight c" "\<not> control_inflight c" "fst (wl_send_tx_payload c) \<noteq> WL_OK"
  shows "moves 0 c (snd (wl_send_tx_payload c))"
proof -
  have mem: "moves 0 c (c\<lparr>ctx_mem := m, tx_encoded_len := n\<rparr>)" "moves 0 c (c\<lparr>ctx_mem := m\<rparr>)" for m n
    by (rule moves_silent; simp)+
  have "moves 0 c (snd (wl_submit_data (c\<lparr>ctx_mem := m, tx_encoded_len := n\<rparr>) True))"
    if "fst (wl_submit_data (c\<lparr>ctx_mem := m, tx_encoded_len := n\<rparr>) True) \<noteq> WL_OK" for m n
    by (rule moves_trans0 [OF mem(1) wl_submit_reliable_fails]) (use assms that in simp_all)
  then show ?thesis
    using assms wl_submit_reliable_fails [of c] mem(2)
    by (auto simp: wl_send_tx_payload_def Let_def case_prod_beta split: if_splits)
qed

text \<open>A retry is a submission paid for by one of the retries left.\<close>

lemma retry_moves:
  assumes "submit_ready c" "credit c = unat (tx_retries_left c)" "tx_retries_left c \<noteq> 0"
    "wl_send_tx_payload c = (WL_OK, c')"
  shows "moves 0 c (c'\<lparr>tx_retries_left := tx_retries_left c' - 1, tx_retries_used := u\<rparr>)"
proof -
  have idle: "\<not> tx_inflight c" "\<not> control_inflight c" using assms by (simp_all add: submit_ready_def)
  have out: "link_inv c'" "tx_active c'" "tx_retries_left c' \<noteq> 0"
    using wl_send_tx_payload_outcome [OF assms(1)] assms(3,4) by (simp_all add: reliable_outcome_def)
  have "moves 1 c c'" using wl_send_tx_payload_moves [OF idle, of 1] assms(2,4) by simp
  then show ?thesis
    by (rule moves_spend) (use retry_spends [OF out, of u] in \<open>simp_all add: phys_abs_def same_setup_def\<close>)
qed

lemma consumed_retry_moves:
  assumes "reliable_done c" "tx_state c = WL_TX_STATE_SENDING"
  shows "moves 0 c (consumed_retry c)"
proof -
  note ready = reliable_done_submit_ready [OF assms]
  have idle: "\<not> tx_inflight c" "\<not> control_inflight c" using assms by (simp_all add: reliable_done_def)
  have credit: "credit c = unat (tx_retries_left c)"
    using ready assms(2) by (simp add: credit_def tx_active_def)
  obtain ret c' where send: "wl_send_tx_payload c = (ret, c')" by (cases "wl_send_tx_payload c")
  have failed: "ret \<noteq> WL_OK \<Longrightarrow> moves 0 c (tx_fail c' code t)" for code t
    using moves_trans0 [OF wl_send_tx_payload_fails [OF idle] tx_fail_moves] send by simp
  have queued: "moves 0 c (c\<lparr>tx_queued := True, in_flight_reliable := True,
      tx_retries_left := tx_retries_left c - 1, tx_retries_used := u\<rparr>)" if "tx_retries_left c \<noteq> 0" for u
  proof -
    have "unat (tx_retries_left c - 1) + 1 = unat (tx_retries_left c)"
      using that by (simp add: unat_minus_one unat_gt_0)
    then show ?thesis using credit assms(2) by (intro moves_silent) (simp_all add: credit_def tx_active_def)
  qed
  show ?thesis
    using send failed queued tx_fail_moves retry_moves [of c c'] ready credit
    by (auto simp: consumed_retry_def Let_def)
qed

lemma consumed_reliable_moves:
  assumes "reliable_done c"
  shows "moves 0 c (consumed_reliable c io)"
proof -
  have "moves 0 c (consumed_retry c)" if "tx_state c = WL_TX_STATE_SENDING"
    using consumed_retry_moves [OF assms that] .
  moreover have "moves 0 c (c\<lparr>tx_cancel_requested := False, tx_payload := p, tx_encoded_len := 0\<rparr>)" for p
    by (rule moves_silent) (simp_all add: credit_def tx_active_def)
  moreover have "moves 0 c (c\<lparr>tx_state := WL_TX_STATE_WAITING_ACK, tx_wait_state := w, tx_start_ts := ts\<rparr>)"
    if "tx_state c = WL_TX_STATE_SENDING" for w ts
    by (rule moves_silent) (use that in \<open>simp_all add: credit_def tx_active_def\<close>)
  ultimately show ?thesis by (simp add: consumed_reliable_def)
qed

lemma note_consumed_silent:
  "sink_log (note_consumed c token io) = sink_log c" "phys_abs (note_consumed c token io) = phys_abs c"
  "credit (note_consumed c token io) = credit c" "tx_token (note_consumed c token io) = tx_token c"
  "same_setup c (note_consumed c token io)"
  by (simp_all add: note_consumed_def Let_def phys_abs_def credit_def tx_active_def same_setup_def)

text \<open>An accepted completion report frees the resource; what follows starts from there.\<close>

lemma wl_tx_consumed_moves:
  assumes inv: "link_inv c"
    and ok: "fst (wl_tx_consumed c token io) \<notin> {WL_ERR_NOT_INITIALIZED, WL_ERR_NOT_FOUND}"
  obtains d where "same_setup c d" "sink_log d = sink_log c" "phys_abs c = Phys_owned token" "phys_abs d = Phys_idle"
    "credit d \<le> credit c" "moves 0 d (snd (wl_tx_consumed c token io))"
proof -
  have pre: "token = tx_token c" "initialized c" "tx_inflight c \<or> control_inflight c"
    using ok by (auto simp: wl_tx_consumed_def split: if_splits)
  define n where "n = note_consumed c token io"
  note n = note_consumed_silent [of c token io, folded n_def]
  have ninv: "link_inv n" using note_consumed_inv [OF inv] pre by (simp add: n_def)
  have flags: "tx_inflight n = tx_inflight c" "control_inflight n = control_inflight c" by (simp_all add: n_def)
  have released: "credit (x\<lparr>tx_inflight := False, in_flight_reliable := False\<rparr>) \<le> credit x" for x
    by (simp add: credit_def tx_active_def)
  have owned: "phys_abs c = Phys_owned token" using pre by (simp add: phys_abs_def)
  consider "control_inflight n" | "\<not> control_inflight n" "tx_inflight n" "\<not> in_flight_reliable n"
    | "\<not> control_inflight n" "tx_inflight n" "in_flight_reliable n"
    using pre flags by auto
  then show thesis
  proof cases
    case 1
    then have "\<not> tx_inflight n" using ninv by (auto simp: link_inv_def phys_inv_def)
    then show thesis
      using 1 pre n owned flags
      by (intro that [of "n\<lparr>control_inflight := False, control_pending := False\<rparr>"])
         (simp_all add: phys_abs_def wl_tx_consumed_def n_def Let_def same_setup_def)
  next
    case 2
    define d where "d = n\<lparr>tx_inflight := False, in_flight_reliable := False\<rparr>"
    have "moves 0 d (d\<lparr>tx_unreliable_len := 0\<rparr>)"
      "moves 0 d ((snd (wl_complete_unreliable_tx d))\<lparr>tx_unreliable_len := 0\<rparr>)"
      by (rule moves_silent; simp add: wl_complete_unreliable_tx_def)+
    then have "moves 0 d (snd (wl_tx_consumed c token io))"
      using 2 pre flags moves_trans0 [OF _ wl_submit_control_moves]
      by (auto simp: wl_tx_consumed_def n_def d_def Let_def case_prod_beta)
    then show thesis
      using 2 owned n released [of n] by (intro that [of d]) (simp_all add: d_def phys_abs_def same_setup_def)
  next
    case 3
    define d where "d = n\<lparr>tx_inflight := False, in_flight_reliable := False\<rparr>"
    have "reliable_done d" using reliable_done_intro [OF ninv] 3 by (simp add: d_def)
    then have "moves 0 d (snd (wl_tx_consumed c token io))"
      using 3 pre flags moves_trans0 [OF consumed_reliable_moves wl_submit_control_moves]
      by (auto simp: wl_tx_consumed_def n_def d_def Let_def)
    then show thesis
      using 3 owned n released [of n] by (intro that [of d]) (simp_all add: d_def phys_abs_def same_setup_def)
  qed
qed

lemma wl_tx_drained_moves: "moves 0 c (snd (wl_tx_drained c token io))"
proof -
  have "moves 0 c (d\<lparr>tx_drain_reliable := False\<rparr>)" if "moves 0 c d" for d
    using moves_trans0 [OF that moves_silent] by (simp add: credit_def tx_active_def)
  moreover have "moves 0 c (c\<lparr>tx_drain_pending := False, tx_writable := True, resource_generation := g\<rparr>)"
    "moves 0 c (c\<lparr>tx_drain_pending := False, tx_writable := True, resource_generation := g,
       tx_wait_state := WL_TX_WAIT_ACK, tx_start_ts := ts\<rparr>)"
    "moves 0 c (wl_push_tx_event (c\<lparr>tx_drain_pending := False, tx_writable := True, resource_generation := g,
       tx_state := WL_TX_STATE_FAILED, tx_wait_state := w, tx_result_code := e\<rparr>) t)" for g ts w e t
    by (rule moves_silent moves_trans0 [OF moves_silent wl_push_tx_event_moves];
        simp add: credit_def tx_active_def)+
  ultimately show ?thesis by (simp add: wl_tx_drained_def Let_def)
qed

lemma wl_send_ack_moves: "moves 0 c (snd (wl_send_ack c view))"
proof -
  have "moves 0 c (c\<lparr>ctx_mem := m, control_len := n, control_pending := True\<rparr>)" "moves 0 c (c\<lparr>ctx_mem := m\<rparr>)" for m n
    by (rule moves_silent; simp)+
  then show ?thesis
    using moves_trans0 [OF _ wl_submit_control_moves] by (simp add: wl_send_ack_def Let_def case_prod_beta)
qed

lemma wl_handle_ack_moves: "moves 0 c (snd (wl_handle_ack c view))"
proof -
  have "moves 0 c (c\<lparr>tx_state := WL_TX_STATE_SUCCESS, tx_wait_state := w, tx_waiting_seq := 0,
      tx_retries_left := 0, tx_result_code := WL_OK\<rparr>)"
    "moves 0 c (c\<lparr>tx_state := WL_TX_STATE_SUCCESS, tx_wait_state := w, tx_waiting_seq := 0,
      tx_retries_left := 0, tx_result_code := WL_OK, tx_queued := False, in_flight_reliable := False\<rparr>)" for w
    by (rule moves_silent; simp add: credit_def tx_active_def)+
  then show ?thesis
    using moves_trans0 [OF _ wl_push_tx_event_moves] by (simp add: wl_handle_ack_def Let_def)
qed

lemma wl_frame_route_view_moves: "moves 0 c (snd (wl_frame_route_view c view))"
proof -
  have "moves 0 c (c\<lparr>rx_counters := k\<rparr>)" for k by (rule moves_silent; simp)
  moreover have "moves 0 c ((snd (wl_push_event c t mid a n h))\<lparr>ctx_event := ev, rx_session_id := sid,
      rx_sequence := q, rx_have_reliable := True\<rparr>)" for t mid a n h ev sid q
    by (rule moves_trans0 [OF wl_push_event_moves [of c t mid a n h] moves_silent]; simp)
  ultimately show ?thesis
    using moves_trans0 [OF _ wl_send_ack_moves] wl_push_event_moves wl_handle_ack_moves
    by (simp add: wl_frame_route_view_def Let_def case_prod_beta)
qed

lemma wl_feed_parse_stream_moves: "moves 0 c (snd (wl_feed_parse_stream c a n))"
proof -
  have "moves 0 c (c\<lparr>ctx_mem := m\<rparr>)" "moves 0 c (c\<lparr>ctx_mem := m, rx_counters := k\<rparr>)" for m k
    by (rule moves_silent; simp)+
  then show ?thesis
    using moves_trans0 [OF _ wl_frame_route_view_moves]
    by (simp add: wl_feed_parse_stream_def wl_frame_bad_frame_def Let_def case_prod_beta split: sum.split)
qed

lemma wl_feed_unit_raw_moves: "moves 0 c (snd (wl_feed_unit_raw c a n))"
proof -
  have "moves 0 c (c\<lparr>rx_counters := k\<rparr>)" for k by (rule moves_silent; simp)
  then show ?thesis
    using wl_frame_route_view_moves
    by (simp add: wl_feed_unit_raw_def wl_feed_parse_wire_def count_malformed_def wl_frame_bad_frame_def
        Let_def split: sum.split)
qed

lemma consume_rx_moves: "moves 0 c (consume_rx c n)"
  by (rule moves_silent) (simp_all add: consume_rx_def)

lemma stream_candidate_moves: "stream_candidate c n = Some (a, c') \<Longrightarrow> moves 0 c c'"
  by (rule moves_silent) (auto simp: stream_candidate_def Let_def split: if_splits prod.splits)

lemma stream_iteration_moves: "moves 0 c (snd (stream_iteration c))"
proof -
  have upd: "moves 0 c (d\<lparr>rx_ring := r\<rparr>)" "moves 0 c (d\<lparr>rx_pending_consume := k\<rparr>)"
    "moves 0 c (d\<lparr>rx_candidate_source := src\<rparr>)" "moves 0 c (d\<lparr>rx_counters := ct\<rparr>)"
    "moves 0 c (consume_rx d k)" if "moves 0 c d" for d r k src ct
    using moves_trans0 [OF that moves_silent] moves_trans0 [OF that consume_rx_moves] by simp_all
  have "moves 0 c (snd (wl_feed_parse_stream c' a k))"
    if "stream_candidate (c\<lparr>rx_ring := r\<rparr>) n = Some (a, c')" for r n a c' k
    using moves_trans0 [OF upd(1) [OF moves_refl] moves_trans0
        [OF stream_candidate_moves [OF that] wl_feed_parse_stream_moves]] .
  then show ?thesis
    using upd by (simp add: stream_iteration_def Let_def case_prod_beta split: sum.split option.split)
qed

lemma stream_loop_moves: "moves 0 c (stream_loop fuel c)"
proof (induction fuel arbitrary: c)
  case (Suc fuel)
  show ?case
    using moves_trans0 [OF stream_iteration_moves Suc.IH] stream_iteration_moves
    by (simp add: stream_loop.simps Let_def case_prod_beta)
qed (simp add: stream_loop.simps)

lemma unit_iteration_moves: "moves 0 c (snd (unit_iteration c))"
proof -
  define d where "d = c\<lparr>rx_candidate_source := WL_RX_SOURCE_UNIT\<rparr>"
  have "moves 0 c d" by (rule moves_silent) (simp_all add: d_def)
  then have fed: "moves 0 c (snd (wl_feed_unit_raw d a n))" for a n
    by (rule moves_trans0 [OF _ wl_feed_unit_raw_moves])
  have "moves 0 c (x\<lparr>rx_pending_consume := k\<rparr>)" "moves 0 c (x\<lparr>rx_units := q, rx_candidate_source := src\<rparr>)"
    if "moves 0 c x" for x k q src
    using moves_trans0 [OF that moves_silent] by simp_all
  then show ?thesis using fed by (simp add: unit_iteration_def Let_def d_def)
qed

lemma unit_loop_moves: "moves 0 c (unit_loop fuel c)"
proof (induction fuel arbitrary: c)
  case (Suc fuel)
  show ?case
    using moves_trans0 [OF unit_iteration_moves Suc.IH] unit_iteration_moves
    by (simp add: unit_loop.simps Let_def case_prod_beta)
qed (simp add: unit_loop.simps)

lemma wl_link_process_rx_moves: "moves 0 c (wl_link_process_rx c)"
proof -
  have upd: "moves 0 c (c\<lparr>rx_ring := r\<rparr>)" "moves 0 c (c\<lparr>rx_ring := r, rx_counters := k\<rparr>)" for r k
    by (rule moves_silent; simp)+
  have "moves 0 c (consume_rx (c\<lparr>rx_ring := r, rx_counters := k\<rparr>) n)" for r k n
    by (rule moves_trans0 [OF upd(2) consume_rx_moves])
  then show ?thesis
    using upd moves_trans0 [OF _ stream_loop_moves] unit_loop_moves
    by (simp add: wl_link_process_rx_def wl_frame_process_units_def wl_frame_process_stream_def Let_def
        case_prod_beta)
qed

lemma wl_invalidate_tx_image_moves: "moves 0 c (wl_invalidate_tx_image c)"
  by (rule moves_silent) (simp_all add: wl_invalidate_tx_image_def Let_def credit_def tx_active_def)

lemma wl_send_frame_unreliable_moves:
  assumes "link_inv c"
  shows "moves 0 c (snd (snd (wl_send_frame_internal c pkt False direct now)))"
proof (cases "wl_data_busy c False")
  case False
  note idle = data_idle [OF assms False]
  define d where "d = wl_invalidate_tx_image c"
  have d: "moves 0 c (d\<lparr>ctx_mem := m, tx_unreliable_len := n\<rparr>)" for m n
    using moves_trans0 [OF wl_invalidate_tx_image_moves moves_silent] by (simp add: d_def)
  have "moves 0 c (snd (wl_submit_data (d\<lparr>ctx_mem := m, tx_unreliable_len := n\<rparr>) False))" for m n
    by (rule moves_trans0 [OF d wl_submit_unreliable_moves]) (use idle in \<open>simp_all add: d_def\<close>)
  then show ?thesis
    using d by (simp add: wl_send_frame_internal_def Let_def case_prod_beta d_def [symmetric])
qed (simp add: wl_send_frame_internal_def)

lemma wl_send_frame_reliable_moves:
  assumes inv: "link_inv c" and claim: "\<not> tx_claim_active c"
  shows "moves (unat (tx_retries_max c) + 1) c (snd (snd (wl_send_frame_internal c pkt True direct now)))"
proof (cases "wl_data_busy c True")
  case False
  note idle = data_idle [OF inv False]
  define d where "d = (wl_prepare_reliable_payload (c\<lparr>now_ms := now\<rparr>) pkt direct)"
  define e where "e = (let g = next_tx_generation (tx_generation d) in
     d\<lparr>tx_generation := g, tx_handle := push_bit 16 (ucast g) OR 1, tx_waiting_seq := pkt_sequence pkt,
       tx_wait_state := WL_TX_WAIT_NONE, tx_retries_left := tx_retries_max d, tx_retries_used := 0\<rparr>)"
  have e: "moves 0 c e" and left: "tx_retries_left e = tx_retries_max c"
    and flags: "\<not> tx_inflight e" "\<not> control_inflight e"
    using idle by (auto simp: e_def d_def Let_def wl_prepare_reliable_payload_def credit_def tx_active_def
        intro!: moves_silent)
  have sent: "moves (unat (tx_retries_max c) + 1) c (snd (wl_send_tx_payload e))"
    using moves_trans0 [OF e wl_send_tx_payload_moves [OF flags]] left by simp
  have aborted: "moves k c (x\<lparr>tx_handle := 0, tx_state := WL_TX_STATE_IDLE, tx_waiting_seq := q,
      tx_wait_state := w, tx_retries_left := r, tx_payload := p, tx_last_message_id := mid, tx_encoded_len := n\<rparr>)"
    "moves k c (x\<lparr>tx_result_code := code\<rparr>)" if "moves k c x" for k x q w r p mid n code
    using moves_trans [OF that moves_silent [of _ _ 0]] by (simp_all add: credit_def tx_active_def)
  show ?thesis
    using sent aborted by (simp add: wl_send_frame_internal_def Let_def case_prod_beta d_def e_def)
qed (simp add: wl_send_frame_internal_def)

lemma poll_queued_moves:
  assumes inv: "link_inv c" shows "moves 0 c (poll_queued c)"
proof (cases "\<not> has_event c \<and> \<not> control_pending c \<and> \<not> tx_claim_active c \<and> tx_queued c \<and>
         \<not> tx_inflight c \<and> \<not> tx_drain_pending c \<and> tx_writable c")
  case True
  then have idle: "\<not> tx_inflight c" "\<not> control_inflight c" using inv by (auto simp: link_inv_def phys_inv_def)
  have upd: "moves 0 c (x\<lparr>tx_queued := False, in_flight_reliable := False\<rparr>)" 
    "moves 0 c (x\<lparr>tx_queued := False, in_flight_reliable := False, tx_unreliable_len := 0\<rparr>)" if "moves 0 c x" for x
    using moves_trans0 [OF that moves_silent] by (simp_all add: credit_def tx_active_def)
  show ?thesis
  proof (cases "in_flight_reliable c")
    case rel: True
    have "unat (tx_retries_left c) + 1 \<le> credit c + 0"
      using queued_submit_ready [OF inv] True rel idle by (simp add: credit_def tx_active_def)
    from wl_send_tx_payload_moves [OF idle this] show ?thesis
      using True rel upd moves_trans0 [OF upd(1) tx_fail_moves]
      by (auto simp: poll_queued_def Let_def case_prod_beta)
  next
    case False
    from wl_submit_unreliable_moves [OF idle this] show ?thesis
      using True False upd by (auto simp: poll_queued_def Let_def case_prod_beta)
  qed
next
  case False
  then have "poll_queued c = c" unfolding poll_queued_def by (rule if_not_P)
  then show ?thesis by simp
qed

lemma poll_timeout_moves:
  assumes inv: "link_inv c" shows "moves 0 c (poll_timeout c now)"
proof (cases "\<not> has_event c \<and> \<not> control_pending c \<and> \<not> tx_inflight c \<and> \<not> tx_queued c \<and>
         \<not> tx_claim_active c \<and> tx_state c = WL_TX_STATE_WAITING_ACK")
  case True
  note ready = waiting_submit_ready [OF inv]
  have idle: "\<not> tx_inflight c" "\<not> control_inflight c" and credit: "credit c = unat (tx_retries_left c)"
    using ready True by (simp_all add: submit_ready_def credit_def tx_active_def)
  obtain ret c' where send: "wl_send_tx_payload c = (ret, c')" by (cases "wl_send_tx_payload c")
  have stamp: "moves 0 c (x\<lparr>tx_start_ts := now\<rparr>)" if "moves 0 c x" for x
    using moves_trans0 [OF that moves_silent] by simp
  show ?thesis
    using True send credit ready tx_fail_moves stamp retry_moves [of c c']
      moves_trans0 [OF wl_send_tx_payload_fails [OF idle] tx_fail_moves]
    by (auto simp: poll_timeout_def Let_def)
qed (auto simp: poll_timeout_def)

lemma poll_pending_event_moves: "moves 0 c (poll_pending_event c)"
  using moves_trans0 [OF wl_push_event_moves moves_silent] by (simp add: poll_pending_event_def)

lemma wl_poll_moves:
  assumes "link_inv c" shows "moves 0 c (snd (wl_poll c now))"
proof -
  have prog: "moves 0 d (wl_poll_transport_progress d now)" if "link_inv d" for d
  proof -
    have "moves 0 d (poll_receive (poll_pending_event (snd (wl_submit_control d))))"
      using moves_trans0 [OF wl_submit_control_moves moves_trans0 [OF poll_pending_event_moves
          wl_link_process_rx_moves]] moves_trans0 [OF wl_submit_control_moves poll_pending_event_moves]
      by (simp add: poll_receive_def)
    moreover have "link_inv (poll_receive (poll_pending_event (snd (wl_submit_control d))))"
      by (intro poll_receive_inv poll_pending_event_inv wl_submit_control_inv that)
    ultimately show ?thesis
      using moves_trans0 [OF _ moves_trans0 [OF poll_queued_moves poll_timeout_moves [OF poll_queued_inv]]]
      by (simp add: wl_poll_transport_progress_def Let_def)
  qed
  define d where "d = c\<lparr>now_ms := now\<rparr>"
  have "moves 0 c d" "link_inv d" using assms by (auto simp: d_def intro: moves_silent)
  then have d: "moves 0 c d" "moves 0 c (wl_poll_transport_progress d now)"
    using moves_trans0 prog by blast+
  have fin: "moves 0 c (x\<lparr>has_event := b\<rparr>)" "moves 0 c (x\<lparr>has_event := b, rx_event_leased := b'\<rparr>)"
    "moves 0 c (snd (wl_push_event x t mid a n h))"
    "moves 0 c ((snd (wl_push_event x t mid a n h))\<lparr>tx_unreliable_completions := u\<rparr>)" if "moves 0 c x"
    for x b b' t mid a n h u
    using moves_trans0 [OF that moves_silent] moves_trans0 [OF that wl_push_event_moves]
      moves_trans0 [OF that moves_trans0 [OF wl_push_event_moves moves_silent]] by simp_all
  show ?thesis
    using d fin by (simp add: wl_poll_def Let_def case_prod_beta d_def [symmetric])
qed

lemma wl_send_frame_reliable_rejected:
  assumes inv: "link_inv c" and claim: "\<not> tx_claim_active c"
    and err: "fst (wl_send_frame_internal c pkt True direct now) \<noteq> WL_OK"
  shows "moves 0 c (snd (snd (wl_send_frame_internal c pkt True direct now)))"
proof (cases "wl_data_busy c True")
  case False
  note idle = data_idle [OF inv False]
  define d where "d = (wl_prepare_reliable_payload (c\<lparr>now_ms := now\<rparr>) pkt direct)"
  define e where "e = (let g = next_tx_generation (tx_generation d) in
     d\<lparr>tx_generation := g, tx_handle := push_bit 16 (ucast g) OR 1, tx_waiting_seq := pkt_sequence pkt,
       tx_wait_state := WL_TX_WAIT_NONE, tx_retries_left := tx_retries_max d, tx_retries_used := 0\<rparr>)"
  have e: "moves 0 c e" and flags: "\<not> tx_inflight e" "\<not> control_inflight e"
    using idle by (auto simp: e_def d_def Let_def wl_prepare_reliable_payload_def credit_def tx_active_def
        intro!: moves_silent)
  have sent: "fst (wl_send_tx_payload e) \<noteq> WL_OK \<Longrightarrow> moves 0 c (snd (wl_send_tx_payload e))"
    using moves_trans0 [OF e wl_send_tx_payload_fails [OF flags]] by simp
  have aborted: "moves k c (x\<lparr>tx_handle := 0, tx_state := WL_TX_STATE_IDLE, tx_waiting_seq := q,
      tx_wait_state := w, tx_retries_left := r, tx_payload := p, tx_last_message_id := mid, tx_encoded_len := n\<rparr>)"
    if "moves k c x" for k x q w r p mid n
    using moves_trans [OF that moves_silent [of _ _ 0]] by (simp_all add: credit_def tx_active_def)
  show ?thesis
    using err sent aborted
    by (auto simp: wl_send_frame_internal_def Let_def case_prod_beta d_def [symmetric]
        e_def [unfolded Let_def, symmetric] split: if_splits)
qed (simp add: wl_send_frame_internal_def)

section \<open>Runs\<close>

text \<open>An operation that opens a reliable transaction.\<close>

definition opens_transaction :: "link_op \<Rightarrow> wl_ctx_impl \<Rightarrow> bool" where
  "opens_transaction op c =
     (case op of
        Op_send_reliable mid a n now \<Rightarrow> fst (wl_send_reliable c mid a n now) = WL_OK
      | Op_commit k n now want \<Rightarrow> tx_claim_reliable c \<and> fst (wl_tx_payload_commit c k n now want) = WL_OK
      | _ \<Rightarrow> False)"

lemma send_ops_moves:
  assumes "link_inv c"
  shows "moves 0 c (snd (wl_send_unreliable c mid a n))"
    "moves (if opens_transaction (Op_send_reliable mid a n now) c then unat (tx_retries_max c) + 1 else 0) c
       (snd (snd (wl_send_reliable c mid a n now)))"
    "moves (if opens_transaction (Op_commit k n now want) c then unat (tx_retries_max c) + 1 else 0) c
       (snd (snd (wl_tx_payload_commit c k n now want)))"
proof -
  show "moves 0 c (snd (wl_send_unreliable c mid a n))"
    using wl_send_frame_unreliable_moves [OF assms] by (simp add: wl_send_unreliable_def case_prod_beta)
  have send: "moves (Suc (unat (tx_retries_max c))) c (snd (snd (wl_send_frame_internal x pkt True direct t)))"
    "fst (wl_send_frame_internal x pkt True direct t) \<noteq> WL_OK \<Longrightarrow>
     moves 0 c (snd (snd (wl_send_frame_internal x pkt True direct t)))"
    if "moves 0 c x" "link_inv x" "\<not> tx_claim_active x" "tx_retries_max x = tx_retries_max c" for x pkt direct t
    using moves_trans0 [OF that(1) wl_send_frame_reliable_moves [OF that(2,3)]]
      moves_trans0 [OF that(1) wl_send_frame_reliable_rejected [OF that(2,3)]] that(4) by simp_all
  have seq: "moves 0 c (c\<lparr>tx_sequence := q\<rparr>)" for q
    by (rule moves_silent) (simp_all add: credit_def tx_active_def)
  show "moves (if opens_transaction (Op_send_reliable mid a n now) c then unat (tx_retries_max c) + 1 else 0) c
       (snd (snd (wl_send_reliable c mid a n now)))"
    using send [of "c\<lparr>tx_sequence := tx_sequence c + 1\<rparr>"] seq assms
    by (simp add: wl_send_reliable_def opens_transaction_def Let_def)
  define d where "d = c\<lparr>tx_claim_active := False, tx_claim_payload := zero_span\<rparr>"
  have d: "moves 0 c d" "moves 0 c (d\<lparr>tx_sequence := q\<rparr>)" "link_inv d" for q
    using assms by (auto simp: d_def credit_def tx_active_def intro!: moves_silent)
  show "moves (if opens_transaction (Op_commit k n now want) c then unat (tx_retries_max c) + 1 else 0) c
       (snd (snd (wl_tx_payload_commit c k n now want)))"
    using send [of "d\<lparr>tx_sequence := tx_sequence c + 1\<rparr>" _ True now] d moves_trans0 [OF d(1) wl_send_frame_unreliable_moves [OF d(3)]]
    by (auto simp: wl_tx_payload_commit_def opens_transaction_def Let_def d_def split: if_splits)
qed

lemma credit_setup [simp]:
  "credit (c\<lparr>sink := f\<rparr>) = credit c"
  "credit (c\<lparr>tx_drain_required := b\<rparr>) = credit c"
  "credit (c\<lparr>tx_claim_token := t\<rparr>) = credit c"
  "credit (c\<lparr>tx_claim_active := b\<rparr>) = credit c"
  "credit (c\<lparr>tx_claim_reliable := b\<rparr>) = credit c"
  "credit (c\<lparr>tx_claim_message_id := mid\<rparr>) = credit c"
  "credit (c\<lparr>tx_claim_payload := p\<rparr>) = credit c"
  "credit (c\<lparr>rx_payload := p\<rparr>) = credit c"
  by (simp_all add: credit_def tx_active_def)

lemma simple_ops_moves:
  "moves 0 c (snd (wl_set_sink c f))"
  "moves 0 c (snd (wl_set_tx_drain_required c b))"
  "moves 0 c (snd (wl_tx_writable c))"
  "moves 0 c (snd (wl_tx_payload_abort c k))"
  "moves 0 c (snd (wl_rx_reserve c))"
  "moves 0 c (snd (wl_rx_commit c n))"
  "moves 0 c (wl_rx_note_overflow c)"
  "moves 0 c (snd (wl_rx_dma_claim c n))"
  "moves 0 c (snd (wl_rx_dma_publish c dk off n))"
  "moves 0 c (snd (wl_rx_dma_finish c dk))"
  "moves 0 c (snd (wl_rx_dma_abort c))"
  "moves 0 c (upd_units c q)"
  "moves 0 c (snd (wl_feed_recover_reset c))"
  "moves 0 c (wl_event_release c ev)"
  "moves 0 c (snd (wl_link_get_readiness c now))"
  "moves 0 c (c\<lparr>ctx_mem := m\<rparr>)"
  by (rule moves_silent; simp add: wl_set_sink_def wl_set_tx_drain_required_def wl_tx_writable_def
      wl_tx_payload_abort_def wl_rx_reserve_def wl_rx_commit_def wl_rx_note_overflow_def
      wl_rx_dma_claim_def wl_rx_dma_publish_def wl_rx_dma_finish_def wl_rx_dma_abort_def upd_units_def
      wl_feed_recover_reset_def wl_event_release_def wl_link_get_readiness_def Let_def case_prod_beta)+

lemma cancel_take_moves:
  "moves 0 c (snd (wl_tx_cancel c h))" "moves 0 c (snd (wl_tx_take c h))"
  by (rule moves_silent;
      simp add: wl_tx_cancel_def wl_tx_take_def Let_def credit_def tx_active_def tx_terminal_def)+

lemma wl_tx_payload_claim_moves: "moves 0 c (snd (wl_tx_payload_claim c mid d))"
proof -
  have "moves 0 c (x\<lparr>tx_claim_token := t, tx_claim_active := True, tx_claim_reliable := r,
     tx_claim_message_id := i, tx_claim_payload := p\<rparr>)" if "moves 0 c x" for x t r i p
    using moves_trans0 [OF that moves_silent] by simp
  then show ?thesis
    using wl_invalidate_tx_image_moves by (simp add: wl_tx_payload_claim_def Let_def)
qed

lemma feed_bytes_loop_moves: "moves 0 c (snd (snd (feed_bytes_loop c data len k)))"
proof (induction c data len k rule: feed_bytes_loop.induct)
  case (1 c data len k)
  define d where "d = snd (wl_rx_reserve c)"
  define e where "e sp ch = snd (wl_rx_commit (d\<lparr>ctx_mem := memmove (ctx_mem d) sp (data + k) ch\<rparr>) ch)" for sp ch
  have "moves 0 c d" by (simp add: d_def simple_ops_moves)
  then have e: "moves 0 c d" "moves 0 c (snd (wl_rx_commit d n))" "moves 0 c (e sp ch)" for n sp ch
    using moves_trans0 [OF _ simple_ops_moves(6)] moves_trans0 [OF _ simple_ops_moves(16)]
    by (auto simp: e_def)
  have *: "moves 0 c (snd (snd (feed_bytes_loop (e (span_data sp) ch) data len (k + ch))))"
    if "k < len" "wl_rx_reserve c = (Inr sp, d)" "span_length sp \<noteq> 0"
      "ch = (if len - k > span_length sp then span_length sp else len - k)"
      "fst (wl_rx_commit (d\<lparr>ctx_mem := memmove (ctx_mem d) (span_data sp) (data + k) ch\<rparr>) ch) = WL_OK" for sp ch
    using that by (intro moves_trans0 [OF e(3) 1]) (auto simp: e_def prod_eq_iff)
  show ?case
    using e * by (subst feed_bytes_loop.simps)
      (auto simp: Let_def case_prod_beta d_def e_def prod_eq_iff split: prod.split sum.split)
qed

lemma feed_ops_moves:
  "moves 0 c (snd (snd (wl_feed_bytes c a n)))" "moves 0 c (snd (wl_feed_unit c a n))"
proof -
  have feed: "moves 0 c (snd (snd (wl_feed_bytes c a n)))" for a n
    using feed_bytes_loop_moves moves_trans0 [OF feed_bytes_loop_moves moves_silent]
    by (simp add: wl_feed_bytes_def Let_def case_prod_beta)
  then show "moves 0 c (snd (snd (wl_feed_bytes c a n)))" .
  have "moves 0 c (c\<lparr>ctx_mem := m, rx_candidate_source := src\<rparr>)" "moves 0 c (c\<lparr>rx_candidate_source := src\<rparr>)" for m src
    by (rule moves_silent; simp)+
  then show "moves 0 c (snd (wl_feed_unit c a n))"
    using feed moves_trans0 [OF _ wl_feed_unit_raw_moves]
    by (simp add: wl_feed_unit_def wl_frame_receive_unit_def Let_def case_prod_beta)
qed

lemma link_exec_moves:
  assumes "link_inv c" "\<And>token io. op \<noteq> Op_consumed token io"
  shows "moves (if opens_transaction op c then unat (tx_retries_max c) + 1 else 0) c (link_exec op c)"
proof (cases op)
  case (Op_send_reliable mid a n now)
  then show ?thesis using send_ops_moves(2) [OF assms(1)] by simp
next
  case (Op_commit k n now want)
  then show ?thesis using send_ops_moves(3) [OF assms(1)] by simp
qed (use assms send_ops_moves(1) [OF assms(1)] in
  \<open>simp_all add: simple_ops_moves cancel_take_moves wl_tx_payload_claim_moves feed_ops_moves wl_tx_drained_moves
    wl_poll_moves opens_transaction_def\<close>)

lemma moves_new_calls:
  assumes "moves k c c'"
  shows "sink_log c' = sink_log c @ new_calls c c'"
    "fold phys_step (map Submitted (new_calls c c')) (phys_abs c) = phys_abs c'"
    "length (filter accepted_reliable (new_calls c c')) + credit c' \<le> credit c + k"
  using assms by (auto simp: moves_def new_calls_def)

lemma link_exec_phys:
  assumes "link_inv c"
  shows "phys_abs (link_exec op c) = fold phys_step (phys_events op c) (phys_abs c)"
proof (cases "\<exists>token io. op = Op_consumed token io")
  case True
  then obtain token io where op: "op = Op_consumed token io" by blast
  show ?thesis
  proof (cases "fst (wl_tx_consumed c token io) \<in> {WL_ERR_NOT_INITIALIZED, WL_ERR_NOT_FOUND}")
    case rejected: True
    then have "snd (wl_tx_consumed c token io) = c"
      by (auto simp: wl_tx_consumed_def Let_def case_prod_beta wl_complete_unreliable_tx_def split: if_splits)
    then show ?thesis using rejected op by (simp add: phys_events_def new_calls_def)
  next
    case False
    from wl_tx_consumed_moves [OF assms False] obtain d where d: "sink_log d = sink_log c"
      "phys_abs c = Phys_owned token" "phys_abs d = Phys_idle" "moves 0 d (link_exec op c)"
      by (auto simp: op)
    then show ?thesis
      using moves_new_calls [OF d(4)] False by (simp add: phys_events_def op new_calls_def)
  qed
next
  case False
  then have "moves (if opens_transaction op c then unat (tx_retries_max c) + 1 else 0) c (link_exec op c)"
    by (intro link_exec_moves assms) blast
  then show ?thesis
    using moves_new_calls(2) False by (auto simp: phys_events_def split: link_op.split)
qed

interpretation phy: simulation link_exec link_inv phys_abs phys_events phys_step
  by unfold_locales (simp_all add: link_exec_inv link_exec_phys)

section \<open>Counting transmissions\<close>

definition accepted_count :: "wl_ctx_impl \<Rightarrow> wl_ctx_impl \<Rightarrow> nat" where
  "accepted_count c c' = length (filter accepted_reliable (new_calls c c'))"

definition spends :: "nat \<Rightarrow> wl_ctx_impl \<Rightarrow> wl_ctx_impl \<Rightarrow> bool" where
  "spends k c c' \<longleftrightarrow> same_setup c c' \<and> prefix (sink_log c) (sink_log c') \<and>
     accepted_count c c' + credit c' \<le> credit c + k"

lemma moves_spends: "moves k c c' \<Longrightarrow> spends k c c'"
  using moves_new_calls [of k c c'] by (auto simp: spends_def accepted_count_def moves_def)

lemma spends_trans:
  assumes "spends j c c'" "spends k c' c''" shows "spends (j + k) c c''"
proof -
  obtain xs ys where "sink_log c' = sink_log c @ xs" "sink_log c'' = sink_log c' @ ys"
    using assms by (auto simp: spends_def prefix_def)
  then show ?thesis
    using assms by (simp add: spends_def accepted_count_def new_calls_def same_setup_def)
qed

definition opened_by :: "link_op \<Rightarrow> wl_ctx_impl \<Rightarrow> link_op list" where
  "opened_by op c = (if opens_transaction op c then [op] else [])"

lemma link_exec_spends:
  assumes "link_inv c"
  shows "spends (if opens_transaction op c then unat (tx_retries_max c) + 1 else 0) c (link_exec op c)"
proof (cases "\<exists>token io. op = Op_consumed token io")
  case True
  then obtain token io where op: "op = Op_consumed token io" by blast
  show ?thesis
  proof (cases "fst (wl_tx_consumed c token io) \<in> {WL_ERR_NOT_INITIALIZED, WL_ERR_NOT_FOUND}")
    case True
    then have "snd (wl_tx_consumed c token io) = c"
      by (auto simp: wl_tx_consumed_def Let_def case_prod_beta wl_complete_unreliable_tx_def split: if_splits)
    then show ?thesis by (simp add: op spends_def accepted_count_def new_calls_def same_setup_def)
  next
    case False
    from wl_tx_consumed_moves [OF assms False] obtain d where d: "same_setup c d" "sink_log d = sink_log c"
      "credit d \<le> credit c" "moves 0 d (link_exec op c)" by (auto simp: op)
    then have "spends 0 c d" by (simp add: spends_def accepted_count_def new_calls_def)
    then show ?thesis
      using spends_trans [OF _ moves_spends [OF d(4)]] by (simp add: op opens_transaction_def)
  qed
next
  case False
  then show ?thesis by (intro moves_spends link_exec_moves assms) blast
qed

lemma run_spends:
  "link_inv c \<Longrightarrow> trace link_exec opened_by ops c = [] \<Longrightarrow> spends 0 c (run_ops link_exec ops c)"
proof (induction ops arbitrary: c)
  case Nil
  then show ?case by (simp add: spends_def accepted_count_def new_calls_def same_setup_def)
next
  case (Cons op ops)
  then have "\<not> opens_transaction op c" "trace link_exec opened_by ops (link_exec op c) = []"
    by (auto simp: opened_by_def [of op c] split: if_splits)
  then show ?case
    using Cons.IH [of "link_exec op c"] Cons.prems(1) link_exec_spends [of c op] spends_trans [of 0 c _ 0]
    by (simp add: link_exec_inv)
qed

lemma opens_idle:
  assumes "link_inv c" "opens_transaction op c" shows "credit c = 0"
proof -
  have busy: "wl_data_busy x True" if "tx_handle x \<noteq> 0" for x using that by (simp add: wl_data_busy_def)
  have "tx_handle c = 0"
  proof (rule ccontr)
    assume "tx_handle c \<noteq> 0"
    then show False
      using assms(2) busy
      by (auto simp: opens_transaction_def wl_send_reliable_def wl_tx_payload_commit_def wl_send_frame_internal_def
          Let_def split: link_op.splits if_splits)
  qed
  then show ?thesis using assms(1) by (auto simp: credit_def tx_active_def link_inv_def trans_inv_def)
qed

lemma transaction_spends:
  assumes "link_inv c" "opens_transaction op c" "trace link_exec opened_by ops (link_exec op c) = []"
  shows "accepted_count c (run_ops link_exec (op # ops) c) \<le> unat (tx_retries_max c) + 1"
  using spends_trans [OF link_exec_spends [OF assms(1), of op] run_spends [OF link_exec_inv [OF assms(1)] assms(3)]]
    assms(2) opens_idle [OF assms(1,2)] by (simp add: spends_def)

lemma run_same_setup: "link_inv c \<Longrightarrow> same_setup c (run_ops link_exec ops c)"
proof (induction ops arbitrary: c)
  case (Cons op ops)
  then have "same_setup c (link_exec op c)" "same_setup (link_exec op c) (run_ops link_exec ops (link_exec op c))"
    using link_exec_spends [of c op] by (auto simp: spends_def link_exec_inv)
  then show ?case by (simp add: same_setup_def)
qed (simp add: same_setup_def)

lemma wl_init_setup:
  assumes "wl_init lock_free c0 config storage = (WL_OK, c)"
  shows "ctx_config c = config \<and> ctx_storage c = storage \<and> phys_abs c = Phys_idle \<and> sink_log c = sink_log c0"
  by (rule wl_init_result [OF assms]) (simp add: zero_ctx_def phys_abs_def)

lemma reachable_retries_max:
  assumes "wl_init lock_free c0 config storage = (WL_OK, c)"
  shows "link_inv (run_ops link_exec ops c)" "tx_retries_max (run_ops link_exec ops c) = max_retries config"
proof -
  have inv: "link_inv c" using wl_init_link_inv [OF assms] .
  show inv': "link_inv (run_ops link_exec ops c)" by (rule phy.run_keeps [OF inv])
  have "ctx_config (run_ops link_exec ops c) = config"
    using run_same_setup [OF inv] wl_init_setup [OF assms] by (simp add: same_setup_def)
  then show "tx_retries_max (run_ops link_exec ops c) = max_retries config"
    using inv' by (auto simp: link_inv_def setup_inv_def)
qed

section \<open>A demonstration link\<close>

text \<open>
  Native packets without an integrity code, payloads of at most four bytes, one retry after ten
  milliseconds. The sink takes the first unit asynchronously and sends the others at once.
\<close>

definition demo_link_config :: wl_config where
  "demo_link_config = \<lparr>max_payload_len = 4, envelope = WL_ENVELOPE_NATIVE_PACKET,
     integrity = WL_INTEGRITY_NONE, cfg_session_id = 9, max_retries = 1, ack_timeout_ms = 10,
     max_transmission_unit = 0\<rparr>"

definition demo_link_storage :: wl_storage where
  "demo_link_storage = \<lparr>st_tx_payload = 100, st_tx_payload_size = 4, st_tx_unit = 200, st_tx_unit_size = 20,
     st_control_unit = 300, st_control_unit_size = 16, st_rx_fifo = 0, st_rx_fifo_size = 0,
     st_rx_fallback = 400, st_rx_fallback_size = 20\<rparr>"

definition demo_link :: wl_ctx_impl where
  "demo_link = (zero_ctx (\<lambda>_. 0) [] demo_link_config demo_link_storage)
     \<lparr>tx_retries_max := 1, tx_retries_left := 1, session_id := 9, tx_token := 1,
      tx_payload := \<lparr>span_data = 100, span_length = 0\<rparr>,
      rx_payload := \<lparr>span_data = 400, span_length = 0\<rparr>, tx_writable := True, initialized := True\<rparr>"

lemma demo_link_init:
  "wl_init True (zero_ctx (\<lambda>_. 0) [] demo_link_config demo_link_storage) demo_link_config demo_link_storage =
   (WL_OK, demo_link)"
  by (simp add: wl_init_def wl_config_requirements_def wl_max_unit_size_def wl_frame_raw_size_def
      wl_frame_encode_overhead_def wl_profile_envelope_valid_def wl_profile_integrity_valid_def
      wl_profile_supported_def wl_profile_crc_size_def SIZE_MAX_def storage_overlaps_def
      demo_link_config_def demo_link_storage_def demo_link_def zero_ctx_def Let_def)

definition demo_sink :: wl_sink_fn where
  "demo_sink log token bytes = (if log = [] then WL_SINK_STARTED else WL_SINK_SENT)"

definition demo_link_ops :: "link_op list" where
  "demo_link_ops = [Op_consumed 2 0, Op_poll 10, Op_poll 30]"

text \<open>
  C4. In every run of the link after a successful initialisation, the physical transmit resource is
  exclusive: no unit is submitted to the sink between a submission the sink answered \<^verbatim>\<open>STARTED\<close> and
  the completion report for its token, only that report is accepted, and the link's flags say at every
  moment whether the resource is owned and by which token.
\<close>

theorem physical_unit_exclusive:
  assumes "wl_init lock_free c0 config storage = (WL_OK, c)"
  shows "fold phys_step (trace link_exec phys_events ops c) Phys_idle = phys_abs (run_ops link_exec ops c) \<and>
         fold phys_step (trace link_exec phys_events ops c) Phys_idle \<noteq> Phys_violated"
  using phy.run_sim [OF wl_init_link_inv [OF assms], of ops] wl_init_setup [OF assms]
    phys_abs_sound [of "run_ops link_exec ops c"] by simp

theorem physical_unit_exclusive_witness:
  "wl_init True (zero_ctx (\<lambda>_. 0) [] demo_link_config demo_link_storage) demo_link_config demo_link_storage =
     (WL_OK, demo_link) \<and>
   fold phys_step (trace link_exec phys_events
     [Op_set_sink (Some demo_sink), Op_send_reliable 7 500 2 0, Op_poll 5] demo_link) Phys_idle = Phys_owned 2"
proof -
  have "phys_abs (run_ops link_exec [Op_set_sink (Some demo_sink), Op_send_reliable 7 500 2 0, Op_poll 5] demo_link) =
        Phys_owned 2"
    by code_simp
  then show ?thesis
    by (simp only: demo_link_init physical_unit_exclusive [OF demo_link_init] simp_thms)
qed

text \<open>
  C30. A reliable transaction makes at most one transmission more than the configured number of retries:
  from the call that opens it until another transaction is opened, however the application, the adapter
  and the peer interleave their calls, the sink takes at most \<open>1 + max_retries\<close> reliable units. Submissions
  the sink refuses as busy or failed are not transmissions.
\<close>

theorem reliable_attempts_bounded:
  assumes "wl_init lock_free c0 config storage = (WL_OK, c)"
    and "opens_transaction op (run_ops link_exec before c)"
    and "trace link_exec opened_by after (run_ops link_exec (before @ [op]) c) = []"
  shows "accepted_count (run_ops link_exec before c) (run_ops link_exec (before @ op # after) c)
         \<le> unat (max_retries config) + 1"
  using transaction_spends [OF reachable_retries_max(1) [OF assms(1), of before] assms(2), of after] assms(3)
    reachable_retries_max(2) [OF assms(1), of before] by (simp add: run_ops_append)

theorem reliable_attempts_bounded_witness:
  "opens_transaction (Op_send_reliable 7 500 2 0) (run_ops link_exec [Op_set_sink (Some demo_sink)] demo_link) \<and>
   accepted_count (run_ops link_exec [Op_set_sink (Some demo_sink)] demo_link)
     (run_ops link_exec ([Op_set_sink (Some demo_sink)] @ Op_send_reliable 7 500 2 0 # demo_link_ops) demo_link) = 2 \<and>
   unat (max_retries demo_link_config) + 1 = 2"
proof -
  let ?before = "[Op_set_sink (Some demo_sink)]"
  let ?op = "Op_send_reliable 7 500 2 0"
  have opens: "opens_transaction ?op (run_ops link_exec ?before demo_link)" by code_simp
  have others: "trace link_exec opened_by demo_link_ops (run_ops link_exec (?before @ [?op]) demo_link) = []"
    by code_simp
  have "2 \<le> accepted_count (run_ops link_exec ?before demo_link)
     (run_ops link_exec (?before @ ?op # demo_link_ops) demo_link)" by code_simp
  moreover have "unat (max_retries demo_link_config) + 1 = 2" by (simp add: demo_link_config_def)
  ultimately show ?thesis
    using reliable_attempts_bounded [OF demo_link_init opens others] opens by simp
qed

end
