(* ===== verification/Link_Memory.thy ===== *)
theory Link_Memory
  imports Link_Ops
begin

text \<open>
  The memory of the link. The buffers handed to \<^verbatim>\<open>wl_init\<close> are areas of one flat memory; the theory
  shows which operation writes where, and that the receive path never writes to the transmit buffers.
  It is the basis of the theories on the transmitted image.
\<close>

section \<open>Areas\<close>

definition area :: "addr \<Rightarrow> nat \<Rightarrow> addr set" where
  "area a n = {a..<a + n}"

lemma in_area [simp]: "x \<in> area a n \<longleftrightarrow> a \<le> x \<and> x < a + n"
  by (simp add: area_def)

lemma area_mono: "n \<le> k \<Longrightarrow> area a n \<subseteq> area a k"
  by auto

definition unit_area :: "wl_ctx_impl \<Rightarrow> addr set" where
  "unit_area c = area (st_tx_unit (ctx_storage c)) (st_tx_unit_size (ctx_storage c))"

definition payload_area :: "wl_ctx_impl \<Rightarrow> addr set" where
  "payload_area c = area (st_tx_payload (ctx_storage c)) (st_tx_payload_size (ctx_storage c))"

definition control_area :: "wl_ctx_impl \<Rightarrow> addr set" where
  "control_area c = area (st_control_unit (ctx_storage c)) (st_control_unit_size (ctx_storage c))"

definition fifo_area :: "wl_ctx_impl \<Rightarrow> addr set" where
  "fifo_area c = (if envelope (ctx_config c) = WL_ENVELOPE_COBS_STREAM
     then area (st_rx_fifo (ctx_storage c)) (st_rx_fifo_size (ctx_storage c)) else {})"

definition fallback_area :: "wl_ctx_impl \<Rightarrow> addr set" where
  "fallback_area c = area (st_rx_fallback (ctx_storage c)) (st_rx_fallback_size (ctx_storage c))"

definition tx_area :: "wl_ctx_impl \<Rightarrow> addr set" where
  "tx_area c = unit_area c \<union> payload_area c"

definition rx_area :: "wl_ctx_impl \<Rightarrow> addr set" where
  "rx_area c = fifo_area c \<union> fallback_area c"

lemmas area_defs = unit_area_def payload_area_def control_area_def fifo_area_def fallback_area_def
  tx_area_def rx_area_def

text \<open>
  The receive buffers meet neither the transmit buffers nor each other. \<^verbatim>\<open>wl_init\<close> checks the transmit
  buffers against each other and leaves the receive buffers to the caller.
\<close>

definition storage_apart :: "wl_ctx_impl \<Rightarrow> bool" where
  "storage_apart c \<longleftrightarrow>
     rx_area c \<inter> (tx_area c \<union> control_area c) = {} \<and> fifo_area c \<inter> fallback_area c = {} \<and>
     unit_area c \<inter> payload_area c = {} \<and> unit_area c \<inter> control_area c = {} \<and>
     payload_area c \<inter> control_area c = {}"

definition changes_in :: "addr set \<Rightarrow> mem \<Rightarrow> mem \<Rightarrow> bool" where
  "changes_in A m m' \<longleftrightarrow> (\<forall>x. x \<notin> A \<longrightarrow> m' x = m x)"

lemma changes_in_refl [simp]: "changes_in A m m"
  by (simp add: changes_in_def)

lemma changes_in_trans: "changes_in A m m' \<Longrightarrow> changes_in A m' m'' \<Longrightarrow> changes_in A m m''"
  by (simp add: changes_in_def)

lemma changes_in_mono: "changes_in A m m' \<Longrightarrow> A \<subseteq> B \<Longrightarrow> changes_in B m m'"
  by (auto simp: changes_in_def)

lemma changes_in_area: "changes_in (area a n) m m' \<longleftrightarrow> only_changes m m' a n"
  by (auto simp: changes_in_def only_changes_def not_le)

lemma changes_in_read:
  "changes_in A m m' \<Longrightarrow> area a n \<inter> A = {} \<Longrightarrow> read_bytes m' a n = read_bytes m a n"
  by (rule read_bytes_cong) (auto simp: changes_in_def)

lemma changes_in_write: "area a (length bs) \<subseteq> A \<Longrightarrow> changes_in A m (write_bytes m a bs)"
  by (auto simp: changes_in_def write_bytes_def)

lemma changes_in_memmove: "area a n \<subseteq> A \<Longrightarrow> changes_in A m (memmove m a b n)"
  by (simp add: memmove_def changes_in_write)

section \<open>Encoders and decoders\<close>

lemma ack_header_size: "view_session_id view \<noteq> 0 \<Longrightarrow> frame_header_size (ack_packet config view) = Inr 16"
  by (simp add: frame_header_size_def ack_packet_def wl_frame_packet_header_size_def)

lemma wl_link_encode_range:
  assumes "frame_header_size p = Inr hl" "wl_link_encode config m p out cap = (r, n, m')"
  shows "changes_in (area out cap) m m'" "n \<le> cap"
    "r = WL_OK \<Longrightarrow> n = length (wire_frame p (envelope config) (integrity config)
       (read_bytes m (pkt_payload p) (pkt_payload_len p))) \<and>
     m' = write_bytes m out (wire_frame p (envelope config) (integrity config)
       (read_bytes m (pkt_payload p) (pkt_payload_len p)))" "r \<noteq> WL_OK \<Longrightarrow> m' = m \<and> n = 0"
  using assms(2) unfolding wl_link_encode_eq [OF assms(1) refl]
  by (auto split: if_splits intro!: changes_in_write)

lemma wl_link_decode_null: "\<exists>e. wl_link_decode_stream config m NULL n = (Inl e, m)"
  by (cases "n = 0") (simp_all add: wl_link_decode_stream_def wl_frame_decode_cobs_crc16_def
        wl_frame_decode_cobs_generic_def wl_cobs_decode_in_place_def wl_cobs_decode_def)

lemma wl_link_decode_range:
  assumes "wl_link_decode_stream config m a n = (r, m')"
  shows "changes_in (area a n) m m'"
proof (cases "a = NULL")
  case True
  then show ?thesis using assms wl_link_decode_null [of config m n] by auto
next
  case False
  then show ?thesis using wl_link_decode_stream_eq(2) [OF _ assms] by (simp add: changes_in_area)
qed

text \<open>A frame that asks for an acknowledgement names a session.\<close>

definition view_ok :: "wl_frame_view \<Rightarrow> bool" where
  "view_ok view \<longleftrightarrow> (view_type view = WL_PACKET_DATA \<longrightarrow> view_flags view AND WL_PACKET_FLAG_RELIABLE \<noteq> 0 \<longrightarrow>
     view_session_id view \<noteq> 0)"

lemma wl_frame_decode_view_ok:
  assumes "wl_frame_decode m a n integ = Inr view" shows "view_ok view"
proof -
  have "frame_parse m a n integ (wl_profile_crc_size integ) None = Inr view"
    using assms by (simp add: wl_frame_decode_def split: if_splits)
  then have "frame_header_size (packet_of view) = Inr (pkt_header_len (packet_of view))"
    using frame_parse_sound by blast
  then show ?thesis by (auto simp: view_ok_def packet_of_def frame_header_size_def Let_def split: if_splits)
qed

lemma wl_link_decode_view_ok:
  assumes "wl_link_decode_stream config m a n = (Inr view, m')" shows "view_ok view"
proof -
  have a: "a \<noteq> NULL" using assms wl_link_decode_null [of config m n] by (cases "a = NULL") auto
  obtain ys where "cobs_decode (read_bytes m a n) = Some ys"
    using wl_link_decode_stream_eq(1) [OF a assms] by (cases "cobs_decode (read_bytes m a n)") auto
  then have "wl_frame_decode m' a (length ys) (integrity config) = Inr view"
    using wl_link_decode_stream_eq(1) [OF a assms] by (simp split: if_splits)
  then show ?thesis by (rule wl_frame_decode_view_ok)
qed

section \<open>The receive path\<close>

text \<open>
  \<open>owned m a n log\<close>: the sink took the unit of the last call asynchronously, and the unit is still in the
  buffer of \<open>n\<close> bytes at \<open>a\<close>, byte for byte.
  While the control unit is in flight its buffer holds what the sink was given.
\<close>

definition owned :: "mem \<Rightarrow> addr \<Rightarrow> nat \<Rightarrow> wl_sink_call list \<Rightarrow> bool" where
  "owned m a n log \<longleftrightarrow> log \<noteq> [] \<and> sc_result (last log) = WL_SINK_STARTED \<and> length (sc_data (last log)) \<le> n \<and>
     read_bytes m a (length (sc_data (last log))) = sc_data (last log)"

definition control_ok :: "wl_ctx_impl \<Rightarrow> bool" where
  "control_ok c \<longleftrightarrow> control_len c \<le> st_control_unit_size (ctx_storage c) \<and>
     (control_inflight c \<longrightarrow> control_pending c \<and>
        owned (ctx_mem c) (st_control_unit (ctx_storage c)) (st_control_unit_size (ctx_storage c)) (sink_log c))"

lemma owned_changes:
  assumes "owned m a n log" "changes_in A m m'" "area a n \<inter> A = {}" shows "owned m' a n log"
proof -
  have "read_bytes m' a (length (sc_data (last log))) = read_bytes m a (length (sc_data (last log)))"
    by (rule changes_in_read [OF assms(2)]) (use assms(1,3) area_mono in \<open>fastforce simp: owned_def\<close>)
  then show ?thesis using assms(1) by (simp add: owned_def)
qed

text \<open>
  \<open>tx_frame c c'\<close>: the link went from \<open>c\<close> to \<open>c'\<close> without touching what it transmits: memory
  changed in the receive buffers and the control unit only, a transaction still active is the one of
  before with its payload and its image, the only units submitted were control units, and the buffer
  of a control unit in flight is left alone.
\<close>

definition tx_frame :: "wl_ctx_impl \<Rightarrow> wl_ctx_impl \<Rightarrow> bool" where
  "tx_frame c c' \<longleftrightarrow> same_setup c c' \<and>
     changes_in (rx_area c \<union> control_area c) (ctx_mem c) (ctx_mem c') \<and>
     (tx_active c' \<longrightarrow> tx_active c \<and> tx_last_message_id c' = tx_last_message_id c \<and>
        tx_waiting_seq c' = tx_waiting_seq c) \<and> tx_payload c' = tx_payload c \<and>
     tx_encoded_len c' = tx_encoded_len c \<and> tx_unreliable_len c' = tx_unreliable_len c \<and>
     tx_claim_active c' = tx_claim_active c \<and> tx_claim_payload c' = tx_claim_payload c \<and>
     tx_claim_reliable c' = tx_claim_reliable c \<and>
     tx_inflight c' = tx_inflight c \<and> (storage_apart c \<and> control_ok c \<longrightarrow> control_ok c') \<and>
     (\<exists>calls. sink_log c' = sink_log c @ calls \<and> (\<forall>call \<in> set calls. sc_unit call = Control_unit) \<and>
        (tx_inflight c \<longrightarrow> calls = []))"

lemma same_setup_areas:
  assumes "same_setup c c'"
  shows "unit_area c' = unit_area c" "payload_area c' = payload_area c" "control_area c' = control_area c"
    "fifo_area c' = fifo_area c" "fallback_area c' = fallback_area c" "tx_area c' = tx_area c"
    "rx_area c' = rx_area c" "storage_apart c' = storage_apart c"
  using assms by (simp_all add: same_setup_def area_defs storage_apart_def)

lemma tx_frame_refl [simp]: "tx_frame c c"
  by (simp add: tx_frame_def same_setup_def)

lemma tx_frame_trans:
  assumes "tx_frame c c'" "tx_frame c' c''" shows "tx_frame c c''"
proof -
  obtain xs where xs: "sink_log c' = sink_log c @ xs" "\<forall>call \<in> set xs. sc_unit call = Control_unit"
    "tx_inflight c \<longrightarrow> xs = []" using assms(1) unfolding tx_frame_def by blast
  obtain ys where ys: "sink_log c'' = sink_log c' @ ys" "\<forall>call \<in> set ys. sc_unit call = Control_unit"
    "tx_inflight c' \<longrightarrow> ys = []" using assms(2) unfolding tx_frame_def by blast
  have inf: "tx_inflight c' = tx_inflight c" using assms(1) unfolding tx_frame_def by blast
  have log: "\<exists>calls. sink_log c'' = sink_log c @ calls \<and> (\<forall>call \<in> set calls. sc_unit call = Control_unit) \<and>
      (tx_inflight c \<longrightarrow> calls = [])"
    using xs ys inf by (intro exI [of _ "xs @ ys"]) auto
  have s: "same_setup c c'" "same_setup c c''" using assms by (simp_all add: tx_frame_def same_setup_def)
  note areas = same_setup_areas [OF s(1)]
  have m: "changes_in (rx_area c \<union> control_area c) (ctx_mem c) (ctx_mem c')"
    "changes_in (rx_area c \<union> control_area c) (ctx_mem c') (ctx_mem c'')"
    using assms areas(3,7) unfolding tx_frame_def by simp_all
  have "storage_apart c \<and> control_ok c \<longrightarrow> control_ok c''"
    using assms areas(8) unfolding tx_frame_def by blast
  then show ?thesis
    using assms s(2) log changes_in_trans [OF m] unfolding tx_frame_def by simp
qed

text \<open>Steps that submit nothing and do not write to memory.\<close>

lemma tx_frame_silent:
  "same_setup c c' \<Longrightarrow> ctx_mem c' = ctx_mem c \<Longrightarrow> sink_log c' = sink_log c \<Longrightarrow>
   (tx_active c' \<Longrightarrow> tx_active c \<and> tx_last_message_id c' = tx_last_message_id c \<and>
      tx_waiting_seq c' = tx_waiting_seq c) \<Longrightarrow> tx_payload c' = tx_payload c \<Longrightarrow>
   tx_encoded_len c' = tx_encoded_len c \<Longrightarrow> tx_unreliable_len c' = tx_unreliable_len c \<Longrightarrow>
   tx_claim_active c' = tx_claim_active c \<Longrightarrow> tx_claim_payload c' = tx_claim_payload c \<Longrightarrow>
   tx_claim_reliable c' = tx_claim_reliable c \<Longrightarrow>
   tx_inflight c' = tx_inflight c \<Longrightarrow> control_len c' = control_len c \<Longrightarrow>
   control_inflight c' = control_inflight c \<Longrightarrow> control_pending c' = control_pending c \<Longrightarrow> tx_frame c c'"
  by (simp add: tx_frame_def control_ok_def same_setup_def)

lemma tx_frame_mem:
  assumes "changes_in (rx_area c) (ctx_mem c) m" shows "tx_frame c (c\<lparr>ctx_mem := m\<rparr>)"
proof -
  have "control_ok (c\<lparr>ctx_mem := m\<rparr>)" if "storage_apart c" "control_ok c"
    using that owned_changes [OF _ assms] by (auto simp: control_ok_def storage_apart_def control_area_def)
  then show ?thesis
    using changes_in_mono [OF assms] by (simp add: tx_frame_def same_setup_def tx_active_def)
qed

lemma wl_submit_control_ok: "control_ok c \<Longrightarrow> control_ok (snd (wl_submit_control c))"
  by (cases "sink c")
     (simp_all add: wl_submit_control_def call_sink_def Let_def control_ok_def owned_def
      split: wl_sink_result.split)

lemma wl_submit_control_log:
  "\<exists>calls. sink_log (snd (wl_submit_control c)) = sink_log c @ calls \<and>
     (\<forall>call \<in> set calls. sc_unit call = Control_unit) \<and> (tx_inflight c \<longrightarrow> calls = [])"
  by (cases "sink c")
     (simp_all add: wl_submit_control_def call_sink_def Let_def split: wl_sink_result.split)

lemma submit_control_fields [ctx_frame]:
  "ctx_mem (snd (wl_submit_control c)) = ctx_mem c"
  "ctx_config (snd (wl_submit_control c)) = ctx_config c"
  "ctx_storage (snd (wl_submit_control c)) = ctx_storage c"
  "session_id (snd (wl_submit_control c)) = session_id c"
  "tx_state (snd (wl_submit_control c)) = tx_state c"
  "tx_last_message_id (snd (wl_submit_control c)) = tx_last_message_id c"
  "tx_waiting_seq (snd (wl_submit_control c)) = tx_waiting_seq c"
  "tx_payload (snd (wl_submit_control c)) = tx_payload c"
  "tx_encoded_len (snd (wl_submit_control c)) = tx_encoded_len c"
  "tx_unreliable_len (snd (wl_submit_control c)) = tx_unreliable_len c"
  "tx_claim_active (snd (wl_submit_control c)) = tx_claim_active c"
  "tx_claim_payload (snd (wl_submit_control c)) = tx_claim_payload c"
  "tx_claim_reliable (snd (wl_submit_control c)) = tx_claim_reliable c"
  "tx_inflight (snd (wl_submit_control c)) = tx_inflight c"
  by (simp_all add: wl_submit_control_def call_sink_def Let_def split: option.splits wl_sink_result.splits)

lemma wl_submit_control_tx_frame: "tx_frame c (snd (wl_submit_control c))"
  using wl_submit_control_ok [of c] wl_submit_control_log [of c]
  by (simp add: tx_frame_def ctx_frame same_setup_def tx_active_def)

lemma push_event_fields [ctx_frame]:
  "tx_state (snd (wl_push_event c t mid a n h)) = tx_state c"
  "tx_last_message_id (snd (wl_push_event c t mid a n h)) = tx_last_message_id c"
  "tx_waiting_seq (snd (wl_push_event c t mid a n h)) = tx_waiting_seq c"
  "tx_payload (snd (wl_push_event c t mid a n h)) = tx_payload c"
  "tx_encoded_len (snd (wl_push_event c t mid a n h)) = tx_encoded_len c"
  "tx_unreliable_len (snd (wl_push_event c t mid a n h)) = tx_unreliable_len c"
  "tx_claim_active (snd (wl_push_event c t mid a n h)) = tx_claim_active c"
  "tx_claim_payload (snd (wl_push_event c t mid a n h)) = tx_claim_payload c"
  "tx_claim_reliable (snd (wl_push_event c t mid a n h)) = tx_claim_reliable c"
  "tx_inflight (snd (wl_push_event c t mid a n h)) = tx_inflight c"
  "control_len (snd (wl_push_event c t mid a n h)) = control_len c"
  "control_inflight (snd (wl_push_event c t mid a n h)) = control_inflight c"
  "control_pending (snd (wl_push_event c t mid a n h)) = control_pending c"
  "ctx_mem (snd (wl_push_event c t mid a n h)) = ctx_mem c"
  "sink_log (snd (wl_push_event c t mid a n h)) = sink_log c"
  "ctx_config (snd (wl_push_event c t mid a n h)) = ctx_config c"
  "ctx_storage (snd (wl_push_event c t mid a n h)) = ctx_storage c"
  "session_id (snd (wl_push_event c t mid a n h)) = session_id c"
  by (simp_all add: wl_push_event_def Let_def)

lemma push_tx_event_fields [ctx_frame]:
  "tx_last_message_id (wl_push_tx_event c t) = tx_last_message_id c"
  "tx_waiting_seq (wl_push_tx_event c t) = tx_waiting_seq c"
  "tx_payload (wl_push_tx_event c t) = tx_payload c"
  "tx_encoded_len (wl_push_tx_event c t) = tx_encoded_len c"
  "tx_unreliable_len (wl_push_tx_event c t) = tx_unreliable_len c"
  "tx_claim_active (wl_push_tx_event c t) = tx_claim_active c"
  "tx_claim_payload (wl_push_tx_event c t) = tx_claim_payload c"
  "tx_claim_reliable (wl_push_tx_event c t) = tx_claim_reliable c"
  "tx_inflight (wl_push_tx_event c t) = tx_inflight c"
  "control_len (wl_push_tx_event c t) = control_len c"
  "control_inflight (wl_push_tx_event c t) = control_inflight c"
  "control_pending (wl_push_tx_event c t) = control_pending c"
  "ctx_mem (wl_push_tx_event c t) = ctx_mem c"
  "sink_log (wl_push_tx_event c t) = sink_log c"
  "ctx_config (wl_push_tx_event c t) = ctx_config c"
  "ctx_storage (wl_push_tx_event c t) = ctx_storage c"
  "session_id (wl_push_tx_event c t) = session_id c"
  by (simp_all add: wl_push_tx_event_def case_prod_beta ctx_frame)

lemma wl_push_event_tx_frame: "tx_frame c (snd (wl_push_event c t mid a n h))"
  by (rule tx_frame_silent) (simp_all add: same_setup_def tx_active_def ctx_frame)

lemma wl_push_tx_event_tx_frame: "tx_frame c (wl_push_tx_event c t)"
  by (rule tx_frame_silent) (simp_all add: same_setup_def tx_active_def ctx_frame)

lemma wl_send_ack_tx_frame:
  assumes "view_session_id view \<noteq> 0" shows "tx_frame c (snd (wl_send_ack c view))"
proof -
  obtain r n m where enc: "wl_link_encode (ctx_config c) (ctx_mem c) (ack_packet (ctx_config c) view)
      (st_control_unit (ctx_storage c)) (st_control_unit_size (ctx_storage c)) = (r, n, m)"
    by (metis prod_cases3)
  note range = wl_link_encode_range [OF ack_header_size [OF assms] enc]
  have ok: "tx_frame c (c\<lparr>ctx_mem := m, control_len := n, control_pending := True\<rparr>)" if "\<not> control_pending c"
    using that range(2) changes_in_mono [OF range(1), of "rx_area c \<union> control_area c"]
    by (simp add: tx_frame_def same_setup_def tx_active_def control_ok_def control_area_def)
  show ?thesis
    using enc tx_frame_trans [OF ok wl_submit_control_tx_frame] range(4)
    by (auto simp: wl_send_ack_def Let_def)
qed

lemma wl_handle_ack_tx_frame: "tx_frame c (snd (wl_handle_ack c view))"
proof -
  have "tx_frame c (c\<lparr>tx_state := WL_TX_STATE_SUCCESS, tx_wait_state := w,
      tx_waiting_seq := s, tx_retries_left := r, tx_result_code := e\<rparr>)"
    "tx_frame c (c\<lparr>tx_state := WL_TX_STATE_SUCCESS, tx_wait_state := w,
      tx_waiting_seq := s, tx_retries_left := r, tx_result_code := e, tx_queued := False, in_flight_reliable := False\<rparr>)" for w s r e
    by (rule tx_frame_silent; simp add: same_setup_def tx_active_def)+
  then show ?thesis
    using tx_frame_trans [OF _ wl_push_tx_event_tx_frame] by (simp add: wl_handle_ack_def Let_def)
qed

lemma wl_frame_route_view_tx_frame:
  assumes "view_ok view" shows "tx_frame c (snd (wl_frame_route_view c view))"
proof -
  have k: "tx_frame c (c\<lparr>rx_counters := k\<rparr>)" for k
    by (rule tx_frame_silent) (simp_all add: same_setup_def tx_active_def)
  have ev: "tx_frame x (x\<lparr>ctx_event := ev, rx_session_id := sid, rx_sequence := s, rx_have_reliable := b\<rparr>)"
    for x ev sid s b by (rule tx_frame_silent) (simp_all add: same_setup_def tx_active_def)
  define d where "d = snd (wl_push_event c WL_EVT_RELIABLE_RX (view_message_id view)
    (span_data (view_payload view)) (span_length (view_payload view)) 0)"
  have d: "tx_frame c d" by (simp add: d_def wl_push_event_tx_frame)
  show ?thesis
  proof (cases "view_type view = WL_PACKET_DATA \<and> view_flags view AND WL_PACKET_FLAG_RELIABLE \<noteq> 0")
    case True
    then have sid: "view_session_id view \<noteq> 0" using assms by (simp add: view_ok_def)
    show ?thesis
      using True d tx_frame_trans [OF k wl_send_ack_tx_frame [OF sid]]
        tx_frame_trans [OF tx_frame_trans [OF d ev] wl_send_ack_tx_frame [OF sid]]
      by (simp add: wl_frame_route_view_def Let_def case_prod_beta d_def)
  next
    case False
    then show ?thesis
      using k wl_push_event_tx_frame wl_handle_ack_tx_frame by (auto simp: wl_frame_route_view_def Let_def)
  qed
qed

section \<open>The receive ring in its buffer\<close>

text \<open>A remembered delimiter lies among the bytes that were searched, whatever the memory holds now.\<close>

definition hint_ok :: "wl_rx_bipbuf \<Rightarrow> bool" where
  "hint_ok r \<longleftrightarrow> (find_found r \<longrightarrow> find_offset r < find_scanned r)"

definition ring_in :: "wl_rx_bipbuf \<Rightarrow> addr \<Rightarrow> nat \<Rightarrow> bool" where
  "ring_in r a n \<longleftrightarrow> ring_inv r \<and> hint_ok r \<and> ring_memory r = a \<and> ring_capacity r = n"

definition ring_at :: "wl_ctx_impl \<Rightarrow> bool" where
  "ring_at c \<longleftrightarrow> (envelope (ctx_config c) = WL_ENVELOPE_COBS_STREAM \<longrightarrow>
     ring_in (rx_ring c) (st_rx_fifo (ctx_storage c)) (st_rx_fifo_size (ctx_storage c)))"

lemma ring_exec_memory: "ring_memory (snd (ring_exec op (m, r))) = ring_memory r"
  by (cases op)
     (auto simp: wl_rx_ring_producer_reserve_def wl_rx_ring_producer_commit_def wl_rx_ring_dma_claim_def
       dma_normalise_def wl_rx_ring_dma_publish_def wl_rx_ring_dma_finish_def wl_rx_ring_dma_abort_def
       wl_rx_ring_producer_note_overflow_def wl_rx_ring_consumer_find_def wl_rx_ring_consumer_consume_def
       wl_rx_ring_consumer_take_overflow_def Let_def find_dma_claim_def split: option.splits prod.splits)

lemma memchr_bound: "memchr m base v n = Some i \<Longrightarrow> i < n"
  by (induction n arbitrary: base i) (auto split: if_splits)

lemma rx_find_loop_bound: "rx_find_loop fuel m r v rd readable off = Some i \<Longrightarrow> i < readable"
proof (induction fuel arbitrary: off)
  case (Suc fuel)
  define cur where "cur = cursor_advance (ring_capacity r * 2) rd off"
  define len where "len = contiguous_length (ring_capacity r) cur (readable - off)"
  have "len \<le> readable - off" by (simp add: len_def contiguous_length_def Let_def)
  then have "off + j < readable" if "memchr m b v len = Some j" for b j using memchr_bound [OF that] by simp
  with Suc show ?case
    by (auto simp: Let_def cur_def [symmetric] len_def [symmetric] split: if_splits option.splits)
qed simp

lemma find_in_readable:
  assumes "hint_ok r" "wl_rx_ring_consumer_find m r v = (Inr i, r')"
  shows "i < fst (readable_snapshot r)"
  using assms
  by (auto simp: hint_ok_def wl_rx_ring_consumer_find_def Let_def case_prod_beta
      simp del: rx_find_loop.simps dest: rx_find_loop_bound split: if_splits option.splits)

lemma find_hint: "hint_ok r \<Longrightarrow> hint_ok (snd (wl_rx_ring_consumer_find m r v))"
  by (auto simp: hint_ok_def wl_rx_ring_consumer_find_def Let_def case_prod_beta
      simp del: rx_find_loop.simps dest: rx_find_loop_bound split: option.splits)

lemma ring_exec_hint: "hint_ok r \<Longrightarrow> hint_ok (snd (ring_exec op (m, r)))"
  using find_hint [of r m]
  by (cases op)
     (auto simp: hint_ok_def wl_rx_ring_producer_reserve_def wl_rx_ring_producer_commit_def wl_rx_ring_dma_claim_def
       dma_normalise_def wl_rx_ring_dma_publish_def wl_rx_ring_dma_finish_def wl_rx_ring_dma_abort_def
       wl_rx_ring_producer_note_overflow_def wl_rx_ring_consumer_consume_def
       wl_rx_ring_consumer_take_overflow_def Let_def find_dma_claim_def split: option.splits prod.splits)

lemma ring_exec_in: "ring_in r a n \<Longrightarrow> ring_in (snd (ring_exec op (m, r))) a n"
  using ring_step [of r op m] ring_exec_memory [of op m r] ring_exec_hint [of r op m]
  by (auto simp: ring_in_def ring_step_ok_def split: prod.splits)

lemma ring_ops_in:
  assumes "ring_in r a n"
  shows "ring_in (snd (wl_rx_ring_producer_reserve r)) a n"
    "ring_in (snd (wl_rx_ring_producer_commit r k)) a n"
    "ring_in (snd (wl_rx_ring_dma_claim r k)) a n"
    "ring_in (snd (wl_rx_ring_dma_publish r cl off k)) a n"
    "ring_in (snd (wl_rx_ring_dma_finish r cl)) a n"
    "ring_in (snd (wl_rx_ring_dma_abort r)) a n"
    "ring_in (wl_rx_ring_producer_note_overflow r) a n"
    "ring_in (snd (wl_rx_ring_consumer_find m r v)) a n"
    "ring_in (snd (wl_rx_ring_consumer_consume r k)) a n"
    "ring_in (snd (wl_rx_ring_consumer_take_overflow r)) a n"
  using ring_exec_in [OF assms, of Reserve] ring_exec_in [OF assms, of "Commit k"]
    ring_exec_in [OF assms, of "Dma_claim k"] ring_exec_in [OF assms, of "Dma_publish cl off k"]
    ring_exec_in [OF assms, of "Dma_finish cl"] ring_exec_in [OF assms, of Dma_abort]
    ring_exec_in [OF assms, of Note_overflow] ring_exec_in [OF assms, of "Find v" m]
    ring_exec_in [OF assms, of "Consume k"] ring_exec_in [OF assms, of Take_overflow] by simp_all

lemma peek_area:
  assumes "ring_in r a n"
  shows "area (span_data (wl_rx_ring_consumer_peek r)) (span_length (wl_rx_ring_consumer_peek r)) \<subseteq> area a n"
  using ring_invD [of r] assms
  by (auto simp: ring_in_def wl_rx_ring_consumer_peek_def contiguous_length_def Let_def split: if_splits)

lemma reserve_area:
  assumes "ring_in r a n" "wl_rx_ring_producer_reserve r = (Inr span, r')"
  shows "area (span_data span) (span_length span) \<subseteq> area a n"
  using ring_invD [of r] assms
  by (auto simp: ring_in_def wl_rx_ring_producer_reserve_def contiguous_length_def Let_def split: if_splits)

lemma copy_range: "changes_in (area out len) m (snd (wl_rx_ring_consumer_copy m r off out len))"
proof -
  have "changes_in (area out len) m (memmove m out x k)" if "k \<le> len" for x k
    using that by (intro changes_in_memmove) auto
  moreover have "changes_in (area out len) m (memmove (memmove m out x k) (out + k) y (len - k))" if "k < len" for x y k
    using that by (intro changes_in_trans [OF changes_in_memmove changes_in_memmove]) auto
  moreover have "contiguous_length n cur len \<le> len" for n cur by (simp add: contiguous_length_def Let_def)
  ultimately show ?thesis by (simp add: wl_rx_ring_consumer_copy_def Let_def case_prod_beta)
qed

section \<open>What the routing of frames leaves alone\<close>

lemma push_event_rx [ctx_frame]:
  "rx_ring (snd (wl_push_event c t mid a n h)) = rx_ring c"
  "rx_units (snd (wl_push_event c t mid a n h)) = rx_units c"
  "rx_event_leased (snd (wl_push_event c t mid a n h)) = rx_event_leased c"
  "rx_pending_consume (snd (wl_push_event c t mid a n h)) = rx_pending_consume c"
  "rx_candidate_source (snd (wl_push_event c t mid a n h)) = rx_candidate_source c"
  by (simp_all add: wl_push_event_def Let_def)

lemma push_tx_event_rx [ctx_frame]:
  "rx_ring (wl_push_tx_event c t) = rx_ring c"
  "rx_units (wl_push_tx_event c t) = rx_units c"
  "rx_event_leased (wl_push_tx_event c t) = rx_event_leased c"
  "rx_pending_consume (wl_push_tx_event c t) = rx_pending_consume c"
  "rx_candidate_source (wl_push_tx_event c t) = rx_candidate_source c"
  by (simp_all add: wl_push_tx_event_def case_prod_beta ctx_frame)

lemma submit_control_rx [ctx_frame]:
  "rx_ring (snd (wl_submit_control c)) = rx_ring c"
  "rx_units (snd (wl_submit_control c)) = rx_units c"
  "rx_event_leased (snd (wl_submit_control c)) = rx_event_leased c"
  "rx_pending_consume (snd (wl_submit_control c)) = rx_pending_consume c"
  "rx_candidate_source (snd (wl_submit_control c)) = rx_candidate_source c"
  "has_event (snd (wl_submit_control c)) = has_event c"
  "ctx_event (snd (wl_submit_control c)) = ctx_event c"
  "rx_payload (snd (wl_submit_control c)) = rx_payload c"
  by (simp_all add: wl_submit_control_def call_sink_def Let_def split: option.splits wl_sink_result.splits)

lemma send_ack_rx [ctx_frame]:
  "rx_ring (snd (wl_send_ack c view)) = rx_ring c"
  "rx_units (snd (wl_send_ack c view)) = rx_units c"
  "rx_event_leased (snd (wl_send_ack c view)) = rx_event_leased c"
  "rx_pending_consume (snd (wl_send_ack c view)) = rx_pending_consume c"
  "rx_candidate_source (snd (wl_send_ack c view)) = rx_candidate_source c"
  "has_event (snd (wl_send_ack c view)) = has_event c"
  "ctx_event (snd (wl_send_ack c view)) = ctx_event c"
  "rx_payload (snd (wl_send_ack c view)) = rx_payload c"
  "ctx_config (snd (wl_send_ack c view)) = ctx_config c"
  "ctx_storage (snd (wl_send_ack c view)) = ctx_storage c"
  by (simp_all add: wl_send_ack_def Let_def case_prod_beta ctx_frame)

lemma handle_ack_rx [ctx_frame]:
  "rx_ring (snd (wl_handle_ack c view)) = rx_ring c"
  "rx_units (snd (wl_handle_ack c view)) = rx_units c"
  "rx_event_leased (snd (wl_handle_ack c view)) = rx_event_leased c"
  "rx_pending_consume (snd (wl_handle_ack c view)) = rx_pending_consume c"
  "rx_candidate_source (snd (wl_handle_ack c view)) = rx_candidate_source c"
  by (simp_all add: wl_handle_ack_def Let_def ctx_frame)

lemma route_view_rx [ctx_frame]:
  "rx_ring (snd (wl_frame_route_view c view)) = rx_ring c"
  "rx_units (snd (wl_frame_route_view c view)) = rx_units c"
  "rx_event_leased (snd (wl_frame_route_view c view)) = rx_event_leased c"
  "rx_pending_consume (snd (wl_frame_route_view c view)) = rx_pending_consume c"
  "rx_candidate_source (snd (wl_frame_route_view c view)) = rx_candidate_source c"
  by (simp_all add: wl_frame_route_view_def Let_def case_prod_beta ctx_frame)

lemma parse_stream_rx [ctx_frame]:
  "rx_ring (snd (wl_feed_parse_stream c a n)) = rx_ring c"
  "rx_units (snd (wl_feed_parse_stream c a n)) = rx_units c"
  "rx_event_leased (snd (wl_feed_parse_stream c a n)) = rx_event_leased c"
  "rx_pending_consume (snd (wl_feed_parse_stream c a n)) = rx_pending_consume c"
  "rx_candidate_source (snd (wl_feed_parse_stream c a n)) = rx_candidate_source c"
  by (simp_all add: wl_feed_parse_stream_def wl_frame_bad_frame_def Let_def case_prod_beta ctx_frame split: sum.split)

lemma parse_wire_rx [ctx_frame]:
  "rx_ring (snd (wl_feed_parse_wire c a n)) = rx_ring c"
  "rx_units (snd (wl_feed_parse_wire c a n)) = rx_units c"
  "rx_event_leased (snd (wl_feed_parse_wire c a n)) = rx_event_leased c"
  "rx_pending_consume (snd (wl_feed_parse_wire c a n)) = rx_pending_consume c"
  "rx_candidate_source (snd (wl_feed_parse_wire c a n)) = rx_candidate_source c"
  by (simp_all add: wl_feed_parse_wire_def wl_frame_bad_frame_def ctx_frame split: sum.split)

lemma feed_unit_raw_rx [ctx_frame]:
  "rx_ring (snd (wl_feed_unit_raw c a n)) = rx_ring c"
  "rx_units (snd (wl_feed_unit_raw c a n)) = rx_units c"
  "rx_event_leased (snd (wl_feed_unit_raw c a n)) = rx_event_leased c"
  "rx_pending_consume (snd (wl_feed_unit_raw c a n)) = rx_pending_consume c"
  "rx_candidate_source (snd (wl_feed_unit_raw c a n)) = rx_candidate_source c"
  by (simp_all add: wl_feed_unit_raw_def count_malformed_def Let_def ctx_frame)

section \<open>The receive loops\<close>

text \<open>\<open>rx_path c c'\<close>: with the ring in its buffer, the step leaves it there and is a \<open>tx_frame\<close>.\<close>

definition rx_path :: "wl_ctx_impl \<Rightarrow> wl_ctx_impl \<Rightarrow> bool" where
  "rx_path c c' \<longleftrightarrow> (ring_at c \<longrightarrow> tx_frame c c' \<and> ring_at c')"

lemma rx_path_refl [simp]: "rx_path c c"
  by (simp add: rx_path_def)

lemma rx_path_trans: "rx_path c c' \<Longrightarrow> rx_path c' c'' \<Longrightarrow> rx_path c c''"
  using tx_frame_trans by (auto simp: rx_path_def)

lemma rx_path_frame: "tx_frame c c' \<Longrightarrow> rx_ring c' = rx_ring c \<Longrightarrow> rx_path c c'"
  by (simp add: rx_path_def ring_at_def tx_frame_def same_setup_def)

lemma rx_path_ring:
  assumes "\<And>a n. ring_in (rx_ring c) a n \<Longrightarrow> ring_in r a n"
  shows "rx_path c (c\<lparr>rx_ring := r\<rparr>)"
  unfolding rx_path_def
  using assms by (auto simp: ring_at_def same_setup_def tx_active_def intro!: tx_frame_silent)

lemma rx_path_unrelated:
  "rx_path c (c\<lparr>rx_pending_consume := n\<rparr>)" "rx_path c (c\<lparr>rx_candidate_source := src\<rparr>)"
  "rx_path c (c\<lparr>rx_counters := k\<rparr>)" "rx_path c (c\<lparr>rx_units := q\<rparr>)"
  "rx_path c (c\<lparr>rx_units := q, rx_candidate_source := src\<rparr>)"
  by (rule rx_path_frame [OF tx_frame_silent]; simp add: same_setup_def tx_active_def)+

lemma consume_rx_path: "rx_path c (consume_rx c n)"
  unfolding consume_rx_def by (rule rx_path_ring) (rule ring_ops_in)

lemma fifo_area_cobs:
  "envelope (ctx_config c) = WL_ENVELOPE_COBS_STREAM \<Longrightarrow>
   area (st_rx_fifo (ctx_storage c)) (st_rx_fifo_size (ctx_storage c)) \<subseteq> rx_area c"
  by (simp add: rx_area_def fifo_area_def)

lemma stream_candidate_path:
  assumes "stream_candidate c n = Some (a, c')" "envelope (ctx_config c) = WL_ENVELOPE_COBS_STREAM" "ring_at c"
  shows "tx_frame c c'" "rx_ring c' = rx_ring c" "area a n \<subseteq> rx_area c'" "ctx_config c' = ctx_config c"
proof -
  have ring: "ring_in (rx_ring c) (st_rx_fifo (ctx_storage c)) (st_rx_fifo_size (ctx_storage c))"
    using assms by (simp add: ring_at_def)
  have copy: "tx_frame c (c\<lparr>ctx_mem := snd (wl_rx_ring_consumer_copy (ctx_mem c) (rx_ring c) 0
      (st_rx_fallback (ctx_storage c)) n), rx_candidate_source := src\<rparr>)"
    if "n \<le> st_rx_fallback_size (ctx_storage c)" for src
  proof (rule tx_frame_trans [OF tx_frame_mem tx_frame_silent])
    show "changes_in (rx_area c) (ctx_mem c)
       (snd (wl_rx_ring_consumer_copy (ctx_mem c) (rx_ring c) 0 (st_rx_fallback (ctx_storage c)) n))"
      by (rule changes_in_mono [OF copy_range])
         (use area_mono [OF that] in \<open>auto simp: rx_area_def fallback_area_def\<close>)
  qed (simp_all add: same_setup_def tx_active_def)
  have src: "tx_frame c (c\<lparr>rx_candidate_source := src\<rparr>)" for src
    by (rule tx_frame_silent) (simp_all add: same_setup_def tx_active_def)
  show "rx_ring c' = rx_ring c" "ctx_config c' = ctx_config c"
    using assms(1) by (auto simp: stream_candidate_def Let_def split: if_splits prod.splits)
  show "tx_frame c c'"
    using assms(1) copy src by (auto simp: stream_candidate_def Let_def case_prod_beta split: if_splits)
  show "area a n \<subseteq> rx_area c'"
  proof (cases "n \<le> span_length (wl_rx_ring_consumer_peek (rx_ring c))")
    case True
    then have "a = span_data (wl_rx_ring_consumer_peek (rx_ring c))" "rx_area c' = rx_area c"
      using assms(1) by (auto simp: stream_candidate_def Let_def area_defs)
    then show ?thesis
      using peek_area [OF ring] area_mono [OF True] fifo_area_cobs [OF assms(2)] by blast
  next
    case False
    then have "a = st_rx_fallback (ctx_storage c)" "rx_area c' = rx_area c" "n \<le> st_rx_fallback_size (ctx_storage c)"
      using assms(1) by (auto simp: stream_candidate_def Let_def area_defs split: if_splits prod.splits)
    then show ?thesis using area_mono by (auto simp: rx_area_def fallback_area_def)
  qed
qed

lemma wl_feed_parse_stream_tx_frame:
  assumes "area a n \<subseteq> rx_area c" shows "tx_frame c (snd (wl_feed_parse_stream c a n))"
proof -
  obtain r m where dec: "wl_link_decode_stream (ctx_config c) (ctx_mem c) a n = (r, m)"
    by (rule prod.exhaust)
  have m: "tx_frame c (c\<lparr>ctx_mem := m\<rparr>)"
    using wl_link_decode_range [OF dec] assms by (intro tx_frame_mem) (auto intro: changes_in_mono)
  have bad: "tx_frame c (c\<lparr>ctx_mem := m, rx_counters := k\<rparr>)" for k
    by (rule tx_frame_trans [OF m tx_frame_silent]) (simp_all add: same_setup_def tx_active_def)
  show ?thesis
  proof (cases r)
    case (Inl e)
    then show ?thesis using m bad dec by (simp add: wl_feed_parse_stream_def wl_frame_bad_frame_def Let_def)
  next
    case (Inr view)
    then have "view_ok view" using wl_link_decode_view_ok dec by simp
    then show ?thesis
      using Inr dec tx_frame_trans [OF m wl_frame_route_view_tx_frame] by (simp add: wl_feed_parse_stream_def Let_def)
  qed
qed

lemma wl_feed_unit_raw_tx_frame: "tx_frame c (snd (wl_feed_unit_raw c a n))"
proof -
  have k: "tx_frame c (c\<lparr>rx_counters := k\<rparr>)" for k
    by (rule tx_frame_silent) (simp_all add: same_setup_def tx_active_def)
  have "tx_frame c (snd (wl_feed_parse_wire c a n))" for a n
    using k wl_frame_decode_view_ok wl_frame_route_view_tx_frame
    by (auto simp: wl_feed_parse_wire_def wl_frame_bad_frame_def split: sum.split)
  then show ?thesis using k by (simp add: wl_feed_unit_raw_def count_malformed_def Let_def)
qed

lemma stream_iteration_path:
  assumes "envelope (ctx_config c) = WL_ENVELOPE_COBS_STREAM"
  shows "rx_path c (snd (stream_iteration c))"
proof -
  define d where "d = c\<lparr>rx_ring := snd (wl_rx_ring_consumer_find (ctx_mem c) (rx_ring c) 0)\<rparr>"
  have d: "rx_path c d" unfolding d_def by (rule rx_path_ring) (rule ring_ops_in)
  have upd: "rx_path c (x\<lparr>rx_pending_consume := k\<rparr>)" "rx_path c (consume_rx x k)"
    "rx_path c ((consume_rx x k)\<lparr>rx_candidate_source := src\<rparr>)"
    "rx_path c ((consume_rx x k)\<lparr>rx_pending_consume := j\<rparr>)"
    "rx_path c (consume_rx (x\<lparr>rx_counters := ct\<rparr>) k)" if "rx_path c x" for x k j src ct
    using rx_path_trans [OF that rx_path_unrelated(1)] rx_path_trans [OF that consume_rx_path]
      rx_path_trans [OF rx_path_trans [OF that consume_rx_path] rx_path_unrelated(2)]
      rx_path_trans [OF rx_path_trans [OF that consume_rx_path] rx_path_unrelated(1)]
      rx_path_trans [OF rx_path_trans [OF that rx_path_unrelated(3)] consume_rx_path] by blast+
  have parsed: "rx_path c (snd (wl_feed_parse_stream c' a n))" if "stream_candidate d n = Some (a, c')" for n a c'
  proof (rule rx_path_trans [OF d], unfold rx_path_def, rule impI)
    assume at: "ring_at d"
    note cand = stream_candidate_path [OF that _ at]
    have "tx_frame d (snd (wl_feed_parse_stream c' a n))"
      using cand wl_feed_parse_stream_tx_frame tx_frame_trans assms by (simp add: d_def)
    then show "tx_frame d (snd (wl_feed_parse_stream c' a n)) \<and> ring_at (snd (wl_feed_parse_stream c' a n))"
      using at cand assms by (simp add: ring_at_def ctx_frame tx_frame_def same_setup_def d_def)
  qed
  show ?thesis
    using d upd parsed
    by (simp add: stream_iteration_def Let_def case_prod_beta flip: d_def split: sum.split option.split)
qed

lemma stream_iteration_config: "ctx_config (snd (stream_iteration c)) = ctx_config c"
  using stream_iteration_moves [of c] by (simp add: moves_def same_setup_def)

lemma stream_loop_path:
  "envelope (ctx_config c) = WL_ENVELOPE_COBS_STREAM \<Longrightarrow> rx_path c (stream_loop fuel c)"
proof (induction fuel arbitrary: c)
  case (Suc fuel)
  then have "rx_path (snd (stream_iteration c)) (stream_loop fuel (snd (stream_iteration c)))"
    by (simp add: stream_iteration_config)
  then show ?case
    using rx_path_trans [OF stream_iteration_path [OF Suc.prems]] stream_iteration_path [OF Suc.prems]
    by (simp add: stream_loop.simps Let_def case_prod_beta)
qed (simp add: stream_loop.simps)

lemma unit_iteration_path: "rx_path c (snd (unit_iteration c))"
proof -
  define d where "d = c\<lparr>rx_candidate_source := WL_RX_SOURCE_UNIT\<rparr>"
  have "rx_path c d" unfolding d_def by (rule rx_path_unrelated)
  then have fed: "rx_path c (snd (wl_feed_unit_raw d a n))" for a n
    by (rule rx_path_trans [OF _ rx_path_frame [OF wl_feed_unit_raw_tx_frame]]) (simp add: ctx_frame)
  show ?thesis
    using fed rx_path_trans [OF fed rx_path_unrelated(1)] rx_path_trans [OF fed rx_path_unrelated(5)]
    by (simp add: unit_iteration_def Let_def d_def)
qed

lemma unit_loop_path: "rx_path c (unit_loop fuel c)"
proof (induction fuel arbitrary: c)
  case (Suc fuel)
  show ?case
    using rx_path_trans [OF unit_iteration_path Suc.IH] unit_iteration_path
    by (simp add: unit_loop.simps Let_def case_prod_beta)
qed (simp add: unit_loop.simps)

lemma wl_link_process_rx_path: "rx_path c (wl_link_process_rx c)"
proof (cases "envelope (ctx_config c) = WL_ENVELOPE_COBS_STREAM")
  case True
  define d where "d = c\<lparr>rx_ring := snd (wl_rx_ring_consumer_take_overflow (rx_ring c))\<rparr>"
  have d: "rx_path c d" unfolding d_def by (rule rx_path_ring) (rule ring_ops_in)
  have e: "rx_path c (consume_rx (d\<lparr>rx_counters := k\<rparr>) n)" for k n
    by (rule rx_path_trans [OF rx_path_trans [OF d rx_path_unrelated(3)] consume_rx_path])
  have "rx_path c (stream_loop fuel d)" "rx_path c (stream_loop fuel (consume_rx (d\<lparr>rx_counters := k\<rparr>) n))" for k n fuel
    using rx_path_trans [OF d stream_loop_path] rx_path_trans [OF e stream_loop_path] True
    by (simp_all add: d_def consume_rx_def)
  then show ?thesis
    using True
    by (simp add: wl_link_process_rx_def wl_frame_process_stream_def Let_def case_prod_beta flip: d_def)
next
  case False
  then show ?thesis using unit_loop_path by (simp add: wl_link_process_rx_def wl_frame_process_units_def)
qed

section \<open>Producers\<close>

lemma rx_wrappers_path:
  "rx_path c (snd (wl_rx_reserve c))" "rx_path c (snd (wl_rx_commit c n))"
  "rx_path c (wl_rx_note_overflow c)" "rx_path c (snd (wl_rx_dma_claim c n))"
  "rx_path c (snd (wl_rx_dma_publish c k off n))" "rx_path c (snd (wl_rx_dma_finish c k))"
  "rx_path c (snd (wl_rx_dma_abort c))" "rx_path c (snd (wl_feed_recover_reset c))"
  "rx_path c (snd (wl_link_get_readiness c now))" "rx_path c (upd_units c q)"
  by (auto intro!: rx_path_ring ring_ops_in rx_path_unrelated split: sum.split
      simp: wl_rx_reserve_def wl_rx_commit_def wl_rx_note_overflow_def wl_rx_dma_claim_def
      wl_rx_dma_publish_def wl_rx_dma_finish_def wl_rx_dma_abort_def wl_feed_recover_reset_def
      wl_link_get_readiness_def wl_rx_runnable_def upd_units_def case_prod_beta Let_def)

lemma wl_event_release_path: "rx_path c (wl_event_release c ev)"
proof -
  have s: "rx_path x (x\<lparr>rx_event_leased := b, resource_generation := g\<rparr>)"
    "rx_path x (x\<lparr>rx_pending_consume := k\<rparr>)" "rx_path x (x\<lparr>rx_candidate_source := src, rx_payload := p\<rparr>)" for x b g k src p
    by (rule rx_path_frame [OF tx_frame_silent]; simp add: same_setup_def tx_active_def)+
  define d where "d = c\<lparr>rx_event_leased := False, resource_generation := resource_generation c + 1\<rparr>"
  have d: "rx_path c d" using s by (simp add: d_def)
  have e: "rx_path c (d\<lparr>rx_units := q\<rparr>)" "rx_path c (d\<lparr>rx_ring := snd (wl_rx_ring_consumer_consume (rx_ring d) n)\<rparr>)" for q n
    using rx_path_trans [OF d rx_path_unrelated(4)] rx_path_trans [OF d rx_path_ring] ring_ops_in(9) by blast+
  show ?thesis
    using rx_path_trans [OF d s(3)] rx_path_trans [OF rx_path_trans [OF e(1) s(2)] s(3)]
      rx_path_trans [OF rx_path_trans [OF e(2) s(2)] s(3)]
    by (simp add: wl_event_release_def Let_def flip: d_def)
qed

text \<open>The copy into a reservation stays in the ring's buffer.\<close>

lemma reserve_copy_path:
  assumes "wl_rx_reserve c = (Inr span, d)" "n \<le> span_length span"
  shows "rx_path c (d\<lparr>ctx_mem := memmove (ctx_mem d) (span_data span) src n\<rparr>)"
proof -
  have cobs: "envelope (ctx_config c) = WL_ENVELOPE_COBS_STREAM"
    and res: "wl_rx_ring_producer_reserve (rx_ring c) = (Inr span, rx_ring d)" and d: "d = c\<lparr>rx_ring := rx_ring d\<rparr>"
    using assms(1) by (auto simp: wl_rx_reserve_def stream_only_def split: if_splits prod.splits)
  have "rx_path d (d\<lparr>ctx_mem := memmove (ctx_mem d) (span_data span) src n\<rparr>)" if "ring_at c"
  proof (rule rx_path_frame [OF tx_frame_mem [OF changes_in_memmove]])
    have "ring_in (rx_ring c) (st_rx_fifo (ctx_storage c)) (st_rx_fifo_size (ctx_storage c))"
      using that cobs by (simp add: ring_at_def)
    moreover have "rx_area d = rx_area c" by (subst d) (simp add: area_defs)
    ultimately show "area (span_data span) n \<subseteq> rx_area d"
      using reserve_area [OF _ res] area_mono [OF assms(2)] fifo_area_cobs [OF cobs] by blast
  qed simp
  then show ?thesis
    using rx_path_trans [OF rx_wrappers_path(1), of c] assms(1) by (auto simp: rx_path_def)
qed

lemma feed_bytes_loop_path: "rx_path c (snd (snd (feed_bytes_loop c data len k)))"
proof (induction c data len k rule: feed_bytes_loop.induct)
  case (1 c data len k)
  define d where "d = snd (wl_rx_reserve c)"
  define e where "e sp ch = snd (wl_rx_commit (d\<lparr>ctx_mem := memmove (ctx_mem d) sp (data + k) ch\<rparr>) ch)" for sp ch
  have d: "rx_path c d" "rx_path c (snd (wl_rx_commit d n))" for n
    using rx_wrappers_path(1) rx_path_trans [OF _ rx_wrappers_path(2)] by (auto simp: d_def)
  have e: "rx_path c (e (span_data sp) ch)" if "wl_rx_reserve c = (Inr sp, d)" "ch \<le> span_length sp" for sp ch
    unfolding e_def by (rule rx_path_trans [OF reserve_copy_path [OF that] rx_wrappers_path(2)])
  have *: "rx_path c (snd (snd (feed_bytes_loop (e (span_data sp) ch) data len (k + ch))))"
    if "k < len" "wl_rx_reserve c = (Inr sp, d)" "span_length sp \<noteq> 0"
      "ch = (if len - k > span_length sp then span_length sp else len - k)"
      "fst (wl_rx_commit (d\<lparr>ctx_mem := memmove (ctx_mem d) (span_data sp) (data + k) ch\<rparr>) ch) = WL_OK" for sp ch
    using that by (intro rx_path_trans [OF e 1]) (auto simp: e_def prod_eq_iff)
  show ?case
    using d e * by (subst feed_bytes_loop.simps)
      (auto simp: Let_def case_prod_beta d_def e_def prod_eq_iff split: prod.split sum.split)
qed

lemma feed_ops_path:
  "rx_path c (snd (snd (wl_feed_bytes c a n)))" "rx_path c (snd (wl_feed_unit c a n))"
proof -
  have over: "rx_path x (x\<lparr>rx_ring := wl_rx_ring_producer_note_overflow (rx_ring x)\<rparr>)" for x
    by (rule rx_path_ring) (rule ring_ops_in)
  have feed: "rx_path c (snd (snd (wl_feed_bytes c a n)))" for a n
    using feed_bytes_loop_path rx_path_trans [OF feed_bytes_loop_path over]
    by (simp add: wl_feed_bytes_def Let_def case_prod_beta)
  then show "rx_path c (snd (snd (wl_feed_bytes c a n)))" .
  have raw: "rx_path x (snd (wl_feed_unit_raw x a n))" for x a n
    by (rule rx_path_frame [OF wl_feed_unit_raw_tx_frame]) (simp add: ctx_frame)
  have "rx_path c (c\<lparr>ctx_mem := memmove (ctx_mem c) (st_rx_fallback (ctx_storage c)) a n\<rparr>)"
    if "n \<le> st_rx_fallback_size (ctx_storage c)" for a n
    by (rule rx_path_frame [OF tx_frame_mem [OF changes_in_memmove]])
       (use area_mono [OF that] in \<open>auto simp: rx_area_def fallback_area_def\<close>)
  then have "rx_path c (snd (wl_frame_receive_unit c a n))" for a n
    using rx_path_trans [OF rx_path_trans [OF _ rx_path_unrelated(2)] raw] rx_path_trans [OF rx_path_unrelated(2) raw]
    by (simp add: wl_frame_receive_unit_def Let_def)
  then show "rx_path c (snd (wl_feed_unit c a n))"
    using feed by (simp add: wl_feed_unit_def case_prod_beta)
qed

text \<open>Initialisation puts the ring in its buffer and checks the transmit buffers against each other.\<close>

lemma wl_init_ring_at:
  assumes "wl_init lock_free c0 config storage = (WL_OK, c)" shows "ring_at c"
proof -
  have "\<not> find_found r'" if "wl_rx_ring_init lock_free r a n = (WL_OK, r')" for r a n r'
    using that by (auto simp: wl_rx_ring_init_def Let_def split: if_splits)
  then have "ring_in r' a n" if "wl_rx_ring_init lock_free r a n = (WL_OK, r')" for r a n r'
    using wl_rx_ring_init_inv [OF that] that by (auto simp: ring_in_def hint_ok_def)
  then show ?thesis
    using assms
    by (auto simp: wl_init_def ring_at_def wl_config_requirements_def wl_rx_ring_storage_size_def zero_ctx_def
        Let_def split: sum.splits if_splits prod.splits)
qed

end
