(* ===== verification/Link_Image.thy ===== *)
theory Link_Image
  imports Link_Memory
begin

text \<open>
  The transmitted image. A reliable transaction is encoded once and may be encoded again when its unit
  buffer was lent to an unreliable frame; the sink may read a unit long after it was submitted. The
  theory shows that every transmission of a transaction carries the same bytes, and that the bytes of a
  unit in flight stay in its buffer until the completion report.
\<close>

section \<open>The image of a transaction\<close>

definition tx_packet :: "wl_ctx_impl \<Rightarrow> wl_wire_packet" where
  "tx_packet c = \<lparr>pkt_type = WL_PACKET_DATA, pkt_integrity = integrity (ctx_config c),
     pkt_flags = WL_PACKET_FLAG_RELIABLE, pkt_message_id = tx_last_message_id c,
     pkt_session_id = session_id c, pkt_sequence = tx_waiting_seq c,
     pkt_payload = span_data (tx_payload c), pkt_payload_len = span_length (tx_payload c)\<rparr>"

definition tx_bytes :: "wl_ctx_impl \<Rightarrow> byte list" where
  "tx_bytes c = wire_frame (tx_packet c) (envelope (ctx_config c)) (integrity (ctx_config c))
     (read_bytes (ctx_mem c) (span_data (tx_payload c)) (span_length (tx_payload c)))"

text \<open>
  The payload is in the payload buffer or, for a packet encoded where its payload was claimed, behind
  the header in the unit buffer; an encoded unit is the image of the transaction.
\<close>

definition tx_ready :: "wl_ctx_impl \<Rightarrow> bool" where
  "tx_ready c \<longleftrightarrow> tx_last_message_id c \<noteq> 0 \<and> session_id c \<noteq> 0 \<and>
     span_length (tx_payload c) \<le> unat (max_payload_len (ctx_config c)) \<and>
     (span_data (tx_payload c) = st_tx_payload (ctx_storage c) \<or>
      envelope (ctx_config c) = WL_ENVELOPE_NATIVE_PACKET \<and>
      span_data (tx_payload c) = st_tx_unit (ctx_storage c) + WL_FRAME_RELIABLE_HEADER_SIZE) \<and>
     (tx_encoded_len c \<noteq> 0 \<longrightarrow>
      read_bytes (ctx_mem c) (st_tx_unit (ctx_storage c)) (tx_encoded_len c) = tx_bytes c)"

definition tx_stored :: "wl_ctx_impl \<Rightarrow> bool" where
  "tx_stored c \<longleftrightarrow> tx_ready c \<and>
     (span_data (tx_payload c) \<noteq> st_tx_payload (ctx_storage c) \<longrightarrow> tx_encoded_len c \<noteq> 0)"

definition claim_area :: "wl_ctx_impl \<Rightarrow> addr set" where
  "claim_area c = area (span_data (tx_claim_payload c)) (span_length (tx_claim_payload c))"

definition claim_ok :: "wl_ctx_impl \<Rightarrow> bool" where
  "claim_ok c \<longleftrightarrow> (tx_claim_active c \<longrightarrow> claim_area c \<subseteq> tx_area c \<and>
     (tx_active c \<longrightarrow> tx_encoded_len c = 0 \<and> claim_area c \<subseteq> unit_area c) \<and>
     (tx_claim_reliable c \<longrightarrow> span_data (tx_claim_payload c) =
        (if envelope (ctx_config c) = WL_ENVELOPE_NATIVE_PACKET
         then st_tx_unit (ctx_storage c) + WL_FRAME_RELIABLE_HEADER_SIZE else st_tx_payload (ctx_storage c))))"

definition unit_ok :: "wl_ctx_impl \<Rightarrow> bool" where
  "unit_ok c \<longleftrightarrow> tx_encoded_len c \<le> st_tx_unit_size (ctx_storage c) \<and>
     tx_unreliable_len c \<le> st_tx_unit_size (ctx_storage c) \<and>
     span_length (tx_payload c) \<le> unat (max_payload_len (ctx_config c)) \<and>
     (tx_inflight c \<longrightarrow>
        owned (ctx_mem c) (st_tx_unit (ctx_storage c)) (st_tx_unit_size (ctx_storage c)) (sink_log c))"

text \<open>What initialisation checked of the buffers.\<close>

definition sized :: "wl_ctx_impl \<Rightarrow> bool" where
  "sized c \<longleftrightarrow> unat (max_payload_len (ctx_config c)) \<le> WL_PACKET_MAX_PAYLOAD \<and>
     unat (max_payload_len (ctx_config c)) \<le> st_tx_payload_size (ctx_storage c) \<and>
     WL_FRAME_RELIABLE_HEADER_SIZE + unat (max_payload_len (ctx_config c)) \<le> st_tx_unit_size (ctx_storage c)"

definition mem_ok :: "wl_ctx_impl \<Rightarrow> bool" where
  "mem_ok c \<longleftrightarrow> sized c \<and> storage_apart c \<and> ring_at c \<and> control_ok c \<and> unit_ok c \<and> claim_ok c \<and>
     (tx_active c \<longrightarrow> tx_stored c)"

text \<open>
  \<open>carries c c'\<close>: the reliable units submitted from \<open>c\<close> to \<open>c'\<close> are the image of the transaction
  active in \<open>c\<close>, and a transaction active in \<open>c'\<close> is that one with its image.
\<close>

definition carries :: "wl_ctx_impl \<Rightarrow> wl_ctx_impl \<Rightarrow> bool" where
  "carries c c' \<longleftrightarrow> same_setup c c' \<and>
     (\<exists>calls. sink_log c' = sink_log c @ calls \<and>
        (\<forall>call \<in> set calls. sc_unit call = Reliable_unit \<longrightarrow> tx_active c \<and> sc_data call = tx_bytes c)) \<and>
     (tx_active c' \<longrightarrow> tx_active c \<and> tx_bytes c' = tx_bytes c)"

definition img_step :: "wl_ctx_impl \<Rightarrow> wl_ctx_impl \<Rightarrow> bool" where
  "img_step c c' \<longleftrightarrow> (mem_ok c \<longrightarrow> mem_ok c' \<and> carries c c')"

lemma carries_refl [simp]: "carries c c"
  by (simp add: carries_def same_setup_def)

lemma carries_trans:
  assumes "carries c c'" "carries c' c''" shows "carries c c''"
proof -
  obtain xs where xs: "sink_log c' = sink_log c @ xs"
    "\<forall>call \<in> set xs. sc_unit call = Reliable_unit \<longrightarrow> tx_active c \<and> sc_data call = tx_bytes c"
    using assms(1) unfolding carries_def by blast
  obtain ys where ys: "sink_log c'' = sink_log c' @ ys"
    "\<forall>call \<in> set ys. sc_unit call = Reliable_unit \<longrightarrow> tx_active c' \<and> sc_data call = tx_bytes c'"
    using assms(2) unfolding carries_def by blast
  have a: "tx_active c' \<longrightarrow> tx_active c \<and> tx_bytes c' = tx_bytes c"
    "tx_active c'' \<longrightarrow> tx_active c' \<and> tx_bytes c'' = tx_bytes c'"
    using assms unfolding carries_def by blast+
  have "\<forall>call \<in> set (xs @ ys). sc_unit call = Reliable_unit \<longrightarrow> tx_active c \<and> sc_data call = tx_bytes c"
    using xs(2) ys(2) a(1) by auto
  moreover have "same_setup c c''" using assms by (simp add: carries_def same_setup_def)
  ultimately show ?thesis
    unfolding carries_def using xs(1) ys(1) a by (intro conjI exI [of _ "xs @ ys"]) auto
qed

lemma img_step_refl [simp]: "img_step c c"
  by (simp add: img_step_def)

lemma img_step_trans: "img_step c c' \<Longrightarrow> img_step c' c'' \<Longrightarrow> img_step c c''"
  using carries_trans by (auto simp: img_step_def)

section \<open>Steps that leave the image alone\<close>

lemma tx_bytes_cong:
  assumes "same_setup c c'" "tx_last_message_id c' = tx_last_message_id c" "tx_waiting_seq c' = tx_waiting_seq c"
    "tx_payload c' = tx_payload c"
    "read_bytes (ctx_mem c') (span_data (tx_payload c)) (span_length (tx_payload c)) =
     read_bytes (ctx_mem c) (span_data (tx_payload c)) (span_length (tx_payload c))"
  shows "tx_bytes c' = tx_bytes c"
  using assms by (simp add: tx_bytes_def tx_packet_def same_setup_def)

lemma tx_ready_cong:
  assumes "same_setup c c'" "tx_last_message_id c' = tx_last_message_id c" "tx_waiting_seq c' = tx_waiting_seq c"
    "tx_payload c' = tx_payload c" "tx_encoded_len c' = tx_encoded_len c" "ctx_mem c' = ctx_mem c"
  shows "tx_ready c' = tx_ready c" "tx_stored c' = tx_stored c"
  using assms tx_bytes_cong [of c c'] by (simp_all add: tx_ready_def tx_stored_def same_setup_def)

lemma same_setup_claim_area: "tx_claim_payload c' = tx_claim_payload c \<Longrightarrow> claim_area c' = claim_area c"
  by (simp add: claim_area_def)

lemma img_silent:
  assumes "same_setup c c'" "ctx_mem c' = ctx_mem c" "sink_log c' = sink_log c" "rx_ring c' = rx_ring c"
    and act: "tx_active c' \<Longrightarrow> tx_active c \<and> tx_last_message_id c' = tx_last_message_id c \<and>
      tx_waiting_seq c' = tx_waiting_seq c \<and> tx_payload c' = tx_payload c \<and> tx_encoded_len c' = tx_encoded_len c"
    and "tx_encoded_len c' = tx_encoded_len c \<or> tx_encoded_len c' = 0"
    and pay: "tx_payload c' = tx_payload c \<or> span_length (tx_payload c') = 0"
    and "tx_unreliable_len c' = tx_unreliable_len c \<or> tx_unreliable_len c' = 0"
    and claim: "tx_claim_active c' \<Longrightarrow> tx_claim_active c \<and> tx_claim_payload c' = tx_claim_payload c \<and>
      tx_claim_reliable c' = tx_claim_reliable c"
    and "tx_inflight c' \<Longrightarrow> tx_inflight c" "control_len c' = control_len c"
    and "control_inflight c' \<Longrightarrow> control_inflight c \<and> (control_pending c \<longrightarrow> control_pending c')"
  shows "img_step c c'"
  unfolding img_step_def
proof
  assume ok: "mem_ok c"
  note areas = same_setup_areas [OF assms(1)]
  have st: "ctx_storage c' = ctx_storage c" "ctx_config c' = ctx_config c" using assms(1) by (simp_all add: same_setup_def)
  have bytes: "tx_active c' \<Longrightarrow> tx_bytes c' = tx_bytes c" "tx_active c' \<Longrightarrow> tx_stored c' = tx_stored c"
    using tx_bytes_cong [OF assms(1)] tx_ready_cong(2) [OF assms(1)] act assms(2) by simp_all
  have "sized c'" "storage_apart c'" "ring_at c'"
    using ok areas st assms(4) by (simp_all add: mem_ok_def sized_def ring_at_def)
  moreover have "control_ok c'" using ok st assms(2,3,11,12) by (auto simp: mem_ok_def control_ok_def)
  moreover have "unit_ok c'" using ok st assms(2,3,6-8,10) by (auto simp: mem_ok_def unit_ok_def)
  moreover have "claim_ok c'"
    using ok claim act areas st same_setup_claim_area [of c' c] by (auto simp: mem_ok_def claim_ok_def)
  moreover have "tx_active c' \<longrightarrow> tx_stored c'" using ok act bytes by (auto simp: mem_ok_def)
  ultimately show "mem_ok c' \<and> carries c c'"
    using assms(1,3) act bytes by (simp add: mem_ok_def carries_def)
qed

lemma payload_in_tx_area:
  assumes "sized c" "tx_ready c"
  shows "area (span_data (tx_payload c)) (span_length (tx_payload c)) \<subseteq> tx_area c"
  using assms by (auto simp: sized_def tx_ready_def tx_area_def unit_area_def payload_area_def)

lemma stored_elsewhere:
  assumes "sized c" "tx_ready c" "span_data (tx_payload c) = st_tx_payload (ctx_storage c)"
  shows "area (span_data (tx_payload c)) (span_length (tx_payload c)) \<subseteq> payload_area c"
  using assms by (auto simp: sized_def tx_ready_def payload_area_def)

lemma rx_path_img:
  assumes "rx_path c c'" shows "img_step c c'"
  unfolding img_step_def
proof
  assume ok: "mem_ok c"
  then have f: "tx_frame c c'" and ring: "ring_at c'" using assms by (simp_all add: rx_path_def mem_ok_def)
  from f have su: "same_setup c c'" and ch: "changes_in (rx_area c \<union> control_area c) (ctx_mem c) (ctx_mem c')"
    and act: "tx_active c' \<longrightarrow> tx_active c \<and> tx_last_message_id c' = tx_last_message_id c \<and>
        tx_waiting_seq c' = tx_waiting_seq c"
    and len: "tx_payload c' = tx_payload c" "tx_encoded_len c' = tx_encoded_len c" "tx_unreliable_len c' = tx_unreliable_len c"
    and claim: "tx_claim_active c' = tx_claim_active c" "tx_claim_payload c' = tx_claim_payload c"
      "tx_claim_reliable c' = tx_claim_reliable c"
    and inf: "tx_inflight c' = tx_inflight c" and ctl: "control_ok c'"
    using ok unfolding tx_frame_def mem_ok_def by blast+
  obtain calls where calls: "sink_log c' = sink_log c @ calls" "\<forall>call \<in> set calls. sc_unit call = Control_unit"
    "tx_inflight c \<longrightarrow> calls = []" using f unfolding tx_frame_def by blast
  note areas = same_setup_areas [OF su]
  have st: "ctx_storage c' = ctx_storage c" "ctx_config c' = ctx_config c" using su by (simp_all add: same_setup_def)
  have apart: "tx_area c \<inter> (rx_area c \<union> control_area c) = {}"
    using ok by (auto simp: mem_ok_def storage_apart_def tx_area_def)
  have keep: "read_bytes (ctx_mem c') a n = read_bytes (ctx_mem c) a n" if "area a n \<subseteq> tx_area c" for a n
    using changes_in_read [OF ch] apart that by blast
  have bytes: "tx_bytes c' = tx_bytes c \<and> tx_stored c'" if "tx_active c'"
  proof -
    have stored: "tx_stored c" using ok act that by (simp add: mem_ok_def)
    then have "tx_bytes c' = tx_bytes c"
      using tx_bytes_cong [OF su] act len that keep payload_in_tx_area [of c] ok by (simp add: tx_stored_def mem_ok_def)
    moreover have "area (st_tx_unit (ctx_storage c)) (tx_encoded_len c) \<subseteq> tx_area c"
      using ok area_mono by (auto simp: mem_ok_def unit_ok_def tx_area_def unit_area_def)
    ultimately show ?thesis
      using stored act that st len keep su by (simp add: tx_stored_def tx_ready_def same_setup_def)
  qed
  have "unit_area c \<inter> (rx_area c \<union> control_area c) = {}" using apart by (auto simp: tx_area_def)
  then have "unit_ok c'"
    using ok st len inf calls owned_changes [OF _ ch] by (auto simp: mem_ok_def unit_ok_def unit_area_def)
  moreover have "claim_ok c'"
    using ok claim act areas st len same_setup_claim_area [of c' c] by (auto simp: mem_ok_def claim_ok_def)
  ultimately show "mem_ok c' \<and> carries c c'"
    using ok ring ctl areas st act bytes calls su by (auto simp: mem_ok_def carries_def sized_def)
qed

section \<open>Encoding and submitting\<close>

lemma tx_packet_header: "sized c \<Longrightarrow> tx_ready c \<Longrightarrow> frame_header_size (tx_packet c) = Inr 16"
  by (simp add: frame_header_size_def tx_packet_def wl_frame_packet_header_size_def tx_ready_def sized_def)

lemma read_write_middle:
  "length h = k \<Longrightarrow> length bs = n \<Longrightarrow> read_bytes (write_bytes m a (h @ bs @ t)) (a + k) n = bs"
  by (rule nth_equalityI) (auto simp: write_bytes_def nth_append)

lemma native_payload:
  assumes "length payload = n"
  shows "read_bytes (write_bytes m a (wire_frame (tx_packet c) WL_ENVELOPE_NATIVE_PACKET integ payload)) (a + 16) n = payload"
proof -
  define h where "h = frame_write_header (tx_packet c) (pkt_header_len (tx_packet c))"
  have "length h = 16"
    unfolding h_def length_frame_write_header by (simp add: pkt_header_len_def tx_packet_def)
  moreover have "wire_frame (tx_packet c) WL_ENVELOPE_NATIVE_PACKET integ payload = h @ payload @ integrity_bytes integ (h @ payload)"
    by (simp add: wire_frame_def envelop_def raw_frame_def Let_def h_def)
  ultimately show ?thesis using assms by (simp only: read_write_middle)
qed

lemma wire_frame_nonempty: "wire_frame p env integ payload \<noteq> []"
proof
  assume "wire_frame p env integ payload = []"
  then have "length (raw_frame p integ payload) = 0" by (auto simp: wire_frame_def envelop_def split: if_splits)
  then show False by (simp add: length_raw_frame pkt_header_len_def split: if_splits)
qed

lemma encode_image:
  assumes "sized c" "storage_apart c" "tx_ready c"
    and "wl_link_encode (ctx_config c) (ctx_mem c) (tx_packet c) (st_tx_unit (ctx_storage c))
           (st_tx_unit_size (ctx_storage c)) = (WL_OK, n, m)"
  shows "tx_ready (c\<lparr>ctx_mem := m, tx_encoded_len := n\<rparr>)" "tx_bytes (c\<lparr>ctx_mem := m, tx_encoded_len := n\<rparr>) = tx_bytes c"
    "n \<noteq> 0" "n \<le> st_tx_unit_size (ctx_storage c)" "changes_in (unit_area c) (ctx_mem c) m"
proof -
  note range = wl_link_encode_range [OF tx_packet_header [OF assms(1,3)] assms(4)]
  let ?d = "c\<lparr>ctx_mem := m, tx_encoded_len := n\<rparr>"
  let ?p = "read_bytes (ctx_mem c) (span_data (tx_payload c)) (span_length (tx_payload c))"
  have m: "m = write_bytes (ctx_mem c) (st_tx_unit (ctx_storage c)) (tx_bytes c)" and n: "n = length (tx_bytes c)"
    using range(3) by (simp_all add: tx_bytes_def tx_packet_def)
  show "n \<le> st_tx_unit_size (ctx_storage c)" "changes_in (unit_area c) (ctx_mem c) m"
    using range(1,2) by (simp_all add: unit_area_def)
  show "n \<noteq> 0" using n wire_frame_nonempty by (simp add: tx_bytes_def)
  have "read_bytes m (span_data (tx_payload c)) (span_length (tx_payload c)) = ?p"
  proof (cases "span_data (tx_payload c) = st_tx_payload (ctx_storage c)")
    case True
    then show ?thesis
      using stored_elsewhere [OF assms(1,3)] assms(2) range(1)
      by (intro changes_in_read) (auto simp: storage_apart_def unit_area_def)
  next
    case False
    then have "envelope (ctx_config c) = WL_ENVELOPE_NATIVE_PACKET"
      "span_data (tx_payload c) = st_tx_unit (ctx_storage c) + 16"
      using assms(3) by (auto simp: tx_ready_def)
    then show ?thesis unfolding m using native_payload [of ?p] by (simp add: tx_bytes_def)
  qed
  then show bytes: "tx_bytes ?d = tx_bytes c" by (intro tx_bytes_cong) (simp_all add: same_setup_def)
  show "tx_ready ?d" using assms(3) bytes unfolding tx_ready_def by (simp add: m n)
qed

lemma submit_data_fields [ctx_frame]:
  "ctx_mem (snd (wl_submit_data c b)) = ctx_mem c"
  "ctx_config (snd (wl_submit_data c b)) = ctx_config c"
  "ctx_storage (snd (wl_submit_data c b)) = ctx_storage c"
  "session_id (snd (wl_submit_data c b)) = session_id c"
  "tx_last_message_id (snd (wl_submit_data c b)) = tx_last_message_id c"
  "tx_waiting_seq (snd (wl_submit_data c b)) = tx_waiting_seq c"
  "tx_payload (snd (wl_submit_data c b)) = tx_payload c"
  "tx_encoded_len (snd (wl_submit_data c b)) = tx_encoded_len c"
  "tx_claim_active (snd (wl_submit_data c b)) = tx_claim_active c"
  "tx_claim_payload (snd (wl_submit_data c b)) = tx_claim_payload c"
  "tx_claim_reliable (snd (wl_submit_data c b)) = tx_claim_reliable c"
  "control_len (snd (wl_submit_data c b)) = control_len c"
  "control_inflight (snd (wl_submit_data c b)) = control_inflight c"
  "control_pending (snd (wl_submit_data c b)) = control_pending c"
  "rx_ring (snd (wl_submit_data c b)) = rx_ring c"
  by (cases "sink c"; simp add: wl_submit_data_def wl_complete_unreliable_tx_def call_sink_def Let_def
      split: wl_sink_result.split)+

lemma submit_data_unreliable_len:
  "tx_unreliable_len (snd (wl_submit_data c b)) = tx_unreliable_len c \<or> tx_unreliable_len (snd (wl_submit_data c b)) = 0"
  by (cases "sink c") (simp_all add: wl_submit_data_def wl_complete_unreliable_tx_def call_sink_def Let_def
      split: wl_sink_result.split)

text \<open>The call a submission makes, and the unit it leaves in flight.\<close>

lemma submit_data_log:
  "\<exists>calls. sink_log (snd (wl_submit_data c b)) = sink_log c @ calls \<and>
     (\<forall>call \<in> set calls. sc_unit call = (if b then Reliable_unit else Unreliable_unit) \<and>
        sc_data call = read_bytes (ctx_mem c) (st_tx_unit (ctx_storage c))
          (if b then tx_encoded_len c else tx_unreliable_len c))"
  by (cases "sink c") (simp_all add: wl_submit_data_def wl_complete_unreliable_tx_def call_sink_def Let_def
      split: wl_sink_result.split)

lemma submit_data_owned:
  assumes "\<not> tx_inflight c" "(if b then tx_encoded_len c else tx_unreliable_len c) \<le> st_tx_unit_size (ctx_storage c)"
    "tx_inflight (snd (wl_submit_data c b))"
  shows "owned (ctx_mem c) (st_tx_unit (ctx_storage c)) (st_tx_unit_size (ctx_storage c))
           (sink_log (snd (wl_submit_data c b)))"
  using assms
  by (cases "sink c"; cases b) (simp_all add: wl_submit_data_def wl_complete_unreliable_tx_def call_sink_def Let_def
      owned_def split: wl_sink_result.splits if_splits)

lemma submit_data_unit_ok:
  assumes "unit_ok c" "\<not> tx_inflight c" shows "unit_ok (snd (wl_submit_data c b))"
  using assms submit_data_owned [OF assms(2), of b] submit_data_unreliable_len [of c b]
  by (auto simp: unit_ok_def ctx_frame)

text \<open>\<open>sends_image c c'\<close>: from \<open>c\<close> to \<open>c'\<close> the image of the transaction was submitted, or nothing.\<close>

definition sends_image :: "wl_ctx_impl \<Rightarrow> wl_ctx_impl \<Rightarrow> bool" where
  "sends_image c c' \<longleftrightarrow> same_setup c c' \<and> changes_in (unit_area c) (ctx_mem c) (ctx_mem c') \<and>
     tx_ready c' \<and> tx_bytes c' = tx_bytes c \<and> unit_ok c' \<and>
     (\<exists>calls. sink_log c' = sink_log c @ calls \<and> (\<forall>call \<in> set calls. sc_data call = tx_bytes c)) \<and>
     tx_claim_active c' = tx_claim_active c \<and> tx_claim_payload c' = tx_claim_payload c \<and>
     tx_claim_reliable c' = tx_claim_reliable c \<and>
     control_len c' = control_len c \<and> control_inflight c' = control_inflight c \<and>
     control_pending c' = control_pending c \<and> rx_ring c' = rx_ring c \<and>
     span_data (tx_payload c') = span_data (tx_payload c)"

lemma submit_reliable_image:
  assumes "tx_ready c" "unit_ok c" "\<not> tx_inflight c" "tx_encoded_len c \<noteq> 0"
  shows "sends_image c (snd (wl_submit_data c True))"
proof -
  have su: "same_setup c (snd (wl_submit_data c True))" by (simp add: same_setup_def ctx_frame)
  have "tx_bytes (snd (wl_submit_data c True)) = tx_bytes c"
    by (rule tx_bytes_cong [OF su]) (simp_all add: ctx_frame)
  moreover have "tx_ready (snd (wl_submit_data c True))"
    using assms(1) tx_ready_cong(1) [OF su] by (simp add: ctx_frame)
  moreover have "read_bytes (ctx_mem c) (st_tx_unit (ctx_storage c)) (tx_encoded_len c) = tx_bytes c"
    using assms(1,4) by (simp add: tx_ready_def)
  ultimately show ?thesis
    using su submit_data_log [of c True] submit_data_unit_ok [OF assms(2,3)] unfolding sends_image_def by (auto simp: ctx_frame)
qed

lemma unit_ok_encoded:
  assumes "unit_ok c" "\<not> tx_inflight c" "n \<le> st_tx_unit_size (ctx_storage c)"
  shows "unit_ok (c\<lparr>ctx_mem := m, tx_encoded_len := n\<rparr>)" "unit_ok (c\<lparr>ctx_mem := m\<rparr>)"
  using assms by (simp_all add: unit_ok_def)

lemma send_tx_payload_image:
  assumes "sized c" "storage_apart c" "tx_ready c" "unit_ok c" "\<not> tx_inflight c"
  shows "sends_image c (snd (wl_send_tx_payload c))"
    "fst (wl_send_tx_payload c) = WL_OK \<or> tx_encoded_len c \<noteq> 0 \<Longrightarrow>
     tx_encoded_len (snd (wl_send_tx_payload c)) \<noteq> 0"
proof -
  have refl: "sends_image c c" using assms by (simp add: sends_image_def same_setup_def)
  obtain r n m where enc: "wl_link_encode (ctx_config c) (ctx_mem c) (tx_packet c) (st_tx_unit (ctx_storage c))
           (st_tx_unit_size (ctx_storage c)) = (r, n, m)" by (metis prod_cases3)
  define d where "d = c\<lparr>ctx_mem := m, tx_encoded_len := n\<rparr>"
  have fail: "r \<noteq> WL_OK \<Longrightarrow> m = ctx_mem c"
    using wl_link_encode_range(4) [OF tx_packet_header [OF assms(1,3)] enc] by simp
  have sent: "sends_image c (snd (wl_submit_data d True)) \<and> tx_encoded_len (snd (wl_submit_data d True)) \<noteq> 0"
    if r: "r = WL_OK"
  proof -
    note img = encode_image [OF assms(1-3) enc [unfolded r]]
    have "sends_image d (snd (wl_submit_data d True))"
      using submit_reliable_image [of d] img unit_ok_encoded [OF assms(4,5)] assms(5) by (simp add: d_def)
    moreover have "unit_area d = unit_area c" "tx_bytes d = tx_bytes c"
      using img by (simp_all add: d_def unit_area_def)
    ultimately show ?thesis
      using img changes_in_trans [OF img(5)] unfolding sends_image_def by (simp add: d_def same_setup_def ctx_frame)
  qed
  show "sends_image c (snd (wl_send_tx_payload c))"
    using refl sent enc fail submit_reliable_image [OF assms(3-5)]
    by (simp add: wl_send_tx_payload_def Let_def d_def flip: tx_packet_def)
  show "fst (wl_send_tx_payload c) = WL_OK \<or> tx_encoded_len c \<noteq> 0 \<Longrightarrow>
      tx_encoded_len (snd (wl_send_tx_payload c)) \<noteq> 0"
    using sent enc by (auto simp: wl_send_tx_payload_def Let_def d_def ctx_frame simp flip: tx_packet_def split: if_splits)
qed

section \<open>Each step keeps the image\<close>

text \<open>Changes confined to the unit buffer, with no unit in flight and no claim.\<close>

lemma sends_image_mem_ok:
  assumes "mem_ok c" "sends_image c c'" "\<not> control_inflight c" "\<not> tx_claim_active c"
    and "tx_active c' \<Longrightarrow> tx_stored c'"
  shows "mem_ok c'"
proof -
  from assms(2) have su: "same_setup c c'" "unit_ok c'" "tx_claim_active c' = tx_claim_active c"
    "control_len c' = control_len c" "control_inflight c' = control_inflight c" "rx_ring c' = rx_ring c"
    unfolding sends_image_def by blast+
  then show ?thesis
    using assms(1,3-) same_setup_areas(8) [OF su(1)]
    by (simp add: mem_ok_def sized_def ring_at_def control_ok_def claim_ok_def same_setup_def)
qed

lemma send_tx_payload_stored:
  assumes "mem_ok c" "tx_ready c" "\<not> tx_inflight c" "fst (wl_send_tx_payload c) = WL_OK \<or> tx_stored c"
  shows "tx_stored (snd (wl_send_tx_payload c))"
proof -
  have parts: "sized c" "storage_apart c" "unit_ok c" using assms(1) by (simp_all add: mem_ok_def)
  note img = send_tx_payload_image [OF parts(1,2) assms(2) parts(3) assms(3)]
  have "span_data (tx_payload (snd (wl_send_tx_payload c))) = span_data (tx_payload c)"
    "ctx_storage (snd (wl_send_tx_payload c)) = ctx_storage c" "tx_ready (snd (wl_send_tx_payload c))"
    using img(1) unfolding sends_image_def same_setup_def by blast+
  then show ?thesis using img(2) assms(4) by (auto simp: tx_stored_def)
qed

lemma resend_img:
  assumes "tx_active c" "\<not> tx_inflight c" "\<not> control_inflight c" "\<not> tx_claim_active c"
  shows "img_step c (snd (wl_send_tx_payload c))"
  unfolding img_step_def
proof
  assume ok: "mem_ok c"
  then have parts: "sized c" "storage_apart c" "tx_ready c" "unit_ok c" "tx_stored c"
    using assms(1) by (simp_all add: mem_ok_def tx_stored_def)
  note img = send_tx_payload_image(1) [OF parts(1-4) assms(2)]
  have "mem_ok (snd (wl_send_tx_payload c))"
    by (rule sends_image_mem_ok [OF ok img assms(3,4)])
       (use send_tx_payload_stored [OF ok parts(3) assms(2)] parts(5) in simp)
  then show "mem_ok (snd (wl_send_tx_payload c)) \<and> carries c (snd (wl_send_tx_payload c))"
    using img assms(1) unfolding sends_image_def carries_def by blast
qed

lemma invalidate_fields [ctx_frame]:
  "ctx_config (wl_invalidate_tx_image c) = ctx_config c" "ctx_storage (wl_invalidate_tx_image c) = ctx_storage c"
  "session_id (wl_invalidate_tx_image c) = session_id c" "sink_log (wl_invalidate_tx_image c) = sink_log c"
  "tx_state (wl_invalidate_tx_image c) = tx_state c" "tx_last_message_id (wl_invalidate_tx_image c) = tx_last_message_id c"
  "tx_waiting_seq (wl_invalidate_tx_image c) = tx_waiting_seq c" "tx_encoded_len (wl_invalidate_tx_image c) = 0"
  "tx_unreliable_len (wl_invalidate_tx_image c) = tx_unreliable_len c"
  "tx_claim_payload (wl_invalidate_tx_image c) = tx_claim_payload c"
  "tx_claim_reliable (wl_invalidate_tx_image c) = tx_claim_reliable c"
  "control_len (wl_invalidate_tx_image c) = control_len c"
  "control_pending (wl_invalidate_tx_image c) = control_pending c" "rx_ring (wl_invalidate_tx_image c) = rx_ring c"
  "tx_handle (wl_invalidate_tx_image c) = tx_handle c"
  "span_length (tx_payload (wl_invalidate_tx_image c)) = span_length (tx_payload c)"
  by (simp_all add: wl_invalidate_tx_image_def Let_def)

lemma invalidate_payload:
  shows "tx_handle c \<noteq> 0 \<Longrightarrow> span_data (tx_payload (wl_invalidate_tx_image c)) = st_tx_payload (ctx_storage c)"
    "tx_handle c \<noteq> 0 \<Longrightarrow>
     read_bytes (ctx_mem (wl_invalidate_tx_image c)) (st_tx_payload (ctx_storage c)) (span_length (tx_payload c)) =
     read_bytes (ctx_mem c) (span_data (tx_payload c)) (span_length (tx_payload c))"
    "sized c \<Longrightarrow> unit_ok c \<Longrightarrow> changes_in (payload_area c) (ctx_mem c) (ctx_mem (wl_invalidate_tx_image c))"
proof -
  show "tx_handle c \<noteq> 0 \<Longrightarrow> span_data (tx_payload (wl_invalidate_tx_image c)) = st_tx_payload (ctx_storage c)"
    "tx_handle c \<noteq> 0 \<Longrightarrow> read_bytes (ctx_mem (wl_invalidate_tx_image c)) (st_tx_payload (ctx_storage c)) (span_length (tx_payload c)) =
     read_bytes (ctx_mem c) (span_data (tx_payload c)) (span_length (tx_payload c))"
    by (simp_all add: wl_invalidate_tx_image_def Let_def memmove_def)
  assume "sized c" "unit_ok c"
  then have "area (st_tx_payload (ctx_storage c)) (span_length (tx_payload c)) \<subseteq> payload_area c"
    by (auto simp: sized_def unit_ok_def payload_area_def)
  then show "changes_in (payload_area c) (ctx_mem c) (ctx_mem (wl_invalidate_tx_image c))"
    by (simp add: wl_invalidate_tx_image_def Let_def changes_in_memmove)
qed

lemma invalidate_img:
  assumes "tx_active c \<Longrightarrow> tx_handle c \<noteq> 0" "\<not> tx_claim_active c"
  shows "img_step c (wl_invalidate_tx_image c)"
  unfolding img_step_def
proof
  let ?d = "wl_invalidate_tx_image c"
  assume ok: "mem_ok c"
  then have parts: "sized c" "storage_apart c" "unit_ok c" by (simp_all add: mem_ok_def)
  have su: "same_setup c ?d" by (simp add: same_setup_def ctx_frame)
  note ch = invalidate_payload(3) [OF parts(1,3)]
  have act: "tx_active ?d = tx_active c" by (simp add: tx_active_def ctx_frame)
  have bytes: "tx_bytes ?d = tx_bytes c \<and> tx_stored ?d" if "tx_active c"
  proof -
    have "tx_bytes ?d = tx_bytes c"
      using invalidate_payload(1,2) [of c] assms(1) that
      by (simp add: tx_bytes_def tx_packet_def wire_frame_def raw_frame_def frame_write_header_def pkt_header_len_def
          frame_packet_kind_def ctx_frame)
    then show ?thesis
      using ok that assms(1) invalidate_payload(1) [of c]
      by (simp add: mem_ok_def tx_stored_def tx_ready_def ctx_frame)
  qed
  have "control_area c \<inter> payload_area c = {}" using parts(2) by (auto simp: storage_apart_def)
  then have "control_ok ?d"
    using ok owned_changes [OF _ ch] by (auto simp: mem_ok_def control_ok_def control_area_def ctx_frame)
  moreover have "unit_ok ?d"
    using parts owned_changes [OF _ ch] by (auto simp: unit_ok_def storage_apart_def unit_area_def ctx_frame)
  ultimately show "mem_ok ?d \<and> carries c ?d"
    using ok act bytes su assms(2) same_setup_areas(8) [OF su]
    by (simp add: mem_ok_def carries_def sized_def ring_at_def claim_ok_def ctx_frame)
qed

text \<open>An unreliable frame overwrites the unit buffer after the image was invalidated.\<close>

lemma unit_overwrite_img:
  assumes "changes_in (unit_area c) (ctx_mem c) m" "n \<le> st_tx_unit_size (ctx_storage c)"
    "tx_encoded_len c = 0" "\<not> tx_inflight c" "\<not> tx_claim_active c"
  shows "img_step c (c\<lparr>ctx_mem := m, tx_unreliable_len := n\<rparr>)"
  unfolding img_step_def
proof
  let ?d = "c\<lparr>ctx_mem := m, tx_unreliable_len := n\<rparr>"
  assume ok: "mem_ok c"
  have su: "same_setup c ?d" by (simp add: same_setup_def)
  have act: "tx_active ?d = tx_active c" by (simp add: tx_active_def)
  have bytes: "tx_bytes ?d = tx_bytes c \<and> tx_stored ?d" if "tx_active c"
  proof -
    have stored: "tx_ready c" "span_data (tx_payload c) = st_tx_payload (ctx_storage c)" "sized c"
      "unit_area c \<inter> payload_area c = {}"
      using ok that assms(3) by (auto simp: mem_ok_def tx_stored_def storage_apart_def)
    have "tx_bytes ?d = tx_bytes c"
      by (rule tx_bytes_cong [OF su])
         (use changes_in_read [OF assms(1)] stored_elsewhere [OF stored(3,1,2)] stored(4) in \<open>auto\<close>)
    then show ?thesis using stored assms(3) by (simp add: tx_stored_def tx_ready_def)
  qed
  have "control_area c \<inter> unit_area c = {}" using ok by (auto simp: mem_ok_def storage_apart_def)
  then have "control_ok ?d"
    using ok owned_changes [OF _ assms(1)] by (auto simp: mem_ok_def control_ok_def control_area_def)
  moreover have "unit_ok ?d" using ok assms(2,4) by (simp add: mem_ok_def unit_ok_def)
  ultimately show "mem_ok ?d \<and> carries c ?d"
    using ok act bytes su assms(5) same_setup_areas(8) [OF su]
    by (simp add: mem_ok_def carries_def sized_def ring_at_def claim_ok_def)
qed

lemma submit_unreliable_state: "tx_state (snd (wl_submit_data c False)) = tx_state c"
  by (cases "sink c") (simp_all add: wl_submit_data_def wl_complete_unreliable_tx_def call_sink_def Let_def
      split: wl_sink_result.split)

lemma submit_unreliable_img:
  assumes "\<not> tx_inflight c" "\<not> control_inflight c"
  shows "img_step c (snd (wl_submit_data c False))"
  unfolding img_step_def
proof
  let ?d = "snd (wl_submit_data c False)"
  assume ok: "mem_ok c"
  have su: "same_setup c ?d" by (simp add: same_setup_def ctx_frame)
  have act: "tx_active ?d = tx_active c" by (simp add: tx_active_def submit_unreliable_state)
  have bytes: "tx_bytes ?d = tx_bytes c" by (rule tx_bytes_cong [OF su]) (simp_all add: ctx_frame)
  have stored: "tx_stored ?d = tx_stored c" by (rule tx_ready_cong [OF su]) (simp_all add: ctx_frame)
  have "unit_ok ?d" by (rule submit_data_unit_ok) (use ok assms in \<open>simp_all add: mem_ok_def\<close>)
  then show "mem_ok ?d \<and> carries c ?d"
    using ok act bytes stored su assms(2) same_setup_areas [OF su] submit_data_log [of c False]
    by (auto simp: mem_ok_def carries_def sized_def ring_at_def claim_ok_def control_ok_def claim_area_def ctx_frame)
qed

lemma data_header_size:
  assumes "pkt_type p = WL_PACKET_DATA" "pkt_flags p = 0 \<or> pkt_flags p = 1 \<and> pkt_session_id p \<noteq> 0"
    "pkt_message_id p \<noteq> 0" "pkt_payload_len p \<le> WL_PACKET_MAX_PAYLOAD"
  shows "\<exists>hl. frame_header_size p = Inr hl"
  using assms by (auto simp: frame_header_size_def)

lemma send_frame_unreliable_img:
  assumes inv: "link_inv c" and claim: "\<not> tx_claim_active c"
    and pkt: "pkt_type pkt = WL_PACKET_DATA" "pkt_flags pkt = 0"
  shows "img_step c (snd (snd (wl_send_frame_internal c pkt False direct now)))"
proof (cases "wl_data_busy c False \<or> pkt_message_id pkt = 0 \<or> unat (max_payload_len (ctx_config c)) < pkt_payload_len pkt \<or> \<not> sized c")
  case True
  then show ?thesis by (auto simp: wl_send_frame_internal_def Let_def img_step_def mem_ok_def)
next
  case False
  then have idle: "\<not> tx_inflight c" "\<not> control_inflight c" using data_idle [OF inv, of False] by simp_all
  define d where "d = wl_invalidate_tx_image c"
  have d: "img_step c d" unfolding d_def
    by (rule invalidate_img) (use inv claim in \<open>auto simp: link_inv_def trans_inv_def tx_active_def\<close>)
  have flags: "tx_encoded_len d = 0" "\<not> tx_inflight d" "\<not> control_inflight d" "\<not> tx_claim_active d"
    using idle claim by (simp_all add: d_def ctx_frame)
  obtain r n m where enc: "wl_link_encode (ctx_config d) (ctx_mem d) pkt (st_tx_unit (ctx_storage d))
           (st_tx_unit_size (ctx_storage d)) = (r, n, m)" by (metis prod_cases3)
  obtain hl where hl: "frame_header_size pkt = Inr hl"
    using data_header_size [of pkt] pkt False by (auto simp: sized_def)
  note range = wl_link_encode_range [OF hl enc]
  have e: "img_step c (d\<lparr>ctx_mem := m, tx_unreliable_len := n\<rparr>)"
    by (rule img_step_trans [OF d unit_overwrite_img]) (use range flags in \<open>simp_all add: unit_area_def\<close>)
  have "img_step c (snd (wl_submit_data (d\<lparr>ctx_mem := m, tx_unreliable_len := n\<rparr>) False))"
    by (rule img_step_trans [OF e submit_unreliable_img]) (use flags in simp_all)
  then show ?thesis
    using e enc by (simp add: wl_send_frame_internal_def Let_def case_prod_beta flip: d_def)
qed

section \<open>Opening a transaction\<close>

definition reliable_image :: "wl_ctx_impl \<Rightarrow> u16 \<Rightarrow> u32 \<Rightarrow> byte list \<Rightarrow> byte list" where
  "reliable_image c mid sequence payload = wire_frame
     \<lparr>pkt_type = WL_PACKET_DATA, pkt_integrity = integrity (ctx_config c), pkt_flags = WL_PACKET_FLAG_RELIABLE,
      pkt_message_id = mid, pkt_session_id = session_id c, pkt_sequence = sequence,
      pkt_payload = NULL, pkt_payload_len = length payload\<rparr>
     (envelope (ctx_config c)) (integrity (ctx_config c)) payload"

lemma tx_bytes_image:
  "tx_bytes c = reliable_image c (tx_last_message_id c) (tx_waiting_seq c)
     (read_bytes (ctx_mem c) (span_data (tx_payload c)) (span_length (tx_payload c)))"
  by (simp add: tx_bytes_def tx_packet_def reliable_image_def wire_frame_def raw_frame_def frame_write_header_def
      pkt_header_len_def frame_packet_kind_def)

definition opens_with :: "byte list \<Rightarrow> wl_ctx_impl \<Rightarrow> wl_ctx_impl \<Rightarrow> bool" where
  "opens_with w c c' \<longleftrightarrow> mem_ok c' \<and> same_setup c c' \<and>
     (\<exists>calls. sink_log c' = sink_log c @ calls \<and> (\<forall>call \<in> set calls. sc_data call = w)) \<and>
     (tx_active c' \<longrightarrow> tx_bytes c' = w)"

lemma failed_send_state:
  "fst (wl_send_tx_payload c) \<noteq> WL_OK \<Longrightarrow> tx_state (snd (wl_send_tx_payload c)) = tx_state c"
proof -
  have "fst (wl_submit_data c True) \<noteq> WL_OK \<Longrightarrow> tx_state (snd (wl_submit_data c True)) = tx_state c" for c
    by (cases "sink c") (auto simp: wl_submit_data_def call_sink_def Let_def split: wl_sink_result.splits)
  then show "fst (wl_send_tx_payload c) \<noteq> WL_OK \<Longrightarrow> tx_state (snd (wl_send_tx_payload c)) = tx_state c"
    by (auto simp: wl_send_tx_payload_def Let_def case_prod_beta split: if_splits)
qed

text \<open>A payload stored for a transaction that is not active yet.\<close>

lemma prepared_mem_ok:
  assumes "mem_ok c" "\<not> tx_active p" "changes_in (payload_area c) (ctx_mem c) (ctx_mem p)" "same_setup c p"
    "\<not> tx_inflight p" "\<not> control_inflight p" "\<not> tx_claim_active p" "rx_ring p = rx_ring c" "control_len p = control_len c"
    "tx_encoded_len p = 0" "tx_unreliable_len p = tx_unreliable_len c" "span_length (tx_payload p) \<le> unat (max_payload_len (ctx_config c))"
  shows "mem_ok p"
  using assms same_setup_areas(8) [OF assms(4)]
  by (simp add: mem_ok_def sized_def ring_at_def control_ok_def claim_ok_def unit_ok_def same_setup_def)

lemma prepared_opens:
  assumes ok: "mem_ok p" and idle: "tx_state p = WL_TX_STATE_IDLE" "\<not> tx_inflight p" "\<not> control_inflight p" "\<not> tx_claim_active p"
    and ready: "tx_ready p"
  shows "opens_with (tx_bytes p) p (snd (wl_send_tx_payload p))"
proof -
  have parts: "sized p" "storage_apart p" "unit_ok p" using ok by (simp_all add: mem_ok_def)
  note img = send_tx_payload_image [OF parts(1,2) ready parts(3) idle(2)]
  have "tx_active (snd (wl_send_tx_payload p)) \<Longrightarrow> fst (wl_send_tx_payload p) = WL_OK"
    using failed_send_state [of p] idle(1)
    by (cases "fst (wl_send_tx_payload p) = WL_OK") (auto simp: tx_active_def)
  then have "mem_ok (snd (wl_send_tx_payload p))"
    using send_tx_payload_stored [OF ok ready idle(2)] by (intro sends_image_mem_ok [OF ok img(1) idle(3,4)]) blast
  then show ?thesis using img(1) unfolding sends_image_def opens_with_def by blast
qed

lemma opens_aborted:
  assumes "opens_with w c c'"
  shows "opens_with w c (c'\<lparr>tx_handle := h, tx_state := WL_TX_STATE_IDLE, tx_waiting_seq := q, tx_wait_state := ws,
    tx_retries_left := r, tx_payload := \<lparr>span_data = a, span_length = 0\<rparr>, tx_last_message_id := mid, tx_encoded_len := 0\<rparr>)"
    (is "opens_with w c ?d")
proof -
  have "img_step c' ?d"
    by (rule img_silent) (simp_all add: same_setup_def tx_active_def)
  then have "mem_ok ?d" using assms by (simp add: img_step_def opens_with_def)
  moreover have "same_setup c ?d" "sink_log ?d = sink_log c'"
    using assms by (simp_all add: opens_with_def same_setup_def)
  ultimately show ?thesis using assms by (simp add: opens_with_def tx_active_def)
qed

lemma opens_result:
  assumes "opens_with w c c'" shows "opens_with w c (c'\<lparr>tx_result_code := e\<rparr>)"
proof -
  have "img_step c' (c'\<lparr>tx_result_code := e\<rparr>)" by (rule img_silent) (simp_all add: same_setup_def tx_active_def)
  moreover have "tx_bytes (c'\<lparr>tx_result_code := e\<rparr>) = tx_bytes c'" by (rule tx_bytes_cong) (simp_all add: same_setup_def)
  ultimately show ?thesis using assms by (simp add: img_step_def opens_with_def same_setup_def tx_active_def)
qed

lemma opens_trans:
  "sink_log p = sink_log c \<Longrightarrow> same_setup c p \<Longrightarrow> opens_with w p c' \<Longrightarrow> opens_with w c c'"
  by (simp add: opens_with_def same_setup_def)

lemma opens_refl: "mem_ok c \<Longrightarrow> \<not> tx_active c \<Longrightarrow> opens_with w c c"
  by (simp add: opens_with_def same_setup_def)

lemma prepare_fields [ctx_frame]:
  "ctx_config (wl_prepare_reliable_payload c pkt direct) = ctx_config c"
  "ctx_storage (wl_prepare_reliable_payload c pkt direct) = ctx_storage c"
  "session_id (wl_prepare_reliable_payload c pkt direct) = session_id c"
  "sink_log (wl_prepare_reliable_payload c pkt direct) = sink_log c"
  "tx_state (wl_prepare_reliable_payload c pkt direct) = tx_state c"
  "tx_inflight (wl_prepare_reliable_payload c pkt direct) = tx_inflight c"
  "control_inflight (wl_prepare_reliable_payload c pkt direct) = control_inflight c"
  "tx_claim_active (wl_prepare_reliable_payload c pkt direct) = tx_claim_active c"
  "rx_ring (wl_prepare_reliable_payload c pkt direct) = rx_ring c"
  "control_len (wl_prepare_reliable_payload c pkt direct) = control_len c"
  "tx_encoded_len (wl_prepare_reliable_payload c pkt direct) = 0"
  "tx_unreliable_len (wl_prepare_reliable_payload c pkt direct) = tx_unreliable_len c"
  "tx_last_message_id (wl_prepare_reliable_payload c pkt direct) = pkt_message_id pkt"
  "span_length (tx_payload (wl_prepare_reliable_payload c pkt direct)) = pkt_payload_len pkt"
  "span_data (tx_payload (wl_prepare_reliable_payload c pkt direct)) =
     (if direct then pkt_payload pkt else st_tx_payload (ctx_storage c))"
  by (simp_all add: wl_prepare_reliable_payload_def Let_def)

lemma prepare_memory:
  assumes "area (st_tx_payload (ctx_storage c)) (pkt_payload_len pkt) \<subseteq> payload_area c"
  shows "changes_in (payload_area c) (ctx_mem c) (ctx_mem (wl_prepare_reliable_payload c pkt direct))"
    "read_bytes (ctx_mem (wl_prepare_reliable_payload c pkt direct))
       (if direct then pkt_payload pkt else st_tx_payload (ctx_storage c)) (pkt_payload_len pkt) =
     read_bytes (ctx_mem c) (pkt_payload pkt) (pkt_payload_len pkt)"
  using assms by (simp_all add: wl_prepare_reliable_payload_def Let_def changes_in_write memmove_def)

lemma send_frame_reliable_opens:
  assumes inv: "link_inv c" and claim: "\<not> tx_claim_active c" and ok: "mem_ok c"
    and direct: "direct \<Longrightarrow> pkt_payload pkt = (if envelope (ctx_config c) = WL_ENVELOPE_NATIVE_PACKET
        then st_tx_unit (ctx_storage c) + WL_FRAME_RELIABLE_HEADER_SIZE else st_tx_payload (ctx_storage c))"
    and w: "w = reliable_image c (pkt_message_id pkt) (pkt_sequence pkt)
              (read_bytes (ctx_mem c) (pkt_payload pkt) (pkt_payload_len pkt))"
  shows "fst (wl_send_frame_internal c pkt True direct now) \<noteq> WL_OK \<and>
    snd (snd (wl_send_frame_internal c pkt True direct now)) = c \<or>
    \<not> tx_active c \<and> opens_with w c (snd (snd (wl_send_frame_internal c pkt True direct now)))"
proof (cases "wl_data_busy c True \<or> pkt_message_id pkt = 0 \<or> unat (max_payload_len (ctx_config c)) < pkt_payload_len pkt \<or>
    pkt_payload_len pkt \<noteq> 0 \<and> pkt_payload pkt = NULL \<or> \<not> initialized c \<or> session_id c = 0 \<or> in_callback c")
  case True
  then show ?thesis by (auto simp: wl_send_frame_internal_def)
next
  case False
  then have idle: "\<not> tx_inflight c" "\<not> control_inflight c" "tx_state c = WL_TX_STATE_IDLE"
    using data_idle [OF inv, of True] by simp_all
  define x where "x = wl_prepare_reliable_payload (c\<lparr>now_ms := now\<rparr>) pkt direct"
  define g where "g = next_tx_generation (tx_generation x)"
  define p where "p = x\<lparr>tx_generation := g, tx_handle := push_bit 16 (ucast g) OR 1, tx_waiting_seq := pkt_sequence pkt,
    tx_wait_state := WL_TX_WAIT_NONE, tx_retries_left := tx_retries_max x, tx_retries_used := 0\<rparr>"
  have sz: "sized c" using ok by (simp add: mem_ok_def)
  then have area: "area (st_tx_payload (ctx_storage c)) (pkt_payload_len pkt) \<subseteq> payload_area c"
    using False by (auto simp: sized_def payload_area_def)
  note mem = prepare_memory [of "c\<lparr>now_ms := now\<rparr>" pkt direct, simplified payload_area_def, simplified, folded payload_area_def, OF area, folded x_def]
  have su: "same_setup c p" by (simp add: p_def x_def same_setup_def ctx_frame)
  have pst: "tx_state p = WL_TX_STATE_IDLE" "\<not> tx_inflight p" "\<not> control_inflight p" "\<not> tx_claim_active p"
    using idle claim by (simp_all add: p_def x_def ctx_frame)
  have "changes_in (payload_area c) (ctx_mem c) (ctx_mem p)" using mem(1) by (simp add: p_def)
  then have pok: "mem_ok p"
    using prepared_mem_ok [OF ok _ _ su] pst False by (simp add: p_def x_def tx_active_def ctx_frame)
  have bytes: "tx_bytes p = w"
    unfolding tx_bytes_image w using mem(2) by (simp add: reliable_image_def p_def x_def ctx_frame)
  have ready: "tx_ready p"
    using False direct by (auto simp: tx_ready_def p_def x_def ctx_frame)
  have sent: "opens_with w p (snd (wl_send_tx_payload p))"
    using prepared_opens [OF pok pst ready] bytes by simp
  have log: "sink_log p = sink_log c" by (simp add: p_def x_def ctx_frame)
  have "snd (snd (wl_send_frame_internal c pkt True direct now)) =
    (let c' = snd (wl_send_tx_payload p) in
     if fst (wl_send_tx_payload p) \<noteq> WL_OK
     then c'\<lparr>tx_handle := 0, tx_state := WL_TX_STATE_IDLE, tx_waiting_seq := 0, tx_wait_state := WL_TX_WAIT_NONE,
       tx_retries_left := 0, tx_payload := \<lparr>span_data = st_tx_payload (ctx_storage c'), span_length = 0\<rparr>,
       tx_last_message_id := 0, tx_encoded_len := 0\<rparr>
     else c'\<lparr>tx_result_code := WL_ERR_BUSY\<rparr>)"
    using False by (cases "pkt_payload_len pkt = 0")
      (simp_all add: wl_send_frame_internal_def Let_def case_prod_beta p_def g_def x_def)
  then have "opens_with w p (snd (snd (wl_send_frame_internal c pkt True direct now)))"
    using opens_aborted [OF sent] opens_result [OF sent] by (simp add: Let_def)
  then show ?thesis using opens_trans [OF log su] idle(3) by (simp add: tx_active_def)
qed

end
