(* ===== verification/Link_Transmit.thy ===== *)
theory Link_Transmit
  imports Link_Image
begin

text \<open>
  Every operation of the link keeps the transmitted image: the completion reports, the poll, payload
  claims and the writes of the application, and the runs made of them.
\<close>

section \<open>Completion reports and poll\<close>

lemma frame_img: "tx_frame c c' \<Longrightarrow> rx_ring c' = rx_ring c \<Longrightarrow> img_step c c'"
  by (rule rx_path_img [OF rx_path_frame])

lemma push_event_img: "img_step c (snd (wl_push_event c t mid a n h))"
  by (rule frame_img [OF wl_push_event_tx_frame]) (simp add: ctx_frame)

lemma push_tx_event_img: "img_step c (wl_push_tx_event c t)"
  by (rule frame_img [OF wl_push_tx_event_tx_frame]) (simp add: ctx_frame)

lemma submit_control_img: "img_step c (snd (wl_submit_control c))"
  by (rule frame_img [OF wl_submit_control_tx_frame]) (simp add: ctx_frame)

lemma tx_fail_img: "img_step c (tx_fail c code t)"
  unfolding tx_fail_def
  by (rule img_step_trans [OF img_silent push_tx_event_img]) (simp_all add: same_setup_def tx_active_def)

lemma complete_unreliable_img: "img_step c (snd (wl_complete_unreliable_tx c))"
  by (auto simp: wl_complete_unreliable_tx_def same_setup_def tx_active_def intro!: img_silent)

lemma consumed_retry_img:
  assumes "tx_active c" "\<not> tx_inflight c" "\<not> control_inflight c" "\<not> tx_claim_active c"
  shows "img_step c (consumed_retry c)"
proof -
  have upd: "img_step c (x\<lparr>tx_retries_left := l, tx_retries_used := u\<rparr>)" "img_step c (tx_fail x code t)"
    if "img_step c x" for x l u code t
    by (rule img_step_trans [OF that img_silent]; simp add: same_setup_def tx_active_def)
       (rule img_step_trans [OF that tx_fail_img])
  have "img_step c (c\<lparr>tx_queued := True, in_flight_reliable := True\<rparr>)"
    by (rule img_silent) (simp_all add: same_setup_def tx_active_def)
  then show ?thesis
    using upd resend_img [OF assms] by (simp add: consumed_retry_def case_prod_beta)
qed

lemma consumed_reliable_img:
  assumes "reliable_done c" shows "img_step c (consumed_reliable c io)"
proof -
  have flags: "\<not> tx_inflight c" "\<not> control_inflight c" "\<not> tx_claim_active c"
    "tx_cancel_requested c \<longrightarrow> tx_state c = WL_TX_STATE_CANCELLED"
    using assms by (simp_all add: reliable_done_def)
  have "img_step c (c\<lparr>tx_cancel_requested := False, tx_payload := \<lparr>span_data = a, span_length = 0\<rparr>, tx_encoded_len := 0\<rparr>)"
    if "tx_cancel_requested c" for a
    by (rule img_silent) (use flags that in \<open>simp_all add: same_setup_def tx_active_def\<close>)
  moreover have "img_step c (c\<lparr>tx_state := WL_TX_STATE_WAITING_ACK, tx_wait_state := w, tx_start_ts := ts\<rparr>)"
    if "tx_state c = WL_TX_STATE_SENDING" for w ts
    by (rule img_silent) (use that in \<open>simp_all add: same_setup_def tx_active_def\<close>)
  ultimately show ?thesis
    using consumed_retry_img [OF _ flags(1-3)] by (simp add: consumed_reliable_def tx_active_def)
qed

lemma note_consumed_img: "img_step c (note_consumed c token io)"
proof -
  have "img_step c (c\<lparr>tx_writable := b, resource_generation := g\<rparr>)"
    "img_step c (c\<lparr>tx_writable := b, resource_generation := g, tx_drain_pending := b, tx_drain_token := token,
       tx_drain_reliable := b'\<rparr>)" for b b' g
    by (rule img_silent; simp add: same_setup_def tx_active_def)+
  then show ?thesis by (simp add: note_consumed_def Let_def)
qed

lemma wl_tx_consumed_img:
  assumes inv: "link_inv c" shows "img_step c (snd (wl_tx_consumed c token io))"
proof (cases "token = tx_token c \<and> initialized c \<and> (tx_inflight c \<or> control_inflight c)")
  case True
  define d where "d = note_consumed c token io"
  define e where "e = d\<lparr>tx_inflight := False, in_flight_reliable := False\<rparr>"
  have d: "img_step c d" "link_inv d" using note_consumed_img note_consumed_inv [OF inv] True by (simp_all add: d_def)
  have control: "img_step c (d\<lparr>control_inflight := False, control_pending := False\<rparr>)"
    by (rule img_step_trans [OF d(1) img_silent]) (simp_all add: same_setup_def tx_active_def)
  have e: "img_step c e" unfolding e_def
    by (rule img_step_trans [OF d(1) img_silent]) (simp_all add: same_setup_def tx_active_def)
  have unrel: "img_step c (snd (wl_submit_control (x\<lparr>tx_unreliable_len := 0\<rparr>)))" if "img_step c x" for x
    by (rule img_step_trans [OF img_step_trans [OF that img_silent] submit_control_img])
       (simp_all add: same_setup_def tx_active_def)
  have rel: "img_step c (snd (wl_submit_control (consumed_reliable e io)))" if "tx_inflight d" "in_flight_reliable d"
    using img_step_trans [OF img_step_trans [OF e consumed_reliable_img] submit_control_img]
      reliable_done_intro [OF d(2) that] by (simp add: e_def)
  have flags: "control_inflight d = control_inflight c" "tx_inflight d = tx_inflight c"
    "in_flight_reliable d = in_flight_reliable c" by (simp_all add: d_def)
  have "snd (wl_tx_consumed c token io) =
    (if control_inflight c then d\<lparr>control_inflight := False, control_pending := False\<rparr>
     else if \<not> in_flight_reliable c
     then snd (wl_submit_control ((if io = 0 then snd (wl_complete_unreliable_tx e) else e)\<lparr>tx_unreliable_len := 0\<rparr>))
     else snd (wl_submit_control (consumed_reliable e io)))"
    using True by (cases "control_inflight c") (simp_all add: wl_tx_consumed_def Let_def case_prod_beta d_def e_def)
  then show ?thesis
    using True control unrel [OF e] unrel [OF img_step_trans [OF e complete_unreliable_img]] rel flags by auto
next
  case False
  then show ?thesis by (auto simp: wl_tx_consumed_def)
qed

lemma wl_tx_drained_img: "img_step c (snd (wl_tx_drained c token io))"
proof -
  define d where "d = c\<lparr>tx_drain_pending := False, tx_writable := True, resource_generation := resource_generation c + 1\<rparr>"
  have d: "img_step c d" unfolding d_def by (rule img_silent) (simp_all add: same_setup_def tx_active_def)
  have fin: "img_step c (x\<lparr>tx_drain_reliable := False\<rparr>)" if "img_step c x" for x
    by (rule img_step_trans [OF that img_silent]) (simp_all add: same_setup_def tx_active_def)
  have "img_step c (d\<lparr>tx_wait_state := w, tx_start_ts := ts\<rparr>)" for w ts
    by (rule img_step_trans [OF d img_silent]) (simp_all add: same_setup_def tx_active_def)
  moreover have "img_step c (wl_push_tx_event (d\<lparr>tx_state := WL_TX_STATE_FAILED, tx_wait_state := w, tx_result_code := e\<rparr>) t)"
    for w e t
    by (rule img_step_trans [OF img_step_trans [OF d img_silent] push_tx_event_img])
       (simp_all add: same_setup_def tx_active_def)
  ultimately show ?thesis using d fin by (simp add: wl_tx_drained_def Let_def flip: d_def)
qed

lemma poll_pending_event_img: "img_step c (poll_pending_event c)"
proof -
  have "img_step c ((snd (wl_push_event c t 0 NULL 0 h))\<lparr>tx_pending_event := WL_EVT_NONE\<rparr>)" for t h
    by (rule img_step_trans [OF push_event_img img_silent]) (auto simp: same_setup_def tx_active_def)
  then show ?thesis by (simp add: poll_pending_event_def)
qed

lemma poll_receive_img: "img_step c (poll_receive c)"
  using rx_path_img [OF wl_link_process_rx_path] by (simp add: poll_receive_def)

lemma queued_reliable_active:
  "link_inv c \<Longrightarrow> in_flight_reliable c \<Longrightarrow> \<not> tx_inflight c \<Longrightarrow> tx_active c"
  by (auto simp: link_inv_def trans_inv_def tx_active_def)

lemma poll_queued_img:
  assumes inv: "link_inv c" shows "img_step c (poll_queued c)"
proof (cases "\<not> control_pending c \<and> \<not> tx_claim_active c \<and> \<not> tx_inflight c")
  case True
  then have idle: "\<not> control_inflight c" using inv by (auto simp: link_inv_def phys_inv_def)
  have fail: "img_step c (tx_fail (x\<lparr>tx_queued := False, in_flight_reliable := False\<rparr>) code t)"
    "img_step c (x\<lparr>tx_queued := False, in_flight_reliable := False, tx_unreliable_len := 0\<rparr>)" if "img_step c x" for x code t
    by (rule img_step_trans [OF img_step_trans [OF that img_silent] tx_fail_img]; simp add: same_setup_def tx_active_def)
       (rule img_step_trans [OF that img_silent]; simp add: same_setup_def tx_active_def)
  have rel: "img_step c (snd (wl_send_tx_payload c))" if "in_flight_reliable c"
    using resend_img [OF queued_reliable_active [OF inv that]] True idle by simp
  have unrel: "img_step c (snd (wl_submit_data c False))" using submit_unreliable_img True idle by simp
  show ?thesis
    using rel unrel fail [OF rel] fail [OF unrel] by (simp add: poll_queued_def Let_def case_prod_beta)
qed (auto simp: poll_queued_def)

lemma poll_timeout_img:
  assumes inv: "link_inv c" shows "img_step c (poll_timeout c now)"
proof (cases "\<not> control_pending c \<and> \<not> tx_claim_active c \<and> \<not> tx_inflight c \<and> tx_state c = WL_TX_STATE_WAITING_ACK")
  case True
  then have idle: "\<not> control_inflight c" using inv by (auto simp: link_inv_def phys_inv_def)
  have sent: "img_step c (snd (wl_send_tx_payload c))" using resend_img True idle by (simp add: tx_active_def)
  have upd: "img_step c (x\<lparr>tx_retries_left := l, tx_retries_used := u\<rparr>)"
    "img_step c (x\<lparr>tx_retries_left := l, tx_retries_used := u, tx_start_ts := ts\<rparr>)" if "img_step c x" for x l u ts
    by (rule img_step_trans [OF that img_silent]; simp add: same_setup_def tx_active_def)+
  show ?thesis
    using upd [OF sent] img_step_trans [OF sent tx_fail_img] tx_fail_img
    by (simp add: poll_timeout_def Let_def case_prod_beta)
qed (auto simp: poll_timeout_def)

lemma wl_poll_img:
  assumes "link_inv c" shows "img_step c (snd (wl_poll c now))"
proof -
  have prog: "img_step d (wl_poll_transport_progress d now)" if "link_inv d" for d
  proof -
    have "link_inv (poll_receive (poll_pending_event (snd (wl_submit_control d))))"
      by (intro poll_receive_inv poll_pending_event_inv wl_submit_control_inv that)
    then show ?thesis
      using img_step_trans [OF img_step_trans [OF img_step_trans [OF submit_control_img poll_pending_event_img]
          poll_receive_img] img_step_trans [OF poll_queued_img poll_timeout_img [OF poll_queued_inv]]]
      by (simp add: wl_poll_transport_progress_def Let_def)
  qed
  define d where "d = c\<lparr>now_ms := now\<rparr>"
  have "img_step c d" unfolding d_def by (rule img_silent) (simp_all add: same_setup_def tx_active_def)
  moreover have "link_inv d" using assms by (simp add: d_def)
  ultimately have d: "img_step c d" "img_step c (wl_poll_transport_progress d now)"
    using img_step_trans prog by blast+
  have upd: "img_step c (x\<lparr>has_event := b\<rparr>)" "img_step c (x\<lparr>has_event := b, rx_event_leased := b'\<rparr>)"
    "img_step c (x\<lparr>tx_unreliable_completions := u\<rparr>)" if "img_step c x" for x b b' u
    by (rule img_step_trans [OF that img_silent]; simp add: same_setup_def tx_active_def)+
  have push: "img_step c (snd (wl_push_event x t mid a n h))" if "img_step c x" for x t mid a n h
    by (rule img_step_trans [OF that push_event_img])
  show ?thesis
    using d upd push by (simp add: wl_poll_def Let_def case_prod_beta flip: d_def)
qed

section \<open>Claims and the remaining operations\<close>

text \<open>A claim lends a transmit buffer to the application, never the one that holds a stored payload.\<close>

lemma claim_img:
  assumes "claim_ok d" "same_setup c d" "ctx_mem d = ctx_mem c" "sink_log d = sink_log c" "rx_ring d = rx_ring c"
    "tx_state d = tx_state c" "tx_last_message_id d = tx_last_message_id c" "tx_waiting_seq d = tx_waiting_seq c"
    "tx_payload d = tx_payload c" "tx_encoded_len d = tx_encoded_len c" "tx_unreliable_len d = tx_unreliable_len c"
    "tx_inflight d = tx_inflight c" "control_len d = control_len c" "control_inflight d = control_inflight c"
    "control_pending d = control_pending c"
  shows "img_step c d"
proof -
  have act: "tx_active d = tx_active c" using assms(6) by (simp add: tx_active_def)
  have bytes: "tx_bytes d = tx_bytes c" by (rule tx_bytes_cong [OF assms(2)]) (simp_all add: assms)
  have stored: "tx_stored d = tx_stored c" by (rule tx_ready_cong [OF assms(2)]) (simp_all add: assms)
  show ?thesis
    using assms act bytes stored same_setup_areas(8) [OF assms(2)]
    by (simp add: img_step_def mem_ok_def carries_def sized_def ring_at_def control_ok_def unit_ok_def same_setup_def)
qed

lemma wl_tx_payload_claim_img:
  assumes inv: "link_inv c" shows "img_step c (snd (wl_tx_payload_claim c mid delivery))"
proof (cases "tx_claim_active c \<or> wl_data_busy c (delivery = WL_DELIVERY_RELIABLE) \<or> \<not> sized c")
  case True
  then show ?thesis by (auto simp: wl_tx_payload_claim_def img_step_def mem_ok_def)
next
  case False
  define d where "d = (if delivery = WL_DELIVERY_UNRELIABLE then wl_invalidate_tx_image c else c)"
  have handle: "tx_active c \<Longrightarrow> tx_handle c \<noteq> 0" using inv by (auto simp: link_inv_def trans_inv_def tx_active_def)
  then have d: "img_step c d" using False invalidate_img [of c] by (simp add: d_def)
  have "img_step d (d\<lparr>tx_claim_token := tok, tx_claim_active := True, tx_claim_reliable := (delivery = WL_DELIVERY_RELIABLE),
      tx_claim_message_id := mid, tx_claim_payload := \<lparr>span_data =
        (if envelope (ctx_config d) = WL_ENVELOPE_NATIVE_PACKET
         then st_tx_unit (ctx_storage d) + wl_frame_packet_header_size WL_PACKET_DATA
                (if delivery = WL_DELIVERY_RELIABLE then WL_PACKET_FLAG_RELIABLE else 0)
         else if delivery = WL_DELIVERY_UNRELIABLE \<and> tx_handle d \<noteq> 0 then st_tx_unit (ctx_storage d)
         else st_tx_payload (ctx_storage d)), span_length = unat (max_payload_len (ctx_config d))\<rparr>\<rparr>)"
    (is "img_step d ?e") if "delivery = WL_DELIVERY_UNRELIABLE \<or> delivery = WL_DELIVERY_RELIABLE" for tok
  proof (rule claim_img)
    have sz: "sized d" "tx_handle d = tx_handle c" "tx_active d = tx_active c"
      "delivery = WL_DELIVERY_UNRELIABLE \<Longrightarrow> tx_encoded_len d = 0"
      using False by (simp_all add: d_def sized_def tx_active_def ctx_frame)
    have "tx_handle c = 0" if "delivery = WL_DELIVERY_RELIABLE" using that False by (auto simp: wl_data_busy_def)
    then show "claim_ok ?e"
      using that sz handle
      by (auto simp: claim_ok_def claim_area_def tx_area_def unit_area_def payload_area_def sized_def
          wl_frame_packet_header_size_def tx_active_def)
  qed (simp_all add: same_setup_def)
  then show ?thesis
    using False img_step_trans [OF d] by (auto simp: wl_tx_payload_claim_def Let_def simp flip: d_def)
qed

lemma simple_ops_img:
  "img_step c (snd (wl_set_sink c f))" "img_step c (snd (wl_set_tx_drain_required c b))"
  "img_step c (snd (wl_tx_writable c))" "img_step c (snd (wl_tx_payload_abort c k))"
  "img_step c (snd (wl_tx_cancel c h))" "img_step c (snd (wl_tx_take c h))"
proof -
  have "img_step c (c\<lparr>sink := f\<rparr>)" "img_step c (c\<lparr>tx_drain_required := b\<rparr>)"
    "img_step c (c\<lparr>tx_writable := b, resource_generation := g\<rparr>)"
    "img_step c (c\<lparr>tx_claim_active := False, tx_claim_payload := s, resource_generation := g\<rparr>)" for f b g s
    by (rule img_silent; simp add: same_setup_def tx_active_def)+
  then show "img_step c (snd (wl_set_sink c f))" "img_step c (snd (wl_set_tx_drain_required c b))"
    "img_step c (snd (wl_tx_writable c))" "img_step c (snd (wl_tx_payload_abort c k))"
    by (simp_all add: wl_set_sink_def wl_set_tx_drain_required_def wl_tx_writable_def wl_tx_payload_abort_def)
  have x: "img_step c (x\<lparr>tx_state := WL_TX_STATE_CANCELLED, tx_wait_state := w, tx_waiting_seq := q,
      tx_retries_left := l, tx_result_code := e\<rparr>)" if "img_step c x" for x w q l e
    by (rule img_step_trans [OF that img_silent]) (simp_all add: same_setup_def tx_active_def)
  have "img_step c (c\<lparr>tx_cancel_requested := True\<rparr>)" "img_step c (c\<lparr>tx_queued := False, in_flight_reliable := False\<rparr>)"
    by (rule img_silent; simp add: same_setup_def tx_active_def)+
  from x [OF this(1)] x [OF this(2)] x [OF img_step_refl] show "img_step c (snd (wl_tx_cancel c h))"
    by (simp add: wl_tx_cancel_def Let_def)
  have "img_step c (c\<lparr>resource_generation := g, tx_handle := 0, tx_pending_event := WL_EVT_NONE,
      tx_state := WL_TX_STATE_IDLE, tx_cancel_requested := False, tx_wait_state := WL_TX_WAIT_NONE, tx_waiting_seq := 0,
      tx_payload := \<lparr>span_data = a, span_length = 0\<rparr>, tx_encoded_len := 0\<rparr>)" for g a
    by (rule img_silent) (simp_all add: same_setup_def tx_active_def)
  then show "img_step c (snd (wl_tx_take c h))" by (simp add: wl_tx_take_def)
qed

text \<open>
  The writes the interface allows: outside the buffers of the link, into a claimed payload, or into the
  part of the receive ring the producer holds.
\<close>

definition store_ok :: "wl_ctx_impl \<Rightarrow> addr \<Rightarrow> bool" where
  "store_ok c a \<longleftrightarrow> a \<notin> tx_area c \<union> control_area c \<union> rx_area c \<or>
     tx_claim_active c \<and> a \<in> claim_area c \<or>
     envelope (ctx_config c) = WL_ENVELOPE_COBS_STREAM \<and> producer_base (rx_ring c) \<le> a \<and>
       producer_owns (rx_ring c) (a - producer_base (rx_ring c))"

lemma contiguous_length_room: "contiguous_length n c k \<le> n - cursor_physical n c"
  by (simp add: contiguous_length_def Let_def)

lemma producer_in_fifo:
  assumes "ring_in r a n" "producer_owns r i" shows "producer_base r + i \<in> area a n"
proof -
  have inv: "ring_inv r" "ring_memory r = a" "ring_capacity r = n" using assms(1) by (simp_all add: ring_in_def)
  show ?thesis
  proof (cases "reservation_active r")
    case True
    then have "reservation_cursor r = write_cursor r" "\<not> dma_active (dma_claim r)"
      "reservation_length r \<le> contiguous_length n (write_cursor r) (n - ring_readable r)"
      using inv unfolding ring_inv_def by simp_all
    then show ?thesis
      using True assms(2) inv contiguous_length_room [of n "write_cursor r" "n - ring_readable r"]
      by (simp add: producer_owns_def producer_base_def)
  next
    case False
    then have "dma_length (dma_claim r) \<le> n - cursor_physical n (dma_cursor (dma_claim r))" "i < dma_length (dma_claim r)"
      using inv assms(2) unfolding ring_inv_def producer_owns_def by simp_all
    then show ?thesis using False inv by (simp add: producer_base_def)
  qed
qed

lemma store_ok_cases:
  assumes "store_ok c a" "mem_ok c"
  shows "a \<notin> tx_area c \<union> control_area c \<or> tx_claim_active c \<and> a \<in> claim_area c"
proof -
  have "a \<in> rx_area c" if cobs: "envelope (ctx_config c) = WL_ENVELOPE_COBS_STREAM" "producer_base (rx_ring c) \<le> a"
      "producer_owns (rx_ring c) (a - producer_base (rx_ring c))"
    using producer_in_fifo [OF _ that(3)] that assms(2) fifo_area_cobs [OF cobs(1)]
    by (auto simp: mem_ok_def ring_at_def)
  then show ?thesis using assms by (auto simp: store_ok_def mem_ok_def storage_apart_def)
qed

lemma store_img:
  assumes inv: "link_inv c" and st: "store_ok c a" shows "img_step c (c\<lparr>ctx_mem := (ctx_mem c)(a := v)\<rparr>)"
  unfolding img_step_def
proof
  let ?d = "c\<lparr>ctx_mem := (ctx_mem c)(a := v)\<rparr>"
  assume ok: "mem_ok c"
  have su: "same_setup c ?d" by (simp add: same_setup_def)
  have act: "tx_active ?d = tx_active c" by (simp add: tx_active_def)
  have ch: "changes_in {a} (ctx_mem c) (ctx_mem ?d)" by (simp add: changes_in_def)
  have where_a: "a \<notin> tx_area c \<union> control_area c \<or> tx_claim_active c \<and> a \<in> claim_area c"
    by (rule store_ok_cases [OF st ok])
  have claim: "claim_area c \<subseteq> tx_area c" "\<not> tx_inflight c" "tx_active c \<Longrightarrow> tx_encoded_len c = 0 \<and> claim_area c \<subseteq> unit_area c"
    if "tx_claim_active c" using ok inv that by (auto simp: mem_ok_def claim_ok_def link_inv_def phys_inv_def)
  have apart: "tx_area c \<inter> control_area c = {}" "unit_area c \<inter> payload_area c = {}"
    using ok by (auto simp: mem_ok_def storage_apart_def tx_area_def)
  have bytes: "tx_bytes ?d = tx_bytes c \<and> tx_stored ?d" if "tx_active c"
  proof -
    have s: "tx_stored c" "sized c" "tx_ready c" using ok that by (simp_all add: mem_ok_def tx_stored_def)
    have pay: "a \<notin> area (span_data (tx_payload c)) (span_length (tx_payload c))"
      using where_a payload_in_tx_area [OF s(2,3)] stored_elsewhere [OF s(2,3)] claim(3) that s(1) apart(2)
      unfolding tx_stored_def by blast
    have "tx_bytes ?d = tx_bytes c"
      by (rule tx_bytes_cong [OF su]) (use changes_in_read [OF ch] pay in auto)
    moreover have "read_bytes (ctx_mem ?d) (st_tx_unit (ctx_storage c)) (tx_encoded_len c) =
        read_bytes (ctx_mem c) (st_tx_unit (ctx_storage c)) (tx_encoded_len c)" if "tx_encoded_len c \<noteq> 0"
    proof (rule changes_in_read [OF ch])
      have "a \<notin> unit_area c" using where_a claim(3) \<open>tx_active c\<close> that by (auto simp: tx_area_def)
      then show "area (st_tx_unit (ctx_storage c)) (tx_encoded_len c) \<inter> {a} = {}"
        using ok by (auto simp: mem_ok_def unit_ok_def unit_area_def)
    qed
    ultimately show ?thesis using s(1) by (simp add: tx_stored_def tx_ready_def)
  qed
  have "control_area c \<inter> {a} = {}" "tx_inflight c \<Longrightarrow> unit_area c \<inter> {a} = {}"
    using where_a claim(1,2) apart by (auto simp: tx_area_def)
  then have "control_ok ?d" "unit_ok ?d"
    using ok owned_changes [OF _ ch]
    by (auto simp: mem_ok_def control_ok_def unit_ok_def control_area_def unit_area_def)
  then show "mem_ok ?d \<and> carries c ?d"
    using ok act bytes su same_setup_areas [OF su]
    by (simp add: mem_ok_def carries_def sized_def ring_at_def claim_ok_def claim_area_def)
qed

section \<open>Runs\<close>

definition admissible :: "link_op \<Rightarrow> wl_ctx_impl \<Rightarrow> bool" where
  "admissible op c = (case op of Op_store a v \<Rightarrow> store_ok c a | _ \<Rightarrow> True)"

fun admissible_run :: "link_op list \<Rightarrow> wl_ctx_impl \<Rightarrow> bool" where
  "admissible_run [] c = True"
| "admissible_run (op # ops) c = (admissible op c \<and> admissible_run ops (link_exec op c))"

lemma admissible_run_append:
  "admissible_run (xs @ ys) c \<longleftrightarrow> admissible_run xs c \<and> admissible_run ys (run_ops link_exec xs c)"
  by (induction xs arbitrary: c) simp_all

text \<open>The frame an operation asks to be delivered reliably.\<close>

definition op_image :: "link_op \<Rightarrow> wl_ctx_impl \<Rightarrow> byte list" where
  "op_image op c =
     (case op of
        Op_send_reliable mid a n now \<Rightarrow> reliable_image c mid (tx_sequence c) (read_bytes (ctx_mem c) a n)
      | Op_commit k n now want \<Rightarrow>
          reliable_image c (tx_claim_message_id c) (tx_sequence c) (read_bytes (ctx_mem c) (span_data (txc_span k)) n)
      | _ \<Rightarrow> [])"

definition img_or_opens :: "link_op \<Rightarrow> wl_ctx_impl \<Rightarrow> wl_ctx_impl \<Rightarrow> bool" where
  "img_or_opens op c c' \<longleftrightarrow> \<not> opens_transaction op c \<and> img_step c c' \<or> (mem_ok c \<longrightarrow> \<not> tx_active c \<and> opens_with (op_image op c) c c')"

lemma send_ops_img:
  assumes inv: "link_inv c"
  shows "img_step c (snd (wl_send_unreliable c mid a n))"
    "mem_ok c \<Longrightarrow> img_or_opens (Op_send_reliable mid a n now) c (snd (snd (wl_send_reliable c mid a n now)))"
    "mem_ok c \<Longrightarrow> img_or_opens (Op_commit k n now want) c (snd (snd (wl_tx_payload_commit c k n now want)))"
proof -
  show "img_step c (snd (wl_send_unreliable c mid a n))"
    using send_frame_unreliable_img [OF inv] by (simp add: wl_send_unreliable_def case_prod_beta)
  have opened: "img_or_opens op c (snd (snd (wl_send_frame_internal x pkt True direct t)))"
    if "img_step c x" "link_inv x" "\<not> tx_claim_active x" "mem_ok c" "sink_log x = sink_log c" "same_setup c x"
      "tx_active x = tx_active c"
      "direct \<Longrightarrow> pkt_payload pkt = (if envelope (ctx_config x) = WL_ENVELOPE_NATIVE_PACKET
        then st_tx_unit (ctx_storage x) + WL_FRAME_RELIABLE_HEADER_SIZE else st_tx_payload (ctx_storage x))"
      "op_image op c = reliable_image x (pkt_message_id pkt) (pkt_sequence pkt)
              (read_bytes (ctx_mem x) (pkt_payload pkt) (pkt_payload_len pkt))"
      "opens_transaction op c \<Longrightarrow> fst (wl_send_frame_internal x pkt True direct t) = WL_OK" for op x pkt direct t
  proof -
    have "mem_ok x" using that(1,4) by (simp add: img_step_def)
    from send_frame_reliable_opens [where direct = direct and now = t, OF that(2,3) this that(8,9)] show ?thesis
      using that(1,7,10) opens_trans [OF that(5,6)] by (auto simp: img_or_opens_def)
  qed
  have seq: "img_step x (x\<lparr>tx_sequence := q\<rparr>)" for x q
    by (rule img_silent) (simp_all add: same_setup_def tx_active_def)
  show "img_or_opens (Op_send_reliable mid a n now) c (snd (snd (wl_send_reliable c mid a n now)))" if "mem_ok c"
    using opened [OF seq, of "tx_sequence c + 1" False "\<lparr>pkt_type = WL_PACKET_DATA, pkt_integrity = 0,
        pkt_flags = WL_PACKET_FLAG_RELIABLE, pkt_message_id = mid, pkt_session_id = 0, pkt_sequence = tx_sequence c,
        pkt_payload = a, pkt_payload_len = n\<rparr>" "Op_send_reliable mid a n now" now] inv seq that
    by (auto simp: wl_send_reliable_def Let_def op_image_def reliable_image_def same_setup_def tx_active_def
        img_or_opens_def opens_transaction_def)
  define d where "d = c\<lparr>tx_claim_active := False, tx_claim_payload := zero_span\<rparr>"
  have d: "img_step c d" "link_inv d" "sink_log d = sink_log c" "same_setup c d" "tx_active d = tx_active c" "\<not> tx_claim_active d"
    using inv by (auto simp: d_def same_setup_def tx_active_def intro!: img_silent)
  show "img_or_opens (Op_commit k n now want) c (snd (snd (wl_tx_payload_commit c k n now want)))" if ok: "mem_ok c"
  proof (cases "tx_claim_matches c k \<and> initialized c \<and> \<not> (n > span_length (tx_claim_payload c) \<or> tx_claim_reliable c \<and> \<not> want) \<and>
      \<not> (tx_claim_reliable c \<and> tx_sequence c = UINT32_MAX)")
    case False
    then show ?thesis
      using d(1) by (auto simp: wl_tx_payload_commit_def opens_transaction_def Let_def img_or_opens_def d_def)
  next
    case True
    then have addr: "span_data (txc_span k) = span_data (tx_claim_payload c)" "tx_claim_active c"
      by (simp_all add: tx_claim_matches_def)
    define pkt where "pkt = \<lparr>pkt_type = WL_PACKET_DATA, pkt_integrity = integrity (ctx_config c),
      pkt_flags = (if tx_claim_reliable c then WL_PACKET_FLAG_RELIABLE else 0), pkt_message_id = tx_claim_message_id c,
      pkt_session_id = session_id c, pkt_sequence = (if tx_claim_reliable c then tx_sequence c else 0),
      pkt_payload = span_data (txc_span k), pkt_payload_len = n\<rparr>"
    show ?thesis
    proof (cases "tx_claim_reliable c")
      case rel: True
      let ?x = "d\<lparr>tx_sequence := tx_sequence c + 1\<rparr>"
      have commit: "wl_tx_payload_commit c k n now want = wl_send_frame_internal ?x pkt True True now"
        using True rel by (simp add: wl_tx_payload_commit_def Let_def d_def pkt_def)
      have "pkt_payload pkt = (if envelope (ctx_config ?x) = WL_ENVELOPE_NATIVE_PACKET
        then st_tx_unit (ctx_storage ?x) + WL_FRAME_RELIABLE_HEADER_SIZE else st_tx_payload (ctx_storage ?x))"
        using ok addr rel by (simp add: mem_ok_def claim_ok_def pkt_def d_def)
      moreover have "op_image (Op_commit k n now want) c = reliable_image ?x (pkt_message_id pkt) (pkt_sequence pkt)
              (read_bytes (ctx_mem ?x) (pkt_payload pkt) (pkt_payload_len pkt))"
        using rel by (simp add: op_image_def reliable_image_def pkt_def d_def)
      ultimately show ?thesis
        unfolding commit using d ok
        by (intro opened [OF img_step_trans [OF d(1) seq]])
           (simp_all add: same_setup_def tx_active_def opens_transaction_def commit)
    next
      case False
      then have "snd (snd (wl_tx_payload_commit c k n now want)) = snd (snd (wl_send_frame_internal d pkt False True now))"
        using True by (simp add: wl_tx_payload_commit_def Let_def d_def pkt_def)
      then show ?thesis
        using img_step_trans [OF d(1) send_frame_unreliable_img [OF d(2,6)]] False
        by (simp add: img_or_opens_def opens_transaction_def pkt_def)
    qed
  qed
qed

definition asks_reliable :: "link_op \<Rightarrow> bool" where
  "asks_reliable op = (case op of Op_send_reliable mid a n now \<Rightarrow> True | Op_commit k n now want \<Rightarrow> True | _ \<Rightarrow> False)"

lemma link_exec_img_step:
  assumes "link_inv c" "admissible op c" "\<not> asks_reliable op"
  shows "img_step c (link_exec op c)"
proof (cases op)
  case (Op_store a v)
  then show ?thesis using store_img [OF assms(1)] assms(2) by (simp add: admissible_def)
qed (use assms(3) in \<open>simp_all add: asks_reliable_def simple_ops_img wl_tx_consumed_img [OF assms(1)] wl_tx_drained_img
      send_ops_img(1) [OF assms(1)] wl_tx_payload_claim_img [OF assms(1)] wl_poll_img [OF assms(1)] rx_path_img
      feed_ops_path rx_wrappers_path wl_event_release_path\<close>)

lemma link_exec_img:
  assumes "link_inv c" "mem_ok c" "admissible op c"
  shows "img_or_opens op c (link_exec op c)"
proof (cases "asks_reliable op")
  case True
  then show ?thesis
    using send_ops_img(2,3) [OF assms(1,2)] by (auto simp: asks_reliable_def split: link_op.splits)
next
  case False
  then show ?thesis using link_exec_img_step [OF assms(1,3)]
    by (auto simp: img_or_opens_def opens_transaction_def asks_reliable_def split: link_op.splits)
qed

lemma img_or_opens_mem_ok: "img_or_opens op c c' \<Longrightarrow> mem_ok c \<Longrightarrow> mem_ok c'"
  by (auto simp: img_or_opens_def img_step_def opens_with_def)

lemma run_mem_ok:
  "link_inv c \<Longrightarrow> mem_ok c \<Longrightarrow> admissible_run ops c \<Longrightarrow> mem_ok (run_ops link_exec ops c)"
proof (induction ops arbitrary: c)
  case (Cons op ops)
  then have "mem_ok (link_exec op c)" using img_or_opens_mem_ok [OF link_exec_img] by simp
  then show ?case using Cons by (simp add: link_exec_inv)
qed simp

lemma rejected_inactive:
  "fst (wl_send_frame_internal c pkt True direct now) \<noteq> WL_OK \<Longrightarrow> \<not> tx_active c \<Longrightarrow>
   \<not> tx_active (snd (snd (wl_send_frame_internal c pkt True direct now)))"
  by (auto simp: wl_send_frame_internal_def Let_def tx_active_def case_prod_beta split: if_splits)


section \<open>Properties\<close>

lemma wl_init_mem_ok:
  assumes "wl_init lock_free c0 config storage = (WL_OK, c)" "storage_apart c"
  shows "mem_ok c"
proof -
  have raw: "wl_frame_raw_size n i = 0 \<or> 16 + n \<le> wl_frame_raw_size n i" for n i
    by (simp add: wl_frame_raw_size_def Let_def)
  have max: "16 + unat (max_payload_len config) \<le> SIZE_MAX"
    using unsigned_less [of "max_payload_len config", where ?'a = nat] by (simp add: SIZE_MAX_def)
  have "wl_max_unit_size config = 0 \<or> 16 + unat (max_payload_len config) \<le> wl_max_unit_size config"
    using raw [of "unat (max_payload_len config)" "integrity config"] max
    by (auto simp: wl_max_unit_size_def Let_def wl_cobs_encoded_max_size_def)
  moreover have "sized c = (unat (max_payload_len config) \<le> WL_PACKET_MAX_PAYLOAD \<and>
     unat (max_payload_len config) \<le> st_tx_payload_size storage \<and>
     WL_FRAME_RELIABLE_HEADER_SIZE + unat (max_payload_len config) \<le> st_tx_unit_size storage)"
    using wl_init_setup [OF assms(1)] by (simp add: sized_def)
  ultimately have "sized c"
    using assms(1) by (auto simp: wl_init_def wl_config_requirements_def Let_def split: sum.splits if_splits)
  moreover have "control_ok c \<and> unit_ok c \<and> claim_ok c \<and> \<not> tx_active c"
    by (rule wl_init_result [OF assms(1)])
       (simp add: zero_ctx_def control_ok_def unit_ok_def claim_ok_def tx_active_def)
  ultimately show ?thesis using wl_init_ring_at [OF assms(1)] assms(2) by (simp add: mem_ok_def)
qed

text \<open>A step that opens no transaction, from a link that has none or the one with the given image.\<close>

definition image_is :: "byte list \<Rightarrow> wl_ctx_impl \<Rightarrow> bool" where
  "image_is w c \<longleftrightarrow> link_inv c \<and> mem_ok c \<and> (tx_active c \<longrightarrow> tx_bytes c = w)"

lemma inactive_credit: "\<not> tx_active c \<Longrightarrow> credit c = 0"
  by (simp add: credit_def)

lemma rejected_ops_inactive:
  assumes "\<not> tx_active c" "asks_reliable op" "\<not> opens_transaction op c" "link_inv c" "mem_ok c" "admissible op c"
  shows "\<not> tx_active (link_exec op c)"
proof (cases op)
  case (Op_send_reliable mid a n now)
  then show ?thesis
    using assms(1,3) rejected_inactive [of "c\<lparr>tx_sequence := tx_sequence c + 1\<rparr>"]
    by (auto simp: wl_send_reliable_def opens_transaction_def Let_def tx_active_def split: if_splits)
next
  case (Op_commit k n now want)
  define d where "d = c\<lparr>tx_claim_active := False, tx_claim_payload := zero_span\<rparr>"
  have d: "link_inv d" "mem_ok d" "\<not> tx_active d" "\<not> tx_claim_active d"
    using assms(1,4,5) img_silent [of c d] by (auto simp: d_def img_step_def same_setup_def tx_active_def)
  have "\<not> tx_active (snd (snd (wl_send_frame_internal d pkt False True now)))"
    if "pkt_type pkt = WL_PACKET_DATA" "pkt_flags pkt = 0" for pkt
    using send_frame_unreliable_img [OF d(1,4) that, of True now] d(2,3) by (auto simp: img_step_def carries_def)
  moreover have "\<not> tx_active (snd (snd (wl_send_frame_internal (d\<lparr>tx_sequence := q\<rparr>) pkt True True now)))"
    if "fst (wl_send_frame_internal (d\<lparr>tx_sequence := q\<rparr>) pkt True True now) \<noteq> WL_OK" for q pkt
    using rejected_inactive [OF that] d(3) by (simp add: tx_active_def)
  ultimately show ?thesis
    using assms(1,3) Op_commit d(3)
    by (auto simp: wl_tx_payload_commit_def opens_transaction_def Let_def d_def split: if_splits)
qed (use assms(2) in \<open>simp_all add: asks_reliable_def\<close>)

lemma unopened_step:
  assumes "image_is w c" "admissible op c" "\<not> opens_transaction op c"
  shows "image_is w (link_exec op c)"
    "\<forall>call \<in> set (new_calls c (link_exec op c)). accepted_reliable call \<longrightarrow> sc_data call = w"
proof -
  have inv: "link_inv c" "mem_ok c" "tx_active c \<Longrightarrow> tx_bytes c = w" using assms(1) by (simp_all add: image_is_def)
  note step = link_exec_img [OF inv(1,2) assms(2)]
  have ok: "link_inv (link_exec op c)" "mem_ok (link_exec op c)"
    using link_exec_inv [OF inv(1)] img_or_opens_mem_ok [OF step inv(2)] by simp_all
  have "image_is w (link_exec op c) \<and>
    (\<forall>call \<in> set (new_calls c (link_exec op c)). accepted_reliable call \<longrightarrow> sc_data call = w)"
  proof (cases "tx_active c")
    case True
    then have "carries c (link_exec op c)" using step inv(2) by (simp add: img_or_opens_def img_step_def)
    then show ?thesis
      using ok inv(3) by (auto simp: carries_def image_is_def new_calls_def accepted_reliable_def)
  next
    case False
    then have "\<not> tx_active (link_exec op c)"
      using rejected_ops_inactive [OF False _ assms(3) inv(1,2) assms(2)] link_exec_img_step [OF inv(1) assms(2)] inv(2)
      by (auto simp: img_step_def carries_def)
    moreover have "filter accepted_reliable (new_calls c (link_exec op c)) = []"
      using link_exec_spends [OF inv(1), of op] assms(3) False
      by (simp add: spends_def accepted_count_def inactive_credit)
    ultimately show ?thesis using ok by (auto simp: image_is_def filter_empty_conv)
  qed
  then show "image_is w (link_exec op c)"
    "\<forall>call \<in> set (new_calls c (link_exec op c)). accepted_reliable call \<longrightarrow> sc_data call = w" by blast+
qed

lemma run_prefix: "link_inv c \<Longrightarrow> prefix (sink_log c) (sink_log (run_ops link_exec ops c))"
proof (induction ops arbitrary: c)
  case (Cons op ops)
  then show ?case
    using link_exec_spends [of c op] prefix_order.trans [OF _ Cons.IH, of "sink_log c" "link_exec op c"]
    by (simp add: spends_def link_exec_inv)
qed simp

lemma new_calls_run:
  assumes "link_inv c"
  shows "new_calls c (run_ops link_exec (op # ops) c) =
    new_calls c (link_exec op c) @ new_calls (link_exec op c) (run_ops link_exec ops (link_exec op c))"
proof -
  have "prefix (sink_log c) (sink_log (link_exec op c))"
    "prefix (sink_log (link_exec op c)) (sink_log (run_ops link_exec ops (link_exec op c)))"
    using link_exec_spends [OF assms, of op] run_prefix [OF link_exec_inv [OF assms]] by (simp_all add: spends_def)
  then show ?thesis by (auto simp: new_calls_def prefix_def)
qed

lemma unopened_run:
  "image_is w c \<Longrightarrow> admissible_run ops c \<Longrightarrow> trace link_exec opened_by ops c = [] \<Longrightarrow>
   \<forall>call \<in> set (new_calls c (run_ops link_exec ops c)). accepted_reliable call \<longrightarrow> sc_data call = w"
proof (induction ops arbitrary: c)
  case (Cons op ops)
  then have "\<not> opens_transaction op c" "trace link_exec opened_by ops (link_exec op c) = []"
    by (auto simp: opened_by_def [of op c] split: if_splits)
  moreover from this have "image_is w (link_exec op c)" using unopened_step Cons.prems by simp
  ultimately show ?case
    using Cons.IH [of "link_exec op c"] Cons.prems unopened_step(2) [of w c op] new_calls_run [of c op ops]
    by (auto simp: image_is_def)
qed (simp add: new_calls_def)

lemma opened_image:
  assumes "link_inv c" "mem_ok c" "admissible op c" "opens_transaction op c"
  shows "image_is (op_image op c) (link_exec op c)"
    "\<forall>call \<in> set (new_calls c (link_exec op c)). sc_data call = op_image op c"
proof -
  have "opens_with (op_image op c) c (link_exec op c)"
    using link_exec_img [OF assms(1-3)] assms(2,4) by (simp add: img_or_opens_def)
  then show "image_is (op_image op c) (link_exec op c)"
    "\<forall>call \<in> set (new_calls c (link_exec op c)). sc_data call = op_image op c"
    using link_exec_inv [OF assms(1)] by (auto simp: opens_with_def image_is_def new_calls_def)
qed

text \<open>
  C2. Every transmission of a reliable transaction carries the same bytes: the frame with the message
  identifier, the session, the sequence number and the payload bytes the application handed over. This holds
  for retries after a timeout or an I/O error, for units the sink had refused as busy, and when the unit
  buffer was lent to unreliable frames in between; the application may change or reuse its own buffer as
  soon as the call has returned. The receive buffers must not overlap the transmit buffers, and the
  application writes to the link's buffers only through payload claims and receive reservations.
\<close>

theorem retransmissions_identical:
  assumes init: "wl_init lock_free c0 config storage = (WL_OK, c)" and apart: "storage_apart c"
    and adm: "admissible_run (before @ op # after) c"
    and opens: "opens_transaction op (run_ops link_exec before c)"
    and one: "trace link_exec opened_by after (run_ops link_exec (before @ [op]) c) = []"
  shows "\<forall>call \<in> set (new_calls (run_ops link_exec before c) (run_ops link_exec (before @ op # after) c)).
    accepted_reliable call \<longrightarrow> sc_data call = op_image op (run_ops link_exec before c)"
proof -
  define s where "s = run_ops link_exec before c"
  have s: "link_inv s" "mem_ok s" "admissible op s" "admissible_run after (link_exec op s)" "opens_transaction op s"
    using reachable_retries_max(1) [OF init] run_mem_ok [OF wl_init_link_inv [OF init] wl_init_mem_ok [OF init apart]]
      adm opens by (simp_all add: s_def admissible_run_append)
  note opened = opened_image [OF s(1,2,3,5)]
  show ?thesis
    using opened unopened_run [OF opened(1) s(4)] one new_calls_run [OF s(1), of op after]
    by (auto simp: s_def run_ops_append)
qed

lemma demo_storage_apart: "storage_apart demo_link"
  by (auto simp: storage_apart_def area_defs demo_link_def zero_ctx_def demo_link_config_def demo_link_storage_def)

text \<open>The application overwrites its payload at address 500 between the transmissions.\<close>

definition demo_resend :: "link_op list" where
  "demo_resend = [Op_store 500 99, Op_consumed 2 0, Op_poll 10, Op_poll 30]"

theorem retransmissions_identical_witness:
  "map sc_data (filter accepted_reliable (new_calls (run_ops link_exec [Op_set_sink (Some demo_sink)] demo_link)
     (run_ops link_exec ([Op_set_sink (Some demo_sink)] @ Op_send_reliable 7 500 2 0 # demo_resend) demo_link))) =
   replicate 2 (op_image (Op_send_reliable 7 500 2 0) (run_ops link_exec [Op_set_sink (Some demo_sink)] demo_link))"
proof -
  let ?before = "[Op_set_sink (Some demo_sink)]"
  let ?op = "Op_send_reliable 7 500 2 0"
  let ?s = "run_ops link_exec ?before demo_link"
  let ?calls = "filter accepted_reliable (new_calls ?s (run_ops link_exec (?before @ ?op # demo_resend) demo_link))"
  have run: "opens_transaction ?op ?s" "admissible_run (?before @ ?op # demo_resend) demo_link"
    "trace link_exec opened_by demo_resend (run_ops link_exec (?before @ [?op]) demo_link) = []" "length ?calls = 2"
    by code_simp+
  have "map sc_data ?calls = map (\<lambda>_. op_image ?op ?s) ?calls"
    using retransmissions_identical [OF demo_link_init demo_storage_apart run(2,1,3)] by (intro map_cong) auto
  then show ?thesis by (simp only: map_replicate_const run(4))
qed

text \<open>
  C31. The bytes of a unit in flight stay in place: after a submission the sink answered \<^verbatim>\<open>STARTED\<close> and
  until its completion report, the transmit buffer holds exactly the bytes the sink was given, whatever is
  received, polled, claimed, sent or cancelled in between, so that an adapter may transmit from the buffer.
\<close>

theorem inflight_unit_stable:
  assumes "wl_init lock_free c0 config storage = (WL_OK, c)" "storage_apart c" "admissible_run ops c"
    and "s = run_ops link_exec ops c" "phys_abs s \<noteq> Phys_idle"
  shows "sink_log s \<noteq> [] \<and> sc_result (last (sink_log s)) = WL_SINK_STARTED \<and>
    read_bytes (ctx_mem s) (if tx_inflight s then st_tx_unit storage else st_control_unit storage)
      (length (sc_data (last (sink_log s)))) = sc_data (last (sink_log s))"
proof -
  have "mem_ok s" using run_mem_ok [OF wl_init_link_inv wl_init_mem_ok] assms by blast
  moreover have "ctx_storage s = storage"
    using run_same_setup [OF wl_init_link_inv [OF assms(1)], of ops] wl_init_setup [OF assms(1)] assms(4)
    by (simp add: same_setup_def)
  ultimately show ?thesis
    using assms(5) by (auto simp: mem_ok_def unit_ok_def control_ok_def owned_def phys_abs_def split: if_splits)
qed

theorem inflight_unit_stable_witness:
  "let s = run_ops link_exec [Op_set_sink (Some demo_sink), Op_send_reliable 7 500 2 0, Op_store 500 99, Op_poll 5] demo_link
   in phys_abs s = Phys_owned 2 \<and> sink_log s \<noteq> [] \<and>
      read_bytes (ctx_mem s) 200 (length (sc_data (last (sink_log s)))) = sc_data (last (sink_log s))"
proof -
  let ?ops = "[Op_set_sink (Some demo_sink), Op_send_reliable 7 500 2 0, Op_store 500 99, Op_poll 5]"
  have run: "phys_abs (run_ops link_exec ?ops demo_link) = Phys_owned 2" "tx_inflight (run_ops link_exec ?ops demo_link)"
    "admissible_run ?ops demo_link" by code_simp+
  have "phys_abs (run_ops link_exec ?ops demo_link) \<noteq> Phys_idle" using run(1) by simp
  from inflight_unit_stable [OF demo_link_init demo_storage_apart run(3) refl this] show ?thesis
    using run by (simp only: Let_def if_True simp_thms) (simp add: demo_link_storage_def)
qed

end
