(* ===== verification/Link_Loops.thy ===== *)
theory Link_Loops
  imports Link_Transmit
begin

text \<open>
  The two receive loops of \<^verbatim>\<open>src/protocol.c\<close> and \<^verbatim>\<open>src/unit_frame.c\<close> end. The definitions of
  the theory \<open>Link_Rx\<close> run them with fuel: the number of readable bytes, or of queued units, plus one.
  The locale \<open>draining\<close> states what makes such a loop end, every iteration that goes on leaves less to
  read, and its lemmas show that the fuel changes nothing and that the loop stops for one of the reasons
  of the source. Both loops are instances on the contexts a link reaches.
\<close>

section \<open>Loops that drain a queue\<close>

locale draining =
  fixes loop :: "nat \<Rightarrow> 's \<Rightarrow> 's" and busy :: "'s \<Rightarrow> bool" and iteration :: "'s \<Rightarrow> bool \<times> 's"
    and left_over :: "'s \<Rightarrow> nat" and ok :: "'s \<Rightarrow> bool" and settled :: "'s \<Rightarrow> bool"
  assumes loop_Suc: "loop (Suc n) c =
      (if busy c then c else let (again, c') = iteration c in if again then loop n c' else c')"
    and goes_on: "ok c \<Longrightarrow> iteration c = (True, c') \<Longrightarrow> ok c' \<and> left_over c' < left_over c"
    and stops: "ok c \<Longrightarrow> iteration c = (False, c') \<Longrightarrow> settled c'"
    and busy_settled: "busy c \<Longrightarrow> settled c"
begin

lemma loop_settles: "ok c \<Longrightarrow> left_over c < n \<Longrightarrow> settled (loop n c)"
proof (induction n arbitrary: c)
  case (Suc n)
  obtain again c' where it: "iteration c = (again, c')" by (rule prod.exhaust)
  show ?case
    using Suc goes_on [OF Suc.prems(1)] stops [OF Suc.prems(1)] busy_settled it
    by (cases again) (auto simp: loop_Suc)
qed simp

lemma loop_fuel: "ok c \<Longrightarrow> left_over c < n \<Longrightarrow> loop (n + k) c = loop n c"
proof (induction n arbitrary: c)
  case (Suc n)
  obtain again c' where it: "iteration c = (again, c')" by (rule prod.exhaust)
  show ?case
    using Suc goes_on [OF Suc.prems(1)] it by (cases again) (auto simp: loop_Suc)
qed simp

end

section \<open>The stream loop\<close>

text \<open>Why a receive loop stops: an event waits, an event is leased, or nothing more can be decoded.\<close>

definition rx_busy :: "wl_ctx_impl \<Rightarrow> bool" where
  "rx_busy c \<longleftrightarrow> has_event c \<or> rx_event_leased c"

definition stream_settled :: "wl_ctx_impl \<Rightarrow> bool" where
  "stream_settled c \<longleftrightarrow> rx_busy c \<or> isl (fst (wl_rx_ring_consumer_find (ctx_mem c) (rx_ring c) 0))"

definition unit_settled :: "wl_ctx_impl \<Rightarrow> bool" where
  "unit_settled c \<longleftrightarrow> rx_busy c \<or> span_data (wl_rx_unit_consumer_peek (rx_units c)) = NULL \<or>
     span_length (wl_rx_unit_consumer_peek (rx_units c)) = 0"

definition stream_ctx :: "wl_ctx_impl \<Rightarrow> bool" where
  "stream_ctx c \<longleftrightarrow> ring_at c \<and> envelope (ctx_config c) = WL_ENVELOPE_COBS_STREAM"

lemma rx_find_loop_end: "readable \<le> offset \<Longrightarrow> rx_find_loop n m r v rd readable offset = None"
  by (cases n) simp_all

lemma find_fields:
  "read_cursor (snd (wl_rx_ring_consumer_find m r v)) = read_cursor r"
  "write_cursor (snd (wl_rx_ring_consumer_find m r v)) = write_cursor r"
  "ring_memory (snd (wl_rx_ring_consumer_find m r v)) = ring_memory r"
  "ring_capacity (snd (wl_rx_ring_consumer_find m r v)) = ring_capacity r"
  by (simp_all add: wl_rx_ring_consumer_find_def Let_def case_prod_beta del: rx_find_loop.simps split: option.split)

lemma find_snapshot:
  "readable_snapshot (snd (wl_rx_ring_consumer_find m r v)) = readable_snapshot r"
  "ring_uninit (snd (wl_rx_ring_consumer_find m r v)) = ring_uninit r"
  by (simp_all only: readable_snapshot_def ring_uninit_def find_fields)

lemma find_keeps_readable:
  "wl_rx_ring_readable (snd (wl_rx_ring_consumer_find m r v)) = wl_rx_ring_readable r"
  by (simp only: wl_rx_ring_readable_def find_snapshot)

lemma find_none_hint:
  assumes "isl (fst (wl_rx_ring_consumer_find m r 0))" "\<not> ring_uninit r"
  defines "r' \<equiv> snd (wl_rx_ring_consumer_find m r 0)"
  shows "find_valid r'" "find_read r' = snd (readable_snapshot r)" "\<not> find_found r'"
    "find_scanned r' = fst (readable_snapshot r)"
  using assms
  by (auto simp: wl_rx_ring_consumer_find_def Let_def case_prod_beta simp del: rx_find_loop.simps
      split: if_splits option.splits)

lemma find_again:
  assumes "isl (fst (wl_rx_ring_consumer_find m r 0))"
  shows "isl (fst (wl_rx_ring_consumer_find m (snd (wl_rx_ring_consumer_find m r 0)) 0))"
proof (cases "ring_uninit r")
  case True
  then show ?thesis by (simp add: wl_rx_ring_consumer_find_def)
next
  case False
  define r' where "r' = snd (wl_rx_ring_consumer_find m r 0)"
  show ?thesis
    using False find_none_hint [OF assms False] find_snapshot [of m r 0] unfolding r'_def [symmetric]
    by (simp add: wl_rx_ring_consumer_find_def Let_def case_prod_beta rx_find_loop_end del: rx_find_loop.simps)
qed

lemma consume_less:
  assumes "ring_in r a n" "i < wl_rx_ring_readable r"
  shows "wl_rx_ring_readable (snd (wl_rx_ring_consumer_consume r (Suc i))) < wl_rx_ring_readable r"
proof -
  let ?r = "snd (wl_rx_ring_consumer_consume r (Suc i))"
  have inv: "ring_inv r" "ring_inv ?r" using assms(1) ring_ops_in(9) [OF assms(1)] by (simp_all add: ring_in_def)
  note i = ring_invD [OF inv(1)]
  have "ring_readable ?r = ring_readable r - Suc i"
    using assms(2) i by (intro ring_pop) (simp_all add: wl_rx_ring_consumer_consume_def wl_rx_ring_readable_def)
  then show ?thesis
    using assms(2) i ring_invD [OF inv(2)] by (simp add: wl_rx_ring_readable_def)
qed

lemma find_then_consume:
  assumes "ring_in r a n" "wl_rx_ring_consumer_find m r 0 = (Inr i, r')"
  shows "wl_rx_ring_readable (snd (wl_rx_ring_consumer_consume r' (Suc i))) < wl_rx_ring_readable r"
proof -
  have "ring_in r' a n" "wl_rx_ring_readable r' = wl_rx_ring_readable r"
    using ring_ops_in(8) [OF assms(1), of m 0] find_keeps_readable [of m r 0] assms(2) by simp_all
  moreover have "i < wl_rx_ring_readable r"
    using find_in_readable [OF _ assms(2)] assms(1) ring_invD(1) by (simp add: ring_in_def wl_rx_ring_readable_def)
  ultimately show ?thesis using consume_less [of r' a n i] by simp
qed

lemma stream_candidate_ring: "stream_candidate c n = Some (a, c') \<Longrightarrow> rx_ring c' = rx_ring c"
  by (auto simp: stream_candidate_def Let_def split: if_splits prod.splits)

lemma stream_iteration_goes_on:
  assumes "stream_ctx c" "stream_iteration c = (True, c')"
  shows "stream_ctx c' \<and> wl_rx_ring_readable (rx_ring c') < wl_rx_ring_readable (rx_ring c)"
proof -
  have "stream_ctx c'"
    using stream_iteration_path [of c] stream_iteration_config [of c] assms by (simp add: stream_ctx_def rx_path_def)
  moreover obtain found ring where find: "wl_rx_ring_consumer_find (ctx_mem c) (rx_ring c) 0 = (found, ring)"
    by (rule prod.exhaust)
  then obtain i where i: "found = Inr i" using assms(2) by (cases found) (simp_all add: stream_iteration_def)
  have "rx_ring c' = snd (wl_rx_ring_consumer_consume ring (Suc i))"
    using assms(2) find i
    by (auto simp: stream_iteration_def Let_def consume_rx_def ctx_frame stream_candidate_ring
        split: if_splits option.splits)
  ultimately show ?thesis
    using find_then_consume find i assms(1) by (auto simp: stream_ctx_def ring_at_def)
qed

lemma stream_iteration_stops:
  assumes "stream_iteration c = (False, c')" shows "stream_settled c'"
  using assms find_again [of "ctx_mem c" "rx_ring c"]
  by (auto simp: stream_iteration_def stream_settled_def rx_busy_def has_rx_event_def Let_def case_prod_beta
      consume_rx_def split: sum.splits if_splits option.splits)

interpretation stream: draining stream_loop rx_busy stream_iteration "\<lambda>c. wl_rx_ring_readable (rx_ring c)"
  stream_ctx stream_settled
  using stream_iteration_goes_on stream_iteration_stops
  by unfold_locales (auto simp: stream_loop.simps rx_busy_def stream_settled_def)

section \<open>The unit loop\<close>

lemma unit_consume_less:
  assumes "span_data (wl_rx_unit_consumer_peek q) \<noteq> NULL"
  shows "uq_count (snd (wl_rx_unit_consumer_consume q)) < uq_count q"
proof -
  have "uq_write_cursor q - uq_read_cursor q \<noteq> 0"
    using assms by (auto simp: wl_rx_unit_consumer_peek_def split: if_splits)
  then have "unat (uq_write_cursor q - uq_read_cursor q - 1) < unat (uq_write_cursor q - uq_read_cursor q)"
    by (simp add: measure_unat)
  then show ?thesis
    using assms by (auto simp: wl_rx_unit_consumer_consume_def wl_rx_unit_consumer_peek_def uq_count_def
        diff_diff_eq split: if_splits)
qed

lemma unit_iteration_goes_on:
  "unit_iteration c = (True, c') \<Longrightarrow> uq_count (rx_units c') < uq_count (rx_units c)"
  using unit_consume_less by (auto simp: unit_iteration_def Let_def ctx_frame split: if_splits)

lemma unit_iteration_stops: "unit_iteration c = (False, c') \<Longrightarrow> unit_settled c'"
  by (auto simp: unit_iteration_def unit_settled_def rx_busy_def has_rx_event_def Let_def split: if_splits)

interpretation units_rx: draining unit_loop rx_busy unit_iteration "\<lambda>c. uq_count (rx_units c)"
  "\<lambda>_. True" unit_settled
  using unit_iteration_goes_on unit_iteration_stops
  by unfold_locales (auto simp: unit_loop.simps rx_busy_def unit_settled_def)

section \<open>Properties\<close>

lemma process_stream_settles:
  assumes "stream_ctx c" shows "stream_settled (wl_frame_process_stream c)"
proof -
  define d where "d = c\<lparr>rx_ring := snd (wl_rx_ring_consumer_take_overflow (rx_ring c))\<rparr>"
  have d: "stream_ctx d"
    using assms ring_ops_in(10) by (auto simp: d_def stream_ctx_def ring_at_def)
  then have e: "stream_ctx (consume_rx (d\<lparr>rx_counters := k\<rparr>) n)" for k n
    using ring_ops_in(9) by (auto simp: consume_rx_def stream_ctx_def ring_at_def)
  show ?thesis
    using stream.loop_settles [OF d] stream.loop_settles [OF e]
    by (simp add: wl_frame_process_stream_def Let_def case_prod_beta flip: d_def)
qed

text \<open>
  C32. The receive loops end, and end for a reason of the source. Take a link initialised on storage whose
  areas are apart and any admissible sequence of calls. A receive pass then leaves an event waiting, an
  event leased, or nothing to decode: no delimiter in the stream ring, no unit in the unit queue.
  And the fuel of the two loops is never what stops them, more of it gives the same context.
\<close>

theorem receive_pass_settles:
  assumes "wl_init lock_free c0 config storage = (WL_OK, c)" "storage_apart c" "admissible_run ops c"
    and "s = run_ops link_exec ops c"
  shows "(if envelope config = WL_ENVELOPE_COBS_STREAM
      then stream_settled (wl_link_process_rx s) \<and>
        stream_loop (wl_rx_ring_readable (rx_ring s) + 1 + k) s = stream_loop (wl_rx_ring_readable (rx_ring s) + 1) s
      else unit_settled (wl_link_process_rx s) \<and>
        unit_loop (uq_count (rx_units s) + 1 + k) s = unit_loop (uq_count (rx_units s) + 1) s)"
proof -
  have "mem_ok s" using run_mem_ok [OF wl_init_link_inv wl_init_mem_ok] assms by blast
  moreover have config: "ctx_config s = config"
    using run_same_setup [OF wl_init_link_inv [OF assms(1)], of ops] wl_init_setup [OF assms(1)] assms(4)
    by (simp add: same_setup_def)
  ultimately have ctx: "envelope config = WL_ENVELOPE_COBS_STREAM \<Longrightarrow> stream_ctx s"
    by (simp add: stream_ctx_def mem_ok_def)
  have "unit_settled (wl_frame_process_units s)"
    using units_rx.loop_settles [of s]
    by (cases "uq_initialized (rx_units s)")
       (simp_all add: wl_frame_process_units_def, simp add: unit_settled_def wl_rx_unit_consumer_peek_def)
  then show ?thesis
    using process_stream_settles [OF ctx] config
      stream.loop_fuel [OF ctx, of "wl_rx_ring_readable (rx_ring s) + 1" k]
      units_rx.loop_fuel [of s "uq_count (rx_units s) + 1" k]
    by (simp add: wl_link_process_rx_def)
qed

text \<open>
  A stream link with a ring of 32 bytes. It is fed three bytes, two delimiters around one byte that is no
  frame, and the pass reads them all.
\<close>

definition demo_stream_config :: wl_config where
  "demo_stream_config = demo_link_config\<lparr>envelope := WL_ENVELOPE_COBS_STREAM\<rparr>"

definition demo_stream_storage :: wl_storage where
  "demo_stream_storage = \<lparr>st_tx_payload = 100, st_tx_payload_size = 4, st_tx_unit = 200, st_tx_unit_size = 30,
     st_control_unit = 300, st_control_unit_size = 30, st_rx_fifo = 600, st_rx_fifo_size = 32,
     st_rx_fallback = 400, st_rx_fallback_size = 30\<rparr>"

definition demo_stream_link :: wl_ctx_impl where
  "demo_stream_link = (zero_ctx (\<lambda>_. 0) [] demo_stream_config demo_stream_storage)
     \<lparr>tx_retries_max := 1, tx_retries_left := 1, session_id := 9, tx_token := 1,
      tx_payload := \<lparr>span_data = 100, span_length = 0\<rparr>,
      rx_ring := blank_ring\<lparr>ring_memory := 600, ring_capacity := 32, dma_next_token := 1\<rparr>,
      rx_payload := \<lparr>span_data = 400, span_length = 0\<rparr>, tx_writable := True, initialized := True\<rparr>"

lemma demo_stream_init_ok:
  "wl_init True (zero_ctx (\<lambda>_. 0) [] demo_stream_config demo_stream_storage)
     demo_stream_config demo_stream_storage = (WL_OK, demo_stream_link)"
  by (simp add: wl_init_def wl_config_requirements_def wl_max_unit_size_def
      wl_frame_raw_size_def wl_frame_encode_overhead_def wl_profile_envelope_valid_def
      wl_profile_integrity_valid_def wl_profile_supported_def wl_profile_crc_size_def SIZE_MAX_def
      storage_overlaps_def wl_cobs_encoded_max_size_def wl_rx_ring_storage_size_def wl_rx_ring_init_def
      demo_stream_config_def demo_stream_storage_def demo_link_config_def demo_stream_link_def
      zero_ctx_def blank_ring_def Let_def)

lemma demo_stream_apart: "storage_apart demo_stream_link"
proof -
  have "ctx_config demo_stream_link = demo_stream_config" "ctx_storage demo_stream_link = demo_stream_storage"
    using wl_init_setup [OF demo_stream_init_ok] by simp_all
  then show ?thesis
    by (auto simp: storage_apart_def area_defs demo_stream_config_def demo_stream_storage_def)
qed

theorem receive_pass_settles_witness:
  "let s = run_ops link_exec [Op_store 501 7, Op_feed_bytes 500 3] demo_stream_link
   in wl_rx_ring_readable (rx_ring s) = 3 \<and> wl_rx_ring_readable (rx_ring (wl_link_process_rx s)) = 0 \<and>
      stream_settled (wl_link_process_rx s) \<and> stream_loop (3 + 1 + 5) s = stream_loop (3 + 1) s"
proof -
  let ?ops = "[Op_store 501 7, Op_feed_bytes 500 3]"
  let ?s = "run_ops link_exec ?ops demo_stream_link"
  have adm: "admissible_run ?ops demo_stream_link"
    by (simp add: admissible_def store_ok_def area_defs demo_stream_link_def demo_stream_config_def
        demo_stream_storage_def zero_ctx_def)
  have run: "wl_rx_ring_readable (rx_ring ?s) = 3"
    "wl_rx_ring_readable (rx_ring (wl_link_process_rx ?s)) = 0" "envelope demo_stream_config = WL_ENVELOPE_COBS_STREAM"
    by code_simp+
  from receive_pass_settles [OF demo_stream_init_ok demo_stream_apart adm refl, of 5] show ?thesis
    by (simp only: run Let_def if_True simp_thms)
qed

end
