(* ===== verification/Bulk_Sender.thy ===== *)
theory Bulk_Sender
  imports Prelude
begin

text \<open>
  The sending side of bulk transfers, \<^verbatim>\<open>src/bulk_sender.c\<close>, with the types of
  \<^verbatim>\<open>wirelink/bulk.h\<close>. The sender turns an object of known length into a sequence of actions, one at a
  time, and advances on the status messages of the receiver.

  Phases, status codes and states are the integers of the C enumerations, because phases and codes arrive
  from the peer and are checked. Pointers to the sender and to output arguments are not null.
\<close>

section \<open>Types\<close>

datatype wl_bulk_err =
    WL_BULK_OK | WL_BULK_ERR_INVALID_ARG | WL_BULK_ERR_NOT_INITIALIZED | WL_BULK_ERR_BUSY
  | WL_BULK_ERR_INVALID_STATE | WL_BULK_ERR_NOT_FOUND | WL_BULK_ERR_PROTOCOL | WL_BULK_ERR_TIMEOUT

type_synonym wl_bulk_phase = int

abbreviation (input) WL_BULK_PHASE_NONE :: wl_bulk_phase where "WL_BULK_PHASE_NONE \<equiv> 0"
abbreviation (input) WL_BULK_PHASE_BEGIN :: wl_bulk_phase where "WL_BULK_PHASE_BEGIN \<equiv> 1"
abbreviation (input) WL_BULK_PHASE_CHUNK :: wl_bulk_phase where "WL_BULK_PHASE_CHUNK \<equiv> 2"
abbreviation (input) WL_BULK_PHASE_END :: wl_bulk_phase where "WL_BULK_PHASE_END \<equiv> 3"
abbreviation (input) WL_BULK_PHASE_ABORT :: wl_bulk_phase where "WL_BULK_PHASE_ABORT \<equiv> 4"

type_synonym wl_bulk_status_code = int

abbreviation (input) WL_BULK_STATUS_OK :: wl_bulk_status_code where "WL_BULK_STATUS_OK \<equiv> 0"
abbreviation (input) WL_BULK_STATUS_BUSY :: wl_bulk_status_code where "WL_BULK_STATUS_BUSY \<equiv> 1"
abbreviation (input) WL_BULK_STATUS_OUT_OF_ORDER :: wl_bulk_status_code where "WL_BULK_STATUS_OUT_OF_ORDER \<equiv> 2"
abbreviation (input) WL_BULK_STATUS_CONFLICT :: wl_bulk_status_code where "WL_BULK_STATUS_CONFLICT \<equiv> 3"
abbreviation (input) WL_BULK_STATUS_INVALID :: wl_bulk_status_code where "WL_BULK_STATUS_INVALID \<equiv> 4"
abbreviation (input) WL_BULK_STATUS_WRITE_FAILED :: wl_bulk_status_code where "WL_BULK_STATUS_WRITE_FAILED \<equiv> 5"
abbreviation (input) WL_BULK_STATUS_INTEGRITY_FAILED :: wl_bulk_status_code where "WL_BULK_STATUS_INTEGRITY_FAILED \<equiv> 6"
abbreviation (input) WL_BULK_STATUS_ABORTED :: wl_bulk_status_code where "WL_BULK_STATUS_ABORTED \<equiv> 7"
abbreviation (input) WL_BULK_STATUS_TIMED_OUT :: wl_bulk_status_code where "WL_BULK_STATUS_TIMED_OUT \<equiv> 8"

record wl_bulk_descriptor =
  transfer_id :: u32
  total_length :: u64
  requested_chunk_size :: u32
  object_crc32c :: u32

record wl_bulk_status =
  bs_transfer_id :: u32
  bs_phase :: wl_bulk_phase
  bs_code :: wl_bulk_status_code
  bs_next_offset :: u64
  bs_accepted_chunk_size :: u32

datatype wl_bulk_sender_state =
    WL_BULK_SENDER_IDLE | WL_BULK_SENDER_READY | WL_BULK_SENDER_WAIT_STATUS
  | WL_BULK_SENDER_COMPLETED | WL_BULK_SENDER_FAILED | WL_BULK_SENDER_ABORTED

record wl_bulk_sender_config =
  bsc_status_timeout_ms :: u32
  bsc_busy_retry_ms :: u32
  bsc_max_retries :: u16

record wl_bulk_sender_action =
  ac_phase :: wl_bulk_phase
  ac_descriptor :: wl_bulk_descriptor
  ac_offset :: u64
  ac_length :: nat
  ac_abort_reason :: int
  ac_token :: u32

record wl_bulk_sender_stats =
  sst_starts :: u32
  sst_actions_submitted :: u32
  sst_statuses_received :: u32
  sst_retries :: u32
  sst_busy_responses :: u32
  sst_protocol_errors :: u32
  sst_completed :: u32
  sst_failed :: u32
  sst_aborted :: u32

record wl_bulk_sender_result =
  sres_state :: wl_bulk_sender_state
  sres_status :: wl_bulk_status_code
  sres_next_offset :: u64
  sres_retry_count :: u16

definition WL_BULK_SENDER_MAGIC :: u32 where "WL_BULK_SENDER_MAGIC = 0x42554c53"
abbreviation (input) WL_BULK_MAX_INTERVAL :: u32 where "WL_BULK_MAX_INTERVAL \<equiv> 0x80000000"
abbreviation (input) WL_BULK_NO_DEADLINE_MS :: u32 where "WL_BULK_NO_DEADLINE_MS \<equiv> 0xFFFFFFFF"

record wl_bulk_sender =
  sn_descriptor :: wl_bulk_descriptor
  sn_stats :: wl_bulk_sender_stats
  sn_next_offset :: u64
  sn_action_length :: nat
  sn_wait_started_at :: u32
  sn_wait_interval_ms :: u32
  sn_status_timeout_ms :: u32
  sn_busy_retry_ms :: u32
  sn_next_token :: u32
  sn_acquired_token :: u32
  sn_magic :: u32
  sn_abort_reason :: int
  sn_state :: wl_bulk_sender_state
  sn_phase :: wl_bulk_phase
  sn_last_status :: wl_bulk_status_code
  sn_negotiated_chunk_size :: u32
  sn_retry_count :: u16
  sn_max_retries :: u16
  sn_action_acquired :: bool
  sn_chunk_acknowledged :: bool
  sn_retry_wait :: bool

section \<open>Helpers\<close>

definition sender_initialized :: "wl_bulk_sender \<Rightarrow> bool" where
  "sender_initialized impl \<longleftrightarrow> sn_magic impl = WL_BULK_SENDER_MAGIC"

definition sender_interval_valid :: "u32 \<Rightarrow> bool" where
  "sender_interval_valid interval_ms \<longleftrightarrow> interval_ms \<noteq> 0 \<and> interval_ms < WL_BULK_MAX_INTERVAL"

definition deadline_elapsed :: "u32 \<Rightarrow> u32 \<Rightarrow> u32 \<Rightarrow> bool" where
  "deadline_elapsed now_ms started_at interval_ms \<longleftrightarrow> now_ms - started_at \<ge> interval_ms"

definition deadline_remaining :: "u32 \<Rightarrow> u32 \<Rightarrow> u32 \<Rightarrow> u32" where
  "deadline_remaining now_ms started_at interval_ms =
     (let age = now_ms - started_at in if age \<ge> interval_ms then 0 else interval_ms - age)"

definition bulk_increment :: "u32 \<Rightarrow> u32" where
  "bulk_increment counter = (if counter \<noteq> UINT32_MAX then counter + 1 else counter)"

definition sender_active :: "wl_bulk_sender \<Rightarrow> bool" where
  "sender_active impl \<longleftrightarrow> sn_state impl = WL_BULK_SENDER_READY \<or> sn_state impl = WL_BULK_SENDER_WAIT_STATUS"

definition phase_valid :: "wl_bulk_phase \<Rightarrow> bool" where
  "phase_valid phase \<longleftrightarrow> phase \<ge> WL_BULK_PHASE_BEGIN \<and> phase \<le> WL_BULK_PHASE_ABORT"

definition status_code_valid :: "wl_bulk_status_code \<Rightarrow> bool" where
  "status_code_valid code \<longleftrightarrow> code \<ge> WL_BULK_STATUS_OK \<and> code \<le> WL_BULK_STATUS_TIMED_OUT"

definition sender_next_token :: "u32 \<Rightarrow> u32" where
  "sender_next_token token = (if token + 1 = 0 then token + 1 + 1 else token + 1)"

definition set_action_length :: "wl_bulk_sender \<Rightarrow> wl_bulk_sender" where
  "set_action_length impl =
     (if sn_phase impl \<noteq> WL_BULK_PHASE_CHUNK \<or> sn_next_offset impl \<ge> total_length (sn_descriptor impl)
      then impl\<lparr>sn_action_length := 0\<rparr>
      else
        let remaining = total_length (sn_descriptor impl) - sn_next_offset impl
        in impl\<lparr>sn_action_length := (if remaining < ucast (sn_negotiated_chunk_size impl)
             then unat remaining else unat (sn_negotiated_chunk_size impl))\<rparr>)"

definition prepare_phase :: "wl_bulk_sender \<Rightarrow> wl_bulk_phase \<Rightarrow> wl_bulk_sender" where
  "prepare_phase impl phase =
     set_action_length
       (impl\<lparr>sn_phase := phase, sn_state := WL_BULK_SENDER_READY, sn_action_acquired := False,
             sn_acquired_token := 0, sn_retry_count := 0, sn_retry_wait := False, sn_wait_interval_ms := 0\<rparr>)"

definition fail_sender :: "wl_bulk_sender \<Rightarrow> wl_bulk_status_code \<Rightarrow> wl_bulk_sender" where
  "fail_sender impl status =
     impl\<lparr>sn_state := WL_BULK_SENDER_FAILED, sn_last_status := status, sn_action_acquired := False,
          sn_acquired_token := 0, sn_retry_wait := False, sn_wait_interval_ms := 0,
          sn_stats := (sn_stats impl)\<lparr>sst_failed := bulk_increment (sst_failed (sn_stats impl))\<rparr>\<rparr>"

definition protocol_failure :: "wl_bulk_sender \<Rightarrow> wl_bulk_sender" where
  "protocol_failure impl =
     fail_sender (impl\<lparr>sn_stats := (sn_stats impl)
         \<lparr>sst_protocol_errors := bulk_increment (sst_protocol_errors (sn_stats impl))\<rparr>\<rparr>) WL_BULK_STATUS_INVALID"

definition descriptor_matches :: "wl_bulk_descriptor \<Rightarrow> wl_bulk_descriptor \<Rightarrow> bool" where
  "descriptor_matches left right \<longleftrightarrow>
     transfer_id left = transfer_id right \<and> total_length left = total_length right \<and>
     requested_chunk_size left = requested_chunk_size right \<and> object_crc32c left = object_crc32c right"

definition action_matches :: "wl_bulk_sender \<Rightarrow> wl_bulk_sender_action \<Rightarrow> bool" where
  "action_matches impl action \<longleftrightarrow>
     ac_phase action = sn_phase impl \<and> descriptor_matches (ac_descriptor action) (sn_descriptor impl) \<and>
     ac_offset action = sn_next_offset impl \<and> ac_length action = sn_action_length impl \<and>
     ac_abort_reason action = sn_abort_reason impl"

definition status_chunk_size_matches :: "wl_bulk_sender \<Rightarrow> wl_bulk_status \<Rightarrow> bool" where
  "status_chunk_size_matches impl status \<longleftrightarrow>
     sn_phase impl = WL_BULK_PHASE_BEGIN \<or> bs_accepted_chunk_size status = sn_negotiated_chunk_size impl"

definition proposed_chunk_size_valid :: "wl_bulk_sender \<Rightarrow> u32 \<Rightarrow> bool" where
  "proposed_chunk_size_valid impl chunk_size \<longleftrightarrow>
     \<not> (chunk_size = 0 \<or> chunk_size > requested_chunk_size (sn_descriptor impl))"

definition terminal_status_valid :: "wl_bulk_sender \<Rightarrow> wl_bulk_status \<Rightarrow> bool" where
  "terminal_status_valid impl status =
     (if bs_next_offset status > total_length (sn_descriptor impl) then False
      else if sn_negotiated_chunk_size impl \<noteq> 0
      then bs_accepted_chunk_size status = sn_negotiated_chunk_size impl
      else if bs_accepted_chunk_size status = 0 then sn_phase impl = WL_BULK_PHASE_ABORT
      else proposed_chunk_size_valid impl (bs_accepted_chunk_size status))"

definition status_is_stale :: "wl_bulk_sender \<Rightarrow> wl_bulk_status \<Rightarrow> bool" where
  "status_is_stale impl status \<longleftrightarrow>
     bs_phase status < sn_phase impl \<or>
     sn_phase impl = WL_BULK_PHASE_CHUNK \<and> bs_phase status = WL_BULK_PHASE_CHUNK \<and>
     bs_code status = WL_BULK_STATUS_OK \<and> sn_chunk_acknowledged impl \<and>
     bs_next_offset status \<le> sn_next_offset impl"

definition wait_for_retry ::
    "wl_bulk_sender \<Rightarrow> u32 \<Rightarrow> u32 \<Rightarrow> wl_bulk_status_code \<Rightarrow> wl_bulk_sender" where
  "wait_for_retry impl now_ms delay_ms exhausted_status =
     (if sn_retry_count impl \<ge> sn_max_retries impl then fail_sender impl exhausted_status
      else impl\<lparr>sn_wait_started_at := now_ms, sn_wait_interval_ms := delay_ms, sn_retry_wait := True\<rparr>)"

section \<open>Operations\<close>

definition zero_descriptor :: wl_bulk_descriptor where
  "zero_descriptor = \<lparr>transfer_id = 0, total_length = 0, requested_chunk_size = 0, object_crc32c = 0\<rparr>"

definition zero_sender :: wl_bulk_sender where
  "zero_sender = \<lparr>sn_descriptor = zero_descriptor,
     sn_stats = \<lparr>sst_starts = 0, sst_actions_submitted = 0, sst_statuses_received = 0, sst_retries = 0,
       sst_busy_responses = 0, sst_protocol_errors = 0, sst_completed = 0, sst_failed = 0, sst_aborted = 0\<rparr>,
     sn_next_offset = 0, sn_action_length = 0, sn_wait_started_at = 0, sn_wait_interval_ms = 0,
     sn_status_timeout_ms = 0, sn_busy_retry_ms = 0, sn_next_token = 0, sn_acquired_token = 0, sn_magic = 0,
     sn_abort_reason = 0, sn_state = WL_BULK_SENDER_IDLE, sn_phase = WL_BULK_PHASE_NONE,
     sn_last_status = WL_BULK_STATUS_OK, sn_negotiated_chunk_size = 0, sn_retry_count = 0, sn_max_retries = 0,
     sn_action_acquired = False, sn_chunk_acknowledged = False, sn_retry_wait = False\<rparr>"

definition wl_bulk_sender_init ::
    "wl_bulk_sender \<Rightarrow> wl_bulk_sender_config \<Rightarrow> wl_bulk_err \<times> wl_bulk_sender" where
  "wl_bulk_sender_init sender config =
     (if \<not> sender_interval_valid (bsc_status_timeout_ms config) \<or> \<not> sender_interval_valid (bsc_busy_retry_ms config)
      then (WL_BULK_ERR_INVALID_ARG, sender)
      else
        (WL_BULK_OK,
         zero_sender\<lparr>sn_status_timeout_ms := bsc_status_timeout_ms config,
           sn_busy_retry_ms := bsc_busy_retry_ms config, sn_max_retries := bsc_max_retries config,
           sn_state := WL_BULK_SENDER_IDLE, sn_last_status := WL_BULK_STATUS_OK,
           sn_magic := WL_BULK_SENDER_MAGIC\<rparr>))"

definition wl_bulk_sender_reset :: "wl_bulk_sender \<Rightarrow> wl_bulk_err \<times> wl_bulk_sender" where
  "wl_bulk_sender_reset impl =
     (if \<not> sender_initialized impl then (WL_BULK_ERR_NOT_INITIALIZED, impl)
      else if sn_action_acquired impl \<or> sender_active impl \<or>
              sn_state impl = WL_BULK_SENDER_FAILED \<and> sn_phase impl \<noteq> WL_BULK_PHASE_ABORT
      then (WL_BULK_ERR_BUSY, impl)
      else
        (WL_BULK_OK,
         impl\<lparr>sn_descriptor := zero_descriptor, sn_next_offset := 0, sn_action_length := 0,
              sn_wait_started_at := 0, sn_wait_interval_ms := 0, sn_acquired_token := 0, sn_abort_reason := 0,
              sn_state := WL_BULK_SENDER_IDLE, sn_phase := WL_BULK_PHASE_NONE,
              sn_last_status := WL_BULK_STATUS_OK, sn_negotiated_chunk_size := 0, sn_retry_count := 0,
              sn_action_acquired := False, sn_chunk_acknowledged := False, sn_retry_wait := False\<rparr>))"

definition wl_bulk_sender_start ::
    "wl_bulk_sender \<Rightarrow> wl_bulk_descriptor \<Rightarrow> wl_bulk_err \<times> wl_bulk_sender" where
  "wl_bulk_sender_start impl descriptor =
     (if \<not> sender_initialized impl then (WL_BULK_ERR_NOT_INITIALIZED, impl)
      else if transfer_id descriptor = 0 \<or> requested_chunk_size descriptor = 0
      then (WL_BULK_ERR_INVALID_ARG, impl)
      else if sn_state impl \<noteq> WL_BULK_SENDER_IDLE then (WL_BULK_ERR_BUSY, impl)
      else
        let impl = impl\<lparr>sn_descriptor := descriptor, sn_next_offset := 0, sn_negotiated_chunk_size := 0,
                        sn_chunk_acknowledged := False, sn_abort_reason := 0,
                        sn_last_status := WL_BULK_STATUS_OK\<rparr>;
            impl = prepare_phase impl WL_BULK_PHASE_BEGIN
        in (WL_BULK_OK, impl\<lparr>sn_stats := (sn_stats impl)\<lparr>sst_starts := bulk_increment (sst_starts (sn_stats impl))\<rparr>\<rparr>))"

definition wl_bulk_sender_request_abort :: "wl_bulk_sender \<Rightarrow> int \<Rightarrow> wl_bulk_err \<times> wl_bulk_sender" where
  "wl_bulk_sender_request_abort impl reason =
     (if \<not> sender_initialized impl then (WL_BULK_ERR_NOT_INITIALIZED, impl)
      else if (\<not> sender_active impl \<and> sn_state impl \<noteq> WL_BULK_SENDER_FAILED) \<or> sn_phase impl = WL_BULK_PHASE_ABORT
      then (WL_BULK_ERR_INVALID_STATE, impl)
      else if sn_action_acquired impl then (WL_BULK_ERR_BUSY, impl)
      else (WL_BULK_OK, prepare_phase (impl\<lparr>sn_abort_reason := reason\<rparr>) WL_BULK_PHASE_ABORT))"

definition wl_bulk_sender_action_acquire ::
    "wl_bulk_sender \<Rightarrow> (wl_bulk_err + wl_bulk_sender_action) \<times> wl_bulk_sender" where
  "wl_bulk_sender_action_acquire impl =
     (if \<not> sender_initialized impl then (Inl WL_BULK_ERR_NOT_INITIALIZED, impl)
      else if sn_state impl \<noteq> WL_BULK_SENDER_READY then (Inl WL_BULK_ERR_NOT_FOUND, impl)
      else if sn_action_acquired impl then (Inl WL_BULK_ERR_BUSY, impl)
      else
        let token = sender_next_token (sn_next_token impl)
        in (Inr \<lparr>ac_phase = sn_phase impl, ac_descriptor = sn_descriptor impl, ac_offset = sn_next_offset impl,
                 ac_length = sn_action_length impl, ac_abort_reason = sn_abort_reason impl, ac_token = token\<rparr>,
            impl\<lparr>sn_next_token := token, sn_acquired_token := token, sn_action_acquired := True\<rparr>))"

definition wl_bulk_sender_action_defer ::
    "wl_bulk_sender \<Rightarrow> wl_bulk_sender_action \<Rightarrow> wl_bulk_err \<times> wl_bulk_sender" where
  "wl_bulk_sender_action_defer impl action =
     (if \<not> sender_initialized impl then (WL_BULK_ERR_NOT_INITIALIZED, impl)
      else if sn_state impl \<noteq> WL_BULK_SENDER_READY \<or> \<not> sn_action_acquired impl \<or>
              ac_token action \<noteq> sn_acquired_token impl
      then (WL_BULK_ERR_INVALID_STATE, impl)
      else if \<not> action_matches impl action then (WL_BULK_ERR_INVALID_ARG, impl)
      else (WL_BULK_OK, impl\<lparr>sn_action_acquired := False, sn_acquired_token := 0\<rparr>))"

definition wl_bulk_sender_action_submitted ::
    "wl_bulk_sender \<Rightarrow> wl_bulk_sender_action \<Rightarrow> u32 \<Rightarrow> wl_bulk_err \<times> wl_bulk_sender" where
  "wl_bulk_sender_action_submitted impl action now_ms =
     (if \<not> sender_initialized impl then (WL_BULK_ERR_NOT_INITIALIZED, impl)
      else if sn_state impl \<noteq> WL_BULK_SENDER_READY \<or> \<not> sn_action_acquired impl \<or>
              ac_token action \<noteq> sn_acquired_token impl
      then (WL_BULK_ERR_INVALID_STATE, impl)
      else if \<not> action_matches impl action then (WL_BULK_ERR_INVALID_ARG, impl)
      else
        (WL_BULK_OK,
         impl\<lparr>sn_action_acquired := False, sn_acquired_token := 0, sn_state := WL_BULK_SENDER_WAIT_STATUS,
              sn_wait_started_at := now_ms, sn_wait_interval_ms := sn_status_timeout_ms impl,
              sn_retry_wait := False,
              sn_stats := (sn_stats impl)\<lparr>sst_actions_submitted :=
                bulk_increment (sst_actions_submitted (sn_stats impl))\<rparr>\<rparr>))"

text \<open>Counting a status, an abort and a completion.\<close>

definition count_status :: "wl_bulk_sender \<Rightarrow> wl_bulk_sender" where
  "count_status impl = impl\<lparr>sn_stats := (sn_stats impl)
     \<lparr>sst_statuses_received := bulk_increment (sst_statuses_received (sn_stats impl))\<rparr>\<rparr>"

definition count_aborted :: "wl_bulk_sender \<Rightarrow> wl_bulk_sender" where
  "count_aborted impl = impl\<lparr>sn_stats := (sn_stats impl)\<lparr>sst_aborted := bulk_increment (sst_aborted (sn_stats impl))\<rparr>\<rparr>"

text \<open>The phase after the receiver confirmed an offset.\<close>

definition next_phase :: "wl_bulk_sender \<Rightarrow> wl_bulk_sender" where
  "next_phase impl = prepare_phase impl
     (if sn_next_offset impl = total_length (sn_descriptor impl) then WL_BULK_PHASE_END else WL_BULK_PHASE_CHUNK)"

text \<open>A status that confirms the current phase.\<close>

definition on_status_ok :: "wl_bulk_sender \<Rightarrow> wl_bulk_status \<Rightarrow> wl_bulk_err \<times> wl_bulk_sender" where
  "on_status_ok impl status =
     (if sn_phase impl = WL_BULK_PHASE_BEGIN then
        if \<not> proposed_chunk_size_valid impl (bs_accepted_chunk_size status) \<or>
           bs_next_offset status > total_length (sn_descriptor impl)
        then (WL_BULK_ERR_PROTOCOL, protocol_failure impl)
        else (WL_BULK_OK, next_phase (impl\<lparr>sn_negotiated_chunk_size := bs_accepted_chunk_size status,
                                          sn_next_offset := bs_next_offset status\<rparr>))
      else if sn_phase impl = WL_BULK_PHASE_CHUNK then
        let expected_offset = sn_next_offset impl + of_nat (sn_action_length impl)
        in if bs_next_offset status \<noteq> expected_offset \<or> bs_next_offset status > total_length (sn_descriptor impl)
           then (WL_BULK_ERR_PROTOCOL, protocol_failure impl)
           else (WL_BULK_OK, next_phase (impl\<lparr>sn_next_offset := bs_next_offset status,
                                             sn_chunk_acknowledged := True\<rparr>))
      else if sn_phase impl = WL_BULK_PHASE_END then
        if bs_next_offset status \<noteq> total_length (sn_descriptor impl)
        then (WL_BULK_ERR_PROTOCOL, protocol_failure impl)
        else (WL_BULK_OK,
              impl\<lparr>sn_next_offset := bs_next_offset status, sn_state := WL_BULK_SENDER_COMPLETED,
                   sn_wait_interval_ms := 0,
                   sn_stats := (sn_stats impl)\<lparr>sst_completed := bulk_increment (sst_completed (sn_stats impl))\<rparr>\<rparr>)
      else if sn_phase impl = WL_BULK_PHASE_ABORT then
        (WL_BULK_OK,
         count_aborted (impl\<lparr>sn_next_offset := bs_next_offset status, sn_state := WL_BULK_SENDER_ABORTED,
                             sn_wait_interval_ms := 0\<rparr>))
      else (WL_BULK_ERR_PROTOCOL, protocol_failure impl))"

text \<open>The other branches: a terminal status, a busy receiver, a receiver at another offset, a refusal.\<close>

definition on_status_terminal :: "wl_bulk_sender \<Rightarrow> wl_bulk_status \<Rightarrow> wl_bulk_err \<times> wl_bulk_sender" where
  "on_status_terminal impl status =
     (if \<not> terminal_status_valid impl status then (WL_BULK_ERR_PROTOCOL, protocol_failure impl)
      else
        let impl = (count_status impl)\<lparr>sn_last_status := bs_code status, sn_next_offset := bs_next_offset status,
                                       sn_wait_interval_ms := 0\<rparr>
        in (WL_BULK_OK,
            if bs_code status = WL_BULK_STATUS_ABORTED
            then count_aborted (impl\<lparr>sn_state := WL_BULK_SENDER_ABORTED\<rparr>)
            else fail_sender (impl\<lparr>sn_phase := WL_BULK_PHASE_ABORT\<rparr>) (bs_code status)))"

definition on_status_busy :: "wl_bulk_sender \<Rightarrow> wl_bulk_status \<Rightarrow> u32 \<Rightarrow> wl_bulk_err \<times> wl_bulk_sender" where
  "on_status_busy impl status now_ms =
     (if bs_next_offset status \<noteq> sn_next_offset impl then (WL_BULK_ERR_PROTOCOL, protocol_failure impl)
      else
        (WL_BULK_OK,
         wait_for_retry
           (impl\<lparr>sn_stats := (sn_stats impl)
              \<lparr>sst_busy_responses := bulk_increment (sst_busy_responses (sn_stats impl))\<rparr>\<rparr>)
           now_ms (sn_busy_retry_ms impl) WL_BULK_STATUS_BUSY))"

definition on_status_out_of_order :: "wl_bulk_sender \<Rightarrow> wl_bulk_status \<Rightarrow> wl_bulk_err \<times> wl_bulk_sender" where
  "on_status_out_of_order impl status =
     (if bs_next_offset status > total_length (sn_descriptor impl) \<or>
         sn_phase impl = WL_BULK_PHASE_BEGIN \<and> \<not> proposed_chunk_size_valid impl (bs_accepted_chunk_size status) \<or>
         sn_phase impl = WL_BULK_PHASE_CHUNK \<and>
           bs_accepted_chunk_size status \<noteq> sn_negotiated_chunk_size impl \<or>
         sn_phase impl \<noteq> WL_BULK_PHASE_BEGIN \<and> sn_phase impl \<noteq> WL_BULK_PHASE_CHUNK
      then (WL_BULK_ERR_PROTOCOL, protocol_failure impl)
      else
        let impl = (if sn_phase impl = WL_BULK_PHASE_BEGIN
                    then impl\<lparr>sn_negotiated_chunk_size := bs_accepted_chunk_size status\<rparr> else impl)
        in (WL_BULK_OK, next_phase (impl\<lparr>sn_next_offset := bs_next_offset status,
                                        sn_chunk_acknowledged := False\<rparr>)))"

definition on_status_refused :: "wl_bulk_sender \<Rightarrow> wl_bulk_status \<Rightarrow> wl_bulk_err \<times> wl_bulk_sender" where
  "on_status_refused impl status =
     (WL_BULK_OK,
      if bs_code status = WL_BULK_STATUS_ABORTED
      then count_aborted (impl\<lparr>sn_state := WL_BULK_SENDER_ABORTED\<rparr>)
      else fail_sender impl (bs_code status))"

text \<open>A status of the current phase, by its code.\<close>

definition on_status_current :: "wl_bulk_sender \<Rightarrow> wl_bulk_status \<Rightarrow> u32 \<Rightarrow> wl_bulk_err \<times> wl_bulk_sender" where
  "on_status_current impl status now_ms =
     (let impl = (count_status impl)\<lparr>sn_last_status := bs_code status\<rparr>
      in if bs_code status = WL_BULK_STATUS_BUSY then on_status_busy impl status now_ms
         else if bs_code status = WL_BULK_STATUS_OUT_OF_ORDER then on_status_out_of_order impl status
         else if bs_code status \<noteq> WL_BULK_STATUS_OK then on_status_refused impl status
         else on_status_ok impl status)"

definition wl_bulk_sender_on_status ::
    "wl_bulk_sender \<Rightarrow> wl_bulk_status \<Rightarrow> u32 \<Rightarrow> wl_bulk_err \<times> wl_bulk_sender" where
  "wl_bulk_sender_on_status impl status now_ms =
     (if \<not> sender_initialized impl then (WL_BULK_ERR_NOT_INITIALIZED, impl)
      else if \<not> phase_valid (bs_phase status) \<or> \<not> status_code_valid (bs_code status)
      then (WL_BULK_ERR_INVALID_ARG, impl)
      else if bs_transfer_id status \<noteq> transfer_id (sn_descriptor impl) then (WL_BULK_ERR_NOT_FOUND, impl)
      else if sn_state impl \<noteq> WL_BULK_SENDER_WAIT_STATUS \<or> sn_retry_wait impl
      then (WL_BULK_ERR_INVALID_STATE, impl)
      else if bs_phase status = WL_BULK_PHASE_ABORT \<and>
              (bs_code status = WL_BULK_STATUS_ABORTED \<or> bs_code status = WL_BULK_STATUS_TIMED_OUT)
      then on_status_terminal impl status
      else if status_is_stale impl status then (WL_BULK_ERR_NOT_FOUND, impl)
      else if bs_phase status \<noteq> sn_phase impl \<or> \<not> status_chunk_size_matches impl status
      then (WL_BULK_ERR_PROTOCOL, protocol_failure impl)
      else on_status_current impl status now_ms)"

text \<open>The retransmission after a wait.\<close>

definition sender_retry :: "wl_bulk_sender \<Rightarrow> wl_bulk_sender" where
  "sender_retry impl =
     impl\<lparr>sn_retry_count := sn_retry_count impl + 1,
          sn_stats := (sn_stats impl)\<lparr>sst_retries := bulk_increment (sst_retries (sn_stats impl))\<rparr>,
          sn_state := WL_BULK_SENDER_READY, sn_retry_wait := False, sn_wait_interval_ms := 0\<rparr>"

definition wl_bulk_sender_poll :: "wl_bulk_sender \<Rightarrow> u32 \<Rightarrow> wl_bulk_err \<times> wl_bulk_sender" where
  "wl_bulk_sender_poll impl now_ms =
     (if \<not> sender_initialized impl then (WL_BULK_ERR_NOT_INITIALIZED, impl)
      else if sn_state impl \<noteq> WL_BULK_SENDER_WAIT_STATUS \<or>
              \<not> deadline_elapsed now_ms (sn_wait_started_at impl) (sn_wait_interval_ms impl)
      then (WL_BULK_OK, impl)
      else if sn_retry_wait impl then (WL_BULK_OK, sender_retry impl)
      else
        let impl = wait_for_retry impl now_ms 0 WL_BULK_STATUS_TIMED_OUT
        in if sn_state impl = WL_BULK_SENDER_FAILED then (WL_BULK_OK, impl) else (WL_BULK_OK, sender_retry impl))"

definition wl_bulk_sender_get_deadline_hint :: "wl_bulk_sender \<Rightarrow> u32 \<Rightarrow> wl_bulk_err + u32" where
  "wl_bulk_sender_get_deadline_hint impl now_ms =
     (if \<not> sender_initialized impl then Inl WL_BULK_ERR_NOT_INITIALIZED
      else Inr (if sn_state impl = WL_BULK_SENDER_WAIT_STATUS
                then deadline_remaining now_ms (sn_wait_started_at impl) (sn_wait_interval_ms impl)
                else WL_BULK_NO_DEADLINE_MS))"

definition wl_bulk_sender_get_result :: "wl_bulk_sender \<Rightarrow> wl_bulk_err + wl_bulk_sender_result" where
  "wl_bulk_sender_get_result impl =
     (if \<not> sender_initialized impl then Inl WL_BULK_ERR_NOT_INITIALIZED
      else Inr \<lparr>sres_state = sn_state impl, sres_status = sn_last_status impl,
                sres_next_offset = sn_next_offset impl, sres_retry_count = sn_retry_count impl\<rparr>)"

definition wl_bulk_sender_get_stats :: "wl_bulk_sender \<Rightarrow> wl_bulk_err + wl_bulk_sender_stats" where
  "wl_bulk_sender_get_stats impl =
     (if \<not> sender_initialized impl then Inl WL_BULK_ERR_NOT_INITIALIZED else Inr (sn_stats impl))"

end
