(* ===== verification/Bulk_Receiver.thy ===== *)
theory Bulk_Receiver
  imports Bulk_Sender
begin

text \<open>
  The receiving side of bulk transfers, \<^verbatim>\<open>src/bulk_receiver.c\<close>. The receiver checks the messages of a
  sender, hands accepted chunks to the sink callbacks of the application and retains one status to answer
  with.

  The sink is a parameter: a record of four functions over the state \<open>'u\<close> behind \<^verbatim>\<open>user_data\<close>. A null callback is
  \<open>None\<close>. A callback returns its result, for \<open>begin\<close> the value left in \<^verbatim>\<open>out_resume_offset\<close> (0 when it does not
  write it), and the new user state.
\<close>

section \<open>Types\<close>

fun wl_bulk_err_code :: "wl_bulk_err \<Rightarrow> int" where
  "wl_bulk_err_code WL_BULK_OK = 0"
| "wl_bulk_err_code WL_BULK_ERR_INVALID_ARG = -2000"
| "wl_bulk_err_code WL_BULK_ERR_NOT_INITIALIZED = -2001"
| "wl_bulk_err_code WL_BULK_ERR_BUSY = -2002"
| "wl_bulk_err_code WL_BULK_ERR_INVALID_STATE = -2003"
| "wl_bulk_err_code WL_BULK_ERR_NOT_FOUND = -2004"
| "wl_bulk_err_code WL_BULK_ERR_PROTOCOL = -2005"
| "wl_bulk_err_code WL_BULK_ERR_TIMEOUT = -2006"

record wl_bulk_chunk =
  ck_transfer_id :: u32
  ck_offset :: u64
  ck_data :: addr
  ck_length :: nat

type_synonym wl_bulk_sink_result = int

abbreviation (input) WL_BULK_SINK_OK :: wl_bulk_sink_result where "WL_BULK_SINK_OK \<equiv> 0"
abbreviation (input) WL_BULK_SINK_BUSY :: wl_bulk_sink_result where "WL_BULK_SINK_BUSY \<equiv> 1"
abbreviation (input) WL_BULK_SINK_WRITE_FAILED :: wl_bulk_sink_result where "WL_BULK_SINK_WRITE_FAILED \<equiv> 2"
abbreviation (input) WL_BULK_SINK_INTEGRITY_FAILED :: wl_bulk_sink_result where "WL_BULK_SINK_INTEGRITY_FAILED \<equiv> 3"
abbreviation (input) WL_BULK_SINK_INVALID :: wl_bulk_sink_result where "WL_BULK_SINK_INVALID \<equiv> 4"

record 'u wl_bulk_sink =
  sk_begin :: "('u \<Rightarrow> wl_bulk_descriptor \<Rightarrow> wl_bulk_sink_result \<times> u64 \<times> 'u) option"
  sk_write :: "('u \<Rightarrow> u32 \<Rightarrow> u64 \<Rightarrow> byte list \<Rightarrow> wl_bulk_sink_result \<times> 'u) option"
  sk_finish :: "('u \<Rightarrow> wl_bulk_descriptor \<Rightarrow> wl_bulk_sink_result \<times> 'u) option"
  sk_abort :: "('u \<Rightarrow> u32 \<Rightarrow> int \<Rightarrow> 'u) option"

datatype wl_bulk_receiver_state =
    WL_BULK_RECEIVER_IDLE | WL_BULK_RECEIVER_RECEIVING | WL_BULK_RECEIVER_COMPLETED
  | WL_BULK_RECEIVER_FAILED | WL_BULK_RECEIVER_ABORTED

record 'u wl_bulk_receiver_config =
  rc_max_object_length :: u64
  rc_max_chunk_size :: u32
  rc_write_alignment :: u32
  rc_idle_timeout_ms :: u32
  rc_sink :: "'u wl_bulk_sink"

record wl_bulk_receiver_status_view =
  vw_status :: wl_bulk_status
  vw_token :: u32

record wl_bulk_receiver_stats =
  rst_begins :: u32
  rst_chunks :: u32
  rst_bytes_written :: u32
  rst_duplicate_messages :: u32
  rst_busy_responses :: u32
  rst_protocol_errors :: u32
  rst_write_failures :: u32
  rst_integrity_failures :: u32
  rst_aborts :: u32
  rst_timeouts :: u32

definition WL_BULK_RECEIVER_MAGIC :: u32 where "WL_BULK_RECEIVER_MAGIC = 0x42554c52"

record 'u wl_bulk_receiver =
  rv_config :: "'u wl_bulk_receiver_config"
  rv_user :: 'u
  rv_descriptor :: wl_bulk_descriptor
  rv_pending_status :: wl_bulk_status
  rv_stats :: wl_bulk_receiver_stats
  rv_next_offset :: u64
  rv_last_activity_ms :: u32
  rv_status_token :: u32
  rv_accepted_chunk_size :: u32
  rv_magic :: u32
  rv_state :: wl_bulk_receiver_state
  rv_terminal_code :: wl_bulk_status_code
  rv_terminal_phase :: wl_bulk_phase
  rv_status_pending :: bool
  rv_status_acquired :: bool
  rv_sink_active :: bool

section \<open>Helpers\<close>

definition receiver_initialized :: "'u wl_bulk_receiver \<Rightarrow> bool" where
  "receiver_initialized impl \<longleftrightarrow> rv_magic impl = WL_BULK_RECEIVER_MAGIC"

definition power_of_two :: "u32 \<Rightarrow> bool" where
  "power_of_two value \<longleftrightarrow> value \<noteq> 0 \<and> and value (value - 1) = 0"

definition receiver_interval_valid :: "u32 \<Rightarrow> bool" where
  "receiver_interval_valid interval_ms \<longleftrightarrow> interval_ms < WL_BULK_MAX_INTERVAL"

definition interval_elapsed :: "u32 \<Rightarrow> u32 \<Rightarrow> u32 \<Rightarrow> bool" where
  "interval_elapsed now_ms started_at interval_ms \<longleftrightarrow> interval_ms \<noteq> 0 \<and> now_ms - started_at \<ge> interval_ms"

definition interval_remaining :: "u32 \<Rightarrow> u32 \<Rightarrow> u32 \<Rightarrow> u32" where
  "interval_remaining now_ms started_at interval_ms =
     (let age = now_ms - started_at in if age \<ge> interval_ms then 0 else interval_ms - age)"

definition counter_increment :: "u32 \<Rightarrow> u32" where
  "counter_increment counter = (if counter \<noteq> UINT32_MAX then counter + 1 else counter)"

definition counter_add :: "u32 \<Rightarrow> u32 \<Rightarrow> u32" where
  "counter_add counter increment =
     (if UINT32_MAX - counter < increment then UINT32_MAX else counter + increment)"

definition receiver_next_token :: "u32 \<Rightarrow> u32" where
  "receiver_next_token token = (if token + 1 = 0 then 1 else token + 1)"

definition descriptor_equal :: "wl_bulk_descriptor \<Rightarrow> wl_bulk_descriptor \<Rightarrow> bool" where
  "descriptor_equal left right \<longleftrightarrow>
     transfer_id left = transfer_id right \<and> total_length left = total_length right \<and>
     requested_chunk_size left = requested_chunk_size right \<and> object_crc32c left = object_crc32c right"

definition status_equal :: "wl_bulk_status \<Rightarrow> wl_bulk_status \<Rightarrow> bool" where
  "status_equal left right \<longleftrightarrow>
     bs_transfer_id left = bs_transfer_id right \<and> bs_phase left = bs_phase right \<and>
     bs_code left = bs_code right \<and> bs_next_offset left = bs_next_offset right \<and>
     bs_accepted_chunk_size left = bs_accepted_chunk_size right"

definition retain_status ::
    "'u wl_bulk_receiver \<Rightarrow> u32 \<Rightarrow> wl_bulk_phase \<Rightarrow> wl_bulk_status_code \<Rightarrow> u64 \<Rightarrow> u32 \<Rightarrow> 'u wl_bulk_receiver" where
  "retain_status impl tid phase code next_offset accepted =
     impl\<lparr>rv_pending_status := \<lparr>bs_transfer_id = tid, bs_phase = phase, bs_code = code,
            bs_next_offset = next_offset, bs_accepted_chunk_size = accepted\<rparr>,
          rv_status_token := receiver_next_token (rv_status_token impl),
          rv_status_pending := True, rv_status_acquired := False\<rparr>"

definition reject_protocol ::
    "'u wl_bulk_receiver \<Rightarrow> u32 \<Rightarrow> wl_bulk_phase \<Rightarrow> wl_bulk_status_code \<Rightarrow> u64 \<Rightarrow> u32 \<Rightarrow>
     wl_bulk_err \<times> 'u wl_bulk_receiver" where
  "reject_protocol impl tid phase code next_offset accepted =
     (WL_BULK_OK,
      retain_status
        (impl\<lparr>rv_stats := (rv_stats impl)
           \<lparr>rst_protocol_errors := counter_increment (rst_protocol_errors (rv_stats impl))\<rparr>\<rparr>)
        tid phase code next_offset accepted)"

definition require_input_slot :: "'u wl_bulk_receiver \<Rightarrow> wl_bulk_err" where
  "require_input_slot impl = (if rv_status_pending impl then WL_BULK_ERR_BUSY else WL_BULK_OK)"

text \<open>\<open>None\<close> is the result \<^verbatim>\<open>false\<close>, otherwise the accepted size written to the output argument.\<close>

definition negotiate_chunk_size :: "'u wl_bulk_receiver \<Rightarrow> wl_bulk_descriptor \<Rightarrow> u32 option" where
  "negotiate_chunk_size impl descriptor =
     (if transfer_id descriptor = 0 \<or> total_length descriptor > rc_max_object_length (rv_config impl) \<or>
         requested_chunk_size descriptor = 0
      then None
      else
        let limit = (if requested_chunk_size descriptor > rc_max_chunk_size (rv_config impl)
                     then rc_max_chunk_size (rv_config impl) else requested_chunk_size descriptor);
            accepted = limit - limit mod rc_write_alignment (rv_config impl)
        in if accepted = 0
           then if total_length descriptor > ucast limit then None else Some limit
           else Some accepted)"

definition resume_offset_valid :: "'u wl_bulk_receiver \<Rightarrow> u64 \<Rightarrow> bool" where
  "resume_offset_valid impl resume_offset =
     (if resume_offset > total_length (rv_descriptor impl) then False
      else resume_offset = total_length (rv_descriptor impl) \<or>
           resume_offset mod ucast (rc_write_alignment (rv_config impl)) = 0)"

definition count_write_failure :: "'u wl_bulk_receiver \<Rightarrow> 'u wl_bulk_receiver" where
  "count_write_failure impl = impl\<lparr>rv_stats := (rv_stats impl)
     \<lparr>rst_write_failures := counter_increment (rst_write_failures (rv_stats impl))\<rparr>\<rparr>"

definition sink_failure_code ::
    "'u wl_bulk_receiver \<Rightarrow> wl_bulk_sink_result \<Rightarrow> wl_bulk_status_code \<times> 'u wl_bulk_receiver" where
  "sink_failure_code impl sink_result =
     (if sink_result = WL_BULK_SINK_WRITE_FAILED
      then (WL_BULK_STATUS_WRITE_FAILED, count_write_failure impl)
      else if sink_result = WL_BULK_SINK_INTEGRITY_FAILED
      then (WL_BULK_STATUS_INTEGRITY_FAILED,
            impl\<lparr>rv_stats := (rv_stats impl)
              \<lparr>rst_integrity_failures := counter_increment (rst_integrity_failures (rv_stats impl))\<rparr>\<rparr>)
      else if sink_result = WL_BULK_SINK_INVALID then (WL_BULK_STATUS_INVALID, impl)
      else (WL_BULK_STATUS_WRITE_FAILED, count_write_failure impl))"

definition enter_failure ::
    "'u wl_bulk_receiver \<Rightarrow> wl_bulk_phase \<Rightarrow> wl_bulk_status_code \<Rightarrow> 'u wl_bulk_receiver" where
  "enter_failure impl phase code =
     impl\<lparr>rv_state := WL_BULK_RECEIVER_FAILED, rv_terminal_phase := phase, rv_terminal_code := code\<rparr>"

text \<open>The calls of the sink callbacks.\<close>

definition call_begin ::
    "'u wl_bulk_receiver \<Rightarrow> wl_bulk_descriptor \<Rightarrow> wl_bulk_sink_result \<times> u64 \<times> 'u wl_bulk_receiver" where
  "call_begin impl descriptor =
     (case the (sk_begin (rc_sink (rv_config impl))) (rv_user impl) descriptor of
        (r, off, u) \<Rightarrow> (r, off, impl\<lparr>rv_user := u\<rparr>))"

definition call_write ::
    "'u wl_bulk_receiver \<Rightarrow> u32 \<Rightarrow> u64 \<Rightarrow> byte list \<Rightarrow> wl_bulk_sink_result \<times> 'u wl_bulk_receiver" where
  "call_write impl tid offset bs =
     (case the (sk_write (rc_sink (rv_config impl))) (rv_user impl) tid offset bs of
        (r, u) \<Rightarrow> (r, impl\<lparr>rv_user := u\<rparr>))"

definition call_finish ::
    "'u wl_bulk_receiver \<Rightarrow> wl_bulk_sink_result \<times> 'u wl_bulk_receiver" where
  "call_finish impl =
     (case the (sk_finish (rc_sink (rv_config impl))) (rv_user impl) (rv_descriptor impl) of
        (r, u) \<Rightarrow> (r, impl\<lparr>rv_user := u\<rparr>))"

definition call_abort :: "'u wl_bulk_receiver \<Rightarrow> u32 \<Rightarrow> int \<Rightarrow> 'u wl_bulk_receiver" where
  "call_abort impl tid reason =
     impl\<lparr>rv_user := the (sk_abort (rc_sink (rv_config impl))) (rv_user impl) tid reason, rv_sink_active := False\<rparr>"

definition release_sink :: "'u wl_bulk_receiver \<Rightarrow> int \<Rightarrow> 'u wl_bulk_receiver" where
  "release_sink impl reason =
     (if rv_sink_active impl then call_abort impl (transfer_id (rv_descriptor impl)) reason else impl)"

definition clear_session :: "'u wl_bulk_receiver \<Rightarrow> int \<Rightarrow> 'u wl_bulk_receiver" where
  "clear_session impl reason =
     (release_sink impl reason)\<lparr>rv_descriptor := zero_descriptor, rv_next_offset := 0,
        rv_last_activity_ms := 0, rv_accepted_chunk_size := 0, rv_state := WL_BULK_RECEIVER_IDLE,
        rv_terminal_code := WL_BULK_STATUS_OK, rv_terminal_phase := WL_BULK_PHASE_NONE\<rparr>"

definition count_abort :: "'u wl_bulk_receiver \<Rightarrow> 'u wl_bulk_receiver" where
  "count_abort impl = impl\<lparr>rv_stats := (rv_stats impl)\<lparr>rst_aborts := counter_increment (rst_aborts (rv_stats impl))\<rparr>\<rparr>"

definition retain_abort_tombstone :: "'u wl_bulk_receiver \<Rightarrow> u32 \<Rightarrow> u32 \<Rightarrow> 'u wl_bulk_receiver" where
  "retain_abort_tombstone impl tid now_ms =
     (let impl = clear_session impl (wl_bulk_err_code WL_BULK_ERR_INVALID_STATE);
          impl = impl\<lparr>rv_descriptor := (rv_descriptor impl)\<lparr>transfer_id := tid\<rparr>,
                      rv_last_activity_ms := now_ms, rv_state := WL_BULK_RECEIVER_ABORTED,
                      rv_terminal_phase := WL_BULK_PHASE_ABORT, rv_terminal_code := WL_BULK_STATUS_ABORTED\<rparr>
      in retain_status (count_abort impl) tid WL_BULK_PHASE_ABORT WL_BULK_STATUS_ABORTED 0 0)"

definition active_next_offset :: "'u wl_bulk_receiver \<Rightarrow> u64" where
  "active_next_offset impl = (if rv_state impl = WL_BULK_RECEIVER_IDLE then 0 else rv_next_offset impl)"

definition active_chunk_size :: "'u wl_bulk_receiver \<Rightarrow> u32" where
  "active_chunk_size impl = (if rv_state impl = WL_BULK_RECEIVER_IDLE then 0 else rv_accepted_chunk_size impl)"

definition terminal_status_code :: "'u wl_bulk_receiver \<Rightarrow> wl_bulk_status_code" where
  "terminal_status_code impl =
     (if rv_state impl = WL_BULK_RECEIVER_COMPLETED then WL_BULK_STATUS_OK
      else if rv_state impl = WL_BULK_RECEIVER_ABORTED then WL_BULK_STATUS_ABORTED
      else rv_terminal_code impl)"

text \<open>\<open>None\<close> is the result \<^verbatim>\<open>false\<close>, otherwise the end of the chunk written to the output argument.\<close>

definition chunk_shape_valid :: "'u wl_bulk_receiver \<Rightarrow> wl_bulk_chunk \<Rightarrow> u64 option" where
  "chunk_shape_valid impl chunk =
     (if ck_transfer_id chunk = 0 \<or> ck_data chunk = NULL \<or> ck_length chunk = 0 \<or>
         ck_length chunk > unat (rv_accepted_chunk_size impl)
      then None
      else
        let len = (of_nat (ck_length chunk) :: u64)
        in if ck_offset chunk > 0xFFFFFFFFFFFFFFFF - len then None
           else
             let end_offset = ck_offset chunk + len
             in if end_offset > total_length (rv_descriptor impl) \<or>
                   ck_offset chunk mod ucast (rc_write_alignment (rv_config impl)) \<noteq> 0
                then None
                else if end_offset \<noteq> total_length (rv_descriptor impl) \<and>
                        len mod ucast (rc_write_alignment (rv_config impl)) \<noteq> 0
                then None
                else Some end_offset)"

definition wl_bulk_err_str :: "int \<Rightarrow> string" where
  "wl_bulk_err_str e =
     (if e = wl_bulk_err_code WL_BULK_OK then ''ok''
      else if e = wl_bulk_err_code WL_BULK_ERR_INVALID_ARG then ''invalid argument''
      else if e = wl_bulk_err_code WL_BULK_ERR_NOT_INITIALIZED then ''not initialized''
      else if e = wl_bulk_err_code WL_BULK_ERR_BUSY then ''busy''
      else if e = wl_bulk_err_code WL_BULK_ERR_INVALID_STATE then ''invalid state''
      else if e = wl_bulk_err_code WL_BULK_ERR_NOT_FOUND then ''not found''
      else if e = wl_bulk_err_code WL_BULK_ERR_PROTOCOL then ''protocol error''
      else if e = wl_bulk_err_code WL_BULK_ERR_TIMEOUT then ''timed out''
      else ''unknown bulk error'')"

section \<open>Operations\<close>

definition zero_status :: wl_bulk_status where
  "zero_status = \<lparr>bs_transfer_id = 0, bs_phase = 0, bs_code = 0, bs_next_offset = 0, bs_accepted_chunk_size = 0\<rparr>"

definition zero_receiver_stats :: wl_bulk_receiver_stats where
  "zero_receiver_stats = \<lparr>rst_begins = 0, rst_chunks = 0, rst_bytes_written = 0, rst_duplicate_messages = 0,
     rst_busy_responses = 0, rst_protocol_errors = 0, rst_write_failures = 0, rst_integrity_failures = 0,
     rst_aborts = 0, rst_timeouts = 0\<rparr>"

definition wl_bulk_receiver_init ::
    "'u wl_bulk_receiver \<Rightarrow> 'u wl_bulk_receiver_config \<Rightarrow> 'u \<Rightarrow> wl_bulk_err \<times> 'u wl_bulk_receiver" where
  "wl_bulk_receiver_init receiver config user =
     (if rc_max_object_length config = 0 \<or> rc_max_chunk_size config = 0 \<or>
         \<not> power_of_two (rc_write_alignment config) \<or> rc_max_chunk_size config < rc_write_alignment config \<or>
         \<not> receiver_interval_valid (rc_idle_timeout_ms config) \<or> sk_begin (rc_sink config) = None \<or>
         sk_write (rc_sink config) = None \<or> sk_finish (rc_sink config) = None \<or> sk_abort (rc_sink config) = None
      then (WL_BULK_ERR_INVALID_ARG, receiver)
      else
        (WL_BULK_OK,
         \<lparr>rv_config = config, rv_user = user, rv_descriptor = zero_descriptor, rv_pending_status = zero_status,
          rv_stats = zero_receiver_stats, rv_next_offset = 0, rv_last_activity_ms = 0, rv_status_token = 0,
          rv_accepted_chunk_size = 0, rv_magic = WL_BULK_RECEIVER_MAGIC, rv_state = WL_BULK_RECEIVER_IDLE,
          rv_terminal_code = WL_BULK_STATUS_OK, rv_terminal_phase = WL_BULK_PHASE_NONE,
          rv_status_pending = False, rv_status_acquired = False, rv_sink_active = False\<rparr>))"

definition wl_bulk_receiver_reset :: "'u wl_bulk_receiver \<Rightarrow> wl_bulk_err \<times> 'u wl_bulk_receiver" where
  "wl_bulk_receiver_reset impl =
     (if \<not> receiver_initialized impl then (WL_BULK_ERR_NOT_INITIALIZED, impl)
      else if rv_status_acquired impl then (WL_BULK_ERR_BUSY, impl)
      else (WL_BULK_OK,
            (clear_session impl (wl_bulk_err_code WL_BULK_ERR_INVALID_STATE))
              \<lparr>rv_pending_status := zero_status, rv_status_pending := False, rv_status_acquired := False\<rparr>))"

definition count_duplicate :: "'u wl_bulk_receiver \<Rightarrow> 'u wl_bulk_receiver" where
  "count_duplicate impl = impl\<lparr>rv_stats := (rv_stats impl)
     \<lparr>rst_duplicate_messages := counter_increment (rst_duplicate_messages (rv_stats impl))\<rparr>\<rparr>"

definition count_busy :: "'u wl_bulk_receiver \<Rightarrow> 'u wl_bulk_receiver" where
  "count_busy impl = impl\<lparr>rv_stats := (rv_stats impl)
     \<lparr>rst_busy_responses := counter_increment (rst_busy_responses (rv_stats impl))\<rparr>\<rparr>"

text \<open>The second half of \<^verbatim>\<open>wl_bulk_receiver_on_begin\<close>: a descriptor offered to the sink.\<close>

definition begin_session ::
    "'u wl_bulk_receiver \<Rightarrow> wl_bulk_descriptor \<Rightarrow> u32 \<Rightarrow> u32 \<Rightarrow> wl_bulk_err \<times> 'u wl_bulk_receiver" where
  "begin_session impl descriptor accepted now_ms =
     (case call_begin impl descriptor of
        (sink_result, resume_offset, impl) \<Rightarrow>
          if sink_result = WL_BULK_SINK_BUSY
          then (WL_BULK_OK,
                retain_status (count_busy impl) (transfer_id descriptor) WL_BULK_PHASE_BEGIN
                  WL_BULK_STATUS_BUSY 0 accepted)
          else
            let impl = impl\<lparr>rv_descriptor := descriptor, rv_accepted_chunk_size := accepted,
                            rv_last_activity_ms := now_ms, rv_sink_active := True\<rparr>
            in if sink_result = WL_BULK_SINK_OK then
                 if \<not> resume_offset_valid impl resume_offset
                 then (WL_BULK_OK,
                       retain_status (enter_failure impl WL_BULK_PHASE_BEGIN WL_BULK_STATUS_INVALID)
                         (transfer_id descriptor) WL_BULK_PHASE_BEGIN WL_BULK_STATUS_INVALID 0 accepted)
                 else
                   let impl = impl\<lparr>rv_next_offset := resume_offset, rv_state := WL_BULK_RECEIVER_RECEIVING,
                                   rv_stats := (rv_stats impl)
                                     \<lparr>rst_begins := counter_increment (rst_begins (rv_stats impl))\<rparr>\<rparr>
                   in (WL_BULK_OK,
                       retain_status impl (transfer_id descriptor) WL_BULK_PHASE_BEGIN WL_BULK_STATUS_OK
                         resume_offset accepted)
               else
                 (case sink_failure_code impl sink_result of
                    (code, impl) \<Rightarrow>
                      (WL_BULK_OK,
                       retain_status (enter_failure impl WL_BULK_PHASE_BEGIN code) (transfer_id descriptor)
                         WL_BULK_PHASE_BEGIN code 0 accepted)))"

definition wl_bulk_receiver_on_begin ::
    "'u wl_bulk_receiver \<Rightarrow> wl_bulk_descriptor \<Rightarrow> u32 \<Rightarrow> wl_bulk_err \<times> 'u wl_bulk_receiver" where
  "wl_bulk_receiver_on_begin impl descriptor now_ms =
     (if \<not> receiver_initialized impl then (WL_BULK_ERR_NOT_INITIALIZED, impl)
      else if require_input_slot impl \<noteq> WL_BULK_OK then (WL_BULK_ERR_BUSY, impl)
      else
        case negotiate_chunk_size impl descriptor of
          None \<Rightarrow> reject_protocol impl (transfer_id descriptor) WL_BULK_PHASE_BEGIN WL_BULK_STATUS_INVALID
                    (active_next_offset impl) (active_chunk_size impl)
        | Some accepted \<Rightarrow>
            if rv_state impl \<noteq> WL_BULK_RECEIVER_IDLE then
              if descriptor_equal (rv_descriptor impl) descriptor then
                let impl = (if rv_state impl = WL_BULK_RECEIVER_RECEIVING
                            then impl\<lparr>rv_last_activity_ms := now_ms\<rparr> else impl)
                in (WL_BULK_OK,
                    retain_status (count_duplicate impl) (transfer_id descriptor) WL_BULK_PHASE_BEGIN
                      (terminal_status_code impl) (rv_next_offset impl) (rv_accepted_chunk_size impl))
              else if rv_state impl = WL_BULK_RECEIVER_RECEIVING \<or>
                      transfer_id descriptor = transfer_id (rv_descriptor impl)
              then reject_protocol impl (transfer_id descriptor) WL_BULK_PHASE_BEGIN WL_BULK_STATUS_CONFLICT
                     (rv_next_offset impl) (rv_accepted_chunk_size impl)
              else begin_session (release_sink impl (wl_bulk_err_code WL_BULK_ERR_INVALID_STATE))
                     descriptor accepted now_ms
            else begin_session impl descriptor accepted now_ms)"

text \<open>The second half of \<^verbatim>\<open>wl_bulk_receiver_on_chunk\<close>: a chunk handed to the sink.\<close>

definition write_chunk ::
    "mem \<Rightarrow> 'u wl_bulk_receiver \<Rightarrow> wl_bulk_chunk \<Rightarrow> u64 \<Rightarrow> u32 \<Rightarrow> wl_bulk_err \<times> 'u wl_bulk_receiver" where
  "write_chunk m impl chunk end_offset now_ms =
     (case call_write impl (ck_transfer_id chunk) (ck_offset chunk)
             (read_bytes m (ck_data chunk) (ck_length chunk)) of
        (sink_result, impl) \<Rightarrow>
          let impl = impl\<lparr>rv_last_activity_ms := now_ms\<rparr>
          in if sink_result = WL_BULK_SINK_BUSY
             then (WL_BULK_OK,
                   retain_status (count_busy impl) (ck_transfer_id chunk) WL_BULK_PHASE_CHUNK
                     WL_BULK_STATUS_BUSY (rv_next_offset impl) (rv_accepted_chunk_size impl))
             else if sink_result = WL_BULK_SINK_OK
             then
               let impl = impl\<lparr>rv_next_offset := end_offset,
                     rv_stats := (rv_stats impl)
                       \<lparr>rst_chunks := counter_increment (rst_chunks (rv_stats impl)),
                        rst_bytes_written := counter_add (rst_bytes_written (rv_stats impl))
                          (of_nat (ck_length chunk))\<rparr>\<rparr>
               in (WL_BULK_OK,
                   retain_status impl (ck_transfer_id chunk) WL_BULK_PHASE_CHUNK WL_BULK_STATUS_OK
                     (rv_next_offset impl) (rv_accepted_chunk_size impl))
             else
               (case sink_failure_code impl sink_result of
                  (code, impl) \<Rightarrow>
                    (WL_BULK_OK,
                     retain_status (enter_failure impl WL_BULK_PHASE_CHUNK code) (ck_transfer_id chunk)
                       WL_BULK_PHASE_CHUNK code (rv_next_offset impl) (rv_accepted_chunk_size impl))))"

definition wl_bulk_receiver_on_chunk ::
    "mem \<Rightarrow> 'u wl_bulk_receiver \<Rightarrow> wl_bulk_chunk \<Rightarrow> u32 \<Rightarrow> wl_bulk_err \<times> 'u wl_bulk_receiver" where
  "wl_bulk_receiver_on_chunk m impl chunk now_ms =
     (if \<not> receiver_initialized impl then (WL_BULK_ERR_NOT_INITIALIZED, impl)
      else if require_input_slot impl \<noteq> WL_BULK_OK then (WL_BULK_ERR_BUSY, impl)
      else if ck_transfer_id chunk = 0 \<or> ck_data chunk = NULL \<or> ck_length chunk = 0
      then reject_protocol impl (ck_transfer_id chunk) WL_BULK_PHASE_CHUNK WL_BULK_STATUS_INVALID
             (active_next_offset impl) (active_chunk_size impl)
      else if rv_state impl = WL_BULK_RECEIVER_IDLE
      then reject_protocol impl (ck_transfer_id chunk) WL_BULK_PHASE_CHUNK WL_BULK_STATUS_OUT_OF_ORDER 0 0
      else if ck_transfer_id chunk \<noteq> transfer_id (rv_descriptor impl)
      then reject_protocol impl (ck_transfer_id chunk) WL_BULK_PHASE_CHUNK WL_BULK_STATUS_CONFLICT
             (rv_next_offset impl) (rv_accepted_chunk_size impl)
      else
        case chunk_shape_valid impl chunk of
          None \<Rightarrow> reject_protocol impl (ck_transfer_id chunk) WL_BULK_PHASE_CHUNK WL_BULK_STATUS_INVALID
                    (rv_next_offset impl) (rv_accepted_chunk_size impl)
        | Some end_offset \<Rightarrow>
            if end_offset \<le> rv_next_offset impl then
              (WL_BULK_OK,
               retain_status (count_duplicate (impl\<lparr>rv_last_activity_ms := now_ms\<rparr>)) (ck_transfer_id chunk)
                 WL_BULK_PHASE_CHUNK (terminal_status_code impl) (rv_next_offset impl)
                 (rv_accepted_chunk_size impl))
            else if ck_offset chunk \<noteq> rv_next_offset impl
            then reject_protocol impl (ck_transfer_id chunk) WL_BULK_PHASE_CHUNK WL_BULK_STATUS_OUT_OF_ORDER
                   (rv_next_offset impl) (rv_accepted_chunk_size impl)
            else if rv_state impl \<noteq> WL_BULK_RECEIVER_RECEIVING
            then (WL_BULK_OK,
                  retain_status impl (ck_transfer_id chunk) WL_BULK_PHASE_CHUNK (terminal_status_code impl)
                    (rv_next_offset impl) (rv_accepted_chunk_size impl))
            else write_chunk m impl chunk end_offset now_ms)"

text \<open>The second half of \<^verbatim>\<open>wl_bulk_receiver_on_end\<close>: the sink asked to commit.\<close>

definition finish_session :: "'u wl_bulk_receiver \<Rightarrow> u32 \<Rightarrow> u32 \<Rightarrow> wl_bulk_err \<times> 'u wl_bulk_receiver" where
  "finish_session impl tid now_ms =
     (case call_finish impl of
        (sink_result, impl) \<Rightarrow>
          let impl = impl\<lparr>rv_last_activity_ms := now_ms\<rparr>
          in if sink_result = WL_BULK_SINK_BUSY
             then (WL_BULK_OK,
                   retain_status (count_busy impl) tid WL_BULK_PHASE_END WL_BULK_STATUS_BUSY
                     (rv_next_offset impl) (rv_accepted_chunk_size impl))
             else if sink_result = WL_BULK_SINK_OK
             then
               let impl = impl\<lparr>rv_state := WL_BULK_RECEIVER_COMPLETED, rv_terminal_phase := WL_BULK_PHASE_END,
                               rv_terminal_code := WL_BULK_STATUS_OK, rv_sink_active := False\<rparr>
               in (WL_BULK_OK,
                   retain_status impl tid WL_BULK_PHASE_END WL_BULK_STATUS_OK (rv_next_offset impl)
                     (rv_accepted_chunk_size impl))
             else
               (case sink_failure_code impl sink_result of
                  (code, impl) \<Rightarrow>
                    (WL_BULK_OK,
                     retain_status (enter_failure impl WL_BULK_PHASE_END code) tid WL_BULK_PHASE_END code
                       (rv_next_offset impl) (rv_accepted_chunk_size impl))))"

definition wl_bulk_receiver_on_end ::
    "'u wl_bulk_receiver \<Rightarrow> u32 \<Rightarrow> u64 \<Rightarrow> u32 \<Rightarrow> u32 \<Rightarrow> wl_bulk_err \<times> 'u wl_bulk_receiver" where
  "wl_bulk_receiver_on_end impl tid total_len crc now_ms =
     (if \<not> receiver_initialized impl then (WL_BULK_ERR_NOT_INITIALIZED, impl)
      else if require_input_slot impl \<noteq> WL_BULK_OK then (WL_BULK_ERR_BUSY, impl)
      else if tid = 0
      then reject_protocol impl tid WL_BULK_PHASE_END WL_BULK_STATUS_INVALID (active_next_offset impl)
             (active_chunk_size impl)
      else if rv_state impl = WL_BULK_RECEIVER_IDLE
      then reject_protocol impl tid WL_BULK_PHASE_END WL_BULK_STATUS_OUT_OF_ORDER 0 0
      else if tid \<noteq> transfer_id (rv_descriptor impl) \<or> total_len \<noteq> total_length (rv_descriptor impl) \<or>
              crc \<noteq> object_crc32c (rv_descriptor impl)
      then reject_protocol impl tid WL_BULK_PHASE_END WL_BULK_STATUS_CONFLICT (rv_next_offset impl)
             (rv_accepted_chunk_size impl)
      else if rv_state impl = WL_BULK_RECEIVER_COMPLETED \<or>
              rv_state impl = WL_BULK_RECEIVER_FAILED \<and> rv_terminal_phase impl = WL_BULK_PHASE_END
      then (WL_BULK_OK,
            retain_status (count_duplicate (impl\<lparr>rv_last_activity_ms := now_ms\<rparr>)) tid WL_BULK_PHASE_END
              (terminal_status_code impl) (rv_next_offset impl) (rv_accepted_chunk_size impl))
      else if rv_state impl \<noteq> WL_BULK_RECEIVER_RECEIVING
      then (WL_BULK_OK,
            retain_status impl tid WL_BULK_PHASE_END (terminal_status_code impl) (rv_next_offset impl)
              (rv_accepted_chunk_size impl))
      else if rv_next_offset impl \<noteq> total_length (rv_descriptor impl)
      then reject_protocol impl tid WL_BULK_PHASE_END WL_BULK_STATUS_OUT_OF_ORDER (rv_next_offset impl)
             (rv_accepted_chunk_size impl)
      else finish_session impl tid now_ms)"

definition wl_bulk_receiver_on_abort ::
    "'u wl_bulk_receiver \<Rightarrow> u32 \<Rightarrow> int \<Rightarrow> u32 \<Rightarrow> wl_bulk_err \<times> 'u wl_bulk_receiver" where
  "wl_bulk_receiver_on_abort impl tid reason now_ms =
     (if \<not> receiver_initialized impl then (WL_BULK_ERR_NOT_INITIALIZED, impl)
      else if require_input_slot impl \<noteq> WL_BULK_OK then (WL_BULK_ERR_BUSY, impl)
      else if tid = 0
      then reject_protocol impl tid WL_BULK_PHASE_ABORT WL_BULK_STATUS_INVALID (active_next_offset impl)
             (active_chunk_size impl)
      else if rv_state impl = WL_BULK_RECEIVER_IDLE \<or>
              rv_state impl \<noteq> WL_BULK_RECEIVER_RECEIVING \<and> tid \<noteq> transfer_id (rv_descriptor impl)
      then (WL_BULK_OK, retain_abort_tombstone impl tid now_ms)
      else if tid \<noteq> transfer_id (rv_descriptor impl)
      then reject_protocol impl tid WL_BULK_PHASE_ABORT WL_BULK_STATUS_CONFLICT (rv_next_offset impl)
             (rv_accepted_chunk_size impl)
      else if rv_state impl = WL_BULK_RECEIVER_ABORTED
      then (WL_BULK_OK,
            retain_status (count_duplicate (impl\<lparr>rv_last_activity_ms := now_ms\<rparr>)) tid WL_BULK_PHASE_ABORT
              WL_BULK_STATUS_ABORTED (rv_next_offset impl) (rv_accepted_chunk_size impl))
      else if rv_state impl = WL_BULK_RECEIVER_COMPLETED
      then reject_protocol impl tid WL_BULK_PHASE_ABORT WL_BULK_STATUS_CONFLICT (rv_next_offset impl)
             (rv_accepted_chunk_size impl)
      else
        let impl = (if rv_sink_active impl then call_abort impl tid reason else impl);
            impl = impl\<lparr>rv_last_activity_ms := now_ms, rv_state := WL_BULK_RECEIVER_ABORTED,
                        rv_terminal_phase := WL_BULK_PHASE_ABORT, rv_terminal_code := WL_BULK_STATUS_ABORTED\<rparr>
        in (WL_BULK_OK,
            retain_status (count_abort impl) tid WL_BULK_PHASE_ABORT WL_BULK_STATUS_ABORTED
              (rv_next_offset impl) (rv_accepted_chunk_size impl)))"

definition wl_bulk_receiver_status_acquire ::
    "'u wl_bulk_receiver \<Rightarrow> (wl_bulk_err + wl_bulk_receiver_status_view) \<times> 'u wl_bulk_receiver" where
  "wl_bulk_receiver_status_acquire impl =
     (if \<not> receiver_initialized impl then (Inl WL_BULK_ERR_NOT_INITIALIZED, impl)
      else if \<not> rv_status_pending impl then (Inl WL_BULK_ERR_NOT_FOUND, impl)
      else if rv_status_acquired impl then (Inl WL_BULK_ERR_BUSY, impl)
      else (Inr \<lparr>vw_status = rv_pending_status impl, vw_token = rv_status_token impl\<rparr>,
            impl\<lparr>rv_status_acquired := True\<rparr>))"

definition status_view_matches :: "'u wl_bulk_receiver \<Rightarrow> wl_bulk_receiver_status_view \<Rightarrow> bool" where
  "status_view_matches impl view \<longleftrightarrow>
     rv_status_pending impl \<and> rv_status_acquired impl \<and> vw_token view = rv_status_token impl \<and>
     status_equal (vw_status view) (rv_pending_status impl)"

definition wl_bulk_receiver_status_defer ::
    "'u wl_bulk_receiver \<Rightarrow> wl_bulk_receiver_status_view \<Rightarrow> wl_bulk_err \<times> 'u wl_bulk_receiver" where
  "wl_bulk_receiver_status_defer impl view =
     (if \<not> receiver_initialized impl then (WL_BULK_ERR_NOT_INITIALIZED, impl)
      else if \<not> status_view_matches impl view then (WL_BULK_ERR_INVALID_STATE, impl)
      else (WL_BULK_OK, impl\<lparr>rv_status_acquired := False\<rparr>))"

definition wl_bulk_receiver_status_release ::
    "'u wl_bulk_receiver \<Rightarrow> wl_bulk_receiver_status_view \<Rightarrow> wl_bulk_err \<times> 'u wl_bulk_receiver" where
  "wl_bulk_receiver_status_release impl view =
     (if \<not> receiver_initialized impl then (WL_BULK_ERR_NOT_INITIALIZED, impl)
      else if \<not> status_view_matches impl view then (WL_BULK_ERR_INVALID_STATE, impl)
      else (WL_BULK_OK, impl\<lparr>rv_status_pending := False, rv_status_acquired := False\<rparr>))"

definition wl_bulk_receiver_poll ::
    "'u wl_bulk_receiver \<Rightarrow> u32 \<Rightarrow> wl_bulk_err \<times> 'u wl_bulk_receiver" where
  "wl_bulk_receiver_poll impl now_ms =
     (if \<not> receiver_initialized impl then (WL_BULK_ERR_NOT_INITIALIZED, impl)
      else if rv_state impl \<noteq> WL_BULK_RECEIVER_RECEIVING \<or> rc_idle_timeout_ms (rv_config impl) = 0 \<or>
              rv_status_pending impl \<or>
              \<not> interval_elapsed now_ms (rv_last_activity_ms impl) (rc_idle_timeout_ms (rv_config impl))
      then (WL_BULK_OK, impl)
      else
        let impl = (if rv_sink_active impl
                    then call_abort impl (transfer_id (rv_descriptor impl)) (wl_bulk_err_code WL_BULK_ERR_TIMEOUT)
                    else impl);
            impl = enter_failure impl WL_BULK_PHASE_ABORT WL_BULK_STATUS_TIMED_OUT;
            impl = impl\<lparr>rv_stats := (rv_stats impl)\<lparr>rst_timeouts := counter_increment (rst_timeouts (rv_stats impl))\<rparr>\<rparr>
        in (WL_BULK_OK,
            retain_status impl (transfer_id (rv_descriptor impl)) WL_BULK_PHASE_ABORT WL_BULK_STATUS_TIMED_OUT
              (rv_next_offset impl) (rv_accepted_chunk_size impl)))"

definition wl_bulk_receiver_get_deadline_hint :: "'u wl_bulk_receiver \<Rightarrow> u32 \<Rightarrow> wl_bulk_err + u32" where
  "wl_bulk_receiver_get_deadline_hint impl now_ms =
     (if \<not> receiver_initialized impl then Inl WL_BULK_ERR_NOT_INITIALIZED
      else if rv_state impl = WL_BULK_RECEIVER_RECEIVING \<and> rc_idle_timeout_ms (rv_config impl) \<noteq> 0 \<and>
              \<not> rv_status_pending impl
      then Inr (interval_remaining now_ms (rv_last_activity_ms impl) (rc_idle_timeout_ms (rv_config impl)))
      else Inr WL_BULK_NO_DEADLINE_MS)"

definition wl_bulk_receiver_get_state ::
    "'u wl_bulk_receiver \<Rightarrow> wl_bulk_err + wl_bulk_receiver_state \<times> u64" where
  "wl_bulk_receiver_get_state impl =
     (if \<not> receiver_initialized impl then Inl WL_BULK_ERR_NOT_INITIALIZED
      else Inr (rv_state impl, rv_next_offset impl))"

definition wl_bulk_receiver_get_stats :: "'u wl_bulk_receiver \<Rightarrow> wl_bulk_err + wl_bulk_receiver_stats" where
  "wl_bulk_receiver_get_stats impl =
     (if \<not> receiver_initialized impl then Inl WL_BULK_ERR_NOT_INITIALIZED else Inr (rv_stats impl))"

end
