(* ===== verification/Bulk_Session.thy ===== *)
theory Bulk_Session
  imports Channel Bulk_Receiver
begin

text \<open>
  The contract between the bulk receiver and its sink. A recording sink keeps the calls it receives; a small
  automaton says which call sequences a sink may rely on: one \<open>begin\<close> per session, writes of consecutive,
  bounded and aligned spans of the object, a \<open>finish\<close> only when the whole object has been written, nothing but an
  \<open>abort\<close> after a failure. Whatever operations and messages a receiver is given, its calls follow the automaton.
\<close>

section \<open>Calls and sessions\<close>

datatype sink_call =
    Sink_Begin wl_bulk_descriptor wl_bulk_sink_result u64
  | Sink_Write u32 u64 "byte list" wl_bulk_sink_result
  | Sink_Finish wl_bulk_descriptor wl_bulk_sink_result
  | Sink_Abort u32 int

text \<open>
  A session of the sink: none, one that has stored \<open>ws\<close> from offset \<open>resume\<close> on, or one that failed and waits for
  its \<open>abort\<close>.
\<close>

datatype session =
    No_Session
  | Storing wl_bulk_descriptor u64 "byte list"
  | Broken wl_bulk_descriptor

text \<open>The spans a write may have in an object that has been stored up to \<open>off\<close>.\<close>

definition span_ok :: "'u wl_bulk_receiver_config \<Rightarrow> wl_bulk_descriptor \<Rightarrow> u64 \<Rightarrow> nat \<Rightarrow> bool" where
  "span_ok cfg d off n \<longleftrightarrow>
     0 < n \<and> n \<le> unat (requested_chunk_size d) \<and> n \<le> unat (rc_max_chunk_size cfg) \<and>
     unat off + n \<le> unat (total_length d) \<and>
     off mod ucast (rc_write_alignment cfg) = 0 \<and>
     (unat off + n = unat (total_length d) \<or> (of_nat n :: u64) mod ucast (rc_write_alignment cfg) = 0)"

definition descriptor_ok :: "'u wl_bulk_receiver_config \<Rightarrow> wl_bulk_descriptor \<Rightarrow> bool" where
  "descriptor_ok cfg d \<longleftrightarrow>
     transfer_id d \<noteq> 0 \<and> requested_chunk_size d \<noteq> 0 \<and> total_length d \<le> rc_max_object_length cfg"

definition resume_ok :: "'u wl_bulk_receiver_config \<Rightarrow> wl_bulk_descriptor \<Rightarrow> u64 \<Rightarrow> bool" where
  "resume_ok cfg d off \<longleftrightarrow>
     off \<le> total_length d \<and> (off = total_length d \<or> off mod ucast (rc_write_alignment cfg) = 0)"

fun sink_step :: "'u wl_bulk_receiver_config \<Rightarrow> sink_call \<Rightarrow> session option \<Rightarrow> session option" where
  "sink_step cfg (Sink_Begin d r off) (Some No_Session) =
     (if descriptor_ok cfg d
      then Some (if r = WL_BULK_SINK_BUSY then No_Session
                 else if r = WL_BULK_SINK_OK \<and> resume_ok cfg d off then Storing d off [] else Broken d)
      else None)"
| "sink_step cfg (Sink_Write tid off bs r) (Some (Storing d resume ws)) =
     (if tid = transfer_id d \<and> unat off = unat resume + length ws \<and> span_ok cfg d off (length bs)
      then Some (if r = WL_BULK_SINK_OK then Storing d resume (ws @ bs)
                 else if r = WL_BULK_SINK_BUSY then Storing d resume ws else Broken d)
      else None)"
| "sink_step cfg (Sink_Finish d' r) (Some (Storing d resume ws)) =
     (if d' = d \<and> unat resume + length ws = unat (total_length d)
      then Some (if r = WL_BULK_SINK_OK then No_Session
                 else if r = WL_BULK_SINK_BUSY then Storing d resume ws else Broken d)
      else None)"
| "sink_step cfg (Sink_Abort tid reason) (Some (Storing d resume ws)) =
     (if tid = transfer_id d then Some No_Session else None)"
| "sink_step cfg (Sink_Abort tid reason) (Some (Broken d)) =
     (if tid = transfer_id d then Some No_Session else None)"
| "sink_step cfg _ _ = None"

definition follow :: "'u wl_bulk_receiver_config \<Rightarrow> sink_call list \<Rightarrow> session option" where
  "follow cfg calls = fold (sink_step cfg) calls (Some No_Session)"

lemma follow_Nil [simp]: "follow cfg [] = Some No_Session"
  by (simp add: follow_def)

lemma follow_snoc [simp]: "follow cfg (calls @ [c]) = sink_step cfg c (follow cfg calls)"
  by (simp add: follow_def)

section \<open>Recording the calls of a sink\<close>

type_synonym 'u recorded = "'u \<times> sink_call list"

definition recording :: "'u wl_bulk_sink \<Rightarrow> 'u recorded wl_bulk_sink" where
  "recording k =
     \<lparr>sk_begin = map_option (\<lambda>f (u, l) d. case f u d of (r, off, u') \<Rightarrow> (r, off, u', l @ [Sink_Begin d r off]))
        (sk_begin k),
      sk_write = map_option (\<lambda>f (u, l) tid off bs. case f u tid off bs of
        (r, u') \<Rightarrow> (r, u', l @ [Sink_Write tid off bs r])) (sk_write k),
      sk_finish = map_option (\<lambda>f (u, l) d. case f u d of (r, u') \<Rightarrow> (r, u', l @ [Sink_Finish d r])) (sk_finish k),
      sk_abort = map_option (\<lambda>f (u, l) tid reason. (f u tid reason, l @ [Sink_Abort tid reason])) (sk_abort k)\<rparr>"

definition callbacks :: "'u wl_bulk_sink \<Rightarrow> bool" where
  "callbacks k \<longleftrightarrow> sk_begin k \<noteq> None \<and> sk_write k \<noteq> None \<and> sk_finish k \<noteq> None \<and> sk_abort k \<noteq> None"

abbreviation calls :: "'u recorded wl_bulk_receiver \<Rightarrow> sink_call list" where
  "calls r \<equiv> snd (rv_user r)"

definition records :: "'u recorded wl_bulk_receiver \<Rightarrow> bool" where
  "records r \<longleftrightarrow> (\<exists>k. callbacks k \<and> rc_sink (rv_config r) = recording k)"

lemma call_begin_records:
  assumes "records r" "call_begin r d = (res, off, r')"
  obtains u where "r' = r\<lparr>rv_user := (u, calls r @ [Sink_Begin d res off])\<rparr>"
  using assms by (auto simp: records_def callbacks_def recording_def call_begin_def split: prod.splits)

lemma call_write_records:
  assumes "records r" "call_write r tid off bs = (res, r')"
  obtains u where "r' = r\<lparr>rv_user := (u, calls r @ [Sink_Write tid off bs res])\<rparr>"
  using assms by (auto simp: records_def callbacks_def recording_def call_write_def split: prod.splits)

lemma call_finish_records:
  assumes "records r" "call_finish r = (res, r')"
  obtains u where "r' = r\<lparr>rv_user := (u, calls r @ [Sink_Finish (rv_descriptor r) res])\<rparr>"
  using assms by (auto simp: records_def callbacks_def recording_def call_finish_def split: prod.splits)

lemma call_abort_records:
  assumes "records r"
  obtains u where
    "call_abort r tid reason = r\<lparr>rv_user := (u, calls r @ [Sink_Abort tid reason]), rv_sink_active := False\<rparr>"
  using assms
  by (cases "rv_user r") (auto simp: records_def callbacks_def recording_def call_abort_def)

section \<open>Operations\<close>

datatype receiver_op =
    On_Begin wl_bulk_descriptor u32
  | On_Chunk mem wl_bulk_chunk u32
  | On_End u32 u64 u32 u32
  | On_Abort u32 int u32
  | Status_Acquire
  | Status_Defer wl_bulk_receiver_status_view
  | Status_Release wl_bulk_receiver_status_view
  | Receiver_Poll u32
  | Receiver_Reset

fun receiver_exec :: "receiver_op \<Rightarrow> 'u wl_bulk_receiver \<Rightarrow> 'u wl_bulk_receiver" where
  "receiver_exec (On_Begin d t) r = snd (wl_bulk_receiver_on_begin r d t)"
| "receiver_exec (On_Chunk m chunk t) r = snd (wl_bulk_receiver_on_chunk m r chunk t)"
| "receiver_exec (On_End tid total_len crc t) r = snd (wl_bulk_receiver_on_end r tid total_len crc t)"
| "receiver_exec (On_Abort tid reason t) r = snd (wl_bulk_receiver_on_abort r tid reason t)"
| "receiver_exec Status_Acquire r = snd (wl_bulk_receiver_status_acquire r)"
| "receiver_exec (Status_Defer view) r = snd (wl_bulk_receiver_status_defer r view)"
| "receiver_exec (Status_Release view) r = snd (wl_bulk_receiver_status_release r view)"
| "receiver_exec (Receiver_Poll t) r = snd (wl_bulk_receiver_poll r t)"
| "receiver_exec Receiver_Reset r = snd (wl_bulk_receiver_reset r)"

section \<open>The invariant\<close>

fun session_rel :: "session option \<Rightarrow> 'u wl_bulk_receiver \<Rightarrow> bool" where
  "session_rel None r = False"
| "session_rel (Some No_Session) r \<longleftrightarrow> \<not> rv_sink_active r \<and> rv_state r \<noteq> WL_BULK_RECEIVER_RECEIVING"
| "session_rel (Some (Storing d resume ws)) r \<longleftrightarrow>
     rv_sink_active r \<and> rv_state r = WL_BULK_RECEIVER_RECEIVING \<and> rv_descriptor r = d \<and>
     unat (rv_next_offset r) = unat resume + length ws \<and> rv_next_offset r \<le> total_length d \<and>
     rv_accepted_chunk_size r \<le> requested_chunk_size d \<and>
     rv_accepted_chunk_size r \<le> rc_max_chunk_size (rv_config r)"
| "session_rel (Some (Broken d)) r \<longleftrightarrow>
     rv_sink_active r \<and> rv_state r = WL_BULK_RECEIVER_FAILED \<and> rv_descriptor r = d"

definition session_inv :: "'u recorded wl_bulk_receiver \<Rightarrow> bool" where
  "session_inv r \<longleftrightarrow> records r \<and> session_rel (follow (rv_config r) (calls r)) r"

lemma session_invI:
  "records r \<Longrightarrow> follow (rv_config r) (calls r) = s \<Longrightarrow> session_rel s r \<Longrightarrow> session_inv r"
  by (simp add: session_inv_def)

text \<open>Updates that touch neither the session nor its record.\<close>

definition same_session :: "'u wl_bulk_receiver \<Rightarrow> 'u wl_bulk_receiver \<Rightarrow> bool" where
  "same_session r r' \<longleftrightarrow>
     rv_config r' = rv_config r \<and> rv_user r' = rv_user r \<and> rv_sink_active r' = rv_sink_active r \<and>
     rv_state r' = rv_state r \<and> rv_descriptor r' = rv_descriptor r \<and> rv_next_offset r' = rv_next_offset r \<and>
     rv_accepted_chunk_size r' = rv_accepted_chunk_size r"

lemma session_rel_same:
  "same_session r r' \<Longrightarrow> session_rel s r \<Longrightarrow> session_rel s r'"
  by (cases "(s, r)" rule: session_rel.cases) (auto simp: same_session_def)

lemma session_inv_same: "session_inv r \<Longrightarrow> same_session r r' \<Longrightarrow> session_inv r'"
  using session_rel_same by (fastforce simp: session_inv_def same_session_def records_def)

lemmas status_defs = retain_status_def reject_protocol_def count_duplicate_def count_busy_def count_abort_def
  count_write_failure_def

lemma same_session_status:
  "same_session r (retain_status r tid phase code off acc)"
  "same_session r (snd (reject_protocol r tid phase code off acc))"
  "same_session r (retain_status (count_duplicate r) tid phase code off acc)"
  "same_session r (retain_status (count_duplicate (r\<lparr>rv_last_activity_ms := t\<rparr>)) tid phase code off acc)"
  "same_session r r"
  by (simp_all add: same_session_def status_defs)

lemma session_inv_status:
  assumes "session_inv r"
  shows "session_inv (retain_status r tid phase code off acc)"
    "session_inv (snd (reject_protocol r tid phase code off acc))"
    "session_inv (retain_status (count_duplicate r) tid phase code off acc)"
    "session_inv (retain_status (count_duplicate (r\<lparr>rv_last_activity_ms := t\<rparr>)) tid phase code off acc)"
  by (auto intro: session_inv_same [OF assms] same_session_status)

section \<open>Every operation keeps the invariant\<close>

lemma sub_mod_le_word: "a - a mod b \<le> (a :: u32)"
  using mod_less_eq_dividend [of "unat a" "unat b"]
  by (simp add: word_le_nat_alt unat_sub_if' unat_mod word_less_eq_iff_unsigned)

lemma negotiate_some:
  assumes "negotiate_chunk_size r d = Some acc"
  shows "descriptor_ok (rv_config r) d" "acc \<le> requested_chunk_size d" "acc \<le> rc_max_chunk_size (rv_config r)"
  using assms sub_mod_le_word [of _ "rc_write_alignment (rv_config r)"]
  by (auto simp: negotiate_chunk_size_def descriptor_ok_def Let_def not_less split: if_splits
      intro: order_trans less_imp_le)

lemma session_inv_abort:
  assumes "session_inv r" "rv_sink_active r" "tid = transfer_id (rv_descriptor r)"
  shows "follow (rv_config r) (calls (call_abort r tid reason)) = Some No_Session \<and> records (call_abort r tid reason)"
proof -
  from assms(1) have rec: "records r" by (simp add: session_inv_def)
  then obtain u where "call_abort r tid reason = r\<lparr>rv_user := (u, calls r @ [Sink_Abort tid reason]), rv_sink_active := False\<rparr>"
    by (rule call_abort_records)
  with assms rec show ?thesis
    by (cases "follow (rv_config r) (calls r)"; cases "the (follow (rv_config r) (calls r))")
       (auto simp: session_inv_def records_def)
qed

lemma release_sink_config: "rv_config (release_sink r reason) = rv_config r"
  by (simp add: release_sink_def call_abort_def)

lemma release_sink_inv:
  assumes "session_inv r" "rv_state r \<noteq> WL_BULK_RECEIVER_RECEIVING"
  shows "session_inv (release_sink r reason)"
    "\<not> rv_sink_active (release_sink r reason)"
    "rv_state (release_sink r reason) = rv_state r"
    "rv_config (release_sink r reason) = rv_config r"
  using assms session_inv_abort [OF assms(1), of "transfer_id (rv_descriptor r)" reason]
  by (auto simp: release_sink_def session_inv_def call_abort_def)

lemma not_storing:
  assumes "session_inv r" "\<not> rv_sink_active r"
  shows "follow (rv_config r) (calls r) = Some No_Session" "records r"
    "rv_state r \<noteq> WL_BULK_RECEIVER_RECEIVING"
  using assms
  by (cases "follow (rv_config r) (calls r)"; cases "the (follow (rv_config r) (calls r))";
      simp add: session_inv_def)+

lemma storing:
  assumes "session_inv r" "rv_state r = WL_BULK_RECEIVER_RECEIVING"
  obtains resume ws where "follow (rv_config r) (calls r) = Some (Storing (rv_descriptor r) resume ws)"
    "session_rel (Some (Storing (rv_descriptor r) resume ws)) r" "records r"
  using assms
  by (cases "follow (rv_config r) (calls r)"; cases "the (follow (rv_config r) (calls r))")
     (auto simp: session_inv_def)

lemma sink_failure_code_frame:
  assumes "sink_failure_code r res = (code, r')"
  shows "same_session r r'" "code \<noteq> WL_BULK_STATUS_OK"
  using assms by (auto simp: sink_failure_code_def same_session_def count_write_failure_def split: if_splits)

lemma begin_session_inv:
  assumes inv: "session_inv r" and "\<not> rv_sink_active r" and neg: "negotiate_chunk_size r d = Some acc"
  shows "session_inv (snd (begin_session r d acc t))"
proof -
  note idle = not_storing [OF inv assms(2)]
  obtain res off r' where cb: "call_begin r d = (res, off, r')" by (cases "call_begin r d")
  then obtain u where r': "r' = r\<lparr>rv_user := (u, calls r @ [Sink_Begin d res off])\<rparr>"
    by (rule call_begin_records [OF idle(2)])
  have rec: "records r'" using idle(2) by (simp add: r' records_def)
  have step: "follow (rv_config r) (calls r') = Some (if res = WL_BULK_SINK_BUSY then No_Session
      else if res = WL_BULK_SINK_OK \<and> resume_ok (rv_config r) d off then Storing d off [] else Broken d)"
    using negotiate_some [OF neg] by (simp add: r' idle)
  obtain code r'' where fc: "sink_failure_code (r'\<lparr>rv_descriptor := d, rv_accepted_chunk_size := acc,
      rv_last_activity_ms := t, rv_sink_active := True\<rparr>) res = (code, r'')" by fastforce
  have valid: "resume_offset_valid (r'\<lparr>rv_descriptor := d, rv_accepted_chunk_size := acc,
      rv_last_activity_ms := t, rv_sink_active := True\<rparr>) off = resume_ok (rv_config r) d off"
    by (auto simp: resume_offset_valid_def resume_ok_def r' not_less)
  have r'': "rv_config r'' = rv_config r" "rv_user r'' = rv_user r'" "rv_sink_active r''" "rv_descriptor r'' = d"
    using sink_failure_code_frame(1) [OF fc] by (simp_all add: same_session_def r')
  show ?thesis
  proof (rule session_invI)
    show "records (snd (begin_session r d acc t))"
      using rec r'' by (auto simp: begin_session_def cb fc [unfolded r'] Let_def records_def status_defs enter_failure_def r')
    show "follow (rv_config (snd (begin_session r d acc t))) (calls (snd (begin_session r d acc t))) =
      follow (rv_config r) (calls r')"
      using r'' by (auto simp: begin_session_def cb fc [unfolded r'] Let_def status_defs enter_failure_def r')
    show "session_rel (follow (rv_config r) (calls r')) (snd (begin_session r d acc t))"
      unfolding step using assms(2) idle(3) negotiate_some [OF neg] valid [unfolded r']
      by (cases "res = WL_BULK_SINK_BUSY"; cases "res = WL_BULK_SINK_OK"; cases "resume_ok (rv_config r) d off")
         (simp_all add: begin_session_def cb fc [unfolded r'] r'' Let_def status_defs enter_failure_def r'
           resume_ok_def)
  qed
qed

lemma on_begin_inv: "session_inv r \<Longrightarrow> session_inv (snd (wl_bulk_receiver_on_begin r d t))"
proof -
  assume inv: "session_inv r"
  have touch: "session_inv (r\<lparr>rv_last_activity_ms := t\<rparr>)"
    by (rule session_inv_same [OF inv]) (simp add: same_session_def)
  have idle: "rv_state r = WL_BULK_RECEIVER_IDLE \<Longrightarrow> \<not> rv_sink_active r"
    using inv by (cases "follow (rv_config r) (calls r)"; cases "the (follow (rv_config r) (calls r))")
      (auto simp: session_inv_def)
  have neg: "negotiate_chunk_size (release_sink r reason) d = negotiate_chunk_size r d" for reason
    using release_sink_config [of r reason] by (simp add: negotiate_chunk_size_def)
  show ?thesis
    using inv touch idle release_sink_inv [OF inv]
    by (auto simp: wl_bulk_receiver_on_begin_def Let_def neg split: option.split
        intro!: session_inv_status begin_session_inv)
qed

lemma chunk_end:
  assumes "chunk_shape_valid r ck = Some e"
  shows "0 < ck_length ck" "ck_length ck \<le> unat (rv_accepted_chunk_size r)"
    "unat e = unat (ck_offset ck) + ck_length ck" "e \<le> total_length (rv_descriptor r)"
    "ck_offset ck mod ucast (rc_write_alignment (rv_config r)) = 0"
    "e = total_length (rv_descriptor r) \<or>
     (of_nat (ck_length ck) :: u64) mod ucast (rc_write_alignment (rv_config r)) = 0"
proof -
  have small: "ck_length ck \<le> unat (rv_accepted_chunk_size r)" "0 < ck_length ck"
    using assms by (auto simp: chunk_shape_valid_def Let_def split: if_splits)
  moreover have acc32: "unat (rv_accepted_chunk_size r) < 2 ^ 32" using unsigned_less [of "rv_accepted_chunk_size r"] by simp
  ultimately have len: "unat (of_nat (ck_length ck) :: u64) = ck_length ck"
    by (simp add: unat_of_nat)
  have "e = ck_offset ck + of_nat (ck_length ck)" "\<not> ck_offset ck > 0xFFFFFFFFFFFFFFFF - of_nat (ck_length ck)"
    using assms by (auto simp: chunk_shape_valid_def Let_def split: if_splits)
  with len have "unat e = unat (ck_offset ck) + ck_length ck"
    using acc32 small
    by (auto simp: word_less_nat_alt unat_sub_if' unat_word_ariths not_less)
  with small show "0 < ck_length ck" "ck_length ck \<le> unat (rv_accepted_chunk_size r)"
    "unat e = unat (ck_offset ck) + ck_length ck" by simp_all
  show "e \<le> total_length (rv_descriptor r)" "ck_offset ck mod ucast (rc_write_alignment (rv_config r)) = 0"
    "e = total_length (rv_descriptor r) \<or>
     (of_nat (ck_length ck) :: u64) mod ucast (rc_write_alignment (rv_config r)) = 0"
    using assms by (auto simp: chunk_shape_valid_def Let_def not_less split: if_splits)
qed

lemma write_chunk_inv:
  assumes inv: "session_inv r" and st: "rv_state r = WL_BULK_RECEIVER_RECEIVING"
    and shape: "chunk_shape_valid r ck = Some e"
    and "ck_transfer_id ck = transfer_id (rv_descriptor r)" "ck_offset ck = rv_next_offset r"
  shows "session_inv (snd (write_chunk m r ck e t))"
proof -
  obtain resume ws where s: "follow (rv_config r) (calls r) = Some (Storing (rv_descriptor r) resume ws)"
    "session_rel (Some (Storing (rv_descriptor r) resume ws)) r" "records r" by (rule storing [OF inv st])
  define bs where "bs = read_bytes m (ck_data ck) (ck_length ck)"
  obtain res r' where cw: "call_write r (ck_transfer_id ck) (ck_offset ck) bs = (res, r')" by fastforce
  then obtain u where r': "r' = r\<lparr>rv_user := (u, calls r @ [Sink_Write (ck_transfer_id ck) (ck_offset ck) bs res])\<rparr>"
    by (rule call_write_records [OF s(3)])
  note e = chunk_end [OF shape]
  have "span_ok (rv_config r) (rv_descriptor r) (ck_offset ck) (length bs)"
    using e s(2) by (auto simp: span_ok_def bs_def word_le_nat_alt)
  then have step: "follow (rv_config r) (calls r') = Some (if res = WL_BULK_SINK_OK then Storing (rv_descriptor r) resume (ws @ bs)
      else if res = WL_BULK_SINK_BUSY then Storing (rv_descriptor r) resume ws else Broken (rv_descriptor r))"
    using s assms(4,5) by (simp add: r')
  have len: "length bs = ck_length ck" by (simp add: bs_def)
  obtain code r'' where fc: "sink_failure_code (r'\<lparr>rv_last_activity_ms := t\<rparr>) res = (code, r'')" by fastforce
  have r'': "rv_config r'' = rv_config r" "rv_user r'' = rv_user r'" "rv_sink_active r'' = rv_sink_active r"
    "rv_descriptor r'' = rv_descriptor r"
    using sink_failure_code_frame(1) [OF fc] by (simp_all add: same_session_def r')
  note unf = write_chunk_def bs_def [symmetric] cw fc [unfolded r'] Let_def status_defs enter_failure_def r'
  show ?thesis
  proof (rule session_invI)
    show "records (snd (write_chunk m r ck e t))" using s(3) r'' by (auto simp: unf records_def)
    show "follow (rv_config (snd (write_chunk m r ck e t))) (calls (snd (write_chunk m r ck e t))) =
      follow (rv_config r) (calls r')"
      using r'' by (auto simp: unf)
    show "session_rel (follow (rv_config r) (calls r')) (snd (write_chunk m r ck e t))"
      unfolding step using r'' s(2) e(4) e(3) [unfolded assms(5)]
      by (cases "res = WL_BULK_SINK_BUSY"; cases "res = WL_BULK_SINK_OK") (simp_all add: unf len)
  qed
qed

lemma on_chunk_inv: "session_inv r \<Longrightarrow> session_inv (snd (wl_bulk_receiver_on_chunk m r ck t))"
  by (auto simp: wl_bulk_receiver_on_chunk_def Let_def split: option.split
      intro!: session_inv_status write_chunk_inv)

lemma finish_session_inv:
  assumes inv: "session_inv r" and st: "rv_state r = WL_BULK_RECEIVER_RECEIVING"
    and "rv_next_offset r = total_length (rv_descriptor r)"
  shows "session_inv (snd (finish_session r tid t))"
proof -
  obtain resume ws where s: "follow (rv_config r) (calls r) = Some (Storing (rv_descriptor r) resume ws)"
    "session_rel (Some (Storing (rv_descriptor r) resume ws)) r" "records r" by (rule storing [OF inv st])
  obtain res r' where cf: "call_finish r = (res, r')" by fastforce
  then obtain u where r': "r' = r\<lparr>rv_user := (u, calls r @ [Sink_Finish (rv_descriptor r) res])\<rparr>"
    by (rule call_finish_records [OF s(3)])
  have step: "follow (rv_config r) (calls r') = Some (if res = WL_BULK_SINK_OK then No_Session
      else if res = WL_BULK_SINK_BUSY then Storing (rv_descriptor r) resume ws else Broken (rv_descriptor r))"
    using s assms(3) by (auto simp: r')
  obtain code r'' where fc: "sink_failure_code (r'\<lparr>rv_last_activity_ms := t\<rparr>) res = (code, r'')" by fastforce
  have r'': "rv_config r'' = rv_config r" "rv_user r'' = rv_user r'" "rv_sink_active r'' = rv_sink_active r"
    "rv_descriptor r'' = rv_descriptor r"
    using sink_failure_code_frame(1) [OF fc] by (simp_all add: same_session_def r')
  note unf = finish_session_def cf fc [unfolded r'] Let_def status_defs enter_failure_def r'
  show ?thesis
  proof (rule session_invI)
    show "records (snd (finish_session r tid t))" using s(3) r'' by (auto simp: unf records_def)
    show "follow (rv_config (snd (finish_session r tid t))) (calls (snd (finish_session r tid t))) =
      follow (rv_config r) (calls r')"
      using r'' by (auto simp: unf)
    show "session_rel (follow (rv_config r) (calls r')) (snd (finish_session r tid t))"
      unfolding step using r'' s(2)
      by (cases "res = WL_BULK_SINK_BUSY"; cases "res = WL_BULK_SINK_OK") (simp_all add: unf)
  qed
qed

lemma on_end_inv: "session_inv r \<Longrightarrow> session_inv (snd (wl_bulk_receiver_on_end r tid total_len crc t))"
  by (auto simp: wl_bulk_receiver_on_end_def Let_def intro!: session_inv_status finish_session_inv)

lemma release_none:
  assumes "session_inv r"
  shows "follow (rv_config r) (calls (release_sink r reason)) = Some No_Session"
    "records (release_sink r reason)" "\<not> rv_sink_active (release_sink r reason)"
  using not_storing [OF assms] session_inv_abort [OF assms, of "transfer_id (rv_descriptor r)" reason]
  by (auto simp: release_sink_def call_abort_def)

lemma clear_session_inv:
  assumes "session_inv r"
  shows "session_inv (clear_session r reason)"
  using release_none [OF assms, of reason] release_sink_config [of r reason]
  by (simp add: session_inv_def clear_session_def records_def)

lemma tombstone_inv:
  assumes "session_inv r" shows "session_inv (retain_abort_tombstone r tid t)"
  using release_none [OF assms] release_sink_config [of r]
  by (simp add: session_inv_def records_def retain_abort_tombstone_def Let_def clear_session_def status_defs)

lemma aborted_inv:
  assumes "session_inv r" "st \<noteq> WL_BULK_RECEIVER_RECEIVING"
  shows "session_inv (retain_status ((release_sink r reason)
           \<lparr>rv_last_activity_ms := t, rv_state := st, rv_terminal_phase := p, rv_terminal_code := c, rv_stats := s\<rparr>)
           tid p' c' off acc)"
  using release_none [OF assms(1)] release_sink_config [of r] assms(2)
  by (simp add: session_inv_def records_def status_defs)

lemma on_abort_inv: "session_inv r \<Longrightarrow> session_inv (snd (wl_bulk_receiver_on_abort r tid reason t))"
proof -
  assume inv: "session_inv r"
  let ?r = "if rv_sink_active r then call_abort r tid reason else r"
  have "session_inv (retain_status (count_abort (?r\<lparr>rv_last_activity_ms := t, rv_state := WL_BULK_RECEIVER_ABORTED,
      rv_terminal_phase := p, rv_terminal_code := c\<rparr>)) tid p' c' off acc)"
    if "tid = transfer_id (rv_descriptor r)" for p c p' c' off acc
    using aborted_inv [OF inv, where st = WL_BULK_RECEIVER_ABORTED and reason = reason] that
    by (cases "rv_sink_active r") (simp_all add: release_sink_def count_abort_def)
  then show ?thesis
    by (simp add: wl_bulk_receiver_on_abort_def Let_def inv session_inv_status [OF inv] tombstone_inv [OF inv])
qed

lemma status_ops_inv:
  assumes "session_inv r"
  shows "session_inv (snd (wl_bulk_receiver_status_acquire r))"
    "session_inv (snd (wl_bulk_receiver_status_defer r view))"
    "session_inv (snd (wl_bulk_receiver_status_release r view))"
  by (auto simp: wl_bulk_receiver_status_acquire_def wl_bulk_receiver_status_defer_def
      wl_bulk_receiver_status_release_def same_session_def intro!: session_inv_same [OF assms])

lemma receiver_poll_inv: "session_inv r \<Longrightarrow> session_inv (snd (wl_bulk_receiver_poll r t))"
proof -
  assume inv: "session_inv r"
  have rel: "(if rv_sink_active r then call_abort r (transfer_id (rv_descriptor r)) reason else r) =
             release_sink r reason" for reason by (simp add: release_sink_def)
  have "session_inv (retain_status ((release_sink r reason)
      \<lparr>rv_state := WL_BULK_RECEIVER_FAILED, rv_terminal_phase := p, rv_terminal_code := c, rv_stats := s\<rparr>)
      tid p' c' off acc)" for reason p c s tid p' c' off acc
    using release_none [OF inv] release_sink_config [of r] by (simp add: session_inv_def records_def status_defs)
  then show ?thesis
    using inv by (simp add: wl_bulk_receiver_poll_def Let_def rel enter_failure_def)
qed

lemma receiver_reset_inv: "session_inv r \<Longrightarrow> session_inv (snd (wl_bulk_receiver_reset r))"
  using release_none [of r "wl_bulk_err_code WL_BULK_ERR_INVALID_STATE"]
    release_sink_config [of r "wl_bulk_err_code WL_BULK_ERR_INVALID_STATE"]
  by (simp add: wl_bulk_receiver_reset_def session_inv_def clear_session_def records_def)

lemma receiver_exec_inv: "session_inv r \<Longrightarrow> session_inv (receiver_exec op r)"
  by (cases op) (simp_all add: on_begin_inv on_chunk_inv on_end_inv on_abort_inv status_ops_inv
      receiver_poll_inv receiver_reset_inv)

interpretation rcv: machine receiver_exec session_inv
  by unfold_locales (rule receiver_exec_inv)

lemma receiver_init_inv:
  assumes "wl_bulk_receiver_init r0 cfg (u, []) = (WL_BULK_OK, r)" "rc_sink cfg = recording k"
  shows "session_inv r" "rv_config r = cfg" "calls r = []"
  using assms
  by (auto simp: wl_bulk_receiver_init_def session_inv_def records_def callbacks_def recording_def
      split: if_splits intro!: exI [of _ k])

lemma config_frame [simp]:
  "rv_config (retain_status r tid p c off acc) = rv_config r"
  "rv_config (snd (reject_protocol r tid p c off acc)) = rv_config r"
  "rv_config (count_duplicate r) = rv_config r"
  "rv_config (count_busy r) = rv_config r"
  "rv_config (count_abort r) = rv_config r"
  "rv_config (enter_failure r p c) = rv_config r"
  "rv_config (snd (sink_failure_code r res)) = rv_config r"
  "rv_config (call_abort r tid reason) = rv_config r"
  "rv_config (release_sink r reason) = rv_config r"
  "rv_config (clear_session r reason) = rv_config r"
  "rv_config (retain_abort_tombstone r tid t) = rv_config r"
  by (simp_all add: status_defs enter_failure_def sink_failure_code_def call_abort_def release_sink_def
      clear_session_def retain_abort_tombstone_def Let_def)

lemma sink_config_frame [simp]:
  "rv_config (snd (begin_session r d acc t)) = rv_config r"
  "rv_config (snd (write_chunk m r ck e t)) = rv_config r"
  "rv_config (snd (finish_session r tid t)) = rv_config r"
  by (auto simp: begin_session_def write_chunk_def finish_session_def call_begin_def call_write_def
      call_finish_def Let_def sink_failure_code_def count_write_failure_def split: prod.split)

lemma receiver_exec_config [simp]: "rv_config (receiver_exec op r) = rv_config r"
  by (cases op)
     (simp_all add: wl_bulk_receiver_on_begin_def wl_bulk_receiver_on_chunk_def wl_bulk_receiver_on_end_def
       wl_bulk_receiver_on_abort_def wl_bulk_receiver_status_acquire_def wl_bulk_receiver_status_defer_def
       wl_bulk_receiver_status_release_def wl_bulk_receiver_poll_def wl_bulk_receiver_reset_def Let_def
       split: option.split)

lemma receiver_run_config [simp]: "rv_config (run_ops receiver_exec ops r) = rv_config r"
  by (induction ops arbitrary: r) simp_all

text \<open>
  C33. Whatever messages a peer sends and whatever operations the application calls, in any order, the sink of a
  bulk receiver sees a well-formed sequence of sessions. A session starts with one \<open>begin\<close> of an acceptable
  descriptor; its writes are consecutive from the resume offset, non-empty, no longer than the requested and the
  configured chunk size, aligned and inside the object; \<open>finish\<close> comes only when the whole object has been stored;
  after a failure only \<open>abort\<close> follows, with the identifier of the transfer. While the receiver is receiving, the
  offset it reports is exactly what the sink has stored.
\<close>

theorem sink_contract:
  assumes "wl_bulk_receiver_init r0 cfg (u, []) = (WL_BULK_OK, r)" "rc_sink cfg = recording k"
  shows "\<exists>s. follow cfg (calls (run_ops receiver_exec ops r)) = Some s \<and>
             session_rel (Some s) (run_ops receiver_exec ops r)"
proof -
  note init = receiver_init_inv [OF assms]
  have "session_inv (run_ops receiver_exec ops r)" by (rule rcv.run_keeps [OF init(1)])
  then show ?thesis
    by (cases "follow cfg (calls (run_ops receiver_exec ops r))") (simp_all add: session_inv_def init(2))
qed

text \<open>A sink that accepts everything, and the transfer of three bytes in chunks of two.\<close>

definition demo_sink :: "unit wl_bulk_sink" where
  "demo_sink = \<lparr>sk_begin = Some (\<lambda>u d. (WL_BULK_SINK_OK, 0, u)), sk_write = Some (\<lambda>u tid off bs. (WL_BULK_SINK_OK, u)),
     sk_finish = Some (\<lambda>u d. (WL_BULK_SINK_OK, u)), sk_abort = Some (\<lambda>u tid reason. u)\<rparr>"

definition demo_bulk_config :: "unit recorded wl_bulk_receiver_config" where
  "demo_bulk_config = \<lparr>rc_max_object_length = 100, rc_max_chunk_size = 2, rc_write_alignment = 2,
     rc_idle_timeout_ms = 0, rc_sink = recording demo_sink\<rparr>"

definition demo_descriptor :: wl_bulk_descriptor where
  "demo_descriptor = \<lparr>transfer_id = 7, total_length = 3, requested_chunk_size = 8, object_crc32c = 0\<rparr>"

definition blank_receiver :: "unit recorded wl_bulk_receiver" where
  "blank_receiver = \<lparr>rv_config = demo_bulk_config, rv_user = ((), []), rv_descriptor = zero_descriptor,
     rv_pending_status = zero_status, rv_stats = zero_receiver_stats, rv_next_offset = 0,
     rv_last_activity_ms = 0, rv_status_token = 0, rv_accepted_chunk_size = 0, rv_magic = 0,
     rv_state = WL_BULK_RECEIVER_IDLE, rv_terminal_code = 0, rv_terminal_phase = 0,
     rv_status_pending = False, rv_status_acquired = False, rv_sink_active = False\<rparr>"

definition demo_receiver :: "unit recorded wl_bulk_receiver" where
  "demo_receiver = snd (wl_bulk_receiver_init blank_receiver demo_bulk_config ((), []))"

definition demo_bulk_mem :: mem where
  "demo_bulk_mem a = (if a = 16 then 0xAA else if a = 17 then 0xBB else if a = 18 then 0xCC else 0)"

text \<open>A message and the publication of its status.\<close>

definition answered :: "receiver_op \<Rightarrow> u32 \<Rightarrow> wl_bulk_status \<Rightarrow> receiver_op list" where
  "answered op token st = [op, Status_Acquire, Status_Release \<lparr>vw_status = st, vw_token = token\<rparr>]"

definition demo_status :: "wl_bulk_phase \<Rightarrow> u64 \<Rightarrow> wl_bulk_status" where
  "demo_status p off = \<lparr>bs_transfer_id = 7, bs_phase = p, bs_code = WL_BULK_STATUS_OK, bs_next_offset = off,
     bs_accepted_chunk_size = 2\<rparr>"

definition demo_transfer :: "receiver_op list" where
  "demo_transfer =
     answered (On_Begin demo_descriptor 0) 1 (demo_status WL_BULK_PHASE_BEGIN 0) @
     answered (On_Chunk demo_bulk_mem \<lparr>ck_transfer_id = 7, ck_offset = 0, ck_data = 16, ck_length = 2\<rparr> 1) 2
       (demo_status WL_BULK_PHASE_CHUNK 2) @
     answered (On_Chunk demo_bulk_mem \<lparr>ck_transfer_id = 7, ck_offset = 2, ck_data = 18, ck_length = 1\<rparr> 2) 3
       (demo_status WL_BULK_PHASE_CHUNK 3) @
     answered (On_End 7 3 0 3) 4 (demo_status WL_BULK_PHASE_END 3)"

theorem sink_contract_witness:
  "(\<exists>s. follow demo_bulk_config (calls (run_ops receiver_exec demo_transfer demo_receiver)) = Some s \<and>
        session_rel (Some s) (run_ops receiver_exec demo_transfer demo_receiver)) \<and>
   calls (run_ops receiver_exec demo_transfer demo_receiver) =
     [Sink_Begin demo_descriptor 0 0, Sink_Write 7 0 [0xAA, 0xBB] 0, Sink_Write 7 2 [0xCC] 0,
      Sink_Finish demo_descriptor 0]"
proof -
  have "fst (wl_bulk_receiver_init blank_receiver demo_bulk_config ((), [])) = WL_BULK_OK" by code_simp
  then have "wl_bulk_receiver_init blank_receiver demo_bulk_config ((), []) = (WL_BULK_OK, demo_receiver)"
    by (simp add: demo_receiver_def prod_eq_iff)
  moreover have "rc_sink demo_bulk_config = recording demo_sink" by (simp add: demo_bulk_config_def)
  ultimately have "\<exists>s. follow demo_bulk_config (calls (run_ops receiver_exec demo_transfer demo_receiver)) = Some s \<and>
        session_rel (Some s) (run_ops receiver_exec demo_transfer demo_receiver)"
    by (rule sink_contract)
  moreover have "calls (run_ops receiver_exec demo_transfer demo_receiver) =
     [Sink_Begin demo_descriptor 0 0, Sink_Write 7 0 [0xAA, 0xBB] 0, Sink_Write 7 2 [0xCC] 0,
      Sink_Finish demo_descriptor 0]" by code_simp
  ultimately show ?thesis by blast
qed

end
