(* ===== verification/Bulk_Source.thy ===== *)
theory Bulk_Source
  imports Channel Bulk_Sender
begin

text \<open>
  The invariant of the bulk sender under every sequence of operations and statuses, the actions it hands out, and
  what it does when the peer is silent.
\<close>

section \<open>Operations\<close>

datatype sender_op =
    Sender_Start wl_bulk_descriptor
  | Sender_Reset
  | Request_Abort int
  | Action_Acquire
  | Action_Defer wl_bulk_sender_action
  | Action_Submitted wl_bulk_sender_action u32
  | On_Status wl_bulk_status u32
  | Poll_Sender u32

fun sender_exec :: "sender_op \<Rightarrow> wl_bulk_sender \<Rightarrow> wl_bulk_sender" where
  "sender_exec (Sender_Start d) s = snd (wl_bulk_sender_start s d)"
| "sender_exec Sender_Reset s = snd (wl_bulk_sender_reset s)"
| "sender_exec (Request_Abort reason) s = snd (wl_bulk_sender_request_abort s reason)"
| "sender_exec Action_Acquire s = snd (wl_bulk_sender_action_acquire s)"
| "sender_exec (Action_Defer ac) s = snd (wl_bulk_sender_action_defer s ac)"
| "sender_exec (Action_Submitted ac t) s = snd (wl_bulk_sender_action_submitted s ac t)"
| "sender_exec (On_Status st t) s = snd (wl_bulk_sender_on_status s st t)"
| "sender_exec (Poll_Sender t) s = snd (wl_bulk_sender_poll s t)"

section \<open>The invariant\<close>

definition flags_inv :: "wl_bulk_sender \<Rightarrow> bool" where
  "flags_inv s \<longleftrightarrow>
     sender_initialized s \<and>
     sender_interval_valid (sn_status_timeout_ms s) \<and> sender_interval_valid (sn_busy_retry_ms s) \<and>
     sn_retry_count s \<le> sn_max_retries s \<and>
     (sn_action_acquired s \<longrightarrow> sn_state s = WL_BULK_SENDER_READY) \<and>
     (sn_retry_wait s \<longrightarrow> sn_retry_count s < sn_max_retries s \<and> sn_state s = WL_BULK_SENDER_WAIT_STATUS)"

definition offsets_inv :: "wl_bulk_sender \<Rightarrow> bool" where
  "offsets_inv s \<longleftrightarrow>
     (sn_state s \<noteq> WL_BULK_SENDER_IDLE \<longrightarrow>
        phase_valid (sn_phase s) \<and> transfer_id (sn_descriptor s) \<noteq> 0 \<and> requested_chunk_size (sn_descriptor s) \<noteq> 0) \<and>
     (sn_state s \<noteq> WL_BULK_SENDER_ABORTED \<longrightarrow> sn_next_offset s \<le> total_length (sn_descriptor s)) \<and>
     sn_negotiated_chunk_size s \<le> requested_chunk_size (sn_descriptor s)"

text \<open>The length of the next chunk: what is left of the object, at most the negotiated size.\<close>

definition due_length :: "wl_bulk_sender \<Rightarrow> nat" where
  "due_length s =
     (if sn_phase s = WL_BULK_PHASE_CHUNK
      then min (unat (total_length (sn_descriptor s)) - unat (sn_next_offset s)) (unat (sn_negotiated_chunk_size s))
      else 0)"

definition action_inv :: "wl_bulk_sender \<Rightarrow> bool" where
  "action_inv s \<longleftrightarrow>
     (sender_active s \<and> sn_phase s = WL_BULK_PHASE_CHUNK \<longrightarrow>
        sn_negotiated_chunk_size s \<noteq> 0 \<and> sn_next_offset s < total_length (sn_descriptor s)) \<and>
     (sender_active s \<and> sn_phase s = WL_BULK_PHASE_END \<longrightarrow> sn_next_offset s = total_length (sn_descriptor s)) \<and>
     (sender_active s \<longrightarrow> sn_action_length s = due_length s)"

definition sender_inv :: "wl_bulk_sender \<Rightarrow> bool" where
  "sender_inv s \<longleftrightarrow> flags_inv s \<and> offsets_inv s \<and> action_inv s"

lemmas sender_helper_defs = set_action_length_def prepare_phase_def fail_sender_def protocol_failure_def
  next_phase_def count_status_def count_aborted_def wait_for_retry_def sender_retry_def

lemma unat_ucast_u32: "unat (ucast (x :: u32) :: u64) = unat x"
proof -
  have "unat x < 2 ^ 32" using unsigned_less [of x] by simp
  then have "unat x < 2 ^ 64" by simp
  then show ?thesis by (simp add: unsigned_ucast_eq take_bit_nat_eq_self)
qed

lemma set_action_length_due: "set_action_length s = s\<lparr>sn_action_length := due_length s\<rparr>"
  using unat_ucast_u32 [of "sn_negotiated_chunk_size s"]
  by (auto simp: set_action_length_def due_length_def Let_def word_less_nat_alt word_le_nat_alt unat_sub
      min_def)

lemma incr_retry: "(c :: u16) < m \<Longrightarrow> c + 1 \<le> m"
  by (rule inc_le)

lemmas sender_op_defs = wl_bulk_sender_start_def wl_bulk_sender_reset_def wl_bulk_sender_request_abort_def
  wl_bulk_sender_action_acquire_def wl_bulk_sender_action_defer_def wl_bulk_sender_action_submitted_def
  wl_bulk_sender_poll_def

lemmas status_branch_defs = on_status_terminal_def on_status_busy_def on_status_out_of_order_def
  on_status_refused_def

section \<open>Every operation keeps it\<close>

lemma flags_frame:
  assumes "flags_inv s"
  shows "flags_inv (fail_sender s c)" "flags_inv (protocol_failure s)" "flags_inv (prepare_phase s p)"
    "flags_inv (next_phase s)" "flags_inv (count_status s)" "flags_inv (count_aborted s)"
    "flags_inv (sn_next_offset_update f s)" "flags_inv (sn_last_status_update g s)"
    "flags_inv (sn_negotiated_chunk_size_update h s)" "flags_inv (sn_chunk_acknowledged_update k s)"
    "flags_inv (sn_abort_reason_update l s)" "flags_inv (sn_wait_interval_ms_update l' s)"
    "flags_inv (sn_phase_update l'' s)" "flags_inv (sn_stats_update j s)"
  using assms
  by (simp_all add: flags_inv_def fail_sender_def protocol_failure_def prepare_phase_def next_phase_def
      count_status_def count_aborted_def set_action_length_due sender_initialized_def)

lemma flags_settle:
  assumes "flags_inv s" "\<not> sn_retry_wait s" "\<not> sn_action_acquired s"
  shows "flags_inv (sn_state_update f s)"
  using assms by (simp add: flags_inv_def sender_initialized_def)

lemma flags_retry:
  assumes "flags_inv s" "sn_state s = WL_BULK_SENDER_WAIT_STATUS"
  shows "flags_inv (wait_for_retry s t n c)"
    "sn_retry_count s < sn_max_retries s \<Longrightarrow> flags_inv (sender_retry s)"
  using assms incr_retry [of "sn_retry_count s" "sn_max_retries s"]
  by (auto simp: flags_inv_def wait_for_retry_def fail_sender_def sender_retry_def sender_initialized_def)

lemma flags_waiting:
  "flags_inv s \<Longrightarrow> sn_state s = WL_BULK_SENDER_WAIT_STATUS \<Longrightarrow> \<not> sn_action_acquired s"
  by (auto simp: flags_inv_def)

lemma on_status_ok_flags:
  assumes "flags_inv s" "\<not> sn_retry_wait s" "\<not> sn_action_acquired s"
  shows "flags_inv (snd (on_status_ok s st))"
  using assms
  by (auto simp: on_status_ok_def Let_def intro!: flags_frame flags_settle)

lemma count_status_frame [simp]:
  "sn_retry_wait (count_status s) = sn_retry_wait s" "sn_action_acquired (count_status s) = sn_action_acquired s"
  "sn_state (count_status s) = sn_state s" "sn_phase (count_status s) = sn_phase s"
  "sn_descriptor (count_status s) = sn_descriptor s" "sn_next_offset (count_status s) = sn_next_offset s"
  "sn_negotiated_chunk_size (count_status s) = sn_negotiated_chunk_size s"
  "sn_action_length (count_status s) = sn_action_length s"
  by (simp_all add: count_status_def)

lemma on_status_branch_flags:
  assumes "flags_inv s" "\<not> sn_retry_wait s" "sn_state s = WL_BULK_SENDER_WAIT_STATUS"
  shows "flags_inv (snd (on_status_terminal s st))" "flags_inv (snd (on_status_busy s st t))"
    "flags_inv (snd (on_status_out_of_order s st))" "flags_inv (snd (on_status_refused s st))"
  using assms flags_waiting [OF assms(1,3)]
  by (auto simp: status_branch_defs Let_def intro!: flags_frame flags_settle flags_retry(1))

lemma on_status_flags:
  assumes "flags_inv s" shows "flags_inv (snd (wl_bulk_sender_on_status s st t))"
proof (cases "sn_state s = WL_BULK_SENDER_WAIT_STATUS \<and> \<not> sn_retry_wait s")
  case True
  let ?s = "\<lambda>c. (count_status s)\<lparr>sn_last_status := c\<rparr>"
  have s: "flags_inv (?s c)" "\<not> sn_retry_wait (?s c)" "sn_state (?s c) = WL_BULK_SENDER_WAIT_STATUS"
    "\<not> sn_action_acquired (?s c)" for c
    using assms True flags_waiting [OF assms] by (simp_all add: flags_frame)
  then have "flags_inv (snd (on_status_current s st t))"
    by (simp add: on_status_current_def Let_def on_status_branch_flags on_status_ok_flags)
  then show ?thesis
    using assms True on_status_branch_flags(1) [OF assms] by (simp add: wl_bulk_sender_on_status_def flags_frame)
next
  case False
  then show ?thesis using assms by (auto simp: wl_bulk_sender_on_status_def)
qed

lemma sender_exec_flags:
  assumes "flags_inv s" shows "flags_inv (sender_exec op s)"
proof (cases op)
  case (Poll_Sender t)
  have "sn_retry_count s < sn_max_retries s" if "sn_retry_wait s" using that assms by (simp add: flags_inv_def)
  moreover have "sn_state (wait_for_retry s t 0 c) \<noteq> WL_BULK_SENDER_FAILED \<Longrightarrow>
      sn_retry_count (wait_for_retry s t 0 c) < sn_max_retries (wait_for_retry s t 0 c) \<and>
      sn_state (wait_for_retry s t 0 c) = sn_state s" for c
    by (auto simp: wait_for_retry_def fail_sender_def)
  ultimately show ?thesis
    using assms flags_retry [OF assms] flags_retry(2) [OF flags_retry(1) [OF assms]]
    by (simp add: Poll_Sender wl_bulk_sender_poll_def Let_def)
next
  case (On_Status st t)
  then show ?thesis using on_status_flags [OF assms] by simp
qed (use assms in \<open>auto simp: sender_op_defs Let_def flags_inv_def sender_initialized_def prepare_phase_def
    set_action_length_due\<close>)

text \<open>The second half of the invariant, on the descriptor, the offset and the action in preparation.\<close>

definition range_inv :: "wl_bulk_sender \<Rightarrow> bool" where
  "range_inv s \<longleftrightarrow> offsets_inv s \<and> action_inv s"

lemma range_failed:
  assumes "range_inv s" "sn_state s = WL_BULK_SENDER_WAIT_STATUS"
  shows "range_inv (fail_sender s c)" "range_inv (protocol_failure s)"
    "range_inv (wait_for_retry s t n c)" "range_inv (sender_retry s)"
  using assms
  by (auto simp: range_inv_def offsets_inv_def action_inv_def sender_active_def fail_sender_def
      protocol_failure_def wait_for_retry_def sender_retry_def due_length_def)

lemma range_frame:
  assumes "range_inv s"
  shows "range_inv (count_status s)" "range_inv (count_aborted s)" "range_inv (sn_last_status_update f s)"
    "range_inv (sn_wait_interval_ms_update h s)" "range_inv (sn_stats_update g s)"
  using assms
  by (simp_all add: range_inv_def offsets_inv_def action_inv_def sender_active_def count_status_def
      count_aborted_def due_length_def)

lemma range_settled:
  assumes "range_inv s" "sn_state s \<noteq> WL_BULK_SENDER_IDLE" "st \<noteq> WL_BULK_SENDER_READY" "st \<noteq> WL_BULK_SENDER_WAIT_STATUS"
    "st = WL_BULK_SENDER_ABORTED \<or> off \<le> total_length (sn_descriptor s)" "phase_valid p"
  shows "range_inv (s\<lparr>sn_next_offset := off, sn_state := st\<rparr>)"
    "range_inv (s\<lparr>sn_next_offset := off, sn_phase := p, sn_state := st\<rparr>)"
  using assms by (auto simp: range_inv_def offsets_inv_def action_inv_def sender_active_def)

lemma range_next_phase:
  assumes "range_inv s" "sn_state s = WL_BULK_SENDER_WAIT_STATUS" "off \<le> total_length (sn_descriptor s)"
    "n \<noteq> 0" "n \<le> requested_chunk_size (sn_descriptor s)"
  shows "range_inv (next_phase (s\<lparr>sn_negotiated_chunk_size := n, sn_next_offset := off\<rparr>))"
    "range_inv (next_phase (s\<lparr>sn_negotiated_chunk_size := n, sn_next_offset := off, sn_chunk_acknowledged := b\<rparr>))"
  using assms
  by (auto simp: next_phase_def prepare_phase_def set_action_length_due range_inv_def offsets_inv_def action_inv_def
      sender_active_def due_length_def phase_valid_def)

lemma range_next_phase_kept:
  assumes "range_inv s" "sn_state s = WL_BULK_SENDER_WAIT_STATUS" "off \<le> total_length (sn_descriptor s)"
    "sn_phase s = WL_BULK_PHASE_CHUNK"
  shows "range_inv (next_phase (s\<lparr>sn_next_offset := off, sn_chunk_acknowledged := b\<rparr>))"
  using assms range_next_phase(2) [OF assms(1-3), of "sn_negotiated_chunk_size s" b]
  by (simp add: range_inv_def offsets_inv_def action_inv_def sender_active_def)

lemma on_status_ok_range:
  assumes "range_inv s" "sn_state s = WL_BULK_SENDER_WAIT_STATUS"
  shows "range_inv (snd (on_status_ok s st))"
proof -
  have "range_inv (s\<lparr>sn_next_offset := total_length (sn_descriptor s), sn_state := WL_BULK_SENDER_COMPLETED,
          sn_wait_interval_ms := 0, sn_stats := g\<rparr>)" for g
    using range_settled(1) [OF assms(1), of WL_BULK_SENDER_COMPLETED "total_length (sn_descriptor s)" 1] assms(2)
      range_frame(4,5) by (simp add: phase_valid_def range_inv_def offsets_inv_def action_inv_def sender_active_def)
  moreover have "range_inv (s\<lparr>sn_next_offset := off, sn_state := WL_BULK_SENDER_ABORTED, sn_wait_interval_ms := 0\<rparr>)" for off
    using assms by (simp add: range_inv_def offsets_inv_def action_inv_def sender_active_def)
  ultimately show ?thesis
    using range_failed(2) [OF assms] range_next_phase(1) [OF assms] range_next_phase_kept [OF assms]
      range_frame(2) [of "s\<lparr>sn_next_offset := _, sn_state := _, sn_wait_interval_ms := _\<rparr>"]
    by (simp add: on_status_ok_def Let_def proposed_chunk_size_valid_def not_less)
qed

lemma on_status_branch_range:
  assumes s: "range_inv s" "sn_state s = WL_BULK_SENDER_WAIT_STATUS"
  shows "range_inv (snd (on_status_terminal s st))" "range_inv (snd (on_status_busy s st t))"
    "range_inv (snd (on_status_out_of_order s st))" "range_inv (snd (on_status_refused s st))"
proof -
  have "range_inv ((count_status s)\<lparr>sn_last_status := c, sn_next_offset := off, sn_wait_interval_ms := 0,
      sn_state := WL_BULK_SENDER_ABORTED\<rparr>)" for c off
    using s by (simp add: range_inv_def offsets_inv_def action_inv_def sender_active_def)
  moreover have "range_inv (fail_sender ((count_status s)\<lparr>sn_last_status := c, sn_next_offset := off,
      sn_wait_interval_ms := 0, sn_phase := WL_BULK_PHASE_ABORT\<rparr>) c')"
    if "off \<le> total_length (sn_descriptor s)" for c c' off
    using s that
    by (simp add: range_inv_def offsets_inv_def action_inv_def sender_active_def fail_sender_def phase_valid_def)
  ultimately show "range_inv (snd (on_status_terminal s st))"
    using range_failed(2) [OF s]
    by (simp add: on_status_terminal_def Let_def terminal_status_valid_def not_less range_frame)
  have "range_inv (wait_for_retry (s\<lparr>sn_stats := g\<rparr>) t' n c)" for g t' n c
    using range_failed(3) [of "s\<lparr>sn_stats := g\<rparr>"] s range_frame(5) [OF s(1)] by simp
  then show "range_inv (snd (on_status_busy s st t))"
    using range_failed(2) [OF s] by (simp add: on_status_busy_def)
  show "range_inv (snd (on_status_refused s st))"
    using s range_failed(1) [OF s]
    by (simp add: on_status_refused_def range_inv_def offsets_inv_def action_inv_def sender_active_def count_aborted_def)
  show "range_inv (snd (on_status_out_of_order s st))"
    using range_failed(2) [OF s] range_next_phase(2) [OF s, of "bs_next_offset st" "bs_accepted_chunk_size st" False]
      range_next_phase_kept [OF s, of "bs_next_offset st" False]
    by (simp add: on_status_out_of_order_def Let_def proposed_chunk_size_valid_def not_less)
qed

lemma on_status_range:
  assumes "range_inv s" shows "range_inv (snd (wl_bulk_sender_on_status s st t))"
proof (cases "sn_state s = WL_BULK_SENDER_WAIT_STATUS")
  case wait: True
  let ?s = "\<lambda>c. (count_status s)\<lparr>sn_last_status := c\<rparr>"
  have s: "range_inv (?s c)" "sn_state (?s c) = WL_BULK_SENDER_WAIT_STATUS" for c
    using assms wait by (simp_all add: range_frame)
  have "range_inv (snd (on_status_current s st t))"
    by (simp add: on_status_current_def Let_def on_status_branch_range [OF s] on_status_ok_range [OF s])
  then show ?thesis
    using assms on_status_branch_range(1) [OF assms wait] range_failed(2) [OF assms wait]
    by (simp add: wl_bulk_sender_on_status_def)
next
  case False
  then show ?thesis using assms by (simp add: wl_bulk_sender_on_status_def)
qed

lemma sender_exec_range:
  assumes "flags_inv s" "range_inv s" shows "range_inv (sender_exec op s)"
proof (cases op)
  case (Poll_Sender t)
  have "sn_state (wait_for_retry s t 0 c) \<noteq> WL_BULK_SENDER_FAILED \<Longrightarrow>
      sn_state (wait_for_retry s t 0 c) = sn_state s" for c
    by (auto simp: wait_for_retry_def fail_sender_def)
  then show ?thesis
    using assms(2) range_failed [OF assms(2)] range_failed(4) [OF range_failed(3) [OF assms(2)]]
    by (simp add: Poll_Sender wl_bulk_sender_poll_def Let_def)
next
  case (On_Status st t)
  then show ?thesis using on_status_range [OF assms(2)] by simp
qed (use assms(2) in \<open>auto simp: sender_op_defs Let_def range_inv_def offsets_inv_def action_inv_def
    sender_active_def prepare_phase_def set_action_length_due due_length_def phase_valid_def zero_descriptor_def\<close>)

lemma sender_exec_inv: "sender_inv s \<Longrightarrow> sender_inv (sender_exec op s)"
  using sender_exec_flags sender_exec_range by (simp add: sender_inv_def range_inv_def)

interpretation src: machine sender_exec sender_inv
  by unfold_locales (rule sender_exec_inv)

lemma sender_init_inv: "wl_bulk_sender_init s0 cfg = (WL_BULK_OK, s) \<Longrightarrow> sender_inv s"
  by (auto simp: wl_bulk_sender_init_def sender_inv_def flags_inv_def offsets_inv_def action_inv_def
      sender_active_def sender_initialized_def zero_sender_def zero_descriptor_def split: if_splits)

section \<open>The actions a sender hands out\<close>

text \<open>
  C34. Whatever statuses a bulk sender receives, valid or not, and whatever operations are called, every action it
  hands out is well formed: the phase is one of the four of the protocol, a chunk is not empty, not longer than the
  requested chunk size and inside the object, the end is announced only at the end of the object, and only chunks
  carry data. The number of retries never exceeds the configured maximum.
\<close>

theorem sender_actions:
  assumes "wl_bulk_sender_init s0 cfg = (WL_BULK_OK, s)"
    "wl_bulk_sender_action_acquire (run_ops sender_exec ops s) = (Inr ac, s')"
  shows "phase_valid (ac_phase ac) \<and> transfer_id (ac_descriptor ac) \<noteq> 0 \<and>
    unat (ac_offset ac) + ac_length ac \<le> unat (total_length (ac_descriptor ac)) \<and>
    ac_length ac \<le> unat (requested_chunk_size (ac_descriptor ac)) \<and>
    (ac_phase ac = WL_BULK_PHASE_CHUNK \<longleftrightarrow> 0 < ac_length ac) \<and>
    (ac_phase ac = WL_BULK_PHASE_END \<longrightarrow> ac_offset ac = total_length (ac_descriptor ac)) \<and>
    sn_retry_count s' \<le> sn_max_retries s'"
proof -
  let ?s = "run_ops sender_exec ops s"
  have inv: "flags_inv ?s" "offsets_inv ?s" "action_inv ?s"
    using src.run_keeps [OF sender_init_inv [OF assms(1)], of ops] by (simp_all add: sender_inv_def)
  have ac: "sn_state ?s = WL_BULK_SENDER_READY" "ac_phase ac = sn_phase ?s" "ac_descriptor ac = sn_descriptor ?s"
    "ac_offset ac = sn_next_offset ?s" "ac_length ac = sn_action_length ?s"
    "sn_retry_count s' = sn_retry_count ?s" "sn_max_retries s' = sn_max_retries ?s"
    using assms(2) by (auto simp: wl_bulk_sender_action_acquire_def Let_def split: if_splits)
  have len: "sn_action_length ?s = due_length ?s"
    using inv(3) ac(1) by (simp add: action_inv_def sender_active_def)
  show ?thesis
    using inv ac(1)
    by (auto simp: ac len due_length_def flags_inv_def offsets_inv_def action_inv_def sender_active_def
        word_le_nat_alt word_less_nat_alt unat_gt_0 min_def)
qed

text \<open>A sender of five bytes in chunks of at most four, up to its first chunk.\<close>

definition demo_source_config :: wl_bulk_sender_config where
  "demo_source_config = \<lparr>bsc_status_timeout_ms = 10, bsc_busy_retry_ms = 5, bsc_max_retries = 2\<rparr>"

definition demo_source :: wl_bulk_sender where
  "demo_source = snd (wl_bulk_sender_init zero_sender demo_source_config)"

definition demo_object_descriptor :: wl_bulk_descriptor where
  "demo_object_descriptor = \<lparr>transfer_id = 9, total_length = 5, requested_chunk_size = 4, object_crc32c = 0\<rparr>"

definition demo_begin :: wl_bulk_sender_action where
  "demo_begin = \<lparr>ac_phase = WL_BULK_PHASE_BEGIN, ac_descriptor = demo_object_descriptor, ac_offset = 0, ac_length = 0,
     ac_abort_reason = 0, ac_token = 1\<rparr>"

definition demo_negotiation :: "sender_op list" where
  "demo_negotiation = [Sender_Start demo_object_descriptor, Action_Acquire, Action_Submitted demo_begin 100,
     On_Status \<lparr>bs_transfer_id = 9, bs_phase = WL_BULK_PHASE_BEGIN, bs_code = WL_BULK_STATUS_OK, bs_next_offset = 2,
       bs_accepted_chunk_size = 2\<rparr> 101]"

lemma demo_source_init: "wl_bulk_sender_init zero_sender demo_source_config = (WL_BULK_OK, demo_source)"
proof -
  have "fst (wl_bulk_sender_init zero_sender demo_source_config) = WL_BULK_OK" by code_simp
  then show ?thesis by (simp add: demo_source_def prod_eq_iff)
qed

theorem sender_actions_witness:
  "case wl_bulk_sender_action_acquire (run_ops sender_exec demo_negotiation demo_source) of
     (Inr ac, s') \<Rightarrow> ac_phase ac = WL_BULK_PHASE_CHUNK \<and> ac_offset ac = 2 \<and> 0 < ac_length ac \<and>
       unat (ac_offset ac) + ac_length ac \<le> unat (total_length (ac_descriptor ac))
   | (Inl e, s') \<Rightarrow> False"
proof -
  obtain ac s' where acq: "wl_bulk_sender_action_acquire (run_ops sender_exec demo_negotiation demo_source) = (Inr ac, s')"
  proof -
    have "\<not> isl (fst (wl_bulk_sender_action_acquire (run_ops sender_exec demo_negotiation demo_source)))" by code_simp
    then show thesis using that by (metis isl_def prod.collapse sum.collapse(2) sum.disc_eq_case(2))
  qed
  have "(case wl_bulk_sender_action_acquire (run_ops sender_exec demo_negotiation demo_source) of
     (Inr ac, s') \<Rightarrow> ac_phase ac = WL_BULK_PHASE_CHUNK \<and> ac_offset ac = 2 | (Inl e, s') \<Rightarrow> False)" by code_simp
  then show ?thesis using sender_actions [OF demo_source_init acq] by (simp add: acq)
qed

section \<open>A silent peer\<close>

text \<open>
  One round: the timer fires when it is due, and the action the sender has ready then is submitted. The
  actions submitted so far are kept in order.
\<close>

fun silent_round ::
    "wl_bulk_sender \<times> wl_bulk_sender_action list \<Rightarrow> wl_bulk_sender \<times> wl_bulk_sender_action list" where
  "silent_round (s, sent) =
     (let t = sn_wait_started_at s + sn_wait_interval_ms s;
          s = snd (wl_bulk_sender_poll s t)
      in case wl_bulk_sender_action_acquire s of
           (Inl e, s) \<Rightarrow> (s, sent)
         | (Inr ac, s) \<Rightarrow>
             (case wl_bulk_sender_action_submitted s ac t of
                (e, s) \<Rightarrow> (s, if e = WL_BULK_OK then sent @ [ac] else sent)))"

declare silent_round.simps [simp del]

text \<open>An action that repeats the one a sender waits for: the same in everything but its token.\<close>

definition resends :: "wl_bulk_sender \<Rightarrow> wl_bulk_sender_action \<Rightarrow> bool" where
  "resends s ac \<longleftrightarrow> ac_phase ac = sn_phase s \<and> ac_descriptor ac = sn_descriptor s \<and>
     ac_offset ac = sn_next_offset s \<and> ac_length ac = sn_action_length s \<and> ac_abort_reason ac = sn_abort_reason s"

definition same_action :: "wl_bulk_sender \<Rightarrow> wl_bulk_sender \<Rightarrow> bool" where
  "same_action s s' \<longleftrightarrow> sn_phase s' = sn_phase s \<and> sn_descriptor s' = sn_descriptor s \<and>
     sn_next_offset s' = sn_next_offset s \<and> sn_action_length s' = sn_action_length s \<and>
     sn_abort_reason s' = sn_abort_reason s \<and> sn_max_retries s' = sn_max_retries s"

lemma silent_round_retries:
  assumes "flags_inv s" "sn_state s = WL_BULK_SENDER_WAIT_STATUS" "sn_retry_count s < sn_max_retries s"
  shows "\<exists>s' ac. silent_round (s, sent) = (s', sent @ [ac]) \<and> resends s ac \<and> same_action s s' \<and> flags_inv s' \<and>
    sn_state s' = WL_BULK_SENDER_WAIT_STATUS \<and> sn_retry_count s' = sn_retry_count s + 1"
  using assms flags_waiting [OF assms(1,2)] incr_retry [OF assms(3)]
  by (auto simp: silent_round.simps wl_bulk_sender_poll_def deadline_elapsed_def Let_def sender_retry_def
      wait_for_retry_def wl_bulk_sender_action_acquire_def wl_bulk_sender_action_submitted_def flags_inv_def
      sender_initialized_def action_matches_def descriptor_matches_def resends_def same_action_def)

lemma silent_round_gives_up:
  assumes "flags_inv s" "sn_state s = WL_BULK_SENDER_WAIT_STATUS" "sn_retry_count s = sn_max_retries s"
  shows "\<exists>s'. silent_round (s, sent) = (s', sent) \<and> sn_state s' = WL_BULK_SENDER_FAILED \<and>
    sn_last_status s' = WL_BULK_STATUS_TIMED_OUT"
  using assms
  by (auto simp: silent_round.simps wl_bulk_sender_poll_def deadline_elapsed_def Let_def fail_sender_def
      wait_for_retry_def wl_bulk_sender_action_acquire_def flags_inv_def sender_initialized_def)

text \<open>After \<open>k\<close> rounds within the budget of \<open>w\<close>: \<open>k\<close> retransmissions, and the sender waits again.\<close>

definition silent_after :: "wl_bulk_sender \<Rightarrow> nat \<Rightarrow> wl_bulk_sender \<times> wl_bulk_sender_action list \<Rightarrow> bool" where
  "silent_after w k u \<longleftrightarrow> flags_inv (fst u) \<and> sn_state (fst u) = WL_BULK_SENDER_WAIT_STATUS \<and>
     unat (sn_retry_count (fst u)) = unat (sn_retry_count w) + k \<and> same_action w (fst u) \<and>
     length (snd u) = k \<and> list_all (resends w) (snd u)"

lemma silent_rounds:
  assumes "flags_inv w" "sn_state w = WL_BULK_SENDER_WAIT_STATUS"
    "k \<le> unat (sn_max_retries w) - unat (sn_retry_count w)"
  shows "silent_after w k ((silent_round ^^ k) (w, []))"
  using assms(3)
proof (induction k)
  case 0
  then show ?case using assms(1,2) by (simp add: silent_after_def same_action_def)
next
  case (Suc k)
  obtain u sent where u: "(silent_round ^^ k) (w, []) = (u, sent)" by (rule prod.exhaust)
  have IH: "silent_after w k (u, sent)" using Suc u by simp
  have "unat (sn_max_retries w) < 2 ^ 16" using unsigned_less [of "sn_max_retries w"] by simp
  then have less: "sn_retry_count u < sn_max_retries u" "unat (sn_retry_count u + 1) = unat (sn_retry_count w) + Suc k"
    using IH Suc.prems by (simp_all add: silent_after_def same_action_def word_less_nat_alt unat_word_ariths)
  obtain u' ac where "silent_round (u, sent) = (u', sent @ [ac])" "resends u ac" "same_action u u'" "flags_inv u'"
    "sn_state u' = WL_BULK_SENDER_WAIT_STATUS" "sn_retry_count u' = sn_retry_count u + 1"
    using silent_round_retries [of u sent] IH less(1) by (auto simp: silent_after_def)
  then show ?case
    using IH less(2) u by (simp add: silent_after_def same_action_def resends_def)
qed

text \<open>
  C35. A bulk sender whose peer has gone silent gives up. From any reachable state in which it waits for a status, a
  poll before the timer is due does nothing, and every expiry within the retry budget makes the sender
  submit exactly one retransmission, the same in phase, object, offset, length and abort reason as the
  action it waits for. After as many as the budget allows, the next expiry makes it fail with the status
  \<^verbatim>\<open>TIMED_OUT\<close> and submit nothing.
\<close>

theorem silent_peer_times_out:
  assumes "wl_bulk_sender_init s0 cfg = (WL_BULK_OK, s)" "w = run_ops sender_exec ops s"
    "sn_state w = WL_BULK_SENDER_WAIT_STATUS" "n = unat (sn_max_retries w) - unat (sn_retry_count w)"
  shows "(\<forall>d < sn_wait_interval_ms w. wl_bulk_sender_poll w (sn_wait_started_at w + d) = (WL_BULK_OK, w)) \<and>
    (\<forall>k \<le> n. case (silent_round ^^ k) (w, []) of (u, sent) \<Rightarrow>
       sn_state u = WL_BULK_SENDER_WAIT_STATUS \<and> length sent = k \<and> list_all (resends w) sent) \<and>
    (case (silent_round ^^ Suc n) (w, []) of (u, sent) \<Rightarrow>
       sn_state u = WL_BULK_SENDER_FAILED \<and> sn_last_status u = WL_BULK_STATUS_TIMED_OUT \<and> length sent = n)"
proof -
  have inv: "flags_inv w"
    using src.run_keeps [OF sender_init_inv [OF assms(1)], of ops] assms(2) by (simp add: sender_inv_def)
  have after: "silent_after w k ((silent_round ^^ k) (w, []))" if "k \<le> n" for k
    using silent_rounds [OF inv assms(3)] that assms(4) by simp
  obtain u sent where u: "(silent_round ^^ n) (w, []) = (u, sent)" by (rule prod.exhaust)
  have "sn_retry_count u = sn_max_retries u"
    using after [of n] u inv assms(4)
    by (simp add: silent_after_def same_action_def flags_inv_def word_le_nat_alt word_unat_eq_iff)
  then obtain v where "silent_round (u, sent) = (v, sent)" "sn_state v = WL_BULK_SENDER_FAILED"
    "sn_last_status v = WL_BULK_STATUS_TIMED_OUT"
    using silent_round_gives_up [of u sent] after [of n] u by (auto simp: silent_after_def)
  moreover have "wl_bulk_sender_poll w (sn_wait_started_at w + d) = (WL_BULK_OK, w)" if "d < sn_wait_interval_ms w" for d
    using that inv by (simp add: wl_bulk_sender_poll_def deadline_elapsed_def flags_inv_def not_le)
  moreover have "length sent = n" using after [of n] u by (simp add: silent_after_def)
  moreover have "\<forall>k \<le> n. case (silent_round ^^ k) (w, []) of (u, sent) \<Rightarrow>
      sn_state u = WL_BULK_SENDER_WAIT_STATUS \<and> length sent = k \<and> list_all (resends w) sent"
    using after by (simp add: silent_after_def case_prod_beta)
  ultimately show ?thesis using u by simp
qed

theorem silent_peer_times_out_witness:
  "case (silent_round ^^ 3) (run_ops sender_exec
     [Sender_Start demo_object_descriptor, Action_Acquire, Action_Submitted demo_begin 100] demo_source, []) of (u, sent) \<Rightarrow>
     sn_state u = WL_BULK_SENDER_FAILED \<and> map ac_phase sent = [WL_BULK_PHASE_BEGIN, WL_BULK_PHASE_BEGIN] \<and> length sent = 2"
proof -
  let ?w = "run_ops sender_exec
    [Sender_Start demo_object_descriptor, Action_Acquire, Action_Submitted demo_begin 100] demo_source"
  have w: "sn_state ?w = WL_BULK_SENDER_WAIT_STATUS" "2 = unat (sn_max_retries ?w) - unat (sn_retry_count ?w)"
    "map ac_phase (snd ((silent_round ^^ 3) (?w, []))) = [WL_BULK_PHASE_BEGIN, WL_BULK_PHASE_BEGIN]" by code_simp+
  have "case (silent_round ^^ Suc 2) (?w, []) of (u, sent) \<Rightarrow>
     sn_state u = WL_BULK_SENDER_FAILED \<and> sn_last_status u = WL_BULK_STATUS_TIMED_OUT \<and> length sent = 2"
    by (rule silent_peer_times_out [OF demo_source_init refl w(1,2), THEN conjunct2, THEN conjunct2])
  moreover have "Suc 2 = 3" by simp
  ultimately show ?thesis using w(3) by (auto split: prod.splits)
qed

end
