(* ===== verification/Bulk_Transfer.thy ===== *)
theory Bulk_Transfer
  imports Bulk_Session Bulk_Source
begin

text \<open>
  A bulk sender and a bulk receiver connected by a network that may lose, delay, duplicate and reorder their
  messages, while either application polls, aborts or resets at any moment. A sender that reports completion
  has had its whole object stored and committed by the sink of the receiver.
\<close>

section \<open>The calls of one receiver operation\<close>

fun origin :: "receiver_op \<Rightarrow> sink_call \<Rightarrow> bool" where
  "origin (On_Begin d t) (Sink_Begin d' r off) \<longleftrightarrow> d' = d"
| "origin (On_Chunk m ck t) (Sink_Write tid off bs r) \<longleftrightarrow>
     tid = ck_transfer_id ck \<and> off = ck_offset ck \<and> bs = read_bytes m (ck_data ck) (ck_length ck)"
| "origin (On_End tid total_len crc t) (Sink_Finish d r) \<longleftrightarrow> True"
| "origin _ (Sink_Abort tid reason) \<longleftrightarrow> True"
| "origin _ _ \<longleftrightarrow> False"

definition adds_calls :: "(sink_call \<Rightarrow> bool) \<Rightarrow> 'u recorded wl_bulk_receiver \<Rightarrow> 'u recorded wl_bulk_receiver \<Rightarrow> bool" where
  "adds_calls P r r' \<longleftrightarrow> (\<exists>new. calls r' = calls r @ new \<and> list_all P new)"

lemma adds_calls_same: "rv_user r' = rv_user r \<Longrightarrow> adds_calls P r r'"
  by (simp add: adds_calls_def)

lemma adds_calls_trans: "adds_calls P r r' \<Longrightarrow> adds_calls P r' r'' \<Longrightarrow> adds_calls P r r''"
  by (auto simp: adds_calls_def)

lemma user_frame [simp]:
  "rv_user (retain_status r tid p c off acc) = rv_user r"
  "rv_user (snd (reject_protocol r tid p c off acc)) = rv_user r"
  "rv_user (count_duplicate r) = rv_user r"
  "rv_user (count_busy r) = rv_user r"
  "rv_user (count_abort r) = rv_user r"
  "rv_user (enter_failure r p c) = rv_user r"
  "rv_user (snd (sink_failure_code r res)) = rv_user r"
  "rv_user (clear_session r reason) = rv_user (release_sink r reason)"
  "rv_user (retain_abort_tombstone r tid t) = rv_user (release_sink r (wl_bulk_err_code WL_BULK_ERR_INVALID_STATE))"
  by (simp_all add: status_defs enter_failure_def sink_failure_code_def clear_session_def
      retain_abort_tombstone_def Let_def)

lemma call_abort_adds: "records r \<Longrightarrow> adds_calls (origin op) r (call_abort r tid reason)"
  by (rule call_abort_records [of r tid reason]) (cases op, auto simp: adds_calls_def)

lemma release_sink_adds: "records r \<Longrightarrow> adds_calls (origin op) r (release_sink r reason)"
  by (simp add: release_sink_def call_abort_adds adds_calls_same)

lemma begin_session_user: "rv_user (snd (begin_session r d acc t)) = rv_user (snd (snd (call_begin r d)))"
  by (simp add: begin_session_def Let_def case_prod_beta)

lemma write_chunk_user:
  "rv_user (snd (write_chunk m r ck e t)) =
   rv_user (snd (call_write r (ck_transfer_id ck) (ck_offset ck) (read_bytes m (ck_data ck) (ck_length ck))))"
  by (simp add: write_chunk_def Let_def case_prod_beta)

lemma finish_session_user: "rv_user (snd (finish_session r tid t)) = rv_user (snd (call_finish r))"
  by (simp add: finish_session_def Let_def case_prod_beta)

lemma begin_session_adds:
  "records r \<Longrightarrow> adds_calls (origin (On_Begin d t')) r (snd (begin_session r d acc t))"
  by (cases "call_begin r d") (auto simp: begin_session_user adds_calls_def elim: call_begin_records)

lemma write_chunk_adds: "records r \<Longrightarrow> adds_calls (origin (On_Chunk m ck t')) r (snd (write_chunk m r ck e t))"
  by (cases "call_write r (ck_transfer_id ck) (ck_offset ck) (read_bytes m (ck_data ck) (ck_length ck))")
     (auto simp: write_chunk_user adds_calls_def elim: call_write_records)

lemma finish_session_adds:
  "records r \<Longrightarrow> adds_calls (origin (On_End tid' n crc t')) r (snd (finish_session r tid t))"
  by (cases "call_finish r") (auto simp: finish_session_user adds_calls_def elim: call_finish_records)

lemma records_release: "records r \<Longrightarrow> records (release_sink r reason)"
  by (simp add: records_def)

lemma adds_calls_update:
  "adds_calls P r r' \<Longrightarrow> rv_user r'' = rv_user r' \<Longrightarrow> adds_calls P r r''"
  by (simp add: adds_calls_def)

lemma receiver_exec_adds:
  assumes "records r" shows "adds_calls (origin op) r (receiver_exec op r)"
proof (cases op)
  case (On_Begin d t)
  have "adds_calls (origin op) r (snd (begin_session (release_sink r reason) d acc t))" for reason acc
    unfolding On_Begin
    by (rule adds_calls_trans [OF release_sink_adds [OF assms] begin_session_adds [OF records_release [OF assms]]])
  moreover have "adds_calls (origin op) r (snd (begin_session r d acc t))" for acc
    unfolding On_Begin by (rule begin_session_adds [OF assms])
  ultimately show ?thesis
    by (simp add: On_Begin wl_bulk_receiver_on_begin_def Let_def adds_calls_same split: option.split)
next
  case (On_Chunk m ck t)
  have "adds_calls (origin op) r (snd (write_chunk m r ck e t))" for e
    unfolding On_Chunk by (rule write_chunk_adds [OF assms])
  then show ?thesis
    by (simp add: On_Chunk wl_bulk_receiver_on_chunk_def Let_def adds_calls_same split: option.split)
next
  case (On_End tid n crc t)
  have "adds_calls (origin (On_End tid n crc t)) r (snd (finish_session r tid t))" for tid n crc
    by (rule finish_session_adds [OF assms])
  then show ?thesis by (simp add: On_End wl_bulk_receiver_on_end_def Let_def adds_calls_same)
next
  case (On_Abort tid reason t)
  show ?thesis
    by (simp add: On_Abort wl_bulk_receiver_on_abort_def Let_def adds_calls_same
        adds_calls_update [OF release_sink_adds [OF assms]] adds_calls_update [OF call_abort_adds [OF assms]])
next
  case (Receiver_Poll t)
  show ?thesis
    by (simp add: Receiver_Poll wl_bulk_receiver_poll_def Let_def adds_calls_same
        adds_calls_update [OF call_abort_adds [OF assms]])
next
  case Receiver_Reset
  show ?thesis
    by (simp add: Receiver_Reset wl_bulk_receiver_reset_def Let_def adds_calls_same
        adds_calls_update [OF release_sink_adds [OF assms]])
qed (simp_all add: wl_bulk_receiver_status_acquire_def wl_bulk_receiver_status_defer_def
    wl_bulk_receiver_status_release_def adds_calls_same)

section \<open>Completion and the statuses that report it\<close>

definition fail_ok :: "'u wl_bulk_receiver \<Rightarrow> bool" where
  "fail_ok r \<longleftrightarrow> (rv_state r = WL_BULK_RECEIVER_FAILED \<longrightarrow> rv_terminal_code r \<noteq> WL_BULK_STATUS_OK)"

lemma state_frame [simp]:
  "rv_state (retain_status r tid p c off acc) = rv_state r"
  "rv_state (snd (reject_protocol r tid p c off acc)) = rv_state r"
  "rv_state (count_duplicate r) = rv_state r"
  "rv_state (count_busy r) = rv_state r"
  "rv_state (count_abort r) = rv_state r"
  "rv_state (enter_failure r p c) = WL_BULK_RECEIVER_FAILED"
  "rv_state (call_abort r tid reason) = rv_state r"
  "rv_state (release_sink r reason) = rv_state r"
  "rv_state (clear_session r reason) = WL_BULK_RECEIVER_IDLE"
  "rv_state (retain_abort_tombstone r tid t) = WL_BULK_RECEIVER_ABORTED"
  "rv_state (snd (snd (call_begin r d))) = rv_state r"
  "rv_state (snd (call_write r tid off bs)) = rv_state r"
  "rv_state (snd (call_finish r)) = rv_state r"
  by (simp_all add: status_defs enter_failure_def clear_session_def call_abort_def release_sink_def
      retain_abort_tombstone_def Let_def call_begin_def call_write_def call_finish_def split: prod.split)

lemma terminal_frame [simp]:
  "rv_terminal_code (retain_status r tid p c off acc) = rv_terminal_code r"
  "rv_terminal_code (snd (reject_protocol r tid p c off acc)) = rv_terminal_code r"
  "rv_terminal_code (count_duplicate r) = rv_terminal_code r"
  "rv_terminal_code (count_busy r) = rv_terminal_code r"
  "rv_terminal_code (count_abort r) = rv_terminal_code r"
  "rv_terminal_code (enter_failure r p c) = c"
  "rv_terminal_code (call_abort r tid reason) = rv_terminal_code r"
  "rv_terminal_code (release_sink r reason) = rv_terminal_code r"
  "rv_terminal_code (snd (snd (call_begin r d))) = rv_terminal_code r"
  "rv_terminal_code (snd (call_write r tid off bs)) = rv_terminal_code r"
  "rv_terminal_code (snd (call_finish r)) = rv_terminal_code r"
  "fst (sink_failure_code r res) \<noteq> WL_BULK_STATUS_OK"
  by (simp_all add: status_defs enter_failure_def call_abort_def release_sink_def
      call_begin_def call_write_def call_finish_def sink_failure_code_def split: prod.split)

lemma pending_frame [simp]:
  "rv_pending_status (retain_status r tid p c off acc) =
     \<lparr>bs_transfer_id = tid, bs_phase = p, bs_code = c, bs_next_offset = off, bs_accepted_chunk_size = acc\<rparr>"
  "rv_pending_status (snd (reject_protocol r tid p c off acc)) =
     \<lparr>bs_transfer_id = tid, bs_phase = p, bs_code = c, bs_next_offset = off, bs_accepted_chunk_size = acc\<rparr>"
  by (simp_all add: status_defs)

lemmas receiver_op_defs = wl_bulk_receiver_on_begin_def wl_bulk_receiver_on_chunk_def wl_bulk_receiver_on_end_def
  wl_bulk_receiver_on_abort_def wl_bulk_receiver_status_acquire_def wl_bulk_receiver_status_defer_def
  wl_bulk_receiver_status_release_def wl_bulk_receiver_poll_def wl_bulk_receiver_reset_def

lemma sink_phases_fail_ok:
  assumes "fail_ok r"
  shows "fail_ok (snd (begin_session r d acc t))" "fail_ok (snd (write_chunk m r ck e t))"
    "fail_ok (snd (finish_session r tid t))"
  using assms
  by (simp_all add: fail_ok_def begin_session_def write_chunk_def finish_session_def Let_def case_prod_beta)

lemma receiver_exec_fail_ok: "fail_ok r \<Longrightarrow> fail_ok (receiver_exec op r)"
proof -
  assume ok: "fail_ok r"
  then have "fail_ok (release_sink r reason)" for reason by (simp add: fail_ok_def)
  note all = ok sink_phases_fail_ok [OF ok] sink_phases_fail_ok(1) [OF this]
  have "fail_ok r' \<Longrightarrow> rv_state r'' = rv_state r' \<Longrightarrow> rv_terminal_code r'' = rv_terminal_code r' \<Longrightarrow> fail_ok r''"
    for r' r'' :: "'a wl_bulk_receiver" by (simp add: fail_ok_def)
  note same = this [OF ok]
  have fresh: "rv_state r' \<noteq> WL_BULK_RECEIVER_FAILED \<Longrightarrow> fail_ok r'" for r' :: "'a wl_bulk_receiver"
    by (simp add: fail_ok_def)
  have timed: "rv_terminal_code r' \<noteq> 0 \<Longrightarrow> fail_ok r'" for r' :: "'a wl_bulk_receiver" by (simp add: fail_ok_def)
  show ?thesis
    by (cases op) (simp_all add: receiver_op_defs Let_def all same fresh timed split: option.split)
qed

text \<open>Only a successful \<open>finish\<close> of everything the descriptor announces completes a session.\<close>

lemma receiver_exec_completed:
  assumes "records r" "rv_state (receiver_exec op r) = WL_BULK_RECEIVER_COMPLETED"
    "rv_state r \<noteq> WL_BULK_RECEIVER_COMPLETED"
  shows "rv_state r = WL_BULK_RECEIVER_RECEIVING" "rv_next_offset r = total_length (rv_descriptor r)"
    "calls (receiver_exec op r) = calls r @ [Sink_Finish (rv_descriptor r) WL_BULK_SINK_OK]"
proof -
  have nb: "rv_state (snd (begin_session r' d acc t)) \<noteq> WL_BULK_RECEIVER_COMPLETED"
    if "rv_state r' \<noteq> WL_BULK_RECEIVER_COMPLETED" for r' :: "'a recorded wl_bulk_receiver" and d acc t
    using that by (simp add: begin_session_def Let_def case_prod_beta)
  have nw: "rv_state (snd (write_chunk m r ck e t)) \<noteq> WL_BULK_RECEIVER_COMPLETED" for m ck e t
    using assms(3) by (simp add: write_chunk_def Let_def case_prod_beta)
  obtain tid n crc t where op: "op = On_End tid n crc t"
    using assms(2,3) nb [of r] nb [of "release_sink r _"] nw
    by (cases op) (auto simp: receiver_op_defs Let_def split: option.splits if_splits)
  then have r: "rv_state r = WL_BULK_RECEIVER_RECEIVING" "rv_next_offset r = total_length (rv_descriptor r)"
    "receiver_exec op r = snd (finish_session r tid t)"
    using assms(2,3) by (auto simp: receiver_op_defs Let_def split: if_splits)
  then show "rv_state r = WL_BULK_RECEIVER_RECEIVING" "rv_next_offset r = total_length (rv_descriptor r)" by simp_all
  obtain res r' where cf: "call_finish r = (res, r')" by fastforce
  then have "res = WL_BULK_SINK_OK"
    using assms(2) r(1) state_frame(13) [of r]
    by (auto simp: r(3) finish_session_def Let_def case_prod_beta split: if_splits)
  then show "calls (receiver_exec op r) = calls r @ [Sink_Finish (rv_descriptor r) WL_BULK_SINK_OK]"
    using call_finish_records [OF assms(1) cf] by (force simp: r(3) finish_session_user cf)
qed

definition reports_end :: "wl_bulk_status \<Rightarrow> bool" where
  "reports_end s \<longleftrightarrow> bs_phase s = WL_BULK_PHASE_END \<and> bs_code s = WL_BULK_STATUS_OK"

lemma receiver_exec_reports:
  assumes "fail_ok r" "reports_end (rv_pending_status (receiver_exec op r))"
    "rv_pending_status (receiver_exec op r) \<noteq> rv_pending_status r"
  shows "rv_state (receiver_exec op r) = WL_BULK_RECEIVER_COMPLETED"
proof -
  have b: "\<not> reports_end (rv_pending_status (snd (begin_session r' d acc t)))"
    for r' :: "'a wl_bulk_receiver" and d acc t
    by (simp add: begin_session_def Let_def case_prod_beta reports_end_def)
  have w: "\<not> reports_end (rv_pending_status (snd (write_chunk m r ck e t)))" for m ck e t
    by (simp add: write_chunk_def Let_def case_prod_beta reports_end_def)
  have f: "reports_end (rv_pending_status (snd (finish_session r tid t))) \<Longrightarrow>
      rv_state (snd (finish_session r tid t)) = WL_BULK_RECEIVER_COMPLETED" for tid t
    by (simp add: finish_session_def Let_def case_prod_beta reports_end_def split: if_splits)
  have rs: "reports_end \<lparr>bs_transfer_id = tid, bs_phase = p, bs_code = c, bs_next_offset = off,
      bs_accepted_chunk_size = acc\<rparr> \<longleftrightarrow> p = WL_BULK_PHASE_END \<and> c = WL_BULK_STATUS_OK" for tid p c off acc
    by (simp add: reports_end_def)
  have z: "\<not> reports_end zero_status" "\<not> reports_end (rv_pending_status (retain_abort_tombstone r tid t))" for tid t
    by (simp_all add: reports_end_def zero_status_def retain_abort_tombstone_def Let_def)
  show ?thesis
  proof (cases "\<exists>tid n crc t. op = On_End tid n crc t")
    case True
    then obtain tid n crc t where op: "op = On_End tid n crc t" by blast
    have "terminal_status_code r = WL_BULK_STATUS_OK \<Longrightarrow> rv_state r \<noteq> WL_BULK_RECEIVER_RECEIVING \<Longrightarrow>
        rv_state r \<noteq> WL_BULK_RECEIVER_IDLE \<Longrightarrow> rv_state r = WL_BULK_RECEIVER_COMPLETED"
      using assms(1) by (cases "rv_state r") (simp_all add: terminal_status_code_def fail_ok_def)
    then show ?thesis
      using assms(2,3) f by (auto simp: op wl_bulk_receiver_on_end_def Let_def rs split: if_splits)
  next
    case False
    then have "\<not> reports_end (rv_pending_status (receiver_exec op r)) \<or>
        rv_pending_status (receiver_exec op r) = rv_pending_status r"
      by (cases op) (simp_all add: receiver_op_defs Let_def rs b w z split: option.split)
    then show ?thesis using assms(2,3) by simp
  qed
qed

section \<open>The object a sink has stored\<close>

definition part_of :: "byte list \<Rightarrow> nat \<Rightarrow> byte list \<Rightarrow> bool" where
  "part_of obj off bs \<longleftrightarrow> off + length bs \<le> length obj \<and> take (length bs) (drop off obj) = bs"

lemma part_of_Nil: "off \<le> length obj \<Longrightarrow> part_of obj off []"
  by (simp add: part_of_def)

lemma part_of_append:
  "part_of obj off ws \<Longrightarrow> part_of obj (off + length ws) bs \<Longrightarrow> part_of obj off (ws @ bs)"
  by (simp add: part_of_def take_add add.commute [of off])

lemma part_of_rest: "part_of obj off ws \<Longrightarrow> off + length ws = length obj \<Longrightarrow> drop off obj = ws"
  by (auto simp: part_of_def)

fun faithful :: "byte list \<Rightarrow> wl_bulk_descriptor \<Rightarrow> sink_call \<Rightarrow> bool" where
  "faithful obj d (Sink_Begin d' r off) \<longleftrightarrow> d' = d"
| "faithful obj d (Sink_Write tid off bs r) \<longleftrightarrow>
     (tid = transfer_id d \<and> unat off + length bs \<le> length obj \<longrightarrow> part_of obj (unat off) bs)"
| "faithful obj d _ \<longleftrightarrow> True"

lemma follow_faithful:
  assumes "list_all (faithful obj d) l" "length obj = unat (total_length d)"
    "follow cfg l = Some (Storing d' resume ws)"
  shows "d' = d \<and> part_of obj (unat resume) ws"
  using assms
proof (induction l arbitrary: d' ws rule: rev_induct)
  case (snoc c l)
  then have IH: "\<And>d' ws. follow cfg l = Some (Storing d' resume ws) \<Longrightarrow>
      d' = d \<and> part_of obj (unat resume) ws"
    and c: "faithful obj d c" "sink_step cfg c (follow cfg l) = Some (Storing d' resume ws)"
    by simp_all
  show ?case
  proof (cases c)
    case (Sink_Begin d0 r off)
    with c show ?thesis
      by (cases "(cfg, c, follow cfg l)" rule: sink_step.cases)
         (auto simp: part_of_Nil resume_ok_def word_le_nat_alt snoc.prems split: if_splits)
  next
    case (Sink_Write tid off bs r)
    then obtain ws0 where ws0: "follow cfg l = Some (Storing d' resume ws0)"
      using c by (cases "(cfg, c, follow cfg l)" rule: sink_step.cases) (auto split: if_splits)
    note st = IH [OF ws0]
    have step: "tid = transfer_id d" "unat off = unat resume + length ws0" "span_ok cfg d off (length bs)"
      "ws = ws0 @ bs \<or> ws = ws0"
      using c(2) st by (auto simp: ws0 Sink_Write split: if_splits)
    then have "unat off + length bs \<le> length obj" by (simp add: span_ok_def snoc.prems)
    then have "part_of obj (unat resume + length ws0) bs" using c(1) step by (simp add: Sink_Write)
    then show ?thesis using st step part_of_append by blast
  next
    case (Sink_Finish d0 r)
    with c IH show ?thesis
      by (cases "(cfg, c, follow cfg l)" rule: sink_step.cases) (auto split: if_splits)
  next
    case (Sink_Abort tid reason)
    with c show ?thesis
      by (cases "(cfg, c, follow cfg l)" rule: sink_step.cases) (auto split: if_splits)
  qed
qed simp

text \<open>
  The calls contain a session that started at some resume offset, wrote the rest of the object and was committed.
\<close>

definition stored :: "'u wl_bulk_receiver_config \<Rightarrow> byte list \<Rightarrow> wl_bulk_descriptor \<Rightarrow> sink_call list \<Rightarrow> bool" where
  "stored cfg obj d l \<longleftrightarrow>
     (\<exists>before after resume. l = before @ [Sink_Finish d WL_BULK_SINK_OK] @ after \<and>
        follow cfg before = Some (Storing d resume (drop (unat resume) obj)))"

lemma stored_mono: "stored cfg obj d l \<Longrightarrow> stored cfg obj d (l @ l')"
  unfolding stored_def by (metis append.assoc)

definition object_inv :: "byte list \<Rightarrow> wl_bulk_descriptor \<Rightarrow> 'u recorded wl_bulk_receiver \<Rightarrow> bool" where
  "object_inv obj d r \<longleftrightarrow>
     session_inv r \<and> fail_ok r \<and> list_all (faithful obj d) (calls r) \<and>
     (rv_state r = WL_BULK_RECEIVER_COMPLETED \<longrightarrow> stored (rv_config r) obj d (calls r)) \<and>
     (reports_end (rv_pending_status r) \<longrightarrow> stored (rv_config r) obj d (calls r))"

text \<open>The messages of a sender of this object: its descriptor, and chunks of its bytes.\<close>

fun carries_object :: "byte list \<Rightarrow> wl_bulk_descriptor \<Rightarrow> receiver_op \<Rightarrow> bool" where
  "carries_object obj d (On_Begin d' t) \<longleftrightarrow> d' = d"
| "carries_object obj d (On_Chunk m ck t) \<longleftrightarrow>
     faithful obj d (Sink_Write (ck_transfer_id ck) (ck_offset ck) (read_bytes m (ck_data ck) (ck_length ck)) 0)"
| "carries_object obj d _ \<longleftrightarrow> True"

lemma origin_faithful: "carries_object obj d op \<Longrightarrow> origin op c \<Longrightarrow> faithful obj d c"
  by (cases op; cases c) simp_all

lemma receiver_exec_object_inv:
  assumes inv: "object_inv obj d r" and op: "carries_object obj d op"
    and len: "length obj = unat (total_length d)"
  shows "object_inv obj d (receiver_exec op r)"
    and "\<exists>new. calls (receiver_exec op r) = calls r @ new"
proof -
  let ?r = "receiver_exec op r"
  have sess: "session_inv r" and rec: "records r" and fo: "fail_ok r"
    using inv by (simp_all add: object_inv_def session_inv_def)
  obtain new where new: "calls ?r = calls r @ new" "list_all (origin op) new"
    using receiver_exec_adds [OF rec, of op] by (auto simp: adds_calls_def)
  then show "\<exists>new. calls ?r = calls r @ new" by blast
  have faith: "list_all (faithful obj d) (calls ?r)"
    using inv new origin_faithful [OF op] by (auto simp: object_inv_def list_all_iff)
  have fin_ok: "stored (rv_config r) obj d (calls ?r)" if c: "rv_state ?r = WL_BULK_RECEIVER_COMPLETED"
  proof (cases "rv_state r = WL_BULK_RECEIVER_COMPLETED")
    case True
    then show ?thesis using inv new stored_mono by (auto simp: object_inv_def)
  next
    case False
    note fin = receiver_exec_completed [OF rec c False]
    obtain resume ws where s: "follow (rv_config r) (calls r) = Some (Storing (rv_descriptor r) resume ws)"
      "session_rel (Some (Storing (rv_descriptor r) resume ws)) r" by (rule storing [OF sess fin(1)])
    have "list_all (faithful obj d) (calls r)" using inv by (simp add: object_inv_def)
    note f = follow_faithful [OF this len s(1)]
    then have "drop (unat resume) obj = ws"
      using s(2) fin(2) len by (intro part_of_rest) simp_all
    then show ?thesis using f s(1) by (auto simp: stored_def fin(3))
  qed
  have "stored (rv_config r) obj d (calls ?r)" if "reports_end (rv_pending_status ?r)"
    using receiver_exec_reports [OF fo that] fin_ok inv new stored_mono that
    by (cases "rv_pending_status ?r = rv_pending_status r") (auto simp: object_inv_def)
  with faith fin_ok show "object_inv obj d ?r"
    by (simp add: object_inv_def receiver_exec_inv [OF sess] receiver_exec_fail_ok [OF fo])
qed

section \<open>The system\<close>

text \<open>
  The sender of one object and the receiver, with every request the sender has submitted and every status the
  receiver has published. The network delivers any of them at any time, any number of times or never.
\<close>

record 'u bulk_system =
  sy_sender :: wl_bulk_sender
  sy_receiver :: "'u recorded wl_bulk_receiver"
  sy_requests :: "wl_bulk_sender_action list"
  sy_statuses :: "wl_bulk_status list"

datatype system_op =
    Submit u32
  | Attempt
  | Sender_Poll u32
  | Cancel int
  | Deliver nat mem addr u32
  | Publish
  | Answer nat u32
  | Local receiver_op

text \<open>
  The message an action stands for. A chunk is decoded into a buffer at some address; its bytes are read from the
  object at the offset of the action, as \<^verbatim>\<open>bulk.h\<close> asks of the caller.
\<close>

definition request_op :: "byte list \<Rightarrow> mem \<Rightarrow> addr \<Rightarrow> u32 \<Rightarrow> wl_bulk_sender_action \<Rightarrow> receiver_op" where
  "request_op obj m a t ac =
     (if ac_phase ac = WL_BULK_PHASE_BEGIN then On_Begin (ac_descriptor ac) t
      else if ac_phase ac = WL_BULK_PHASE_CHUNK then
        On_Chunk (write_bytes m a (take (ac_length ac) (drop (unat (ac_offset ac)) obj)))
          \<lparr>ck_transfer_id = transfer_id (ac_descriptor ac), ck_offset = ac_offset ac, ck_data = a,
           ck_length = ac_length ac\<rparr> t
      else if ac_phase ac = WL_BULK_PHASE_END then
        On_End (transfer_id (ac_descriptor ac)) (total_length (ac_descriptor ac)) (object_crc32c (ac_descriptor ac)) t
      else On_Abort (transfer_id (ac_descriptor ac)) (ac_abort_reason ac) t)"

text \<open>Operations the receiving application performs on its own: status handling, polling and reset.\<close>

fun local_op :: "receiver_op \<Rightarrow> bool" where
  "local_op (On_Begin d t) = False"
| "local_op (On_Chunk m ck t) = False"
| "local_op (On_End tid n crc t) = False"
| "local_op (On_Abort tid reason t) = False"
| "local_op _ = True"

fun system_exec :: "byte list \<Rightarrow> system_op \<Rightarrow> 'u bulk_system \<Rightarrow> 'u bulk_system" where
  "system_exec obj (Submit t) y =
     (case wl_bulk_sender_action_acquire (sy_sender y) of
        (Inl e, s) \<Rightarrow> y\<lparr>sy_sender := s\<rparr>
      | (Inr ac, s) \<Rightarrow>
          y\<lparr>sy_sender := snd (wl_bulk_sender_action_submitted s ac t), sy_requests := sy_requests y @ [ac]\<rparr>)"
| "system_exec obj Attempt y =
     (case wl_bulk_sender_action_acquire (sy_sender y) of
        (Inl e, s) \<Rightarrow> y\<lparr>sy_sender := s\<rparr>
      | (Inr ac, s) \<Rightarrow> y\<lparr>sy_sender := snd (wl_bulk_sender_action_defer s ac)\<rparr>)"
| "system_exec obj (Sender_Poll t) y = y\<lparr>sy_sender := snd (wl_bulk_sender_poll (sy_sender y) t)\<rparr>"
| "system_exec obj (Cancel reason) y = y\<lparr>sy_sender := snd (wl_bulk_sender_request_abort (sy_sender y) reason)\<rparr>"
| "system_exec obj (Deliver i m a t) y =
     (if i < length (sy_requests y)
      then y\<lparr>sy_receiver := receiver_exec (request_op obj m a t (sy_requests y ! i)) (sy_receiver y)\<rparr>
      else y)"
| "system_exec obj Publish y =
     (case wl_bulk_receiver_status_acquire (sy_receiver y) of
        (Inl e, r) \<Rightarrow> y\<lparr>sy_receiver := r\<rparr>
      | (Inr v, r) \<Rightarrow>
          y\<lparr>sy_receiver := snd (wl_bulk_receiver_status_release r v), sy_statuses := sy_statuses y @ [vw_status v]\<rparr>)"
| "system_exec obj (Answer i t) y =
     (if i < length (sy_statuses y)
      then y\<lparr>sy_sender := snd (wl_bulk_sender_on_status (sy_sender y) (sy_statuses y ! i) t)\<rparr> else y)"
| "system_exec obj (Local op) y = (if local_op op then y\<lparr>sy_receiver := receiver_exec op (sy_receiver y)\<rparr> else y)"

section \<open>The sender\<close>

text \<open>The sender keeps its descriptor, and completes only on a status that reports the end of the transfer.\<close>

lemma sender_descriptor_frame [simp]:
  "sn_descriptor (set_action_length s) = sn_descriptor s"
  "sn_descriptor (prepare_phase s p) = sn_descriptor s"
  "sn_descriptor (fail_sender s c) = sn_descriptor s"
  "sn_descriptor (protocol_failure s) = sn_descriptor s"
  "sn_descriptor (next_phase s) = sn_descriptor s"
  "sn_descriptor (count_aborted s) = sn_descriptor s"
  "sn_descriptor (wait_for_retry s t n c) = sn_descriptor s"
  "sn_descriptor (sender_retry s) = sn_descriptor s"
  by (simp_all add: set_action_length_def prepare_phase_def fail_sender_def protocol_failure_def next_phase_def
      count_aborted_def wait_for_retry_def sender_retry_def Let_def)

lemma sender_state_frame [simp]:
  "sn_state (set_action_length s) = sn_state s"
  "sn_state (prepare_phase s p) = WL_BULK_SENDER_READY"
  "sn_state (fail_sender s c) = WL_BULK_SENDER_FAILED"
  "sn_state (protocol_failure s) = WL_BULK_SENDER_FAILED"
  "sn_state (next_phase s) = WL_BULK_SENDER_READY"
  "sn_state (count_aborted s) = sn_state s"
  "sn_state (sender_retry s) = WL_BULK_SENDER_READY"
  by (simp_all add: set_action_length_def prepare_phase_def fail_sender_def protocol_failure_def next_phase_def
      count_aborted_def sender_retry_def Let_def)

lemma wait_for_retry_state:
  "sn_state (wait_for_retry s t n c) = (if sn_retry_count s \<ge> sn_max_retries s then WL_BULK_SENDER_FAILED else sn_state s)"
  by (simp add: wait_for_retry_def)

lemma on_status_descriptor [simp]:
  "sn_descriptor (snd (on_status_terminal s st)) = sn_descriptor s"
  "sn_descriptor (snd (on_status_busy s st t)) = sn_descriptor s"
  "sn_descriptor (snd (on_status_out_of_order s st)) = sn_descriptor s"
  "sn_descriptor (snd (on_status_refused s st)) = sn_descriptor s"
  "sn_descriptor (snd (on_status_ok s st)) = sn_descriptor s"
  "sn_descriptor (snd (on_status_current s st t)) = sn_descriptor s"
  by (simp_all add: status_branch_defs on_status_ok_def on_status_current_def Let_def)

lemma sender_op_descriptor [simp]:
  "sn_descriptor (snd (wl_bulk_sender_action_acquire s)) = sn_descriptor s"
  "sn_descriptor (snd (wl_bulk_sender_action_submitted s ac t)) = sn_descriptor s"
  "sn_descriptor (snd (wl_bulk_sender_action_defer s ac)) = sn_descriptor s"
  "sn_descriptor (snd (wl_bulk_sender_poll s t)) = sn_descriptor s"
  "sn_descriptor (snd (wl_bulk_sender_request_abort s reason)) = sn_descriptor s"
  "sn_descriptor (snd (wl_bulk_sender_on_status s st t)) = sn_descriptor s"
  by (simp_all add: wl_bulk_sender_action_acquire_def wl_bulk_sender_action_submitted_def
      wl_bulk_sender_action_defer_def wl_bulk_sender_poll_def wl_bulk_sender_request_abort_def
      wl_bulk_sender_on_status_def Let_def)

lemma sender_op_completed:
  "sn_state (snd (wl_bulk_sender_action_acquire s)) = WL_BULK_SENDER_COMPLETED \<longleftrightarrow> sn_state s = WL_BULK_SENDER_COMPLETED"
  "sn_state (snd (wl_bulk_sender_action_submitted s ac t)) = WL_BULK_SENDER_COMPLETED \<longleftrightarrow>
   sn_state s = WL_BULK_SENDER_COMPLETED"
  "sn_state (snd (wl_bulk_sender_action_defer s ac)) = WL_BULK_SENDER_COMPLETED \<longleftrightarrow> sn_state s = WL_BULK_SENDER_COMPLETED"
  "sn_state (snd (wl_bulk_sender_poll s t)) = WL_BULK_SENDER_COMPLETED \<longleftrightarrow> sn_state s = WL_BULK_SENDER_COMPLETED"
  "sn_state (snd (wl_bulk_sender_request_abort s reason)) = WL_BULK_SENDER_COMPLETED \<longrightarrow>
   sn_state s = WL_BULK_SENDER_COMPLETED"
  by (auto simp: wl_bulk_sender_action_acquire_def wl_bulk_sender_action_submitted_def
      wl_bulk_sender_action_defer_def wl_bulk_sender_poll_def wl_bulk_sender_request_abort_def
      Let_def wait_for_retry_state)

lemma on_status_branch_state:
  assumes "sn_state s = WL_BULK_SENDER_WAIT_STATUS"
  shows "sn_state (snd (on_status_terminal s st)) \<noteq> WL_BULK_SENDER_COMPLETED"
    "sn_state (snd (on_status_busy s st t)) \<noteq> WL_BULK_SENDER_COMPLETED"
    "sn_state (snd (on_status_out_of_order s st)) \<noteq> WL_BULK_SENDER_COMPLETED"
    "sn_state (snd (on_status_refused s st)) \<noteq> WL_BULK_SENDER_COMPLETED"
    "sn_state (snd (on_status_ok s st)) = WL_BULK_SENDER_COMPLETED \<Longrightarrow> sn_phase s = WL_BULK_PHASE_END"
  using assms
  by (simp_all add: status_branch_defs on_status_ok_def Let_def wait_for_retry_state split: if_splits)

lemma on_status_completed:
  assumes "sn_state (snd (wl_bulk_sender_on_status s st t)) = WL_BULK_SENDER_COMPLETED"
  shows "sn_state s = WL_BULK_SENDER_COMPLETED \<or> reports_end st"
proof (cases "sn_state s = WL_BULK_SENDER_WAIT_STATUS")
  case True
  then have "sn_state ((count_status s)\<lparr>sn_last_status := c\<rparr>) = WL_BULK_SENDER_WAIT_STATUS" for c by simp
  note branch = on_status_branch_state [OF True] on_status_branch_state [OF this]
  show ?thesis
    using assms True branch
    by (auto simp: wl_bulk_sender_on_status_def on_status_current_def Let_def reports_end_def split: if_splits)
next
  case False
  then show ?thesis using assms by (auto simp: wl_bulk_sender_on_status_def split: if_splits)
qed

lemma acquire_descriptor:
  "wl_bulk_sender_action_acquire s = (Inr ac, s') \<Longrightarrow> ac_descriptor ac = sn_descriptor s"
  by (auto simp: wl_bulk_sender_action_acquire_def Let_def split: if_splits)

section \<open>End-to-end integrity\<close>

definition system_inv :: "byte list \<Rightarrow> wl_bulk_descriptor \<Rightarrow> 'u bulk_system \<Rightarrow> bool" where
  "system_inv obj d y \<longleftrightarrow>
     length obj = unat (total_length d) \<and> sn_descriptor (sy_sender y) = d \<and>
     list_all (\<lambda>ac. ac_descriptor ac = d) (sy_requests y) \<and> object_inv obj d (sy_receiver y) \<and>
     list_all (\<lambda>st. reports_end st \<longrightarrow> stored (rv_config (sy_receiver y)) obj d (calls (sy_receiver y))) (sy_statuses y) \<and>
     (sn_state (sy_sender y) = WL_BULK_SENDER_COMPLETED \<longrightarrow>
        stored (rv_config (sy_receiver y)) obj d (calls (sy_receiver y)))"

lemma request_carries: "carries_object obj (ac_descriptor ac) (request_op obj m a t ac)"
  by (auto simp: request_op_def part_of_def)

lemma local_carries: "local_op op \<Longrightarrow> carries_object obj d op"
  by (cases op) simp_all

lemma system_inv_receiver:
  assumes "system_inv obj d y" "carries_object obj d op"
  shows "system_inv obj d (y\<lparr>sy_receiver := receiver_exec op (sy_receiver y)\<rparr>)"
proof -
  have obj: "object_inv obj d (sy_receiver y)" "length obj = unat (total_length d)"
    using assms(1) by (simp_all add: system_inv_def)
  obtain new where "calls (receiver_exec op (sy_receiver y)) = calls (sy_receiver y) @ new"
    using receiver_exec_object_inv(2) [OF obj(1) assms(2) obj(2)] by blast
  then show ?thesis
    using assms(1) receiver_exec_object_inv(1) [OF obj(1) assms(2) obj(2)] stored_mono
    by (auto simp: system_inv_def list_all_iff)
qed

lemma publish_receiver:
  assumes "wl_bulk_receiver_status_acquire r = (Inr v, r')"
  shows "vw_status v = rv_pending_status r"
    "snd (wl_bulk_receiver_status_release r' v) = receiver_exec (Status_Release v) (receiver_exec Status_Acquire r)"
    "calls (receiver_exec (Status_Release v) (receiver_exec Status_Acquire r)) = calls r"
  using assms
  by (auto simp: wl_bulk_receiver_status_acquire_def wl_bulk_receiver_status_release_def split: if_splits)

lemma system_inv_publish:
  assumes inv: "system_inv obj d y" and acq: "wl_bulk_receiver_status_acquire (sy_receiver y) = (Inr v, r)"
  shows "system_inv obj d (y\<lparr>sy_receiver := snd (wl_bulk_receiver_status_release r v),
           sy_statuses := sy_statuses y @ [vw_status v]\<rparr>)"
proof -
  note pub = publish_receiver [OF acq]
  have "system_inv obj d (y\<lparr>sy_receiver := snd (wl_bulk_receiver_status_release r v)\<rparr>)"
    using system_inv_receiver [OF system_inv_receiver [OF inv, of Status_Acquire], of "Status_Release v"]
    by (simp add: pub(2))
  moreover have "reports_end (vw_status v) \<longrightarrow>
      stored (rv_config (sy_receiver y)) obj d (calls (sy_receiver y))"
    using inv by (simp add: pub(1) system_inv_def object_inv_def)
  ultimately show ?thesis by (simp add: system_inv_def pub(2,3) del: receiver_exec.simps)
qed

lemma system_exec_inv:
  assumes inv: "system_inv obj d y"
  shows "system_inv obj d (system_exec obj op y)"
proof (cases op)
  case (Submit t)
  obtain x s where acq: "wl_bulk_sender_action_acquire (sy_sender y) = (x, s)" by fastforce
  note s = sender_op_completed(1) [of "sy_sender y", unfolded acq] sender_op_descriptor(1) [of "sy_sender y", unfolded acq]
  show ?thesis
    using inv s sender_op_completed(2) [of s] acquire_descriptor [of "sy_sender y"]
    by (cases x) (auto simp: Submit acq system_inv_def)
next
  case Attempt
  obtain x s where acq: "wl_bulk_sender_action_acquire (sy_sender y) = (x, s)" by fastforce
  note s = sender_op_completed(1) [of "sy_sender y", unfolded acq] sender_op_descriptor(1) [of "sy_sender y", unfolded acq]
  show ?thesis
    using inv s sender_op_completed(3) [of s] by (cases x) (auto simp: Attempt acq system_inv_def)
next
  case (Answer i t)
  with inv show ?thesis
    using on_status_completed [of "sy_sender y" "sy_statuses y ! i" t]
    by (auto simp: system_inv_def list_all_length)
next
  case (Deliver i m a t)
  with inv show ?thesis
    using system_inv_receiver [OF inv, of "request_op obj m a t (sy_requests y ! i)"]
      request_carries [of obj "sy_requests y ! i" m a t]
    by (auto simp: system_inv_def list_all_length)
next
  case Publish
  show ?thesis
  proof (cases "wl_bulk_receiver_status_acquire (sy_receiver y)")
    case (Pair x r)
    then show ?thesis
      using system_inv_publish [OF inv] system_inv_receiver [OF inv, of Status_Acquire]
      by (cases x) (auto simp: Publish)
  qed
next
  case (Local rop)
  with inv show ?thesis by (simp add: system_inv_receiver local_carries)
qed (use inv sender_op_completed(4,5) sender_op_descriptor(4,5) in \<open>auto simp: system_inv_def\<close>)

interpretation sys: machine "system_exec obj" "system_inv obj d"
  by unfold_locales (rule system_exec_inv)

definition initial_system :: "wl_bulk_sender \<Rightarrow> 'u recorded wl_bulk_receiver \<Rightarrow> 'u bulk_system" where
  "initial_system s r = \<lparr>sy_sender = s, sy_receiver = r, sy_requests = [], sy_statuses = []\<rparr>"

lemma initial_system_inv:
  assumes "wl_bulk_sender_start s0 d = (WL_BULK_OK, s)"
    "wl_bulk_receiver_init r0 cfg (u, []) = (WL_BULK_OK, r)" "rc_sink cfg = recording k"
    "length obj = unat (total_length d)"
  shows "system_inv obj d (initial_system s r)"
proof -
  have "sn_descriptor s = d" "sn_state s \<noteq> WL_BULK_SENDER_COMPLETED"
    using assms(1) by (auto simp: wl_bulk_sender_start_def Let_def split: if_splits)
  moreover have "rv_state r = WL_BULK_RECEIVER_IDLE" "rv_pending_status r = zero_status"
    using assms(2) by (auto simp: wl_bulk_receiver_init_def split: if_splits)
  then have "object_inv obj d r"
    using receiver_init_inv [OF assms(2,3)]
    by (simp add: object_inv_def fail_ok_def reports_end_def zero_status_def)
  ultimately show ?thesis using assms(4) by (simp add: system_inv_def initial_system_def)
qed

lemma system_exec_config [simp]: "rv_config (sy_receiver (system_exec obj op y)) = rv_config (sy_receiver y)"
  by (cases op) (auto split: prod.split sum.split
      simp: wl_bulk_receiver_status_acquire_def wl_bulk_receiver_status_release_def split: if_splits)

lemma system_run_config [simp]:
  "rv_config (sy_receiver (run_ops (system_exec obj) ops y)) = rv_config (sy_receiver y)"
  by (induction ops arbitrary: y) simp_all

text \<open>
  C1. A bulk sender that reports completion has transferred its object. Between a sender of an object and a
  freshly initialised receiver, let the network lose, delay, duplicate and reorder requests and statuses at will,
  and let both sides submit, defer, poll, abort and reset in any order. When the sender is in the state
  \<^verbatim>\<open>COMPLETED\<close>, the sink of the receiver has been given, in one session, exactly the bytes of the object from the
  resume offset it asked for to the end, and has then committed the object.
\<close>

theorem transfer_integrity:
  assumes "wl_bulk_sender_start s0 d = (WL_BULK_OK, s)"
    "wl_bulk_receiver_init r0 cfg (u, []) = (WL_BULK_OK, r)" "rc_sink cfg = recording k"
    "length obj = unat (total_length d)"
    "sn_state (sy_sender (run_ops (system_exec obj) ops (initial_system s r))) = WL_BULK_SENDER_COMPLETED"
  shows "stored cfg obj d (calls (sy_receiver (run_ops (system_exec obj) ops (initial_system s r))))"
proof -
  note init = initial_system_inv [OF assms(1-4)]
  have "rv_config (sy_receiver (initial_system s r)) = cfg"
    using receiver_init_inv(2) [OF assms(2,3)] by (simp add: initial_system_def)
  with sys.run_keeps [OF init, of ops] assms(5) show ?thesis by (simp add: system_inv_def)
qed

text \<open>
  A transfer of three bytes over a bad network: the first request is lost and sent again, the start is delivered
  twice and its second status arrives late.
\<close>

definition demo_sender :: wl_bulk_sender where
  "demo_sender = snd (wl_bulk_sender_start demo_source demo_descriptor)"

definition demo_object :: "byte list" where
  "demo_object = [0xAA, 0xBB, 0xCC]"

definition bad_network :: "system_op list" where
  "bad_network =
     (let m = (\<lambda>a. 0) in
      [Submit 0, Sender_Poll 20, Submit 20, Deliver 1 m 16 20, Publish, Deliver 0 m 16 21, Publish, Answer 0 22,
       Submit 23, Deliver 2 m 16 24, Publish, Answer 1 25, Answer 2 26, Submit 27, Deliver 3 m 16 28, Publish,
       Answer 3 29, Submit 30, Deliver 4 m 16 31, Publish, Answer 4 32])"

lemma demo_sender_start: "wl_bulk_sender_start demo_source demo_descriptor = (WL_BULK_OK, demo_sender)"
proof -
  have "fst (wl_bulk_sender_start demo_source demo_descriptor) = WL_BULK_OK" by code_simp
  then show ?thesis by (simp add: demo_sender_def prod_eq_iff)
qed

lemma demo_receiver_init:
  "wl_bulk_receiver_init blank_receiver demo_bulk_config ((), []) = (WL_BULK_OK, demo_receiver)"
proof -
  have "fst (wl_bulk_receiver_init blank_receiver demo_bulk_config ((), [])) = WL_BULK_OK" by code_simp
  then show ?thesis by (simp add: demo_receiver_def prod_eq_iff)
qed

lemma demo_config_sink: "rc_sink demo_bulk_config = recording demo_sink"
  by (simp add: demo_bulk_config_def)

lemma demo_object_length: "length demo_object = unat (total_length demo_descriptor)"
  by (simp add: demo_object_def demo_descriptor_def)

lemma bad_network_completes:
  "sn_state (sy_sender (run_ops (system_exec demo_object) bad_network (initial_system demo_sender demo_receiver))) =
   WL_BULK_SENDER_COMPLETED"
  by code_simp

theorem transfer_integrity_witness:
  "stored demo_bulk_config demo_object demo_descriptor
     (calls (sy_receiver (run_ops (system_exec demo_object) bad_network (initial_system demo_sender demo_receiver))))"
  by (rule transfer_integrity [OF demo_sender_start demo_receiver_init demo_config_sink demo_object_length
        bad_network_completes])

end
