(* ===== verification/Bulk_Progress.thy ===== *)
theory Bulk_Progress
  imports Bulk_Transfer
begin

text \<open>
  How often the sink of a bulk transfer commits: between two resets of the receiver an object is committed at
  most once, however often the messages of its transfer are repeated, and exactly once when its sender
  reports completion.
\<close>

section \<open>At most one commit\<close>

definition commits :: "sink_call list \<Rightarrow> nat" where
  "commits l = length (filter (\<lambda>c. case c of Sink_Finish d r \<Rightarrow> r = WL_BULK_SINK_OK | _ \<Rightarrow> False) l)"

lemma commits_append [simp]: "commits (l @ l') = commits l + commits l'"
  by (simp add: commits_def)

definition once_inv :: "wl_bulk_descriptor \<Rightarrow> 'u recorded wl_bulk_receiver \<Rightarrow> bool" where
  "once_inv d r \<longleftrightarrow>
     (if rv_state r = WL_BULK_RECEIVER_COMPLETED then commits (calls r) = 1 \<and> rv_descriptor r = d
      else commits (calls r) = 0)"

text \<open>The messages of one transfer and the local operations other than reset.\<close>

fun same_transfer :: "wl_bulk_descriptor \<Rightarrow> receiver_op \<Rightarrow> bool" where
  "same_transfer d (On_Begin d' t) \<longleftrightarrow> d' = d"
| "same_transfer d (On_Abort tid reason t) \<longleftrightarrow> tid = transfer_id d"
| "same_transfer d Receiver_Reset \<longleftrightarrow> False"
| "same_transfer d _ \<longleftrightarrow> True"

lemma completed_stays:
  assumes "rv_state r = WL_BULK_RECEIVER_COMPLETED" "rv_descriptor r = d" "same_transfer d op"
  shows "rv_state (receiver_exec op r) = WL_BULK_RECEIVER_COMPLETED" "rv_descriptor (receiver_exec op r) = d"
    "rv_user (receiver_exec op r) = rv_user r"
  using assms
  by (cases op; auto simp: receiver_op_defs Let_def descriptor_equal_def status_defs split: option.split)+

lemma commit_completes:
  assumes "records r" "rv_state r \<noteq> WL_BULK_RECEIVER_COMPLETED"
    "rv_state (receiver_exec op r) \<noteq> WL_BULK_RECEIVER_COMPLETED"
  shows "commits (calls (receiver_exec op r)) = commits (calls r)"
proof -
  obtain new where new: "calls (receiver_exec op r) = calls r @ new" "list_all (origin op) new"
    using receiver_exec_adds [OF assms(1), of op] by (auto simp: adds_calls_def)
  have "commits new = 0"
  proof (cases "\<exists>tid n crc t. op = On_End tid n crc t")
    case False
    then have "list_all (\<lambda>c. \<forall>d r. c \<noteq> Sink_Finish d r) new"
      using new(2) by (cases op) (auto simp: list_all_iff elim: origin.elims)
    then show ?thesis by (auto simp: commits_def list_all_iff filter_empty_conv split: sink_call.splits)
  next
    case True
    then obtain tid n crc t where op: "op = On_End tid n crc t" by blast
    show ?thesis
    proof (cases "receiver_exec op r = snd (finish_session r tid t)")
      case True
      obtain res r' where cf: "call_finish r = (res, r')" by fastforce
      then have "res \<noteq> WL_BULK_SINK_OK"
        using assms(3) by (auto simp: True finish_session_def Let_def)
      moreover have "calls (receiver_exec op r) = calls r @ [Sink_Finish (rv_descriptor r) res]"
        using call_finish_records [OF assms(1) cf] by (force simp: True finish_session_user cf)
      ultimately show ?thesis using new(1) by (simp add: commits_def)
    next
      case False
      then have "calls (receiver_exec op r) = calls r"
        by (auto simp: op wl_bulk_receiver_on_end_def Let_def)
      then show ?thesis using new(1) by (simp add: commits_def)
    qed
  qed
  then show ?thesis by (simp add: new(1))
qed

lemma finish_descriptor: "rv_descriptor (snd (finish_session r tid t)) = rv_descriptor r"
proof -
  have "rv_descriptor (snd (sink_failure_code x res)) = rv_descriptor x" for x :: "'a wl_bulk_receiver" and res
    by (simp add: sink_failure_code_def count_write_failure_def)
  moreover have "rv_descriptor (snd (call_finish r)) = rv_descriptor r"
    by (simp add: call_finish_def split: prod.split)
  ultimately show ?thesis
    by (simp add: finish_session_def Let_def case_prod_beta status_defs enter_failure_def)
qed

lemma receiver_exec_once:
  assumes inv: "object_inv obj d r" and len: "length obj = unat (total_length d)"
    and once: "once_inv d r" and op: "same_transfer d op"
  shows "once_inv d (receiver_exec op r)"
proof (cases "rv_state r = WL_BULK_RECEIVER_COMPLETED")
  case True
  then show ?thesis using once completed_stays [OF True _ op] by (simp add: once_inv_def)
next
  case False
  have rec: "records r" and sess: "session_inv r" and faith: "list_all (faithful obj d) (calls r)"
    using inv by (simp_all add: object_inv_def session_inv_def)
  show ?thesis
  proof (cases "rv_state (receiver_exec op r) = WL_BULK_RECEIVER_COMPLETED")
    case c: True
    note fin = receiver_exec_completed [OF rec c False]
    obtain resume ws where "follow (rv_config r) (calls r) = Some (Storing (rv_descriptor r) resume ws)"
      by (rule storing [OF sess fin(1)])
    then have "rv_descriptor r = d" using follow_faithful [OF faith len] by blast
    moreover have "rv_descriptor (receiver_exec op r) = rv_descriptor r"
      using c False fin(1)
      by (cases op) (auto simp: receiver_op_defs Let_def status_defs finish_descriptor begin_session_def
          write_chunk_def case_prod_beta retain_abort_tombstone_def split: option.splits if_splits)
    ultimately show ?thesis using once c False by (simp add: once_inv_def fin(3) commits_def)
  next
    case c: False
    then show ?thesis using once False commit_completes [OF rec False c] by (simp add: once_inv_def)
  qed
qed

definition no_reset :: "system_op \<Rightarrow> bool" where
  "no_reset op \<longleftrightarrow> op \<noteq> Local Receiver_Reset"

lemma request_same_transfer: "same_transfer (ac_descriptor ac) (request_op obj m a t ac)"
  by (simp add: request_op_def)

lemma system_exec_once:
  assumes inv: "system_inv obj d y" and once: "once_inv d (sy_receiver y)" and op: "no_reset op"
  shows "once_inv d (sy_receiver (system_exec obj op y))"
proof -
  have obj: "object_inv obj d (sy_receiver y)" and len: "length obj = unat (total_length d)"
    and req: "\<And>i. i < length (sy_requests y) \<Longrightarrow> ac_descriptor (sy_requests y ! i) = d"
    using inv by (simp_all add: system_inv_def list_all_length)
  note step = receiver_exec_once [OF obj len once]
  show ?thesis
  proof (cases op)
    case (Deliver i m a t)
    then show ?thesis using once step request_same_transfer [of "sy_requests y ! i" obj m a t] req [of i] by auto
  next
    case Publish
    have "once_inv d (r\<lparr>rv_status_pending := p, rv_status_acquired := q\<rparr>) = once_inv d r"
      "once_inv d (r\<lparr>rv_status_acquired := q\<rparr>) = once_inv d r" for r :: "'a recorded wl_bulk_receiver" and p q
      by (simp_all add: once_inv_def)
    then show ?thesis
      using once
      by (auto simp: Publish wl_bulk_receiver_status_acquire_def wl_bulk_receiver_status_release_def
          split: if_splits)
  next
    case (Local rop)
    then have "same_transfer d rop" if "local_op rop" using op that by (cases rop) (simp_all add: no_reset_def)
    then show ?thesis using once step Local by simp
  qed (use once in \<open>auto split: prod.split sum.split\<close>)
qed

text \<open>
  C36. Exactly once: as long as the receiver is not reset, the sink commits the object of a transfer at most once,
  however often the network repeats its messages, and it has committed it exactly once when the sender reports
  completion.
\<close>

theorem commit_exactly_once:
  assumes "wl_bulk_sender_start s0 d = (WL_BULK_OK, s)"
    "wl_bulk_receiver_init r0 cfg (u, []) = (WL_BULK_OK, r)" "rc_sink cfg = recording k"
    "length obj = unat (total_length d)" "list_all no_reset ops"
  shows "commits (calls (sy_receiver (run_ops (system_exec obj) ops (initial_system s r)))) \<le> 1 \<and>
    (sn_state (sy_sender (run_ops (system_exec obj) ops (initial_system s r))) = WL_BULK_SENDER_COMPLETED \<longrightarrow>
     commits (calls (sy_receiver (run_ops (system_exec obj) ops (initial_system s r)))) = 1)"
proof -
  have init: "once_inv d (sy_receiver (initial_system s r))"
    using assms(2) by (auto simp: initial_system_def once_inv_def commits_def wl_bulk_receiver_init_def split: if_splits)
  have run: "system_inv obj d (run_ops (system_exec obj) ops y) \<and> once_inv d (sy_receiver (run_ops (system_exec obj) ops y))"
    if "system_inv obj d y" "once_inv d (sy_receiver y)" "list_all no_reset ops" for y :: "'a bulk_system" and ops
    using that by (induction ops arbitrary: y) (auto intro: system_exec_inv system_exec_once)
  let ?y = "run_ops (system_exec obj) ops (initial_system s r)"
  have y: "system_inv obj d ?y" "once_inv d (sy_receiver ?y)"
    using run [OF initial_system_inv [OF assms(1-4)] init assms(5)] by simp_all
  have "0 < commits (calls (sy_receiver ?y))" if "sn_state (sy_sender ?y) = WL_BULK_SENDER_COMPLETED"
    using y(1) that by (auto simp: system_inv_def stored_def commits_def)
  moreover have "commits (calls (sy_receiver ?y)) \<le> 1" using y(2) by (simp add: once_inv_def split: if_splits)
  ultimately show ?thesis by fastforce
qed

theorem commit_exactly_once_witness:
  "commits (calls (sy_receiver (run_ops (system_exec demo_object) bad_network
     (initial_system demo_sender demo_receiver)))) = 1"
proof -
  have "list_all no_reset bad_network" by (simp add: bad_network_def no_reset_def Let_def)
  from commit_exactly_once [OF demo_sender_start demo_receiver_init demo_config_sink demo_object_length this]
  show ?thesis using bad_network_completes by simp
qed

end
