(* ===== verification/Bulk_Lossless.thy ===== *)
theory Bulk_Lossless
  imports Bulk_Transfer
begin

text \<open>
  Progress of a bulk transfer: with a sink that accepts every call and a network that delivers every message, a
  transfer completes after one exchange for its start, one for each chunk and one for its end.
\<close>

section \<open>The sender, step by step\<close>

definition sender_is ::
    "wl_bulk_sender_state \<Rightarrow> wl_bulk_descriptor \<Rightarrow> u32 \<Rightarrow> wl_bulk_phase \<Rightarrow> u64 \<Rightarrow> wl_bulk_sender \<Rightarrow> bool" where
  "sender_is q d acc p off s \<longleftrightarrow>
     sender_initialized s \<and> sn_state s = q \<and> \<not> sn_action_acquired s \<and> \<not> sn_retry_wait s \<and> sn_phase s = p \<and>
     sn_descriptor s = d \<and> sn_next_offset s = off \<and> sn_negotiated_chunk_size s = acc \<and>
     sn_action_length s = due_length s"

text \<open>The length of the chunk at an offset.\<close>

definition chunk_at :: "wl_bulk_descriptor \<Rightarrow> u32 \<Rightarrow> u64 \<Rightarrow> nat" where
  "chunk_at d acc off = min (unat (total_length d) - unat off) (unat acc)"

definition phase_at :: "wl_bulk_descriptor \<Rightarrow> u64 \<Rightarrow> wl_bulk_phase" where
  "phase_at d off = (if off = total_length d then WL_BULK_PHASE_END else WL_BULK_PHASE_CHUNK)"

lemma submit_action:
  assumes "sender_is WL_BULK_SENDER_READY d acc p off s"
  obtains ac s1 where "wl_bulk_sender_action_acquire s = (Inr ac, s1)"
    "sender_is WL_BULK_SENDER_WAIT_STATUS d acc p off (snd (wl_bulk_sender_action_submitted s1 ac t))"
    "ac_phase ac = p" "ac_descriptor ac = d" "ac_offset ac = off"
    "ac_length ac = (if p = WL_BULK_PHASE_CHUNK then chunk_at d acc off else 0)"
proof -
  let ?ac = "\<lparr>ac_phase = sn_phase s, ac_descriptor = sn_descriptor s, ac_offset = sn_next_offset s,
    ac_length = sn_action_length s, ac_abort_reason = sn_abort_reason s, ac_token = sender_next_token (sn_next_token s)\<rparr>"
  let ?s = "s\<lparr>sn_next_token := sender_next_token (sn_next_token s),
    sn_acquired_token := sender_next_token (sn_next_token s), sn_action_acquired := True\<rparr>"
  show thesis
  proof (rule that [of ?ac ?s])
    show "wl_bulk_sender_action_acquire s = (Inr ?ac, ?s)"
      using assms by (simp add: wl_bulk_sender_action_acquire_def sender_is_def Let_def)
    show "sender_is WL_BULK_SENDER_WAIT_STATUS d acc p off (snd (wl_bulk_sender_action_submitted ?s ?ac t))"
      using assms
      by (simp add: sender_is_def wl_bulk_sender_action_submitted_def action_matches_def descriptor_matches_def
          sender_initialized_def due_length_def)
  qed (use assms in \<open>auto simp: sender_is_def due_length_def chunk_at_def\<close>)
qed

definition ok_status :: "wl_bulk_descriptor \<Rightarrow> wl_bulk_phase \<Rightarrow> u64 \<Rightarrow> u32 \<Rightarrow> wl_bulk_status" where
  "ok_status d p off acc = \<lparr>bs_transfer_id = transfer_id d, bs_phase = p, bs_code = WL_BULK_STATUS_OK,
     bs_next_offset = off, bs_accepted_chunk_size = acc\<rparr>"

lemma next_phase_ready:
  assumes "sender_initialized s" "sn_descriptor s = d" "sn_next_offset s = off" "sn_negotiated_chunk_size s = acc"
  shows "sender_is WL_BULK_SENDER_READY d acc (phase_at d off) off (next_phase s)"
  using assms
  by (simp add: next_phase_def prepare_phase_def set_action_length_due sender_is_def sender_initialized_def phase_at_def
      due_length_def)

lemma begin_confirmed:
  assumes "sender_is WL_BULK_SENDER_WAIT_STATUS d n WL_BULK_PHASE_BEGIN 0 s" "off \<le> total_length d"
    "acc \<noteq> 0" "acc \<le> requested_chunk_size d"
  shows "sender_is WL_BULK_SENDER_READY d acc (phase_at d off) off
    (snd (wl_bulk_sender_on_status s (ok_status d WL_BULK_PHASE_BEGIN off acc) t))"
proof -
  let ?s = "(count_status s)\<lparr>sn_last_status := 0, sn_negotiated_chunk_size := acc, sn_next_offset := off\<rparr>"
  have "snd (wl_bulk_sender_on_status s (ok_status d WL_BULK_PHASE_BEGIN off acc) t) = next_phase ?s"
    using assms
    by (simp add: wl_bulk_sender_on_status_def ok_status_def phase_valid_def status_code_valid_def sender_is_def
        status_is_stale_def status_chunk_size_matches_def on_status_current_def Let_def on_status_ok_def
        proposed_chunk_size_valid_def not_less)
  moreover have "sender_initialized ?s" "sn_descriptor ?s = d" "sn_next_offset ?s = off"
    "sn_negotiated_chunk_size ?s = acc"
    using assms(1) by (simp_all add: sender_is_def sender_initialized_def count_status_def)
  ultimately show ?thesis using next_phase_ready by simp
qed

lemma chunk_confirmed:
  assumes "sender_is WL_BULK_SENDER_WAIT_STATUS d acc WL_BULK_PHASE_CHUNK off s" "off' \<le> total_length d" "off < off'"
    "off' = off + of_nat (chunk_at d acc off)"
  shows "sender_is WL_BULK_SENDER_READY d acc (phase_at d off') off'
    (snd (wl_bulk_sender_on_status s (ok_status d WL_BULK_PHASE_CHUNK off' acc) t))"
proof -
  let ?s = "(count_status s)\<lparr>sn_last_status := 0, sn_next_offset := off', sn_chunk_acknowledged := True\<rparr>"
  have len: "sn_action_length s = chunk_at d acc off"
    using assms(1) by (simp add: sender_is_def due_length_def chunk_at_def)
  have "\<not> off' \<le> off" using assms(3) by simp
  then have "snd (wl_bulk_sender_on_status s (ok_status d WL_BULK_PHASE_CHUNK off' acc) t) = next_phase ?s"
    using assms(1,2) assms(4) [symmetric]
    by (simp add: wl_bulk_sender_on_status_def ok_status_def phase_valid_def status_code_valid_def sender_is_def
        status_is_stale_def status_chunk_size_matches_def on_status_current_def Let_def on_status_ok_def
        len [unfolded sender_is_def] not_less)
  moreover have "sender_initialized ?s" "sn_descriptor ?s = d" "sn_next_offset ?s = off'"
    "sn_negotiated_chunk_size ?s = acc"
    using assms(1) by (simp_all add: sender_is_def sender_initialized_def count_status_def)
  ultimately show ?thesis using next_phase_ready by simp
qed

lemma end_confirmed:
  assumes "sender_is WL_BULK_SENDER_WAIT_STATUS d acc WL_BULK_PHASE_END (total_length d) s"
  shows "sn_state (snd (wl_bulk_sender_on_status s (ok_status d WL_BULK_PHASE_END (total_length d) acc) t)) =
    WL_BULK_SENDER_COMPLETED"
  using assms
  by (simp add: wl_bulk_sender_on_status_def ok_status_def phase_valid_def status_code_valid_def sender_is_def
      status_is_stale_def status_chunk_size_matches_def on_status_current_def Let_def on_status_ok_def)

section \<open>The receiver, step by step\<close>

definition accepting :: "'u wl_bulk_sink \<Rightarrow> u64 \<Rightarrow> bool" where
  "accepting k resume \<longleftrightarrow>
     callbacks k \<and>
     (\<forall>u d. \<exists>u'. the (sk_begin k) u d = (WL_BULK_SINK_OK, resume, u')) \<and>
     (\<forall>u tid off bs. \<exists>u'. the (sk_write k) u tid off bs = (WL_BULK_SINK_OK, u')) \<and>
     (\<forall>u d. \<exists>u'. the (sk_finish k) u d = (WL_BULK_SINK_OK, u'))"

definition receiver_is ::
    "'u wl_bulk_sink \<Rightarrow> 'u recorded wl_bulk_receiver_config \<Rightarrow> wl_bulk_descriptor \<Rightarrow> u32 \<Rightarrow> u64 \<Rightarrow>
     'u recorded wl_bulk_receiver \<Rightarrow> bool" where
  "receiver_is k cfg d acc off r \<longleftrightarrow>
     receiver_initialized r \<and> rv_config r = cfg \<and> rc_sink cfg = recording k \<and>
     rv_state r = WL_BULK_RECEIVER_RECEIVING \<and> rv_descriptor r = d \<and> rv_next_offset r = off \<and>
     rv_accepted_chunk_size r = acc"

definition holds_status :: "wl_bulk_status \<Rightarrow> 'u wl_bulk_receiver \<Rightarrow> bool" where
  "holds_status st r \<longleftrightarrow> rv_status_pending r \<and> \<not> rv_status_acquired r \<and> rv_pending_status r = st"

lemma accepting_calls:
  assumes "accepting k resume" "rc_sink (rv_config r) = recording k"
  shows "\<exists>u. call_begin r d = (WL_BULK_SINK_OK, resume, r\<lparr>rv_user := u\<rparr>)"
    "\<exists>u. call_write r tid off bs = (WL_BULK_SINK_OK, r\<lparr>rv_user := u\<rparr>)"
    "\<exists>u. call_finish r = (WL_BULK_SINK_OK, r\<lparr>rv_user := u\<rparr>)"
proof -
  obtain u0 l where u: "rv_user r = (u0, l)" by fastforce
  obtain fb fw ff fa where k: "sk_begin k = Some fb" "sk_write k = Some fw" "sk_finish k = Some ff" "sk_abort k = Some fa"
    using assms(1) by (auto simp: accepting_def callbacks_def)
  obtain u1 where "fb u0 d = (WL_BULK_SINK_OK, resume, u1)"
    using assms(1) k unfolding accepting_def by (metis option.sel)
  then have "call_begin r d = (WL_BULK_SINK_OK, resume, r\<lparr>rv_user := (u1, l @ [Sink_Begin d 0 resume])\<rparr>)"
    using assms(2) by (simp add: call_begin_def recording_def k u)
  then show "\<exists>u. call_begin r d = (WL_BULK_SINK_OK, resume, r\<lparr>rv_user := u\<rparr>)" by blast
  obtain u2 where "fw u0 tid off bs = (WL_BULK_SINK_OK, u2)"
    using assms(1) k unfolding accepting_def by (metis option.sel)
  then have "call_write r tid off bs = (WL_BULK_SINK_OK, r\<lparr>rv_user := (u2, l @ [Sink_Write tid off bs 0])\<rparr>)"
    using assms(2) by (simp add: call_write_def recording_def k u)
  then show "\<exists>u. call_write r tid off bs = (WL_BULK_SINK_OK, r\<lparr>rv_user := u\<rparr>)" by blast
  obtain u3 where "ff u0 (rv_descriptor r) = (WL_BULK_SINK_OK, u3)"
    using assms(1) k unfolding accepting_def by (metis option.sel)
  then have "call_finish r = (WL_BULK_SINK_OK, r\<lparr>rv_user := (u3, l @ [Sink_Finish (rv_descriptor r) 0])\<rparr>)"
    using assms(2) by (simp add: call_finish_def recording_def k u)
  then show "\<exists>u. call_finish r = (WL_BULK_SINK_OK, r\<lparr>rv_user := u\<rparr>)" by blast
qed

lemma begin_accepted:
  assumes "accepting k resume" "rc_sink cfg = recording k" "wl_bulk_receiver_init r0 cfg u = (WL_BULK_OK, r)"
    "negotiate_chunk_size r d = Some acc" "resume_ok cfg d resume"
  shows "receiver_is k cfg d acc resume (receiver_exec (On_Begin d t) r)"
    "holds_status (ok_status d WL_BULK_PHASE_BEGIN resume acc) (receiver_exec (On_Begin d t) r)"
proof -
  have r: "receiver_initialized r" "\<not> rv_status_pending r" "rv_state r = WL_BULK_RECEIVER_IDLE" "rv_config r = cfg"
    using assms(3) by (auto simp: wl_bulk_receiver_init_def receiver_initialized_def split: if_splits)
  obtain u' where cb: "call_begin r d = (WL_BULK_SINK_OK, resume, r\<lparr>rv_user := u'\<rparr>)"
    using accepting_calls(1) [of k resume r d] assms r by auto
  have valid: "resume_offset_valid (r\<lparr>rv_user := u', rv_descriptor := d, rv_accepted_chunk_size := acc,
      rv_last_activity_ms := t, rv_sink_active := True\<rparr>) resume"
    using assms(5) r(4) by (auto simp: resume_offset_valid_def resume_ok_def)
  have "receiver_exec (On_Begin d t) r = snd (begin_session r d acc t)"
    using r assms(4) by (simp add: wl_bulk_receiver_on_begin_def require_input_slot_def)
  then show "receiver_is k cfg d acc resume (receiver_exec (On_Begin d t) r)"
    "holds_status (ok_status d WL_BULK_PHASE_BEGIN resume acc) (receiver_exec (On_Begin d t) r)"
    using r assms(2) valid
    by (simp_all add: begin_session_def cb Let_def receiver_is_def holds_status_def ok_status_def status_defs
        receiver_initialized_def)
qed

text \<open>Offsets and chunk sizes that the alignment of the receiver allows.\<close>

definition aligned :: "'u wl_bulk_receiver_config \<Rightarrow> wl_bulk_descriptor \<Rightarrow> u32 \<Rightarrow> u64 \<Rightarrow> bool" where
  "aligned cfg d acc off \<longleftrightarrow>
     acc \<noteq> 0 \<and> off \<le> total_length d \<and>
     (off = total_length d \<or> unat off mod unat (rc_write_alignment cfg) = 0) \<and>
     (unat acc mod unat (rc_write_alignment cfg) = 0 \<or> unat (total_length d) \<le> unat acc)"

lemma unat_of_nat_u64: "n < 2 ^ 64 \<Longrightarrow> unat (of_nat n :: u64) = n"
  by (simp add: unat_of_nat)

lemma next_chunk:
  assumes "aligned cfg d acc off" "off \<noteq> total_length d"
  defines "n \<equiv> chunk_at d acc off" and "off' \<equiv> off + of_nat (chunk_at d acc off)"
  shows "0 < n" "unat off' = unat off + n" "n \<le> unat acc" "off' \<le> total_length d" "off < off'" "aligned cfg d acc off'"
    "off' = total_length d \<or> n mod unat (rc_write_alignment cfg) = 0"
proof -
  have less: "unat off < unat (total_length d)"
    using assms(1,2) by (simp add: aligned_def word_le_nat_alt) (metis le_neq_implies_less word_unat_eq_iff)
  have acc: "0 < unat acc" using assms(1) by (simp add: aligned_def unat_gt_0)
  have t64: "unat (total_length d) < 2 ^ 64" using unsigned_less [of "total_length d"] by simp
  show n: "0 < n" using less acc by (simp add: n_def chunk_at_def)
  have le: "unat off + n \<le> unat (total_length d)" using less unfolding n_def chunk_at_def by linarith
  then show off': "unat off' = unat off + n"
    using t64 by (simp add: off'_def n_def unat_word_ariths unat_of_nat_u64)
  show "n \<le> unat acc" by (simp add: n_def chunk_at_def)
  show "off' \<le> total_length d" "off < off'" using off' le n by (simp_all add: word_le_nat_alt word_less_nat_alt)
  have eq: "off' = total_length d \<longleftrightarrow> unat off + n = unat (total_length d)"
    using off' by (metis word_unat_eq_iff)
  have full: "n = unat acc" if "unat off + n \<noteq> unat (total_length d)"
    using that less by (simp add: n_def chunk_at_def min_def split: if_splits)
  show "off' = total_length d \<or> n mod unat (rc_write_alignment cfg) = 0"
  proof (cases "unat off + n = unat (total_length d)")
    case False
    then have "\<not> unat (total_length d) \<le> unat acc" using full [OF False] le by simp
    then show ?thesis using assms(1) full [OF False] by (simp add: aligned_def)
  qed (simp add: eq)
  then show "aligned cfg d acc off'"
    using assms(1,2) \<open>off' \<le> total_length d\<close> by (auto simp: aligned_def off' mod_add_eq [symmetric])
qed

lemma chunk_accepted:
  assumes "accepting k resume" "receiver_is k cfg d acc off r" "\<not> rv_status_pending r" "transfer_id d \<noteq> 0"
    "aligned cfg d acc off" "off \<noteq> total_length d" "a \<noteq> NULL"
  defines "off' \<equiv> off + of_nat (chunk_at d acc off)"
  shows "receiver_is k cfg d acc off' (receiver_exec (On_Chunk m \<lparr>ck_transfer_id = transfer_id d, ck_offset = off,
      ck_data = a, ck_length = chunk_at d acc off\<rparr> t) r)"
    "holds_status (ok_status d WL_BULK_PHASE_CHUNK off' acc) (receiver_exec (On_Chunk m \<lparr>ck_transfer_id = transfer_id d,
      ck_offset = off, ck_data = a, ck_length = chunk_at d acc off\<rparr> t) r)"
proof -
  let ?ck = "\<lparr>ck_transfer_id = transfer_id d, ck_offset = off, ck_data = a, ck_length = chunk_at d acc off\<rparr>"
  note r = assms(2) [unfolded receiver_is_def]
  note nx = next_chunk [OF assms(5,6), folded off'_def]
  have lt: "unat off' < 2 ^ 64" using unsigned_less [of off'] by simp
  then have n64: "unat (of_nat (chunk_at d acc off) :: u64) = chunk_at d acc off"
    using nx(2) by (intro unat_of_nat_u64) simp
  have "\<not> off > 0xFFFFFFFFFFFFFFFF - of_nat (chunk_at d acc off)"
    using nx(2) n64 lt by (simp add: word_less_nat_alt unat_sub_if' not_less)
  moreover have "off mod ucast (rc_write_alignment cfg) = 0"
    using assms(5,6) unat_ucast_u32 [of "rc_write_alignment cfg"]
    by (simp add: aligned_def unat_mod unat_eq_zero [symmetric] del: unat_eq_zero)
  moreover have "off' = total_length d \<or> (of_nat (chunk_at d acc off) :: u64) mod ucast (rc_write_alignment cfg) = 0"
    using nx(7) n64 unat_ucast_u32 [of "rc_write_alignment cfg"]
    by (simp add: unat_mod unat_eq_zero [symmetric] del: unat_eq_zero)
  ultimately have shape: "chunk_shape_valid r ?ck = Some off'"
    using r nx assms(4,7) by (auto simp: chunk_shape_valid_def Let_def off'_def [symmetric] not_less)
  obtain u where cw: "call_write r (transfer_id d) off (read_bytes m a (chunk_at d acc off)) =
      (WL_BULK_SINK_OK, r\<lparr>rv_user := u\<rparr>)"
    using accepting_calls(2) [OF assms(1)] r by metis
  have "receiver_exec (On_Chunk m ?ck t) r = snd (write_chunk m r ?ck off' t)"
    using r assms(3,4,7) nx(1,5) shape
    by (simp add: wl_bulk_receiver_on_chunk_def require_input_slot_def not_le)
  then show "receiver_is k cfg d acc off' (receiver_exec (On_Chunk m ?ck t) r)"
    "holds_status (ok_status d WL_BULK_PHASE_CHUNK off' acc) (receiver_exec (On_Chunk m ?ck t) r)"
    using r
    by (simp_all add: write_chunk_def cw Let_def receiver_is_def holds_status_def ok_status_def status_defs
        receiver_initialized_def)
qed

lemma end_accepted:
  assumes "accepting k resume" "receiver_is k cfg d acc (total_length d) r" "\<not> rv_status_pending r" "transfer_id d \<noteq> 0"
  shows "holds_status (ok_status d WL_BULK_PHASE_END (total_length d) acc)
    (receiver_exec (On_End (transfer_id d) (total_length d) (object_crc32c d) t) r)"
    "receiver_initialized (receiver_exec (On_End (transfer_id d) (total_length d) (object_crc32c d) t) r)"
proof -
  note r = assms(2) [unfolded receiver_is_def]
  obtain u where cf: "call_finish r = (WL_BULK_SINK_OK, r\<lparr>rv_user := u\<rparr>)"
    using accepting_calls(3) [OF assms(1)] r by metis
  have "receiver_exec (On_End (transfer_id d) (total_length d) (object_crc32c d) t) r =
      snd (finish_session r (transfer_id d) t)"
    using r assms(3,4) by (simp add: wl_bulk_receiver_on_end_def require_input_slot_def)
  then show "holds_status (ok_status d WL_BULK_PHASE_END (total_length d) acc)
    (receiver_exec (On_End (transfer_id d) (total_length d) (object_crc32c d) t) r)"
    "receiver_initialized (receiver_exec (On_End (transfer_id d) (total_length d) (object_crc32c d) t) r)"
    using r by (simp_all add: finish_session_def cf Let_def holds_status_def ok_status_def status_defs
        receiver_initialized_def)
qed

section \<open>The exchange\<close>

text \<open>One exchange: the action of the sender is delivered at once, and so is the status of the receiver.\<close>

definition exchange :: "byte list \<Rightarrow> mem \<Rightarrow> addr \<Rightarrow> u32 \<Rightarrow> 'u bulk_system \<Rightarrow> 'u bulk_system" where
  "exchange obj m a t y =
     (let y = system_exec obj (Submit t) y;
          y = system_exec obj (Deliver (length (sy_requests y) - 1) m a t) y;
          y = system_exec obj Publish y
      in system_exec obj (Answer (length (sy_statuses y) - 1) t) y)"

lemma publish_status:
  assumes "holds_status st r" "receiver_initialized r"
  obtains r' where "\<And>y :: 'u bulk_system. sy_receiver y = r \<Longrightarrow>
      system_exec obj Publish y = y\<lparr>sy_receiver := r', sy_statuses := sy_statuses y @ [st]\<rparr>"
    "\<not> rv_status_pending r'" "\<And>k cfg d acc off. receiver_is k cfg d acc off r \<Longrightarrow> receiver_is k cfg d acc off r'"
proof (rule that [of "r\<lparr>rv_status_pending := False, rv_status_acquired := False\<rparr>"])
  show "system_exec obj Publish y = y\<lparr>sy_receiver := r\<lparr>rv_status_pending := False, rv_status_acquired := False\<rparr>,
      sy_statuses := sy_statuses y @ [st]\<rparr>" if "sy_receiver y = r" for y :: "'u bulk_system"
    using assms that
    by (simp add: holds_status_def wl_bulk_receiver_status_acquire_def wl_bulk_receiver_status_release_def
        status_view_matches_def status_equal_def receiver_initialized_def)
qed (simp_all add: receiver_is_def receiver_initialized_def)

text \<open>An exchange, from what its three participants do.\<close>

lemma exchange_steps:
  assumes ready: "sender_is WL_BULK_SENDER_READY d acc p off (sy_sender y)"
    and recv: "\<And>ac. ac_phase ac = p \<Longrightarrow> ac_descriptor ac = d \<Longrightarrow> ac_offset ac = off \<Longrightarrow>
      ac_length ac = (if p = WL_BULK_PHASE_CHUNK then chunk_at d acc off else 0) \<Longrightarrow>
      holds_status st (receiver_exec (request_op obj m a t ac) (sy_receiver y)) \<and>
      receiver_initialized (receiver_exec (request_op obj m a t ac) (sy_receiver y)) \<and>
      R (receiver_exec (request_op obj m a t ac) (sy_receiver y))"
    and R: "\<And>r r'. R r \<Longrightarrow> (\<And>k cfg d acc off. receiver_is k cfg d acc off r \<Longrightarrow> receiver_is k cfg d acc off r') \<Longrightarrow> R r'"
  obtains s r' where "sender_is WL_BULK_SENDER_WAIT_STATUS d acc p off s"
    "sy_sender (exchange obj m a t y) = snd (wl_bulk_sender_on_status s st t)"
    "sy_receiver (exchange obj m a t y) = r'" "R r'" "\<not> rv_status_pending r'"
proof -
  obtain ac s1 where ac: "wl_bulk_sender_action_acquire (sy_sender y) = (Inr ac, s1)"
    "sender_is WL_BULK_SENDER_WAIT_STATUS d acc p off (snd (wl_bulk_sender_action_submitted s1 ac t))"
    "ac_phase ac = p" "ac_descriptor ac = d" "ac_offset ac = off"
    "ac_length ac = (if p = WL_BULK_PHASE_CHUNK then chunk_at d acc off else 0)"
    by (rule submit_action [OF ready])
  let ?r = "receiver_exec (request_op obj m a t ac) (sy_receiver y)"
  have r: "holds_status st ?r" "receiver_initialized ?r" "R ?r" using recv [OF ac(3-6)] by simp_all
  obtain r' where r': "\<And>y. sy_receiver y = ?r \<Longrightarrow>
      system_exec obj Publish y = y\<lparr>sy_receiver := r', sy_statuses := sy_statuses y @ [st]\<rparr>"
    "\<not> rv_status_pending r'" "\<And>k cfg d acc off. receiver_is k cfg d acc off ?r \<Longrightarrow> receiver_is k cfg d acc off r'"
    using publish_status [OF r(1,2)] by metis
  show thesis
  proof (rule that [OF ac(2) _ _ R [OF r(3) r'(3)] r'(2)])
    have "system_exec obj (Submit t) y = y\<lparr>sy_sender := snd (wl_bulk_sender_action_submitted s1 ac t),
        sy_requests := sy_requests y @ [ac]\<rparr>" by (simp add: ac(1))
    then show "sy_sender (exchange obj m a t y) = snd (wl_bulk_sender_on_status (snd (wl_bulk_sender_action_submitted s1 ac t)) st t)"
      "sy_receiver (exchange obj m a t y) = r'"
      by (simp_all add: exchange_def Let_def r'(1) del: system_exec.simps(1,6))
  qed
qed

definition synced ::
    "'u wl_bulk_sink \<Rightarrow> 'u recorded wl_bulk_receiver_config \<Rightarrow> wl_bulk_descriptor \<Rightarrow> u32 \<Rightarrow> u64 \<Rightarrow> 'u bulk_system \<Rightarrow> bool" where
  "synced k cfg d acc off y \<longleftrightarrow>
     sender_is WL_BULK_SENDER_READY d acc (phase_at d off) off (sy_sender y) \<and>
     receiver_is k cfg d acc off (sy_receiver y) \<and> \<not> rv_status_pending (sy_receiver y) \<and>
     transfer_id d \<noteq> 0 \<and> aligned cfg d acc off"

lemma exchange_chunk:
  assumes "accepting k resume" "synced k cfg d acc off y" "off \<noteq> total_length d" "a \<noteq> NULL"
  shows "synced k cfg d acc (off + of_nat (chunk_at d acc off)) (exchange obj m a t y)"
proof -
  let ?off = "off + of_nat (chunk_at d acc off)"
  note y = assms(2) [unfolded synced_def]
  have al: "aligned cfg d acc off" using y by simp
  note nx = next_chunk [OF al assms(3)]
  have ready: "sender_is WL_BULK_SENDER_READY d acc WL_BULK_PHASE_CHUNK off (sy_sender y)"
    using y assms(3) by (simp add: phase_at_def)
  obtain s r' where s: "sender_is WL_BULK_SENDER_WAIT_STATUS d acc WL_BULK_PHASE_CHUNK off s"
    "sy_sender (exchange obj m a t y) = snd (wl_bulk_sender_on_status s (ok_status d WL_BULK_PHASE_CHUNK ?off acc) t)"
    "sy_receiver (exchange obj m a t y) = r'" "receiver_is k cfg d acc ?off r'" "\<not> rv_status_pending r'"
  proof (rule exchange_steps [OF ready, where R = "receiver_is k cfg d acc ?off"])
    fix ac :: wl_bulk_sender_action
    assume "ac_phase ac = WL_BULK_PHASE_CHUNK" "ac_descriptor ac = d" "ac_offset ac = off"
      "ac_length ac = (if WL_BULK_PHASE_CHUNK = WL_BULK_PHASE_CHUNK then chunk_at d acc off else 0)"
    then have "request_op obj m a t ac = On_Chunk (write_bytes m a (take (chunk_at d acc off) (drop (unat off) obj)))
      \<lparr>ck_transfer_id = transfer_id d, ck_offset = off, ck_data = a, ck_length = chunk_at d acc off\<rparr> t"
      by (simp add: request_op_def)
    then show "holds_status (ok_status d WL_BULK_PHASE_CHUNK ?off acc) (receiver_exec (request_op obj m a t ac) (sy_receiver y)) \<and>
      receiver_initialized (receiver_exec (request_op obj m a t ac) (sy_receiver y)) \<and>
      receiver_is k cfg d acc ?off (receiver_exec (request_op obj m a t ac) (sy_receiver y))"
      using chunk_accepted [OF assms(1) _ _ _ al assms(3,4), of "sy_receiver y"] y
      by (auto simp: receiver_is_def simp del: receiver_exec.simps)
  qed auto
  then show ?thesis
    using chunk_confirmed [OF s(1) nx(4,5) refl] nx(6) y by (simp add: synced_def)
qed

lemma exchange_end:
  assumes "accepting k resume" "synced k cfg d acc (total_length d) y"
  shows "sn_state (sy_sender (exchange obj m a t y)) = WL_BULK_SENDER_COMPLETED"
proof -
  note y = assms(2) [unfolded synced_def]
  have ready: "sender_is WL_BULK_SENDER_READY d acc WL_BULK_PHASE_END (total_length d) (sy_sender y)"
    using y by (simp add: phase_at_def)
  obtain s where s: "sender_is WL_BULK_SENDER_WAIT_STATUS d acc WL_BULK_PHASE_END (total_length d) s"
    "sy_sender (exchange obj m a t y) =
     snd (wl_bulk_sender_on_status s (ok_status d WL_BULK_PHASE_END (total_length d) acc) t)"
  proof (rule exchange_steps [OF ready, where R = "\<lambda>_. True"])
    fix ac :: wl_bulk_sender_action
    assume "ac_phase ac = WL_BULK_PHASE_END" "ac_descriptor ac = d"
    then have "request_op obj m a t ac = On_End (transfer_id d) (total_length d) (object_crc32c d) t"
      by (simp add: request_op_def)
    then show "holds_status (ok_status d WL_BULK_PHASE_END (total_length d) acc)
        (receiver_exec (request_op obj m a t ac) (sy_receiver y)) \<and>
      receiver_initialized (receiver_exec (request_op obj m a t ac) (sy_receiver y)) \<and> True"
      using end_accepted [OF assms(1), of cfg d acc "sy_receiver y" t] y by (simp del: receiver_exec.simps)
  qed auto
  then show ?thesis using end_confirmed by simp
qed

lemma negotiated_aligned:
  assumes "negotiate_chunk_size r d = Some acc" "rv_config r = cfg" "rc_max_chunk_size cfg \<noteq> 0" "resume_ok cfg d resume"
  shows "aligned cfg d acc resume"
proof -
  let ?a = "rc_write_alignment cfg"
  obtain l where l: "acc = l - l mod ?a \<or> acc = l \<and> total_length d \<le> ucast l" and acc: "acc \<noteq> 0"
  proof (rule that)
    let ?l = "if requested_chunk_size d > rc_max_chunk_size cfg then rc_max_chunk_size cfg else requested_chunk_size d"
    show "acc = ?l - ?l mod ?a \<or> acc = ?l \<and> total_length d \<le> ucast ?l" "acc \<noteq> 0"
      using assms(1,3) unfolding negotiate_chunk_size_def assms(2) by (auto simp: Let_def not_less split: if_splits)
  qed
  have "unat (l - l mod ?a) = unat l - unat l mod unat ?a"
    using mod_less_eq_dividend [of "unat l" "unat ?a"] by (simp add: unat_sub word_le_nat_alt unat_mod)
  then have "unat (l - l mod ?a) mod unat ?a = 0" using dvd_minus_mod [of "unat ?a" "unat l"] by (simp only: dvd_imp_mod_0)
  then have chunk: "unat acc mod unat ?a = 0 \<or> unat (total_length d) \<le> unat acc"
    using l unat_ucast_u32 [of l] by (elim disjE) (simp_all add: word_le_nat_alt)
  have "unat resume mod unat ?a = 0" if "resume mod ucast ?a = 0"
    using arg_cong [OF that, of unat] unat_ucast_u32 [of ?a] by (simp add: unat_mod)
  then have "resume = total_length d \<or> unat resume mod unat ?a = 0" using assms(4) unfolding resume_ok_def by metis
  with chunk acc assms(4) show ?thesis unfolding aligned_def resume_ok_def by metis
qed

lemma exchange_begin:
  assumes "accepting k resume" "wl_bulk_sender_start s0 d = (WL_BULK_OK, s)"
    "wl_bulk_receiver_init r0 cfg (u, []) = (WL_BULK_OK, r)" "rc_sink cfg = recording k"
    "negotiate_chunk_size r d = Some acc" "resume_ok cfg d resume"
  shows "synced k cfg d acc resume (exchange obj m a t (initial_system s r))"
proof -
  have ready: "sender_is WL_BULK_SENDER_READY d 0 WL_BULK_PHASE_BEGIN 0 (sy_sender (initial_system s r))"
    using assms(2)
    by (auto simp: initial_system_def wl_bulk_sender_start_def sender_is_def Let_def prepare_phase_def
        set_action_length_due due_length_def sender_initialized_def split: if_splits)
  have d: "transfer_id d \<noteq> 0" "acc \<noteq> 0" "acc \<le> requested_chunk_size d" "aligned cfg d acc resume" "resume \<le> total_length d"
  proof -
    have cfg: "rv_config r = cfg" "rc_max_chunk_size cfg \<noteq> 0"
      using assms(3) by (auto simp: wl_bulk_receiver_init_def split: if_splits)
    show al: "aligned cfg d acc resume" by (rule negotiated_aligned [OF assms(5) cfg assms(6)])
    then show "acc \<noteq> 0" "resume \<le> total_length d" by (simp_all add: aligned_def)
    show "transfer_id d \<noteq> 0" "acc \<le> requested_chunk_size d"
      using negotiate_some [OF assms(5)] by (simp_all add: descriptor_ok_def)
  qed
  obtain s1 r' where s1: "sender_is WL_BULK_SENDER_WAIT_STATUS d 0 WL_BULK_PHASE_BEGIN 0 s1"
    "sy_sender (exchange obj m a t (initial_system s r)) =
     snd (wl_bulk_sender_on_status s1 (ok_status d WL_BULK_PHASE_BEGIN resume acc) t)"
    "sy_receiver (exchange obj m a t (initial_system s r)) = r'" "receiver_is k cfg d acc resume r'" "\<not> rv_status_pending r'"
  proof (rule exchange_steps [OF ready, where R = "receiver_is k cfg d acc resume"])
    fix ac :: wl_bulk_sender_action
    assume "ac_phase ac = WL_BULK_PHASE_BEGIN" "ac_descriptor ac = d"
    then have "request_op obj m a t ac = On_Begin d t" by (simp add: request_op_def)
    then show "holds_status (ok_status d WL_BULK_PHASE_BEGIN resume acc)
        (receiver_exec (request_op obj m a t ac) (sy_receiver (initial_system s r))) \<and>
      receiver_initialized (receiver_exec (request_op obj m a t ac) (sy_receiver (initial_system s r))) \<and>
      receiver_is k cfg d acc resume (receiver_exec (request_op obj m a t ac) (sy_receiver (initial_system s r)))"
      using begin_accepted [OF assms(1,4,3,5,6)]
      by (auto simp: initial_system_def receiver_is_def simp del: receiver_exec.simps)
  qed auto
  then show ?thesis using begin_confirmed [OF s1(1) d(5,2,3)] d by (simp add: synced_def)
qed

lemma exchange_chunks:
  assumes "accepting k resume" "synced k cfg d acc off y" "a \<noteq> NULL"
  shows "synced k cfg d acc (total_length d)
    ((exchange obj m a t ^^ ((unat (total_length d) - unat off + unat acc - 1) div unat acc)) y)"
  using assms(2)
proof (induction "unat (total_length d) - unat off" arbitrary: off y rule: less_induct)
  case less
  have al: "aligned cfg d acc off" using less.prems by (simp add: synced_def)
  then have acc: "0 < unat acc" and le: "unat off \<le> unat (total_length d)"
    by (simp_all add: aligned_def unat_gt_0 word_le_nat_alt)
  show ?case
  proof (cases "off = total_length d")
    case True
    then have "(unat (total_length d) - unat off + unat acc - 1) div unat acc = 0" using acc by simp
    then show ?thesis using less.prems True by simp
  next
    case False
    let ?off = "off + of_nat (chunk_at d acc off)"
    note nx = next_chunk [OF al False]
    have "unat (total_length d) - unat ?off < unat (total_length d) - unat off"
      using nx(1,2,4) by (simp add: word_le_nat_alt)
    note IH = less.hyps [OF this exchange_chunk [OF assms(1) less.prems False assms(3)]]
    have "(unat (total_length d) - unat off + unat acc - 1) div unat acc =
        Suc ((unat (total_length d) - unat ?off + unat acc - 1) div unat acc)"
    proof (cases "unat (total_length d) - unat off \<le> unat acc")
      case True
      then have off: "unat ?off = unat (total_length d)" using nx(2) le by (simp add: chunk_at_def)
      moreover have "(unat (total_length d) - unat off + unat acc - 1) div unat acc = 1"
        using True nx(1,2) off acc by (intro div_nat_eqI) simp_all
      ultimately show ?thesis using acc by simp
    next
      case False
      then have "unat ?off = unat off + unat acc" using nx(2) by (simp add: chunk_at_def)
      then have eq: "unat (total_length d) - unat off + unat acc - 1 =
          (unat (total_length d) - unat ?off + unat acc - 1) + unat acc"
        using False acc by simp
      have "unat acc \<noteq> 0" using acc by simp
      then show ?thesis unfolding eq Suc_eq_plus1 by (rule div_add_self2)
    qed
    then show ?thesis using IH by (simp add: funpow_swap1)
  qed
qed

text \<open>
  C37. A lossless exchange completes a transfer. With a sink that accepts every call, from whatever resume offset it
  asks for, and a network that delivers each message, the sender is in the state \<^verbatim>\<open>COMPLETED\<close> after one exchange for
  the start, one for each chunk that is left and one for the end, and the sink has stored and committed the object.
\<close>

theorem lossless_transfer_completes:
  assumes "wl_bulk_sender_start s0 d = (WL_BULK_OK, s)"
    "wl_bulk_receiver_init r0 cfg (u, []) = (WL_BULK_OK, r)" "rc_sink cfg = recording k"
    "accepting k resume" "resume_ok cfg d resume" "negotiate_chunk_size r d = Some acc"
    "length obj = unat (total_length d)" "a \<noteq> NULL"
    "n = (unat (total_length d) - unat resume + unat acc - 1) div unat acc"
  shows "sn_state (sy_sender ((exchange obj m a t ^^ (n + 2)) (initial_system s r))) = WL_BULK_SENDER_COMPLETED \<and>
    stored cfg obj d (calls (sy_receiver ((exchange obj m a t ^^ (n + 2)) (initial_system s r))))"
proof -
  let ?x = "exchange obj m a t"
  have sync: "synced k cfg d acc (total_length d) ((?x ^^ n) (?x (initial_system s r)))"
    unfolding assms(9) by (rule exchange_chunks [OF assms(4) exchange_begin [OF assms(4,1,2,3,6,5)] assms(8)])
  have "(?x ^^ (n + 2)) (initial_system s r) = ?x ((?x ^^ n) (?x (initial_system s r)))"
    by (simp add: funpow_swap1)
  with exchange_end [OF assms(4) sync]
  have c: "sn_state (sy_sender ((?x ^^ (n + 2)) (initial_system s r))) = WL_BULK_SENDER_COMPLETED" by simp
  have step: "system_inv obj d (?x y)" "rv_config (sy_receiver (?x y)) = rv_config (sy_receiver y)"
    if "system_inv obj d y" for y :: "'a bulk_system"
    using that by (simp_all add: exchange_def Let_def system_exec_inv del: system_exec.simps)
  have cfg: "rv_config (sy_receiver (initial_system s r)) = cfg"
    using receiver_init_inv(2) [OF assms(2,3)] by (simp add: initial_system_def)
  have "system_inv obj d ((?x ^^ i) (initial_system s r)) \<and> rv_config (sy_receiver ((?x ^^ i) (initial_system s r))) = cfg" for i
    using initial_system_inv [OF assms(1,2,3,7)] cfg by (induction i) (simp_all add: step)
  from this [of "n + 2"] have "stored cfg obj d (calls (sy_receiver ((?x ^^ (n + 2)) (initial_system s r))))"
    using c unfolding system_inv_def by metis
  with c show ?thesis by blast
qed

theorem lossless_transfer_completes_witness:
  "sn_state (sy_sender ((exchange demo_object (\<lambda>a. 0) 16 5 ^^ 4) (initial_system demo_sender demo_receiver))) =
     WL_BULK_SENDER_COMPLETED \<and>
   stored demo_bulk_config demo_object demo_descriptor
     (calls (sy_receiver ((exchange demo_object (\<lambda>a. 0) 16 5 ^^ 4) (initial_system demo_sender demo_receiver))))"
proof -
  have acc: "accepting demo_sink 0" by (simp add: accepting_def callbacks_def demo_sink_def)
  have res: "resume_ok demo_bulk_config demo_descriptor 0" by (simp add: resume_ok_def)
  have neg: "negotiate_chunk_size demo_receiver demo_descriptor = Some 2" by code_simp
  have n: "2 = (unat (total_length demo_descriptor) - unat (0 :: u64) + unat (2 :: u32) - 1) div unat (2 :: u32)"
    by (simp add: demo_descriptor_def)
  show ?thesis
    using lossless_transfer_completes [OF demo_sender_start demo_receiver_init demo_config_sink acc res neg
        demo_object_length _ n, of 16 "\<lambda>a. 0" 5] by simp
qed

end
