(* ===== verification/Bulk_Retained.thy ===== *)
theory Bulk_Retained
  imports Bulk_Lossless
begin

text \<open>
  Two fields of the bulk receiver outlive the transfer they belong to: \<^verbatim>\<open>terminal_code\<close> is not cleared when a new
  transfer is accepted, and \<^verbatim>\<open>next_offset\<close> is not cleared when a new transfer is refused. Both reach the peer in
  statuses of the new transfer.
\<close>

text \<open>The receiver after the application has published the status it holds.\<close>

definition published :: "'u wl_bulk_receiver \<Rightarrow> 'u wl_bulk_receiver" where
  "published r =
     receiver_exec (Status_Release \<lparr>vw_status = rv_pending_status r, vw_token = rv_status_token r\<rparr>)
       (receiver_exec Status_Acquire r)"

lemma published_eq:
  assumes "receiver_initialized r" "rv_status_pending r" "\<not> rv_status_acquired r"
  shows "published r = r\<lparr>rv_status_pending := False, rv_status_acquired := False\<rparr>"
  using assms
  by (simp add: published_def wl_bulk_receiver_status_acquire_def wl_bulk_receiver_status_release_def
      status_view_matches_def status_equal_def receiver_initialized_def)

lemma release_sink_fields [simp]:
  "rv_status_pending (release_sink r reason) = rv_status_pending r"
  "rv_magic (release_sink r reason) = rv_magic r"
  "rv_next_offset (release_sink r reason) = rv_next_offset r"
  "rv_status_token (release_sink r reason) = rv_status_token r"
  by (simp_all add: release_sink_def call_abort_def)

lemma negotiate_config: "rv_config r' = rv_config r \<Longrightarrow> negotiate_chunk_size r' d = negotiate_chunk_size r d"
  by (simp only: negotiate_chunk_size_def)

text \<open>The transfer after a failed one is accepted, and keeps the terminal code of the failed one.\<close>

lemma begin_after_failure:
  assumes "accepting k resume" "rc_sink (rv_config r) = recording k"
    "receiver_initialized r" "\<not> rv_status_pending r"
    "rv_state r = WL_BULK_RECEIVER_FAILED \<or> rv_state r = WL_BULK_RECEIVER_ABORTED"
    "transfer_id d \<noteq> transfer_id (rv_descriptor r)"
    "negotiate_chunk_size r d = Some acc" "resume_ok (rv_config r) d resume"
  shows "receiver_is k (rv_config r) d acc resume (receiver_exec (On_Begin d t) r)"
    "holds_status (ok_status d WL_BULK_PHASE_BEGIN resume acc) (receiver_exec (On_Begin d t) r)"
    "rv_terminal_code (receiver_exec (On_Begin d t) r) = rv_terminal_code r"
proof -
  let ?r = "release_sink r (wl_bulk_err_code WL_BULK_ERR_INVALID_STATE)"
  obtain u where cb: "call_begin ?r d = (WL_BULK_SINK_OK, resume, ?r\<lparr>rv_user := u\<rparr>)"
    using accepting_calls(1) [of k resume ?r d] assms(1,2) by auto
  have valid: "resume_offset_valid (?r\<lparr>rv_user := u, rv_descriptor := d, rv_accepted_chunk_size := acc,
      rv_last_activity_ms := t, rv_sink_active := True\<rparr>) resume"
    using assms(8) by (auto simp: resume_offset_valid_def resume_ok_def)
  have "\<not> descriptor_equal (rv_descriptor r) d" using assms(6) by (auto simp: descriptor_equal_def)
  then have "receiver_exec (On_Begin d t) r = snd (begin_session ?r d acc t)"
    using assms(3-7)
    by (auto simp: wl_bulk_receiver_on_begin_def require_input_slot_def simp del: wl_bulk_err_code.simps)
  then show "receiver_is k (rv_config r) d acc resume (receiver_exec (On_Begin d t) r)"
    "holds_status (ok_status d WL_BULK_PHASE_BEGIN resume acc) (receiver_exec (On_Begin d t) r)"
    "rv_terminal_code (receiver_exec (On_Begin d t) r) = rv_terminal_code r"
    using valid assms(2,3)
    by (simp_all add: begin_session_def cb Let_def receiver_is_def holds_status_def ok_status_def status_defs
        receiver_initialized_def del: wl_bulk_err_code.simps)
qed

lemma refused_begin:
  assumes "sender_is WL_BULK_SENDER_WAIT_STATUS d n WL_BULK_PHASE_BEGIN off s" "3 < c" "c \<le> WL_BULK_STATUS_TIMED_OUT"
  shows "sn_state (snd (wl_bulk_sender_on_status s \<lparr>bs_transfer_id = transfer_id d, bs_phase = WL_BULK_PHASE_BEGIN,
      bs_code = c, bs_next_offset = resume, bs_accepted_chunk_size = acc\<rparr> t)) \<in>
    {WL_BULK_SENDER_FAILED, WL_BULK_SENDER_ABORTED}"
  using assms
  by (simp add: wl_bulk_sender_on_status_def phase_valid_def status_code_valid_def sender_is_def
      status_is_stale_def status_chunk_size_matches_def on_status_current_def Let_def on_status_refused_def)

text \<open>
  C38. After a failed or aborted transfer, a lost status kills the next one. The receiver accepts the new
  transfer and reports \<^verbatim>\<open>OK\<close>, but it keeps the terminal code of the old transfer; when the status is lost and the
  sender repeats its \<open>begin\<close>, the receiver, still receiving, answers with that old code, and the sender gives up a
  transfer that nothing is wrong with.
\<close>

theorem retried_begin_reports_old_failure:
  assumes "accepting k resume" "rc_sink (rv_config r) = recording k"
    "receiver_initialized r" "\<not> rv_status_pending r"
    "rv_state r = WL_BULK_RECEIVER_FAILED \<or> rv_state r = WL_BULK_RECEIVER_ABORTED"
    "3 < rv_terminal_code r" "rv_terminal_code r \<le> WL_BULK_STATUS_TIMED_OUT"
    "transfer_id d \<noteq> transfer_id (rv_descriptor r)"
    "negotiate_chunk_size r d = Some acc" "resume_ok (rv_config r) d resume"
    "sender_is WL_BULK_SENDER_WAIT_STATUS d n WL_BULK_PHASE_BEGIN off s"
  shows "rv_pending_status (receiver_exec (On_Begin d t) r) = ok_status d WL_BULK_PHASE_BEGIN resume acc \<and>
    rv_state (receiver_exec (On_Begin d t') (published (receiver_exec (On_Begin d t) r))) = WL_BULK_RECEIVER_RECEIVING \<and>
    bs_code (rv_pending_status (receiver_exec (On_Begin d t') (published (receiver_exec (On_Begin d t) r)))) =
      rv_terminal_code r \<and>
    sn_state (snd (wl_bulk_sender_on_status s
      (rv_pending_status (receiver_exec (On_Begin d t') (published (receiver_exec (On_Begin d t) r)))) t')) \<in>
      {WL_BULK_SENDER_FAILED, WL_BULK_SENDER_ABORTED}"
proof -
  let ?r1 = "receiver_exec (On_Begin d t) r"
  note b = begin_after_failure [OF assms(1-5,8-10), of t]
  have r1: "receiver_initialized ?r1" "rv_status_pending ?r1" "\<not> rv_status_acquired ?r1"
    using b by (simp_all add: receiver_is_def holds_status_def del: receiver_exec.simps)
  have neg: "negotiate_chunk_size (?r1\<lparr>rv_status_pending := False, rv_status_acquired := False\<rparr>) d = Some acc"
    using assms(9) b(1) negotiate_config [of "?r1\<lparr>rv_status_pending := False, rv_status_acquired := False\<rparr>" r d]
    by (simp add: receiver_is_def del: receiver_exec.simps)
  have pend: "rv_pending_status (receiver_exec (On_Begin d t') (published ?r1)) =
      \<lparr>bs_transfer_id = transfer_id d, bs_phase = WL_BULK_PHASE_BEGIN, bs_code = rv_terminal_code r,
       bs_next_offset = resume, bs_accepted_chunk_size = acc\<rparr>"
    "rv_state (receiver_exec (On_Begin d t') (published ?r1)) = WL_BULK_RECEIVER_RECEIVING"
    unfolding published_eq [OF r1] receiver_exec.simps(1) [of d t']
    using r1(1) b neg
    by (simp_all add: wl_bulk_receiver_on_begin_def require_input_slot_def receiver_is_def descriptor_equal_def Let_def
        terminal_status_code_def receiver_initialized_def del: receiver_exec.simps)
  then show ?thesis
    using b(2) refused_begin [OF assms(11) assms(6,7)] by (simp add: holds_status_def del: receiver_exec.simps)
qed

text \<open>A receiver that was told to abort transfer 7, and a sender whose \<open>begin\<close> of transfer 9 is under way.\<close>

definition aborted_receiver :: "unit recorded wl_bulk_receiver" where
  "aborted_receiver =
     published (receiver_exec (On_Abort 7 0 2) (published (receiver_exec (On_Begin demo_descriptor 1) demo_receiver)))"

definition beginning_sender :: wl_bulk_sender where
  "beginning_sender = run_ops sender_exec
     [Sender_Start demo_object_descriptor, Action_Acquire, Action_Submitted demo_begin 100] demo_source"

theorem retried_begin_reports_old_failure_witness:
  "bs_code (rv_pending_status (receiver_exec (On_Begin demo_object_descriptor 4)
     (published (receiver_exec (On_Begin demo_object_descriptor 3) aborted_receiver)))) = WL_BULK_STATUS_ABORTED \<and>
   sn_state (snd (wl_bulk_sender_on_status beginning_sender (rv_pending_status (receiver_exec
     (On_Begin demo_object_descriptor 4) (published (receiver_exec (On_Begin demo_object_descriptor 3) aborted_receiver)))) 4)) \<in>
     {WL_BULK_SENDER_FAILED, WL_BULK_SENDER_ABORTED}"
proof -
  have acc: "accepting demo_sink 0" by (simp add: accepting_def callbacks_def demo_sink_def)
  have cfg: "rv_config aborted_receiver = demo_bulk_config"
    using receiver_init_inv(2) [OF demo_receiver_init demo_config_sink]
    by (simp add: aborted_receiver_def published_def del: receiver_exec.simps)
  have code: "rv_terminal_code aborted_receiver = WL_BULK_STATUS_ABORTED" by code_simp
  have sink: "rc_sink (rv_config aborted_receiver) = recording demo_sink" by (simp add: cfg demo_config_sink)
  have res: "resume_ok (rv_config aborted_receiver) demo_object_descriptor 0" by (simp add: resume_ok_def)
  have r: "receiver_initialized aborted_receiver" "\<not> rv_status_pending aborted_receiver"
    "rv_state aborted_receiver = WL_BULK_RECEIVER_FAILED \<or> rv_state aborted_receiver = WL_BULK_RECEIVER_ABORTED"
    "transfer_id demo_object_descriptor \<noteq> transfer_id (rv_descriptor aborted_receiver)"
    "negotiate_chunk_size aborted_receiver demo_object_descriptor = Some 2"
    "sender_is WL_BULK_SENDER_WAIT_STATUS demo_object_descriptor 0 WL_BULK_PHASE_BEGIN 0 beginning_sender"
    by code_simp+
  have "3 < rv_terminal_code aborted_receiver" "rv_terminal_code aborted_receiver \<le> WL_BULK_STATUS_TIMED_OUT"
    by (simp_all add: code)
  from retried_begin_reports_old_failure [OF acc sink r(1,2,3) this r(4,5) res r(6), of 3 4]
  show ?thesis unfolding code by blast
qed

section \<open>The offset of a refused transfer\<close>

lemma begin_refused:
  assumes "receiver_initialized r" "\<not> rv_status_pending r" "rv_state r = WL_BULK_RECEIVER_COMPLETED"
    "transfer_id d \<noteq> transfer_id (rv_descriptor r)" "negotiate_chunk_size r d = Some acc"
    "fst (call_begin (release_sink r (wl_bulk_err_code WL_BULK_ERR_INVALID_STATE)) d) = WL_BULK_SINK_WRITE_FAILED"
  shows "rv_next_offset (receiver_exec (On_Begin d t) r) = rv_next_offset r"
    "rv_state (receiver_exec (On_Begin d t) r) = WL_BULK_RECEIVER_FAILED"
    "rv_descriptor (receiver_exec (On_Begin d t) r) = d"
    "rv_accepted_chunk_size (receiver_exec (On_Begin d t) r) = acc"
    "receiver_initialized (receiver_exec (On_Begin d t) r)" "rv_status_pending (receiver_exec (On_Begin d t) r)"
    "\<not> rv_status_acquired (receiver_exec (On_Begin d t) r)"
proof -
  let ?r = "release_sink r (wl_bulk_err_code WL_BULK_ERR_INVALID_STATE)"
  obtain off r1 where cb: "call_begin ?r d = (WL_BULK_SINK_WRITE_FAILED, off, r1)"
    using assms(6) by (metis prod.collapse)
  then have r1: "rv_next_offset r1 = rv_next_offset r" "rv_magic r1 = rv_magic r"
    by (auto simp: call_begin_def split: prod.splits)
  have "\<not> descriptor_equal (rv_descriptor r) d" using assms(4) by (auto simp: descriptor_equal_def)
  then have "receiver_exec (On_Begin d t) r = snd (begin_session ?r d acc t)"
    using assms(1-5)
    by (auto simp: wl_bulk_receiver_on_begin_def require_input_slot_def simp del: wl_bulk_err_code.simps)
  then show "rv_next_offset (receiver_exec (On_Begin d t) r) = rv_next_offset r"
    "rv_state (receiver_exec (On_Begin d t) r) = WL_BULK_RECEIVER_FAILED"
    "rv_descriptor (receiver_exec (On_Begin d t) r) = d"
    "rv_accepted_chunk_size (receiver_exec (On_Begin d t) r) = acc"
    "receiver_initialized (receiver_exec (On_Begin d t) r)" "rv_status_pending (receiver_exec (On_Begin d t) r)"
    "\<not> rv_status_acquired (receiver_exec (On_Begin d t) r)"
    using assms(1) r1
    by (simp_all add: begin_session_def cb Let_def sink_failure_code_def status_defs enter_failure_def
        receiver_initialized_def del: wl_bulk_err_code.simps)
qed

text \<open>
  C39. After a completed transfer, a refused one cannot be aborted cleanly. When the sink refuses the start of a
  new transfer, the receiver keeps the final offset of the completed one and reports it in the answer to the
  abort of the new one; if the new object is shorter, its sender takes the answer for a protocol violation and ends
  as failed, not aborted.
\<close>

theorem abort_of_refused_transfer_reports_old_offset:
  assumes "receiver_initialized r" "\<not> rv_status_pending r" "rv_state r = WL_BULK_RECEIVER_COMPLETED"
    "transfer_id d \<noteq> transfer_id (rv_descriptor r)" "negotiate_chunk_size r d = Some acc"
    "fst (call_begin (release_sink r (wl_bulk_err_code WL_BULK_ERR_INVALID_STATE)) d) = WL_BULK_SINK_WRITE_FAILED"
    "total_length d < rv_next_offset r"
    "sender_is WL_BULK_SENDER_WAIT_STATUS d n WL_BULK_PHASE_ABORT off s"
  shows "rv_pending_status (receiver_exec (On_Abort (transfer_id d) reason t') (published (receiver_exec (On_Begin d t) r))) =
      \<lparr>bs_transfer_id = transfer_id d, bs_phase = WL_BULK_PHASE_ABORT, bs_code = WL_BULK_STATUS_ABORTED,
       bs_next_offset = rv_next_offset r, bs_accepted_chunk_size = acc\<rparr> \<and>
    sn_state (snd (wl_bulk_sender_on_status s (rv_pending_status (receiver_exec (On_Abort (transfer_id d) reason t')
      (published (receiver_exec (On_Begin d t) r)))) t')) = WL_BULK_SENDER_FAILED"
proof -
  note b = begin_refused [OF assms(1-6), of t]
  have tid: "transfer_id d \<noteq> 0" using negotiate_some(1) [OF assms(5)] by (simp add: descriptor_ok_def)
  have frame: "rv_next_offset (call_abort x i j) = rv_next_offset x"
    "rv_accepted_chunk_size (call_abort x i j) = rv_accepted_chunk_size x" for x :: "'a wl_bulk_receiver" and i j
    by (simp_all add: call_abort_def)
  have pend: "rv_pending_status (receiver_exec (On_Abort (transfer_id d) reason t') (published (receiver_exec (On_Begin d t) r))) =
      \<lparr>bs_transfer_id = transfer_id d, bs_phase = WL_BULK_PHASE_ABORT, bs_code = WL_BULK_STATUS_ABORTED,
       bs_next_offset = rv_next_offset r, bs_accepted_chunk_size = acc\<rparr>"
    unfolding published_eq [OF b(5-7)] receiver_exec.simps(4)
    using b tid
    by (simp add: wl_bulk_receiver_on_abort_def require_input_slot_def Let_def receiver_initialized_def frame
        del: receiver_exec.simps)
  then show ?thesis
    using assms(7,8)
    by (simp add: wl_bulk_sender_on_status_def phase_valid_def status_code_valid_def sender_is_def
        on_status_terminal_def terminal_status_valid_def del: receiver_exec.simps)
qed

text \<open>A sink that refuses transfer 8, after it has stored the three bytes of transfer 7.\<close>

definition picky_sink :: "unit wl_bulk_sink" where
  "picky_sink = demo_sink\<lparr>sk_begin :=
     Some (\<lambda>u d. (if transfer_id d = 8 then WL_BULK_SINK_WRITE_FAILED else WL_BULK_SINK_OK, 0, u))\<rparr>"

definition picky_receiver :: "unit recorded wl_bulk_receiver" where
  "picky_receiver = run_ops receiver_exec demo_transfer
     (snd (wl_bulk_receiver_init blank_receiver (demo_bulk_config\<lparr>rc_sink := recording picky_sink\<rparr>) ((), [])))"

definition short_descriptor :: wl_bulk_descriptor where
  "short_descriptor = \<lparr>transfer_id = 8, total_length = 1, requested_chunk_size = 4, object_crc32c = 0\<rparr>"

definition aborting_sender :: wl_bulk_sender where
  "aborting_sender = run_ops sender_exec
     [Sender_Start short_descriptor, Request_Abort 0, Action_Acquire, Action_Submitted \<lparr>ac_phase = WL_BULK_PHASE_ABORT,
        ac_descriptor = short_descriptor, ac_offset = 0, ac_length = 0, ac_abort_reason = 0, ac_token = 1\<rparr> 100] demo_source"

theorem abort_of_refused_transfer_reports_old_offset_witness:
  "sn_state (snd (wl_bulk_sender_on_status aborting_sender (rv_pending_status (receiver_exec (On_Abort 8 0 6)
      (published (receiver_exec (On_Begin short_descriptor 5) picky_receiver)))) 6)) = WL_BULK_SENDER_FAILED"
proof -
  have r: "receiver_initialized picky_receiver" "\<not> rv_status_pending picky_receiver"
    "rv_state picky_receiver = WL_BULK_RECEIVER_COMPLETED"
    "transfer_id short_descriptor \<noteq> transfer_id (rv_descriptor picky_receiver)"
    "negotiate_chunk_size picky_receiver short_descriptor = Some 2"
    "fst (call_begin (release_sink picky_receiver (wl_bulk_err_code WL_BULK_ERR_INVALID_STATE)) short_descriptor) =
      WL_BULK_SINK_WRITE_FAILED"
    "total_length short_descriptor < rv_next_offset picky_receiver"
    "sender_is WL_BULK_SENDER_WAIT_STATUS short_descriptor 0 WL_BULK_PHASE_ABORT 0 aborting_sender"
    by code_simp+
  have tid: "transfer_id short_descriptor = 8" by (simp add: short_descriptor_def)
  show ?thesis using abort_of_refused_transfer_reports_old_offset [OF r, of 0 6 5] unfolding tid by blast
qed

end
