(* ===== verification/Types.thy ===== *)
theory Types
  imports Prelude
begin

text \<open>
  The numeric values of the link errors and their texts, \<^verbatim>\<open>wirelink/types.h\<close> and \<^verbatim>\<open>src/types.c\<close>. The rest of
  the library names errors by the constructors of \<open>wl_err\<close>; their numbers matter where an error travels as
  an integer, in the link result of a remote call and in this text table.
\<close>

fun wl_err_code :: "wl_err \<Rightarrow> int" where
  "wl_err_code WL_OK = 0"
| "wl_err_code WL_ERR_INVALID_ARG = -1"
| "wl_err_code WL_ERR_NOT_INITIALIZED = -2"
| "wl_err_code WL_ERR_NOT_SUPPORTED = -3"
| "wl_err_code WL_ERR_NO_MEM = -10"
| "wl_err_code WL_ERR_BUF_TOO_SMALL = -11"
| "wl_err_code WL_ERR_NO_SPACE = -12"
| "wl_err_code WL_ERR_NO_DATA = -13"
| "wl_err_code WL_ERR_BAD_FRAME = -20"
| "wl_err_code WL_ERR_COBS_DECODE = -21"
| "wl_err_code WL_ERR_CRC = -22"
| "wl_err_code WL_ERR_FRAME_TOO_LONG = -23"
| "wl_err_code WL_ERR_BUSY = -30"
| "wl_err_code WL_ERR_TIMEOUT = -31"
| "wl_err_code WL_ERR_TX_FAILED = -32"
| "wl_err_code WL_ERR_INVALID_STATE = -33"
| "wl_err_code WL_ERR_WOULD_BLOCK = -34"
| "wl_err_code WL_ERR_QUEUE_FULL = -35"
| "wl_err_code WL_ERR_NOT_FOUND = -36"
| "wl_err_code WL_ERR_PAYLOAD_TOO_LONG = -37"
| "wl_err_code WL_ERR_IO = -38"
| "wl_err_code WL_ERR_CANCELLED = -39"
| "wl_err_code WL_ERR_PROTOCOL_VERSION = -40"
| "wl_err_code WL_ERR_REENTRANT = -41"
| "wl_err_code WL_ERR_ID_EXHAUSTED = -42"
| "wl_err_code WL_ERR_CORRUPT_PAYLOAD = -50"

definition wl_err_str :: "int \<Rightarrow> string" where
  "wl_err_str err =
     (if err = wl_err_code WL_OK then ''Success (WL_OK)''
      else if err = wl_err_code WL_ERR_INVALID_ARG then ''Invalid argument (WL_ERR_INVALID_ARG)''
      else if err = wl_err_code WL_ERR_NOT_INITIALIZED then ''Not initialized (WL_ERR_NOT_INITIALIZED)''
      else if err = wl_err_code WL_ERR_NOT_SUPPORTED then ''Not supported (WL_ERR_NOT_SUPPORTED)''
      else if err = wl_err_code WL_ERR_NO_MEM then ''Out of memory (WL_ERR_NO_MEM)''
      else if err = wl_err_code WL_ERR_BUF_TOO_SMALL then ''Buffer too small (WL_ERR_BUF_TOO_SMALL)''
      else if err = wl_err_code WL_ERR_NO_SPACE then ''Insufficient contiguous buffer space (WL_ERR_NO_SPACE)''
      else if err = wl_err_code WL_ERR_NO_DATA then ''Insufficient readable buffer data (WL_ERR_NO_DATA)''
      else if err = wl_err_code WL_ERR_BAD_FRAME then ''Bad frame format (WL_ERR_BAD_FRAME)''
      else if err = wl_err_code WL_ERR_COBS_DECODE then ''COBS decode failed (WL_ERR_COBS_DECODE)''
      else if err = wl_err_code WL_ERR_CRC then ''CRC mismatch (WL_ERR_CRC)''
      else if err = wl_err_code WL_ERR_FRAME_TOO_LONG then ''Frame too long (WL_ERR_FRAME_TOO_LONG)''
      else if err = wl_err_code WL_ERR_BUSY then ''Resource busy (WL_ERR_BUSY)''
      else if err = wl_err_code WL_ERR_TIMEOUT then ''Transaction timeout (WL_ERR_TIMEOUT)''
      else if err = wl_err_code WL_ERR_TX_FAILED then ''Transmission failed (WL_ERR_TX_FAILED)''
      else if err = wl_err_code WL_ERR_INVALID_STATE then ''Invalid state (WL_ERR_INVALID_STATE)''
      else if err = wl_err_code WL_ERR_WOULD_BLOCK then ''Operation would block (WL_ERR_WOULD_BLOCK)''
      else if err = wl_err_code WL_ERR_QUEUE_FULL then ''Queue or slot is full (WL_ERR_QUEUE_FULL)''
      else if err = wl_err_code WL_ERR_NOT_FOUND then ''Object not found (WL_ERR_NOT_FOUND)''
      else if err = wl_err_code WL_ERR_PAYLOAD_TOO_LONG then ''Payload exceeds configured limit (WL_ERR_PAYLOAD_TOO_LONG)''
      else if err = wl_err_code WL_ERR_IO then ''I/O path error (WL_ERR_IO)''
      else if err = wl_err_code WL_ERR_CANCELLED then ''Operation cancelled (WL_ERR_CANCELLED)''
      else if err = wl_err_code WL_ERR_PROTOCOL_VERSION then ''Unsupported frame version (WL_ERR_PROTOCOL_VERSION)''
      else if err = wl_err_code WL_ERR_REENTRANT then ''Callback re-entry or concurrent access (WL_ERR_REENTRANT)''
      else if err = wl_err_code WL_ERR_ID_EXHAUSTED then ''Communication identity exhausted (WL_ERR_ID_EXHAUSTED)''
      else if err = wl_err_code WL_ERR_CORRUPT_PAYLOAD then ''Corrupt payload (WL_ERR_CORRUPT_PAYLOAD)''
      else ''Unknown error'')"

lemma wl_err_code_inject: "wl_err_code e = wl_err_code e' \<longleftrightarrow> e = e'"
  by (cases e; cases e'; simp)

lemma wl_err_code_zero: "wl_err_code e = 0 \<longleftrightarrow> e = WL_OK"
  by (cases e) simp_all

text \<open>Every error has a text, and it is not the one for an unknown number.\<close>

lemma wl_err_str_known: "wl_err_str (wl_err_code e) \<noteq> ''Unknown error''"
  by (cases e) (simp_all add: wl_err_str_def)

end
