(* ===== verification/Rpc_Client.thy ===== *)
theory Rpc_Client
  imports Link_Context Types
begin

text \<open>
  The client side of remote calls, the first half of \<^verbatim>\<open>src/rpc.c\<close> with the types of \<^verbatim>\<open>wirelink/rpc.h\<close>.
  A client keeps a fixed number of slots, one for each call that has not been released. A call is named
  by its operation identifier or by a handle, which carries the generation of its slot.

  The slot array the caller provides is the list \<open>cl_slots\<close>, as long as \<^verbatim>\<open>slot_count\<close> says. The address of
  the client object, which handles record as their owner, is the field \<open>cl_self\<close>. Pointers to the
  client, to handles and to output arguments are not null; flags of type \<^verbatim>\<open>uint8_t\<close> are booleans.
\<close>

section \<open>Types\<close>

datatype wl_rpc_err =
    WL_RPC_OK | WL_RPC_ERR_INVALID_ARG | WL_RPC_ERR_NOT_INITIALIZED | WL_RPC_ERR_NO_SLOT
  | WL_RPC_ERR_OPERATION_CONFLICT | WL_RPC_ERR_NOT_FOUND | WL_RPC_ERR_INVALID_STATE
  | WL_RPC_ERR_RESPONSE_MISMATCH | WL_RPC_ERR_RESPONSE_TOO_LARGE | WL_RPC_ERR_CACHE_FULL
  | WL_RPC_ERR_MALFORMED_METADATA | WL_RPC_ERR_SESSION_MISMATCH | WL_RPC_ERR_ID_EXHAUSTED

fun wl_rpc_err_code :: "wl_rpc_err \<Rightarrow> int" where
  "wl_rpc_err_code WL_RPC_OK = 0"
| "wl_rpc_err_code WL_RPC_ERR_INVALID_ARG = -1000"
| "wl_rpc_err_code WL_RPC_ERR_NOT_INITIALIZED = -1001"
| "wl_rpc_err_code WL_RPC_ERR_NO_SLOT = -1002"
| "wl_rpc_err_code WL_RPC_ERR_OPERATION_CONFLICT = -1003"
| "wl_rpc_err_code WL_RPC_ERR_NOT_FOUND = -1004"
| "wl_rpc_err_code WL_RPC_ERR_INVALID_STATE = -1005"
| "wl_rpc_err_code WL_RPC_ERR_RESPONSE_MISMATCH = -1006"
| "wl_rpc_err_code WL_RPC_ERR_RESPONSE_TOO_LARGE = -1007"
| "wl_rpc_err_code WL_RPC_ERR_CACHE_FULL = -1008"
| "wl_rpc_err_code WL_RPC_ERR_MALFORMED_METADATA = -1009"
| "wl_rpc_err_code WL_RPC_ERR_SESSION_MISMATCH = -1010"
| "wl_rpc_err_code WL_RPC_ERR_ID_EXHAUSTED = -1011"

datatype wl_rpc_client_state =
    WL_RPC_CLIENT_FREE | WL_RPC_CLIENT_QUEUED | WL_RPC_CLIENT_LINK_PENDING
  | WL_RPC_CLIENT_WAIT_RESPONSE | WL_RPC_CLIENT_COMPLETED | WL_RPC_CLIENT_LINK_FAILED
  | WL_RPC_CLIENT_TIMED_OUT | WL_RPC_CLIENT_CANCELLED | WL_RPC_CLIENT_APPLICATION_ERROR

record wl_rpc_client_config =
  rcc_slots :: addr
  rcc_slot_count :: u16
  rcc_next_operation_id :: u32

record wl_rpc_client_slot =
  cs_generation :: u64
  cs_operation_id :: u32
  cs_started_at :: u32
  cs_timeout_ms :: u32
  cs_tx_handle :: u32
  cs_link_result :: int
  cs_application_status :: int
  cs_runtime_error :: wl_rpc_err
  cs_state :: wl_rpc_client_state
  cs_request_message_id :: u16
  cs_response_message_id :: u16
  cs_link_delivery_confirmed :: bool

record wl_rpc_client =
  cl_self :: addr
  cl_slots :: "wl_rpc_client_slot list"
  cl_next_generation :: u64
  cl_next_operation_id :: u32
  cl_magic :: u32
  cl_slot_count :: u16
  cl_allocated_count :: u16

text \<open>A handle and the authority to commit a response have the same contents.\<close>

record wl_rpc_client_handle =
  h_owner :: addr
  h_generation :: u64
  h_index :: u16

record wl_rpc_client_result =
  cr_operation_id :: u32
  cr_request_message_id :: u16
  cr_response_message_id :: u16
  cr_state :: wl_rpc_client_state
  cr_tx_handle :: u32
  cr_link_result :: int
  cr_application_status :: int
  cr_runtime_error :: wl_rpc_err
  cr_link_delivery_confirmed :: bool
  cr_result_index :: u16
  cr_response_valid :: bool

abbreviation (input) WL_RPC_CLIENT_MAGIC :: u32 where "WL_RPC_CLIENT_MAGIC \<equiv> 0x52504343"
abbreviation (input) WL_RPC_MAX_INTERVAL :: u32 where "WL_RPC_MAX_INTERVAL \<equiv> 0x80000000"
abbreviation (input) WL_RPC_NO_DEADLINE_MS :: u32 where "WL_RPC_NO_DEADLINE_MS \<equiv> UINT32_MAX"

definition zero_call :: wl_rpc_client_slot where
  "zero_call = \<lparr>cs_generation = 0, cs_operation_id = 0, cs_started_at = 0, cs_timeout_ms = 0,
     cs_tx_handle = 0, cs_link_result = 0, cs_application_status = 0, cs_runtime_error = WL_RPC_OK,
     cs_state = WL_RPC_CLIENT_FREE, cs_request_message_id = 0, cs_response_message_id = 0,
     cs_link_delivery_confirmed = False\<rparr>"

section \<open>Time and search\<close>

definition rpc_interval_valid :: "u32 \<Rightarrow> bool" where
  "rpc_interval_valid interval_ms \<longleftrightarrow> interval_ms < WL_RPC_MAX_INTERVAL"

definition rpc_elapsed :: "u32 \<Rightarrow> u32 \<Rightarrow> u32 \<Rightarrow> bool" where
  "rpc_elapsed now started_at interval_ms \<longleftrightarrow> interval_ms \<noteq> 0 \<and> now - started_at \<ge> interval_ms"

definition rpc_deadline_remaining :: "u32 \<Rightarrow> u32 \<Rightarrow> u32 \<Rightarrow> u32" where
  "rpc_deadline_remaining now started_at interval_ms =
     (let age = now - started_at in if age \<ge> interval_ms then 0 else interval_ms - age)"

text \<open>The searches over a slot array: the index of the first element that satisfies the condition.\<close>

fun index_of :: "('a \<Rightarrow> bool) \<Rightarrow> 'a list \<Rightarrow> nat option" where
  "index_of P [] = None"
| "index_of P (x # xs) = (if P x then Some 0 else map_option Suc (index_of P xs))"

definition client_initialized :: "wl_rpc_client \<Rightarrow> bool" where
  "client_initialized c \<longleftrightarrow> cl_magic c = WL_RPC_CLIENT_MAGIC"

definition client_terminal :: "wl_rpc_client_state \<Rightarrow> bool" where
  "client_terminal s \<longleftrightarrow>
     s = WL_RPC_CLIENT_COMPLETED \<or> s = WL_RPC_CLIENT_LINK_FAILED \<or> s = WL_RPC_CLIENT_TIMED_OUT \<or>
     s = WL_RPC_CLIENT_CANCELLED \<or> s = WL_RPC_CLIENT_APPLICATION_ERROR"

definition client_find :: "wl_rpc_client \<Rightarrow> u32 \<Rightarrow> nat option" where
  "client_find c operation_id =
     index_of (\<lambda>s. cs_state s \<noteq> WL_RPC_CLIENT_FREE \<and> cs_operation_id s = operation_id) (cl_slots c)"

definition client_find_free :: "wl_rpc_client \<Rightarrow> nat option" where
  "client_find_free c = index_of (\<lambda>s. cs_state s = WL_RPC_CLIENT_FREE) (cl_slots c)"

definition put_call :: "wl_rpc_client \<Rightarrow> nat \<Rightarrow> wl_rpc_client_slot \<Rightarrow> wl_rpc_client" where
  "put_call c i s = c\<lparr>cl_slots := (cl_slots c)[i := s]\<rparr>"

definition wl_rpc_err_str :: "int \<Rightarrow> string" where
  "wl_rpc_err_str e =
     (if e = wl_rpc_err_code WL_RPC_OK then ''ok''
      else if e = wl_rpc_err_code WL_RPC_ERR_INVALID_ARG then ''invalid argument''
      else if e = wl_rpc_err_code WL_RPC_ERR_NOT_INITIALIZED then ''not initialized''
      else if e = wl_rpc_err_code WL_RPC_ERR_NO_SLOT then ''no free slot''
      else if e = wl_rpc_err_code WL_RPC_ERR_OPERATION_CONFLICT then ''operation conflict''
      else if e = wl_rpc_err_code WL_RPC_ERR_NOT_FOUND then ''not found''
      else if e = wl_rpc_err_code WL_RPC_ERR_INVALID_STATE then ''invalid state''
      else if e = wl_rpc_err_code WL_RPC_ERR_RESPONSE_MISMATCH then ''response mismatch''
      else if e = wl_rpc_err_code WL_RPC_ERR_RESPONSE_TOO_LARGE then ''response too large''
      else if e = wl_rpc_err_code WL_RPC_ERR_CACHE_FULL then ''response cache full''
      else if e = wl_rpc_err_code WL_RPC_ERR_MALFORMED_METADATA then ''malformed RPC metadata''
      else if e = wl_rpc_err_code WL_RPC_ERR_SESSION_MISMATCH then ''RPC session mismatch''
      else if e = wl_rpc_err_code WL_RPC_ERR_ID_EXHAUSTED then ''RPC operation identities exhausted''
      else ''unknown rpc error'')"

section \<open>Operations\<close>

definition wl_rpc_client_init :: "wl_rpc_client \<Rightarrow> wl_rpc_client_config \<Rightarrow> wl_rpc_err \<times> wl_rpc_client" where
  "wl_rpc_client_init c config =
     (if rcc_slots config = NULL \<or> rcc_slot_count config = 0 then (WL_RPC_ERR_INVALID_ARG, c)
      else (WL_RPC_OK,
        \<lparr>cl_self = cl_self c, cl_slots = replicate (unat (rcc_slot_count config)) zero_call,
         cl_next_generation = 1,
         cl_next_operation_id = (if rcc_next_operation_id config = 0 then 1 else rcc_next_operation_id config),
         cl_magic = WL_RPC_CLIENT_MAGIC, cl_slot_count = rcc_slot_count config, cl_allocated_count = 0\<rparr>))"

definition wl_rpc_client_begin_with_id ::
    "wl_rpc_client \<Rightarrow> u32 \<Rightarrow> u16 \<Rightarrow> u16 \<Rightarrow> u32 \<Rightarrow> u32 \<Rightarrow> wl_rpc_err \<times> wl_rpc_client" where
  "wl_rpc_client_begin_with_id c operation_id request_id response_id timeout_ms now =
     (if \<not> client_initialized c then (WL_RPC_ERR_NOT_INITIALIZED, c)
      else if operation_id = 0 \<or> request_id = 0 \<or> response_id = 0 \<or> \<not> rpc_interval_valid timeout_ms
      then (WL_RPC_ERR_INVALID_ARG, c)
      else if cl_next_generation c = 0 then (WL_RPC_ERR_NO_SLOT, c)
      else if client_find c operation_id \<noteq> None then (WL_RPC_ERR_OPERATION_CONFLICT, c)
      else case client_find_free c of
             None \<Rightarrow> (WL_RPC_ERR_NO_SLOT, c)
           | Some i \<Rightarrow>
               (WL_RPC_OK,
                (put_call c i (zero_call\<lparr>cs_generation := cl_next_generation c, cs_operation_id := operation_id,
                   cs_request_message_id := request_id, cs_response_message_id := response_id,
                   cs_started_at := now, cs_timeout_ms := timeout_ms, cs_state := WL_RPC_CLIENT_QUEUED,
                   cs_runtime_error := WL_RPC_OK\<rparr>))
                \<lparr>cl_next_generation := cl_next_generation c + 1,
                 cl_allocated_count := cl_allocated_count c + 1\<rparr>))"

text \<open>The search for an unused identifier, with the number of attempts that are left.\<close>

fun begin_search :: "nat \<Rightarrow> wl_rpc_client \<Rightarrow> u32 \<Rightarrow> wl_rpc_err + u32" where
  "begin_search 0 c candidate = Inl WL_RPC_ERR_NO_SLOT"
| "begin_search (Suc attempts) c candidate =
     (if candidate = 0 then Inl WL_RPC_ERR_ID_EXHAUSTED
      else if client_find c candidate = None then Inr candidate
      else begin_search attempts c (candidate + 1))"

definition wl_rpc_client_begin ::
    "wl_rpc_client \<Rightarrow> u16 \<Rightarrow> u16 \<Rightarrow> u32 \<Rightarrow> u32 \<Rightarrow> (wl_rpc_err + u32) \<times> wl_rpc_client" where
  "wl_rpc_client_begin c request_id response_id timeout_ms now =
     (if \<not> client_initialized c then (Inl WL_RPC_ERR_NOT_INITIALIZED, c)
      else if cl_next_operation_id c = 0 then (Inl WL_RPC_ERR_ID_EXHAUSTED, c)
      else case begin_search (unat (cl_slot_count c) + 1) c (cl_next_operation_id c) of
             Inl e \<Rightarrow> (Inl e, c)
           | Inr candidate \<Rightarrow>
               let (error, c') = wl_rpc_client_begin_with_id c candidate request_id response_id timeout_ms now
               in if error \<noteq> WL_RPC_OK then (Inl error, c')
                  else (Inr candidate, c'\<lparr>cl_next_operation_id := candidate + 1\<rparr>))"

text \<open>The guard that most operations on one call share: the index of the call's slot.\<close>

definition call_index :: "wl_rpc_client \<Rightarrow> u32 \<Rightarrow> wl_rpc_err + nat" where
  "call_index c operation_id =
     (if \<not> client_initialized c then Inl WL_RPC_ERR_NOT_INITIALIZED
      else if operation_id = 0 then Inl WL_RPC_ERR_INVALID_ARG
      else case client_find c operation_id of None \<Rightarrow> Inl WL_RPC_ERR_NOT_FOUND | Some i \<Rightarrow> Inr i)"

definition wl_rpc_client_bind_tx :: "wl_rpc_client \<Rightarrow> u32 \<Rightarrow> u32 \<Rightarrow> wl_rpc_err \<times> wl_rpc_client" where
  "wl_rpc_client_bind_tx c operation_id handle =
     (if \<not> client_initialized c then (WL_RPC_ERR_NOT_INITIALIZED, c)
      else if operation_id = 0 \<or> handle = 0 then (WL_RPC_ERR_INVALID_ARG, c)
      else case client_find c operation_id of
             None \<Rightarrow> (WL_RPC_ERR_NOT_FOUND, c)
           | Some i \<Rightarrow>
               let slot = cl_slots c ! i
               in if cs_state slot \<noteq> WL_RPC_CLIENT_QUEUED then (WL_RPC_ERR_INVALID_STATE, c)
                  else if \<exists>j \<in> set [0..<length (cl_slots c)]. j \<noteq> i \<and>
                            cs_state (cl_slots c ! j) = WL_RPC_CLIENT_LINK_PENDING \<and>
                            cs_tx_handle (cl_slots c ! j) = handle
                  then (WL_RPC_ERR_OPERATION_CONFLICT, c)
                  else (WL_RPC_OK, put_call c i
                          (slot\<lparr>cs_tx_handle := handle, cs_state := WL_RPC_CLIENT_LINK_PENDING\<rparr>)))"

definition wl_rpc_client_tx_completed :: "wl_rpc_client \<Rightarrow> u32 \<Rightarrow> wl_rpc_err \<times> wl_rpc_client" where
  "wl_rpc_client_tx_completed c operation_id =
     (case call_index c operation_id of
        Inl e \<Rightarrow> (e, c)
      | Inr i \<Rightarrow>
          let slot = cl_slots c ! i
          in if cs_state slot \<noteq> WL_RPC_CLIENT_QUEUED then (WL_RPC_ERR_INVALID_STATE, c)
             else (WL_RPC_OK, put_call c i
                     (slot\<lparr>cs_link_delivery_confirmed := False, cs_state := WL_RPC_CLIENT_WAIT_RESPONSE\<rparr>)))"

definition wl_rpc_client_link_failed :: "wl_rpc_client \<Rightarrow> u32 \<Rightarrow> int \<Rightarrow> wl_rpc_err \<times> wl_rpc_client" where
  "wl_rpc_client_link_failed c operation_id link_result =
     (if \<not> client_initialized c then (WL_RPC_ERR_NOT_INITIALIZED, c)
      else if operation_id = 0 \<or> link_result = wl_err_code WL_OK then (WL_RPC_ERR_INVALID_ARG, c)
      else case client_find c operation_id of
             None \<Rightarrow> (WL_RPC_ERR_NOT_FOUND, c)
           | Some i \<Rightarrow>
               let slot = cl_slots c ! i
               in if cs_state slot \<noteq> WL_RPC_CLIENT_QUEUED \<and> cs_state slot \<noteq> WL_RPC_CLIENT_LINK_PENDING
                  then (WL_RPC_ERR_INVALID_STATE, c)
                  else (WL_RPC_OK, put_call c i
                          (slot\<lparr>cs_link_result := link_result, cs_state := WL_RPC_CLIENT_LINK_FAILED\<rparr>)))"

definition wl_rpc_client_on_tx_event :: "wl_rpc_client \<Rightarrow> wl_event \<Rightarrow> wl_rpc_err \<times> wl_rpc_client" where
  "wl_rpc_client_on_tx_event c event =
     (if \<not> client_initialized c then (WL_RPC_ERR_NOT_INITIALIZED, c)
      else if ev_handle event = 0 \<or>
              (ev_type event \<noteq> WL_EVT_TX_SUCCESS \<and> ev_type event \<noteq> WL_EVT_TX_TIMEOUT \<and>
               ev_type event \<noteq> WL_EVT_TX_FAILED)
      then (WL_RPC_ERR_INVALID_ARG, c)
      else case index_of (\<lambda>s. cs_state s = WL_RPC_CLIENT_LINK_PENDING \<and> cs_tx_handle s = ev_handle event)
                  (cl_slots c) of
             None \<Rightarrow> (WL_RPC_ERR_NOT_FOUND, c)
           | Some i \<Rightarrow>
               let slot = cl_slots c ! i
               in if ev_type event = WL_EVT_TX_SUCCESS
                  then (WL_RPC_OK, put_call c i
                          (slot\<lparr>cs_link_result := ev_io_result event, cs_link_delivery_confirmed := True,
                                cs_state := WL_RPC_CLIENT_WAIT_RESPONSE\<rparr>))
                  else
                    let result = (if ev_io_result event = wl_err_code WL_OK
                                  then wl_err_code (if ev_type event = WL_EVT_TX_TIMEOUT
                                                    then WL_ERR_TIMEOUT else WL_ERR_TX_FAILED)
                                  else ev_io_result event)
                    in (WL_RPC_OK, put_call c i
                          (slot\<lparr>cs_link_result := result, cs_state := WL_RPC_CLIENT_LINK_FAILED\<rparr>)))"

definition call_pending :: "wl_rpc_client_slot \<Rightarrow> bool" where
  "call_pending s \<longleftrightarrow>
     cs_state s = WL_RPC_CLIENT_QUEUED \<or> cs_state s = WL_RPC_CLIENT_LINK_PENDING \<or>
     cs_state s = WL_RPC_CLIENT_WAIT_RESPONSE"

definition call_overdue :: "u32 \<Rightarrow> wl_rpc_client_slot \<Rightarrow> bool" where
  "call_overdue now s \<longleftrightarrow> call_pending s \<and> rpc_elapsed now (cs_started_at s) (cs_timeout_ms s)"

text \<open>The result of a poll is the number of calls that timed out.\<close>

definition wl_rpc_client_poll :: "wl_rpc_client \<Rightarrow> u32 \<Rightarrow> (wl_rpc_err + u16) \<times> wl_rpc_client" where
  "wl_rpc_client_poll c now =
     (if \<not> client_initialized c then (Inl WL_RPC_ERR_NOT_INITIALIZED, c)
      else if cl_allocated_count c = 0 then (Inr 0, c)
      else (Inr (of_nat (length (filter (call_overdue now) (cl_slots c)))),
            c\<lparr>cl_slots := map (\<lambda>s. if call_overdue now s then s\<lparr>cs_state := WL_RPC_CLIENT_TIMED_OUT\<rparr> else s)
                 (cl_slots c)\<rparr>))"

fun nearest_deadline :: "u32 \<Rightarrow> wl_rpc_client_slot list \<Rightarrow> u32 \<Rightarrow> u32" where
  "nearest_deadline now [] nearest = nearest"
| "nearest_deadline now (s # slots) nearest =
     (if cs_timeout_ms s = 0 \<or> \<not> call_pending s then nearest_deadline now slots nearest
      else
        let remaining = rpc_deadline_remaining now (cs_started_at s) (cs_timeout_ms s)
        in nearest_deadline now slots (if remaining < nearest then remaining else nearest))"

definition wl_rpc_client_get_deadline_hint :: "wl_rpc_client \<Rightarrow> u32 \<Rightarrow> wl_rpc_err + u32" where
  "wl_rpc_client_get_deadline_hint c now =
     (if \<not> client_initialized c then Inl WL_RPC_ERR_NOT_INITIALIZED
      else if cl_allocated_count c = 0 then Inr WL_RPC_NO_DEADLINE_MS
      else Inr (nearest_deadline now (cl_slots c) WL_RPC_NO_DEADLINE_MS))"

definition cancel_call :: "wl_rpc_client \<Rightarrow> nat \<Rightarrow> wl_rpc_err \<times> wl_rpc_client" where
  "cancel_call c i =
     (if client_terminal (cs_state (cl_slots c ! i)) then (WL_RPC_ERR_INVALID_STATE, c)
      else (WL_RPC_OK, put_call c i ((cl_slots c ! i)\<lparr>cs_state := WL_RPC_CLIENT_CANCELLED\<rparr>)))"

definition wl_rpc_client_cancel :: "wl_rpc_client \<Rightarrow> u32 \<Rightarrow> wl_rpc_err \<times> wl_rpc_client" where
  "wl_rpc_client_cancel c operation_id =
     (case call_index c operation_id of Inl e \<Rightarrow> (e, c) | Inr i \<Rightarrow> cancel_call c i)"

definition client_result :: "wl_rpc_client_slot \<Rightarrow> nat \<Rightarrow> wl_rpc_client_result" where
  "client_result slot index =
     \<lparr>cr_operation_id = cs_operation_id slot, cr_request_message_id = cs_request_message_id slot,
      cr_response_message_id = cs_response_message_id slot, cr_state = cs_state slot,
      cr_tx_handle = cs_tx_handle slot, cr_link_result = cs_link_result slot,
      cr_application_status = cs_application_status slot, cr_runtime_error = cs_runtime_error slot,
      cr_link_delivery_confirmed = cs_link_delivery_confirmed slot, cr_result_index = of_nat index,
      cr_response_valid = (cs_state slot = WL_RPC_CLIENT_COMPLETED)\<rparr>"

definition wl_rpc_client_get :: "wl_rpc_client \<Rightarrow> u32 \<Rightarrow> wl_rpc_err + wl_rpc_client_result" where
  "wl_rpc_client_get c operation_id =
     (case call_index c operation_id of
        Inl e \<Rightarrow> Inl e
      | Inr i \<Rightarrow> Inr (client_result (cl_slots c ! i) i))"

definition call_handle :: "wl_rpc_client \<Rightarrow> nat \<Rightarrow> wl_rpc_client_handle" where
  "call_handle c i =
     \<lparr>h_owner = cl_self c, h_generation = cs_generation (cl_slots c ! i), h_index = of_nat i\<rparr>"

definition wl_rpc_client_get_handle :: "wl_rpc_client \<Rightarrow> u32 \<Rightarrow> wl_rpc_err + wl_rpc_client_handle" where
  "wl_rpc_client_get_handle c operation_id =
     (case call_index c operation_id of Inl e \<Rightarrow> Inl e | Inr i \<Rightarrow> Inr (call_handle c i))"

definition client_handle_index :: "wl_rpc_client \<Rightarrow> wl_rpc_client_handle \<Rightarrow> wl_rpc_err + nat" where
  "client_handle_index c handle =
     (if \<not> client_initialized c then Inl WL_RPC_ERR_NOT_INITIALIZED
      else if h_owner handle \<noteq> cl_self c \<or> h_generation handle = 0 \<or> h_index handle \<ge> cl_slot_count c
      then Inl WL_RPC_ERR_INVALID_ARG
      else
        let slot = cl_slots c ! unat (h_index handle)
        in if cs_state slot = WL_RPC_CLIENT_FREE \<or> cs_generation slot \<noteq> h_generation handle
           then Inl WL_RPC_ERR_NOT_FOUND
           else Inr (unat (h_index handle)))"

definition awaits_response :: "wl_rpc_client_slot \<Rightarrow> bool" where
  "awaits_response s \<longleftrightarrow>
     cs_state s = WL_RPC_CLIENT_LINK_PENDING \<or> cs_state s = WL_RPC_CLIENT_WAIT_RESPONSE"

definition wl_rpc_client_response_prepare ::
    "wl_rpc_client \<Rightarrow> u16 \<Rightarrow> u16 \<Rightarrow> u32 \<Rightarrow> u32 \<Rightarrow>
     (wl_rpc_err + wl_rpc_client_handle \<times> u16) \<times> wl_rpc_client" where
  "wl_rpc_client_response_prepare c request_id response_id operation_id now =
     (if request_id = 0 \<or> response_id = 0 then (Inl WL_RPC_ERR_INVALID_ARG, c)
      else case call_index c operation_id of
             Inl e \<Rightarrow> (Inl e, c)
           | Inr i \<Rightarrow>
               let slot = cl_slots c ! i
               in if cs_request_message_id slot \<noteq> request_id \<or> cs_response_message_id slot \<noteq> response_id
                  then (Inl WL_RPC_ERR_RESPONSE_MISMATCH, c)
                  else if \<not> awaits_response slot then (Inl WL_RPC_ERR_INVALID_STATE, c)
                  else if rpc_elapsed now (cs_started_at slot) (cs_timeout_ms slot)
                  then (Inl WL_RPC_ERR_INVALID_STATE,
                        put_call c i (slot\<lparr>cs_state := WL_RPC_CLIENT_TIMED_OUT\<rparr>))
                  else (Inr (call_handle c i, of_nat i), c))"

definition wl_rpc_client_response_commit ::
    "wl_rpc_client \<Rightarrow> wl_rpc_client_handle \<Rightarrow> int \<Rightarrow> u32 \<Rightarrow> wl_rpc_err \<times> wl_rpc_client" where
  "wl_rpc_client_response_commit c authority application_status now =
     (case client_handle_index c authority of
        Inl e \<Rightarrow> (e, c)
      | Inr i \<Rightarrow>
          let slot = cl_slots c ! i
          in if \<not> awaits_response slot then (WL_RPC_ERR_INVALID_STATE, c)
             else if rpc_elapsed now (cs_started_at slot) (cs_timeout_ms slot)
             then (WL_RPC_ERR_INVALID_STATE, put_call c i (slot\<lparr>cs_state := WL_RPC_CLIENT_TIMED_OUT\<rparr>))
             else (WL_RPC_OK, put_call c i
                     (slot\<lparr>cs_application_status := application_status,
                           cs_state := (if application_status = 0 then WL_RPC_CLIENT_COMPLETED
                                        else WL_RPC_CLIENT_APPLICATION_ERROR)\<rparr>)))"

definition wl_rpc_client_state_by_handle ::
    "wl_rpc_client \<Rightarrow> wl_rpc_client_handle \<Rightarrow> wl_rpc_err + wl_rpc_client_state" where
  "wl_rpc_client_state_by_handle c handle =
     (case client_handle_index c handle of Inl e \<Rightarrow> Inl e | Inr i \<Rightarrow> Inr (cs_state (cl_slots c ! i)))"

definition wl_rpc_client_get_by_handle ::
    "wl_rpc_client \<Rightarrow> wl_rpc_client_handle \<Rightarrow> wl_rpc_err + wl_rpc_client_result" where
  "wl_rpc_client_get_by_handle c handle =
     (case client_handle_index c handle of
        Inl e \<Rightarrow> Inl e
      | Inr i \<Rightarrow> Inr (client_result (cl_slots c ! i) i))"

definition wl_rpc_client_cancel_handle ::
    "wl_rpc_client \<Rightarrow> wl_rpc_client_handle \<Rightarrow> wl_rpc_err \<times> wl_rpc_client" where
  "wl_rpc_client_cancel_handle c handle =
     (case client_handle_index c handle of Inl e \<Rightarrow> (e, c) | Inr i \<Rightarrow> cancel_call c i)"

definition release_call :: "wl_rpc_client \<Rightarrow> nat \<Rightarrow> wl_rpc_err \<times> wl_rpc_client" where
  "release_call c i =
     (if \<not> client_terminal (cs_state (cl_slots c ! i)) then (WL_RPC_ERR_INVALID_STATE, c)
      else (WL_RPC_OK, (put_call c i zero_call)\<lparr>cl_allocated_count := cl_allocated_count c - 1\<rparr>))"

definition wl_rpc_client_release_handle ::
    "wl_rpc_client \<Rightarrow> wl_rpc_client_handle \<Rightarrow> wl_rpc_err \<times> wl_rpc_client" where
  "wl_rpc_client_release_handle c handle =
     (case client_handle_index c handle of Inl e \<Rightarrow> (e, c) | Inr i \<Rightarrow> release_call c i)"

definition wl_rpc_client_release :: "wl_rpc_client \<Rightarrow> u32 \<Rightarrow> wl_rpc_err \<times> wl_rpc_client" where
  "wl_rpc_client_release c operation_id =
     (case call_index c operation_id of Inl e \<Rightarrow> (e, c) | Inr i \<Rightarrow> release_call c i)"

section \<open>Searches\<close>

lemma index_of_None [simp]: "index_of P xs = None \<longleftrightarrow> (\<forall>x \<in> set xs. \<not> P x)"
  by (induction xs) auto

lemma index_of_SomeD:
  assumes "index_of P xs = Some i"
  shows "i < length xs" "P (xs ! i)" "\<And>j. j < i \<Longrightarrow> \<not> P (xs ! j)"
  using assms
proof (induction xs arbitrary: i)
  case (Cons x xs)
  { case 1 then show ?case using Cons by (auto split: if_splits) }
  { case 2 then show ?case using Cons by (auto split: if_splits) }
  { case 3 then show ?case using Cons by (auto split: if_splits simp: less_Suc_eq_0_disj) }
qed simp_all

lemma put_call_simps [simp]:
  "cl_self (put_call c i s) = cl_self c" "cl_slots (put_call c i s) = (cl_slots c)[i := s]"
  "cl_next_generation (put_call c i s) = cl_next_generation c"
  "cl_next_operation_id (put_call c i s) = cl_next_operation_id c"
  "cl_magic (put_call c i s) = cl_magic c" "cl_slot_count (put_call c i s) = cl_slot_count c"
  "cl_allocated_count (put_call c i s) = cl_allocated_count c"
  by (simp_all add: put_call_def)

end
