(* ===== verification/Rpc_Calls.thy ===== *)
theory Rpc_Calls
  imports Channel Rpc_Client
begin

text \<open>
  What a remote call goes through. The operations of a client are the steps of a machine, and every one
  of them is a step of an abstract relation: a call opens, a finished call is released, or calls
  advance through their states. From this follow the invariant of the slot array, the life of every
  call, and that a handle or a response authority only ever reaches the call it was made for.
\<close>

section \<open>Operations\<close>

datatype client_op =
    Call_begin_with_id u32 u16 u16 u32 u32 | Call_begin u16 u16 u32 u32 | Call_bind_tx u32 u32
  | Call_tx_completed u32 | Call_link_failed u32 int | Call_tx_event wl_event
  | Call_prepare u16 u16 u32 u32 | Call_commit wl_rpc_client_handle int u32 | Call_poll u32
  | Call_cancel u32 | Call_cancel_handle wl_rpc_client_handle | Call_release u32
  | Call_release_handle wl_rpc_client_handle

fun client_exec :: "client_op \<Rightarrow> wl_rpc_client \<Rightarrow> wl_rpc_client" where
  "client_exec (Call_begin_with_id oid rq rs tmo now) c = snd (wl_rpc_client_begin_with_id c oid rq rs tmo now)"
| "client_exec (Call_begin rq rs tmo now) c = snd (wl_rpc_client_begin c rq rs tmo now)"
| "client_exec (Call_bind_tx oid h) c = snd (wl_rpc_client_bind_tx c oid h)"
| "client_exec (Call_tx_completed oid) c = snd (wl_rpc_client_tx_completed c oid)"
| "client_exec (Call_link_failed oid e) c = snd (wl_rpc_client_link_failed c oid e)"
| "client_exec (Call_tx_event ev) c = snd (wl_rpc_client_on_tx_event c ev)"
| "client_exec (Call_prepare rq rs oid now) c = snd (wl_rpc_client_response_prepare c rq rs oid now)"
| "client_exec (Call_commit a st now) c = snd (wl_rpc_client_response_commit c a st now)"
| "client_exec (Call_poll now) c = snd (wl_rpc_client_poll c now)"
| "client_exec (Call_cancel oid) c = snd (wl_rpc_client_cancel c oid)"
| "client_exec (Call_cancel_handle h) c = snd (wl_rpc_client_cancel_handle c h)"
| "client_exec (Call_release oid) c = snd (wl_rpc_client_release c oid)"
| "client_exec (Call_release_handle h) c = snd (wl_rpc_client_release_handle c h)"

section \<open>The life of a call\<close>

abbreviation retained :: "wl_rpc_client_slot \<Rightarrow> bool" where
  "retained s \<equiv> cs_state s \<noteq> WL_RPC_CLIENT_FREE"

text \<open>The order in which a call passes through its states; every final state has the last rank.\<close>

fun state_rank :: "wl_rpc_client_state \<Rightarrow> nat" where
  "state_rank WL_RPC_CLIENT_FREE = 0"
| "state_rank WL_RPC_CLIENT_QUEUED = 1"
| "state_rank WL_RPC_CLIENT_LINK_PENDING = 2"
| "state_rank WL_RPC_CLIENT_WAIT_RESPONSE = 3"
| "state_rank _ = 4"

definition same_call :: "wl_rpc_client_slot \<Rightarrow> wl_rpc_client_slot \<Rightarrow> bool" where
  "same_call s s' \<longleftrightarrow> cs_generation s' = cs_generation s \<and> cs_operation_id s' = cs_operation_id s \<and>
     cs_request_message_id s' = cs_request_message_id s \<and> cs_response_message_id s' = cs_response_message_id s \<and>
     cs_started_at s' = cs_started_at s \<and> cs_timeout_ms s' = cs_timeout_ms s"

definition advances :: "wl_rpc_client_slot \<Rightarrow> wl_rpc_client_slot \<Rightarrow> bool" where
  "advances s s' \<longleftrightarrow> s' = s \<or>
     same_call s s' \<and> call_pending s \<and> state_rank (cs_state s) < state_rank (cs_state s')"

definition new_call :: "wl_rpc_client \<Rightarrow> wl_rpc_client_slot \<Rightarrow> bool" where
  "new_call c s \<longleftrightarrow> cs_generation s = cl_next_generation c \<and> cl_next_generation c \<noteq> 0 \<and>
     cs_state s = WL_RPC_CLIENT_QUEUED \<and> cs_operation_id s \<noteq> 0 \<and> client_find c (cs_operation_id s) = None \<and>
     cs_request_message_id s \<noteq> 0 \<and> cs_response_message_id s \<noteq> 0 \<and> rpc_interval_valid (cs_timeout_ms s)"

inductive client_step :: "wl_rpc_client \<Rightarrow> wl_rpc_client \<Rightarrow> bool" where
  advance: "list_all2 advances (cl_slots c) slots \<Longrightarrow> client_step c (c\<lparr>cl_slots := slots\<rparr>)"
| opened: "i < length (cl_slots c) \<Longrightarrow> \<not> retained (cl_slots c ! i) \<Longrightarrow> new_call c s \<Longrightarrow>
    client_step c (c\<lparr>cl_slots := (cl_slots c)[i := s], cl_next_generation := cl_next_generation c + 1,
      cl_allocated_count := cl_allocated_count c + 1, cl_next_operation_id := oid\<rparr>)"
| released: "i < length (cl_slots c) \<Longrightarrow> client_terminal (cs_state (cl_slots c ! i)) \<Longrightarrow>
    client_step c (c\<lparr>cl_slots := (cl_slots c)[i := zero_call], cl_allocated_count := cl_allocated_count c - 1\<rparr>)"

text \<open>A generation has been given to a call; the counter stops at zero when it wraps.\<close>

definition born :: "wl_rpc_client \<Rightarrow> u64 \<Rightarrow> bool" where
  "born c g \<longleftrightarrow> g \<noteq> 0 \<and> (cl_next_generation c = 0 \<or> g < cl_next_generation c)"

definition call_ok :: "wl_rpc_client \<Rightarrow> wl_rpc_client_slot \<Rightarrow> bool" where
  "call_ok c s \<longleftrightarrow> born c (cs_generation s) \<and> cs_operation_id s \<noteq> 0 \<and> cs_request_message_id s \<noteq> 0 \<and>
     cs_response_message_id s \<noteq> 0 \<and> rpc_interval_valid (cs_timeout_ms s)"

definition client_inv :: "wl_rpc_client \<Rightarrow> bool" where
  "client_inv c \<longleftrightarrow> client_initialized c \<and> length (cl_slots c) = unat (cl_slot_count c) \<and>
     cl_allocated_count c = of_nat (length (filter retained (cl_slots c))) \<and>
     (\<forall>s \<in> set (cl_slots c). retained s \<longrightarrow> call_ok c s) \<and>
     (\<forall>i < length (cl_slots c). \<forall>j < length (cl_slots c).
        retained (cl_slots c ! i) \<and> retained (cl_slots c ! j) \<and>
        (cs_generation (cl_slots c ! i) = cs_generation (cl_slots c ! j) \<or>
         cs_operation_id (cl_slots c ! i) = cs_operation_id (cl_slots c ! j)) \<longrightarrow> i = j)"

section \<open>Every operation is a step\<close>

lemma advances_refl [simp]: "advances s s"
  by (simp add: advances_def)

lemma client_step_idle [simp]: "client_step c c"
  using client_step.advance [of c "cl_slots c"] by (simp add: list.rel_refl)

lemma client_step_put:
  assumes "i < length (cl_slots c) \<Longrightarrow> advances (cl_slots c ! i) s"
  shows "client_step c (put_call c i s)"
proof -
  have "list_all2 advances (cl_slots c) ((cl_slots c)[i := s])"
    using assms by (cases "i < length (cl_slots c)") (auto simp: list_all2_conv_all_nth nth_list_update)
  from client_step.advance [OF this] show ?thesis by (simp add: put_call_def)
qed

lemma client_find_SomeD:
  assumes "client_find c oid = Some i"
  shows "i < length (cl_slots c)" "retained (cl_slots c ! i)" "cs_operation_id (cl_slots c ! i) = oid"
  using index_of_SomeD [of _ "cl_slots c" i] assms by (auto simp: client_find_def)

lemma call_index_InrD:
  assumes "call_index c oid = Inr i"
  shows "client_initialized c" "oid \<noteq> 0" "client_find c oid = Some i" "i < length (cl_slots c)"
    "retained (cl_slots c ! i)" "cs_operation_id (cl_slots c ! i) = oid"
  using assms client_find_SomeD [of c oid i] by (auto simp: call_index_def split: if_splits option.splits)

lemma client_handle_index_InrD:
  assumes "client_handle_index c h = Inr i" "length (cl_slots c) = unat (cl_slot_count c)"
  shows "i < length (cl_slots c)" "i = unat (h_index h)" "retained (cl_slots c ! i)"
    "cs_generation (cl_slots c ! i) = h_generation h" "h_owner h = cl_self c"
  using assms by (auto simp: client_handle_index_def Let_def not_le word_less_nat_alt split: if_splits)

lemma terminal_rank: "client_terminal st \<longleftrightarrow> state_rank st = 4"
  by (cases st) (simp_all add: client_terminal_def)

lemma pending_iff: "call_pending s \<longleftrightarrow> retained s \<and> \<not> client_terminal (cs_state s)"
  by (cases "cs_state s") (simp_all add: client_terminal_def call_pending_def)

lemma pending_rank: "call_pending s \<longleftrightarrow> state_rank (cs_state s) \<in> {1, 2, 3}"
  by (cases "cs_state s") (simp_all add: call_pending_def)

lemma awaits_response_pending: "awaits_response s \<Longrightarrow> call_pending s"
  by (auto simp: awaits_response_def call_pending_def)

lemma advances_to:
  assumes "call_pending s" "state_rank (cs_state s) < state_rank (cs_state s')" "same_call s s'"
  shows "advances s s'"
  using assms by (simp add: advances_def)

lemma advances_terminal:
  assumes "call_pending s" "client_terminal (cs_state s')" "same_call s s'"
  shows "advances s s'"
  using assms pending_rank [of s] by (auto simp: advances_def terminal_rank)

lemma cancel_call_step:
  assumes "retained (cl_slots c ! i)" shows "client_step c (snd (cancel_call c i))"
  using assms by (auto simp: cancel_call_def pending_iff same_call_def client_terminal_def
      intro!: client_step_put advances_terminal)

lemma release_call_step:
  assumes "i < length (cl_slots c)" shows "client_step c (snd (release_call c i))"
  using client_step.released [OF assms] by (auto simp: release_call_def put_call_def)

lemma begin_with_id_step:
  assumes "fst (wl_rpc_client_begin_with_id c oid rq rs tmo now) = WL_RPC_OK"
  shows "\<exists>i s. i < length (cl_slots c) \<and> \<not> retained (cl_slots c ! i) \<and> new_call c s \<and>
    snd (wl_rpc_client_begin_with_id c oid rq rs tmo now) =
      c\<lparr>cl_slots := (cl_slots c)[i := s], cl_next_generation := cl_next_generation c + 1,
        cl_allocated_count := cl_allocated_count c + 1\<rparr>"
proof -
  obtain i where i: "client_find_free c = Some i"
    using assms by (auto simp: wl_rpc_client_begin_with_id_def split: if_splits option.splits)
  then have "i < length (cl_slots c)" "\<not> retained (cl_slots c ! i)"
    using index_of_SomeD [of _ "cl_slots c" i] by (auto simp: client_find_free_def)
  moreover have "snd (wl_rpc_client_begin_with_id c oid rq rs tmo now) =
      c\<lparr>cl_slots := (cl_slots c)[i := s], cl_next_generation := cl_next_generation c + 1,
        cl_allocated_count := cl_allocated_count c + 1\<rparr> \<and> new_call c s"
    if "s = zero_call\<lparr>cs_generation := cl_next_generation c, cs_operation_id := oid,
                   cs_request_message_id := rq, cs_response_message_id := rs,
                   cs_started_at := now, cs_timeout_ms := tmo, cs_state := WL_RPC_CLIENT_QUEUED,
                   cs_runtime_error := WL_RPC_OK\<rparr>" for s
    using assms i that
    by (auto simp: wl_rpc_client_begin_with_id_def new_call_def put_call_def split: if_splits)
  ultimately show ?thesis by blast
qed

lemma begin_with_id_fails:
  "fst (wl_rpc_client_begin_with_id c oid rq rs tmo now) \<noteq> WL_RPC_OK \<Longrightarrow>
   snd (wl_rpc_client_begin_with_id c oid rq rs tmo now) = c"
  by (auto simp: wl_rpc_client_begin_with_id_def split: if_splits option.splits)

lemma wl_rpc_client_begin_with_id_step: "client_step c (snd (wl_rpc_client_begin_with_id c oid rq rs tmo now))"
proof (cases "fst (wl_rpc_client_begin_with_id c oid rq rs tmo now) = WL_RPC_OK")
  case True
  from begin_with_id_step [OF this] show ?thesis
    using client_step.opened [of _ c _ "cl_next_operation_id c"] by auto
qed (simp add: begin_with_id_fails)

lemma wl_rpc_client_begin_step: "client_step c (snd (wl_rpc_client_begin c rq rs tmo now))"
proof -
  have "client_step c ((snd (wl_rpc_client_begin_with_id c oid rq rs tmo now))\<lparr>cl_next_operation_id := oid'\<rparr>)"
    if "fst (wl_rpc_client_begin_with_id c oid rq rs tmo now) = WL_RPC_OK" for oid oid'
    using begin_with_id_step [OF that] client_step.opened [of _ c _ oid'] by fastforce
  then show ?thesis
    using wl_rpc_client_begin_with_id_step
    by (auto simp: wl_rpc_client_begin_def case_prod_beta Let_def split: sum.split)
qed

lemma bind_tx_step: "client_step c (snd (wl_rpc_client_bind_tx c oid h))"
  by (auto simp: wl_rpc_client_bind_tx_def Let_def call_pending_def same_call_def split: option.split
      intro!: client_step_put advances_to)

lemma tx_completed_step: "client_step c (snd (wl_rpc_client_tx_completed c oid))"
  by (auto simp: wl_rpc_client_tx_completed_def Let_def call_pending_def same_call_def split: sum.split
      intro!: client_step_put advances_to)

lemma link_failed_step: "client_step c (snd (wl_rpc_client_link_failed c oid e))"
  by (auto simp: wl_rpc_client_link_failed_def Let_def call_pending_def same_call_def client_terminal_def
      split: option.split intro!: client_step_put advances_terminal)

lemma on_tx_event_step: "client_step c (snd (wl_rpc_client_on_tx_event c ev))"
proof -
  have pending: "cs_state (cl_slots c ! i) = WL_RPC_CLIENT_LINK_PENDING"
    if "index_of (\<lambda>s. cs_state s = WL_RPC_CLIENT_LINK_PENDING \<and> cs_tx_handle s = h) (cl_slots c) = Some i" for i h
    using index_of_SomeD(2) [OF that] by simp
  show ?thesis
    by (auto simp: wl_rpc_client_on_tx_event_def Let_def call_pending_def same_call_def client_terminal_def
        split: option.split dest!: pending intro!: client_step_put advances_to)
qed

lemma timed_out_advances: "call_pending s \<Longrightarrow> advances s (s\<lparr>cs_state := WL_RPC_CLIENT_TIMED_OUT\<rparr>)"
  by (rule advances_terminal) (simp_all add: same_call_def client_terminal_def)

lemma response_prepare_step: "client_step c (snd (wl_rpc_client_response_prepare c rq rs oid now))"
  by (auto simp: wl_rpc_client_response_prepare_def Let_def split: sum.split
      intro!: client_step_put timed_out_advances awaits_response_pending)

lemma response_commit_step: "client_step c (snd (wl_rpc_client_response_commit c a st now))"
  by (auto simp: wl_rpc_client_response_commit_def Let_def same_call_def client_terminal_def split: sum.split
      intro!: client_step_put timed_out_advances awaits_response_pending advances_terminal)

lemma poll_step: "client_step c (snd (wl_rpc_client_poll c now))"
proof -
  have "list_all2 advances (cl_slots c)
      (map (\<lambda>s. if call_overdue now s then s\<lparr>cs_state := WL_RPC_CLIENT_TIMED_OUT\<rparr> else s) (cl_slots c))"
    by (auto simp: list_all2_conv_all_nth call_overdue_def timed_out_advances)
  from client_step.advance [OF this] show ?thesis by (simp add: wl_rpc_client_poll_def)
qed

lemma client_exec_step:
  assumes "length (cl_slots c) = unat (cl_slot_count c)"
  shows "client_step c (client_exec op c)"
proof (cases op)
  case (Call_cancel oid)
  then show ?thesis
    by (auto simp: wl_rpc_client_cancel_def split: sum.split dest: call_index_InrD intro: cancel_call_step)
next
  case (Call_cancel_handle h)
  then show ?thesis
    using client_handle_index_InrD [OF _ assms]
    by (auto simp: wl_rpc_client_cancel_handle_def split: sum.split intro: cancel_call_step)
next
  case (Call_release oid)
  then show ?thesis
    by (auto simp: wl_rpc_client_release_def split: sum.split dest: call_index_InrD intro: release_call_step)
next
  case (Call_release_handle h)
  then show ?thesis
    using client_handle_index_InrD [OF _ assms]
    by (auto simp: wl_rpc_client_release_handle_def split: sum.split intro: release_call_step)
qed (simp_all add: wl_rpc_client_begin_with_id_step wl_rpc_client_begin_step bind_tx_step tx_completed_step
    link_failed_step on_tx_event_step response_prepare_step response_commit_step poll_step)

section \<open>The invariant\<close>

lemma length_filter_cong:
  "list_all2 (\<lambda>x y. P x = P y) xs ys \<Longrightarrow> length (filter P ys) = length (filter P xs)"
  by (induction rule: list_all2_induct) auto

lemma advances_retained: "advances s s' \<Longrightarrow> retained s = retained s'"
  by (cases "cs_state s'") (auto simp: advances_def call_pending_def)

lemma advances_same: "advances s s' \<Longrightarrow> same_call s s'"
  by (auto simp: advances_def same_call_def)

lemma advances_trans: "advances s s' \<Longrightarrow> advances s' s'' \<Longrightarrow> advances s s''"
  by (auto simp: advances_def same_call_def)

lemma word_less_succ: "x + 1 \<noteq> 0 \<Longrightarrow> (x :: u64) < x + 1"
  using unatSuc [of x] by (simp add: word_less_nat_alt add.commute)

lemma born_next: "cl_next_generation c \<noteq> 0 \<Longrightarrow> born c g \<Longrightarrow>
  born (c\<lparr>cl_slots := ss, cl_next_generation := cl_next_generation c + 1, cl_allocated_count := n,
    cl_next_operation_id := oid\<rparr>) g"
  using word_less_succ [of "cl_next_generation c"] by (auto simp: born_def dest: less_trans)

lemma born_new: "cl_next_generation c \<noteq> 0 \<Longrightarrow>
  born (c\<lparr>cl_slots := ss, cl_next_generation := cl_next_generation c + 1, cl_allocated_count := n,
    cl_next_operation_id := oid\<rparr>) (cl_next_generation c)"
  using word_less_succ [of "cl_next_generation c"] by (auto simp: born_def)

lemma not_born_next: "cl_next_generation c \<noteq> 0 \<Longrightarrow> \<not> born c (cl_next_generation c)"
  by (simp add: born_def)

lemma client_invD:
  assumes "client_inv c"
  shows "client_initialized c" "length (cl_slots c) = unat (cl_slot_count c)"
    "cl_allocated_count c = of_nat (length (filter retained (cl_slots c)))"
    "\<And>i. i < length (cl_slots c) \<Longrightarrow> retained (cl_slots c ! i) \<Longrightarrow> call_ok c (cl_slots c ! i)"
    "\<And>i j. i < length (cl_slots c) \<Longrightarrow> j < length (cl_slots c) \<Longrightarrow> retained (cl_slots c ! i) \<Longrightarrow>
       retained (cl_slots c ! j) \<Longrightarrow> cs_generation (cl_slots c ! i) = cs_generation (cl_slots c ! j) \<or>
         cs_operation_id (cl_slots c ! i) = cs_operation_id (cl_slots c ! j) \<Longrightarrow> i = j"
  using assms unfolding client_inv_def by auto

lemma client_invI:
  assumes "client_initialized c" "length (cl_slots c) = unat (cl_slot_count c)"
    "cl_allocated_count c = of_nat (length (filter retained (cl_slots c)))"
    "\<And>i. i < length (cl_slots c) \<Longrightarrow> retained (cl_slots c ! i) \<Longrightarrow> call_ok c (cl_slots c ! i)"
    "\<And>i j. i < length (cl_slots c) \<Longrightarrow> j < length (cl_slots c) \<Longrightarrow> retained (cl_slots c ! i) \<Longrightarrow>
       retained (cl_slots c ! j) \<Longrightarrow> cs_generation (cl_slots c ! i) = cs_generation (cl_slots c ! j) \<or>
         cs_operation_id (cl_slots c ! i) = cs_operation_id (cl_slots c ! j) \<Longrightarrow> i = j"
  shows "client_inv c"
  using assms unfolding client_inv_def by (auto simp: in_set_conv_nth)

lemma advance_inv:
  assumes "client_inv c" "list_all2 advances (cl_slots c) slots"
  shows "client_inv (c\<lparr>cl_slots := slots\<rparr>)"
proof -
  note inv = client_invD [OF assms(1)]
  have len: "length slots = length (cl_slots c)" using assms(2) by (simp add: list_all2_lengthD)
  have key: "retained (slots ! k) = retained (cl_slots c ! k)" "same_call (cl_slots c ! k) (slots ! k)"
    if "k < length (cl_slots c)" for k
    using assms(2) that advances_retained advances_same by (auto simp: list_all2_conv_all_nth)
  have "list_all2 (\<lambda>x y. retained x = retained y) (cl_slots c) slots"
    by (rule list_all2_mono [OF assms(2)]) (rule advances_retained)
  then have count: "length (filter retained slots) = length (filter retained (cl_slots c))"
    by (rule length_filter_cong)
  show ?thesis
  proof (rule client_invI, goal_cases)
    case (4 i)
    then show ?case
      using key [of i] inv(4) [of i] len by (simp add: call_ok_def same_call_def born_def)
  next
    case (5 i j)
    then show ?case using key [of i] key [of j] inv(5) [of i j] len by (simp add: same_call_def)
  qed (use inv(1-3) count len in \<open>simp_all add: client_initialized_def\<close>)
qed

lemma opened_inv:
  assumes "client_inv c" "i < length (cl_slots c)" "\<not> retained (cl_slots c ! i)" "new_call c s"
  shows "client_inv (c\<lparr>cl_slots := (cl_slots c)[i := s], cl_next_generation := cl_next_generation c + 1,
      cl_allocated_count := cl_allocated_count c + 1, cl_next_operation_id := oid\<rparr>)"
proof -
  note inv = client_invD [OF assms(1)]
  have fresh: "cs_generation (cl_slots c ! k) \<noteq> cs_generation s" "cs_operation_id (cl_slots c ! k) \<noteq> cs_operation_id s"
    if "k < length (cl_slots c)" "retained (cl_slots c ! k)" for k
    using inv(4) [OF that] assms(4) that by (auto simp: new_call_def call_ok_def born_def client_find_def)
  have count: "length (filter retained ((cl_slots c)[i := s])) = Suc (length (filter retained (cl_slots c)))"
    using length_filter_update [OF assms(2), of retained s] assms(3,4) by (simp add: new_call_def)
  have ok: "call_ok (c\<lparr>cl_slots := ss, cl_next_generation := cl_next_generation c + 1,
      cl_allocated_count := n, cl_next_operation_id := oid\<rparr>) x" if "call_ok c x \<or> x = s" for ss n x
    using that assms(4) born_next [of c] born_new [of c] by (auto simp: call_ok_def new_call_def)
  show ?thesis
  proof (rule client_invI, goal_cases)
    case (4 k)
    then show ?case using inv(4) [of k] ok by (cases "k = i") auto
  next
    case (5 k j)
    then show ?case
      using inv(5) [of k j] fresh [of k] fresh [of j] by (cases "k = i"; cases "j = i") auto
  qed (use inv(1-3) count in \<open>simp_all add: client_initialized_def\<close>)
qed

lemma released_inv:
  assumes "client_inv c" "i < length (cl_slots c)" "client_terminal (cs_state (cl_slots c ! i))"
  shows "client_inv (c\<lparr>cl_slots := (cl_slots c)[i := zero_call], cl_allocated_count := cl_allocated_count c - 1\<rparr>)"
proof -
  note inv = client_invD [OF assms(1)]
  have free: "\<not> retained zero_call" by (simp add: zero_call_def)
  have "length (filter retained (cl_slots c)) = Suc (length (filter retained ((cl_slots c)[i := zero_call])))"
    using length_filter_update [OF assms(2), of retained zero_call] assms(3) free
    by (auto simp: client_terminal_def)
  then have count: "cl_allocated_count c - 1 = of_nat (length (filter retained ((cl_slots c)[i := zero_call])))"
    using inv(3) by simp
  show ?thesis
  proof (rule client_invI, goal_cases)
    case (4 k)
    then show ?case using inv(4) [of k] free by (cases "k = i") (auto simp: call_ok_def born_def)
  next
    case (5 k j)
    then show ?case using inv(5) [of k j] free by (cases "k = i"; cases "j = i") auto
  qed (use inv(1-3) count in \<open>simp_all add: client_initialized_def\<close>)
qed

lemma client_step_inv: "client_step c c' \<Longrightarrow> client_inv c \<Longrightarrow> client_inv c'"
  by (induction rule: client_step.induct) (simp_all add: advance_inv opened_inv released_inv)

lemma client_exec_inv: "client_inv c \<Longrightarrow> client_inv (client_exec op c)"
  by (rule client_step_inv [OF client_exec_step]) (simp_all add: client_invD)

lemma wl_rpc_client_init_inv:
  assumes "wl_rpc_client_init c0 config = (WL_RPC_OK, c)" shows "client_inv c"
  using assms by (auto simp: wl_rpc_client_init_def client_inv_def client_initialized_def zero_call_def split: if_splits)

interpretation calls: machine client_exec client_inv
  by unfold_locales (rule client_exec_inv)

section \<open>Progress\<close>

text \<open>From one state of a client to a later one: no generation returns, and calls keep their slot and advance.\<close>

definition progress :: "wl_rpc_client \<Rightarrow> wl_rpc_client \<Rightarrow> bool" where
  "progress c c' \<longleftrightarrow> cl_self c' = cl_self c \<and> cl_slot_count c' = cl_slot_count c \<and>
     length (cl_slots c') = length (cl_slots c) \<and> (\<forall>g. born c g \<longrightarrow> born c' g) \<and>
     (\<forall>i < length (cl_slots c). retained (cl_slots c' ! i) \<and> born c (cs_generation (cl_slots c' ! i)) \<longrightarrow>
        advances (cl_slots c ! i) (cl_slots c' ! i))"

lemma progress_refl: "progress c c"
  by (simp add: progress_def)

lemma progress_nth:
  "progress c c' \<Longrightarrow> i < length (cl_slots c) \<Longrightarrow> retained (cl_slots c' ! i) \<Longrightarrow>
   born c (cs_generation (cl_slots c' ! i)) \<Longrightarrow> advances (cl_slots c ! i) (cl_slots c' ! i)"
  by (simp add: progress_def)

lemma progress_trans:
  assumes "progress c c'" "progress c' c''" shows "progress c c''"
proof -
  have "advances (cl_slots c ! i) (cl_slots c'' ! i)"
    if i: "i < length (cl_slots c)" "retained (cl_slots c'' ! i)" "born c (cs_generation (cl_slots c'' ! i))" for i
  proof -
    have "advances (cl_slots c' ! i) (cl_slots c'' ! i)"
      using progress_nth [OF assms(2), of i] assms(1) i by (simp add: progress_def)
    moreover from this have "advances (cl_slots c ! i) (cl_slots c' ! i)"
      using progress_nth [OF assms(1) i(1)] i advances_retained advances_same by (simp add: same_call_def)
    ultimately show ?thesis by (blast intro: advances_trans)
  qed
  then show ?thesis using assms by (simp add: progress_def)
qed

lemma client_step_progress: "client_step c c' \<Longrightarrow> progress c c'"
proof (induction rule: client_step.induct)
  case (advance c slots)
  then show ?case by (simp add: progress_def list_all2_conv_all_nth born_def)
next
  case (opened i c s oid)
  then show ?case
    using born_next [of c] not_born_next [of c]
    by (auto simp: progress_def new_call_def nth_list_update)
next
  case (released i c)
  then show ?case by (auto simp: progress_def born_def nth_list_update zero_call_def)
qed

lemma run_progress: "client_inv c \<Longrightarrow> progress c (run_ops client_exec ops c)"
proof (induction ops arbitrary: c)
  case (Cons op ops)
  have "progress c (client_exec op c)"
    using client_invD(2) [OF Cons.prems] by (intro client_step_progress client_exec_step)
  then show ?case
    using progress_trans [OF _ Cons.IH [OF client_exec_inv [OF Cons.prems]]] by simp
qed (simp add: progress_refl)

text \<open>The call that holds a generation.\<close>

definition call_of :: "wl_rpc_client \<Rightarrow> u64 \<Rightarrow> wl_rpc_client_slot option" where
  "call_of c g = find (\<lambda>s. retained s \<and> cs_generation s = g) (cl_slots c)"

lemma call_of_Some:
  "call_of c g = Some s \<Longrightarrow> \<exists>i < length (cl_slots c). s = cl_slots c ! i \<and> retained s \<and> cs_generation s = g"
  by (auto simp: call_of_def find_Some_iff)

lemma call_of_nth:
  assumes "client_inv c" "i < length (cl_slots c)" "retained (cl_slots c ! i)"
  shows "call_of c (cs_generation (cl_slots c ! i)) = Some (cl_slots c ! i)"
proof -
  have "\<not> (retained (cl_slots c ! j) \<and> cs_generation (cl_slots c ! j) = cs_generation (cl_slots c ! i))" if "j < i" for j
    using client_invD(5) [OF assms(1), of j i] assms that by auto
  then show ?thesis using assms unfolding call_of_def find_Some_iff by (intro exI [of _ i]) auto
qed

lemma progress_call:
  assumes "client_inv c" "progress c c'" "born c g" "call_of c' g = Some y"
  shows "\<exists>x. call_of c g = Some x \<and> advances x y"
proof -
  obtain i where i: "i < length (cl_slots c)" "y = cl_slots c' ! i" "retained y" "cs_generation y = g"
    using call_of_Some [OF assms(4)] assms(2) by (auto simp: progress_def)
  then have adv: "advances (cl_slots c ! i) y" using assms(2,3) by (simp add: progress_def)
  then have "call_of c (cs_generation (cl_slots c ! i)) = Some (cl_slots c ! i)"
    using i advances_retained [OF adv] by (intro call_of_nth [OF assms(1)]) simp_all
  then show ?thesis using adv advances_same [OF adv] i(4) by (simp add: same_call_def)
qed

lemma pending_stays:
  assumes "client_step c c'" "i < length (cl_slots c)" "call_pending (cl_slots c ! i)"
  shows "i < length (cl_slots c') \<and> advances (cl_slots c ! i) (cl_slots c' ! i)"
  using assms
proof cases
  case (opened j s oid)
  then show ?thesis using assms by (auto simp: nth_list_update pending_iff)
next
  case (released j)
  then show ?thesis using assms by (auto simp: nth_list_update pending_iff)
qed (simp add: list_all2_conv_all_nth)

lemma pending_call_stays:
  assumes "client_inv c" "call_of c g = Some x" "call_pending x"
  shows "call_of (client_exec op c) g \<noteq> None"
proof -
  obtain i where i: "i < length (cl_slots c)" "x = cl_slots c ! i" "retained x" "cs_generation x = g"
    using call_of_Some [OF assms(2)] by blast
  note stay = pending_stays [OF client_exec_step [OF client_invD(2) [OF assms(1)]], of i op]
  show ?thesis
    using stay i assms(3) call_of_nth [OF client_exec_inv [OF assms(1)], of i op]
      advances_retained advances_same by (force simp: same_call_def)
qed

section \<open>Deadlines\<close>

lemma remaining_not_elapsed:
  assumes "d < rpc_deadline_remaining now st tm" shows "\<not> rpc_elapsed (now + d) st tm"
proof -
  define age where "age = now - st"
  have age: "now + d - st = age + d" "age < tm" "d < tm - age"
    using assms by (auto simp: age_def rpc_deadline_remaining_def Let_def split: if_splits)
  then have "unat age + unat d < unat tm"
    using unat_sub [of age tm] by (simp add: word_less_nat_alt word_le_nat_alt)
  then have "unat (age + d) < unat tm"
    using unsigned_less [of tm, where ?'a = nat] by (simp add: unat_word_ariths(1))
  then show ?thesis by (simp add: rpc_elapsed_def age word_less_nat_alt not_le)
qed

lemma remaining_elapsed:
  "tm \<noteq> 0 \<Longrightarrow> rpc_elapsed (now + rpc_deadline_remaining now st tm) st tm"
  by (auto simp: rpc_elapsed_def rpc_deadline_remaining_def Let_def)

definition has_deadline :: "wl_rpc_client_slot \<Rightarrow> bool" where
  "has_deadline s \<longleftrightarrow> cs_timeout_ms s \<noteq> 0 \<and> call_pending s"

abbreviation (input) remaining :: "u32 \<Rightarrow> wl_rpc_client_slot \<Rightarrow> u32" where
  "remaining now s \<equiv> rpc_deadline_remaining now (cs_started_at s) (cs_timeout_ms s)"

lemma nearest_deadline_le: "nearest_deadline now ss n \<le> n"
  by (induction ss arbitrary: n) (auto simp: Let_def intro: order_trans [OF _ less_imp_le])

lemma nearest_deadline_lower:
  "s \<in> set ss \<Longrightarrow> has_deadline s \<Longrightarrow> nearest_deadline now ss n \<le> remaining now s"
proof (induction ss arbitrary: n)
  case (Cons x xs)
  show ?case
  proof (cases "x = s")
    case True
    then show ?thesis
      using Cons.prems nearest_deadline_le [of now xs "remaining now s"] nearest_deadline_le [of now xs n]
      by (auto simp: has_deadline_def Let_def not_less intro: order_trans)
  qed (use Cons in \<open>simp add: Let_def\<close>)
qed simp

lemma nearest_deadline_attained:
  "nearest_deadline now ss n = n \<or> (\<exists>s \<in> set ss. has_deadline s \<and> nearest_deadline now ss n = remaining now s)"
proof (induction ss arbitrary: n)
  case (Cons x xs)
  show ?case using Cons [of n] Cons [of "remaining now x"] by (auto simp: Let_def has_deadline_def)
qed simp

lemma overdue_deadline: "call_overdue now s \<longleftrightarrow> has_deadline s \<and> rpc_elapsed now (cs_started_at s) (cs_timeout_ms s)"
  by (auto simp: call_overdue_def has_deadline_def rpc_elapsed_def)

lemma of_nat_u16_zero: "n < 65536 \<Longrightarrow> (of_nat n :: u16) = 0 \<longleftrightarrow> n = 0"
  by (auto simp: word_of_nat_eq_0_iff dest: dvd_imp_le)

lemma slots_few: "client_inv c \<Longrightarrow> length (filter P (cl_slots c)) < 65536"
  using length_filter_le [of P "cl_slots c"] client_invD(2) [of c] unsigned_less [of "cl_slot_count c", where ?'a = nat]
  by simp

lemma retained_count:
  "client_inv c \<Longrightarrow> cl_allocated_count c = 0 \<longleftrightarrow> (\<forall>s \<in> set (cl_slots c). \<not> retained s)"
  using of_nat_u16_zero [OF slots_few, of c retained] client_invD(3) [of c] by (auto simp: filter_empty_conv)

lemma poll_none:
  assumes "client_inv c" "\<And>s. s \<in> set (cl_slots c) \<Longrightarrow> \<not> call_overdue now s"
  shows "wl_rpc_client_poll c now = (Inr 0, c)"
proof -
  have "map (\<lambda>s. if call_overdue now s then s\<lparr>cs_state := WL_RPC_CLIENT_TIMED_OUT\<rparr> else s) (cl_slots c) = cl_slots c"
    using assms(2) by (simp add: map_idI)
  moreover have "filter (call_overdue now) (cl_slots c) = []" using assms(2) by (simp add: filter_empty_conv)
  ultimately show ?thesis using client_invD(1) [OF assms(1)] by (simp add: wl_rpc_client_poll_def)
qed

lemma poll_some:
  assumes "client_inv c" "s \<in> set (cl_slots c)" "call_overdue now s"
  shows "\<exists>n. fst (wl_rpc_client_poll c now) = Inr n \<and> n \<noteq> 0"
proof -
  have "filter (call_overdue now) (cl_slots c) \<noteq> []" using assms(2,3) by (auto simp: filter_empty_conv)
  then have "(of_nat (length (filter (call_overdue now) (cl_slots c))) :: u16) \<noteq> 0"
    using of_nat_u16_zero [OF slots_few [OF assms(1)]] by simp
  moreover have "cl_allocated_count c \<noteq> 0"
    using retained_count [OF assms(1)] assms(2,3) by (auto simp: call_overdue_def pending_iff)
  ultimately show ?thesis using client_invD(1) [OF assms(1)] by (simp add: wl_rpc_client_poll_def)
qed

lemma deadline_hint_exact:
  assumes "client_inv c"
  shows "\<exists>hint. wl_rpc_client_get_deadline_hint c now = Inr hint \<and>
    (\<forall>d < hint. wl_rpc_client_poll c (now + d) = (Inr 0, c)) \<and>
    (hint = WL_RPC_NO_DEADLINE_MS \<or> (\<exists>n. fst (wl_rpc_client_poll c (now + hint)) = Inr n \<and> n \<noteq> 0))"
proof -
  define hint where "hint = nearest_deadline now (cl_slots c) WL_RPC_NO_DEADLINE_MS"
  have "nearest_deadline now (cl_slots c) WL_RPC_NO_DEADLINE_MS = WL_RPC_NO_DEADLINE_MS" if "cl_allocated_count c = 0"
    using nearest_deadline_attained [of now "cl_slots c" WL_RPC_NO_DEADLINE_MS] that retained_count [OF assms]
    by (auto simp: has_deadline_def pending_iff)
  then have "wl_rpc_client_get_deadline_hint c now = Inr hint"
    using client_invD(1) [OF assms] by (simp add: wl_rpc_client_get_deadline_hint_def hint_def)
  moreover have "wl_rpc_client_poll c (now + d) = (Inr 0, c)" if "d < hint" for d
  proof (rule poll_none [OF assms])
    fix s assume "s \<in> set (cl_slots c)"
    then show "\<not> call_overdue (now + d) s"
      using nearest_deadline_lower [of s "cl_slots c" now WL_RPC_NO_DEADLINE_MS] that
        remaining_not_elapsed [of d now "cs_started_at s" "cs_timeout_ms s"]
      by (auto simp: overdue_deadline hint_def dest: less_le_trans)
  qed
  moreover have "hint = WL_RPC_NO_DEADLINE_MS \<or> (\<exists>n. fst (wl_rpc_client_poll c (now + hint)) = Inr n \<and> n \<noteq> 0)"
  proof (cases "hint = WL_RPC_NO_DEADLINE_MS")
    case False
    then obtain s where s: "s \<in> set (cl_slots c)" "has_deadline s" "hint = remaining now s"
      using nearest_deadline_attained [of now "cl_slots c" WL_RPC_NO_DEADLINE_MS] by (auto simp: hint_def)
    then have "call_overdue (now + hint) s" by (simp add: overdue_deadline has_deadline_def remaining_elapsed)
    then show ?thesis using poll_some [OF assms s(1)] by blast
  qed simp
  ultimately show ?thesis by blast
qed

section \<open>Response authorities\<close>

text \<open>What committing a response makes of the call it reaches.\<close>

definition answered :: "int \<Rightarrow> u32 \<Rightarrow> wl_rpc_client_slot \<Rightarrow> wl_rpc_client_slot" where
  "answered status now y =
     (if \<not> awaits_response y then y
      else if rpc_elapsed now (cs_started_at y) (cs_timeout_ms y) then y\<lparr>cs_state := WL_RPC_CLIENT_TIMED_OUT\<rparr>
      else y\<lparr>cs_application_status := status,
             cs_state := (if status = 0 then WL_RPC_CLIENT_COMPLETED else WL_RPC_CLIENT_APPLICATION_ERROR)\<rparr>)"

lemma answered_same [simp]:
  "cs_generation (answered st now y) = cs_generation y" "retained y \<Longrightarrow> retained (answered st now y)"
  by (simp_all add: answered_def)

lemma prepare_InrD:
  assumes "fst (wl_rpc_client_response_prepare s rq rs oid now) = Inr (a, index)" "client_inv s"
  shows "\<exists>i < length (cl_slots s). a = call_handle s i \<and> retained (cl_slots s ! i) \<and>
    cs_operation_id (cl_slots s ! i) = oid \<and> cs_request_message_id (cl_slots s ! i) = rq \<and>
    cs_response_message_id (cl_slots s ! i) = rs"
  using assms
  by (auto simp: wl_rpc_client_response_prepare_def Let_def dest: call_index_InrD split: if_splits sum.splits)

lemma commit_reaches:
  assumes "client_handle_index t a = Inr i"
  shows "wl_rpc_client_response_commit t a st now =
    (if awaits_response (cl_slots t ! i) \<and>
        \<not> rpc_elapsed now (cs_started_at (cl_slots t ! i)) (cs_timeout_ms (cl_slots t ! i))
     then WL_RPC_OK else WL_RPC_ERR_INVALID_STATE,
     put_call t i (answered st now (cl_slots t ! i)))"
  using assms by (simp add: wl_rpc_client_response_commit_def answered_def Let_def put_call_def)

lemma find_update:
  assumes "i < length xs" "P x = P (xs ! i)" "\<And>j. j < i \<Longrightarrow> P x \<Longrightarrow> \<not> P (xs ! j)"
  shows "find P (xs[i := x]) = (if P x then Some x else find P xs)"
  using assms
proof (induction xs arbitrary: i)
  case (Cons y ys)
  show ?case
  proof (cases i)
    case (Suc j)
    have "\<not> P (ys ! k)" if "k < j" "P x" for k using Cons.prems(3) [of "Suc k"] Suc that by simp
    then have "find P (ys[j := x]) = (if P x then Some x else find P ys)"
      using Cons.IH [of j] Cons.prems Suc by simp
    then show ?thesis using Cons.prems(3) [of 0] Suc by (cases "P x") simp_all
  qed (use Cons.prems in simp)
qed simp

lemma call_of_put:
  assumes "client_inv t" "i < length (cl_slots t)" "retained (cl_slots t ! i)" "retained x"
    "cs_generation x = cs_generation (cl_slots t ! i)"
  shows "call_of (put_call t i x) g = (if g = cs_generation x then Some x else call_of t g)"
proof -
  have "\<not> (retained (cl_slots t ! j) \<and> cs_generation (cl_slots t ! j) = g)" if "j < i" "retained x \<and> cs_generation x = g" for j
    using client_invD(5) [OF assms(1), of j i] assms that by auto
  then have "find (\<lambda>s. retained s \<and> cs_generation s = g) ((cl_slots t)[i := x]) =
      (if retained x \<and> cs_generation x = g then Some x else find (\<lambda>s. retained s \<and> cs_generation s = g) (cl_slots t))"
    using assms by (intro find_update) auto
  then show ?thesis using assms(4) by (auto simp: call_of_def)
qed

lemma authority_index:
  assumes "client_inv s" "i < length (cl_slots s)" "retained (cl_slots s ! i)" "progress s t" "client_inv t"
  shows "case call_of t (cs_generation (cl_slots s ! i)) of
      None \<Rightarrow> client_handle_index t (call_handle s i) = Inl WL_RPC_ERR_NOT_FOUND
    | Some y \<Rightarrow> client_handle_index t (call_handle s i) = Inr i \<and> cl_slots t ! i = y \<and> advances (cl_slots s ! i) y"
proof -
  let ?g = "cs_generation (cl_slots s ! i)"
  have born: "born s ?g" using client_invD(4) [OF assms(1-3)] by (simp add: call_ok_def)
  have len: "length (cl_slots t) = length (cl_slots s)" "cl_self t = cl_self s" "cl_slot_count t = cl_slot_count s"
    using assms(4) by (simp_all add: progress_def)
  have small: "i < unat (cl_slot_count t)" "i < 2 ^ 16"
    using assms(2) client_invD(2) [OF assms(1)] len unsigned_less [of "cl_slot_count s", where ?'a = nat] by simp_all
  then have idx: "unat (of_nat i :: u16) = i" by (simp add: unat_of_nat)
  then have handle: "client_handle_index t (call_handle s i) =
      (if retained (cl_slots t ! i) \<and> cs_generation (cl_slots t ! i) = ?g then Inr i else Inl WL_RPC_ERR_NOT_FOUND)"
    using client_invD(1) [OF assms(5)] born small(1) len(2)
    by (simp add: client_handle_index_def call_handle_def Let_def born_def word_le_nat_alt)
  show ?thesis
  proof (cases "call_of t ?g")
    case None
    have "call_of t ?g \<noteq> None" if "retained (cl_slots t ! i)" "cs_generation (cl_slots t ! i) = ?g"
      using call_of_nth [OF assms(5), of i] that len(1) assms(2) by simp
    then show ?thesis using None handle by auto
  next
    case (Some y)
    obtain j where j: "j < length (cl_slots t)" "y = cl_slots t ! j" "retained y" "cs_generation y = ?g"
      using call_of_Some [OF Some] by blast
    then have adv: "advances (cl_slots s ! j) y" using progress_nth [OF assms(4), of j] born len by simp
    have "retained (cl_slots s ! j)" "cs_generation (cl_slots s ! j) = ?g"
      using advances_retained [OF adv] advances_same [OF adv] j(3,4) by (simp_all add: same_call_def)
    then have "j = i" using client_invD(5) [OF assms(1) _ assms(2) _ assms(3), of j] j(1) len(1) by simp
    then show ?thesis using Some handle j adv by simp
  qed
qed

section \<open>Properties\<close>

text \<open>
  A remote call only moves forward. Take a client after any sequence of operations, and again after any
  more. A generation that has been given out by the first moment and is in use at the second was in use
  at the first, by the same call with the same identifier, messages and timeout, and the call is as it was or
  has moved on to a later state. A final state is never left, a released generation never returns, and a
  call that is not final survives every operation.
\<close>

lemma call_life:
  assumes "wl_rpc_client_init c0 config = (WL_RPC_OK, c)" "s = run_ops client_exec before c"
    "t = run_ops client_exec after s" "born s g"
  shows "(case call_of t g of None \<Rightarrow> True
     | Some y \<Rightarrow> (\<exists>x. call_of s g = Some x \<and> same_call x y \<and>
         (y = x \<or> \<not> client_terminal (cs_state x) \<and> state_rank (cs_state x) < state_rank (cs_state y)))) \<and>
    (case call_of s g of None \<Rightarrow> True
     | Some x \<Rightarrow> client_terminal (cs_state x) \<or> call_of (client_exec op s) g \<noteq> None)"
proof -
  have inv: "client_inv s" using calls.run_keeps [OF wl_rpc_client_init_inv [OF assms(1)]] assms(2) by simp
  have "\<exists>x. call_of s g = Some x \<and> advances x y" if "call_of t g = Some y" for y
    using progress_call [OF inv run_progress [OF inv] assms(4)] that assms(3) by blast
  moreover have "same_call x y \<and> (y = x \<or> \<not> client_terminal (cs_state x) \<and> state_rank (cs_state x) < state_rank (cs_state y))"
    if "advances x y" for x y
    using that advances_same [OF that] by (auto simp: advances_def pending_iff)
  moreover have "client_terminal (cs_state x) \<or> call_of (client_exec op s) g \<noteq> None" if "call_of s g = Some x" for x
    using pending_call_stays [OF inv that, of op] call_of_Some [OF that] by (auto simp: pending_iff)
  ultimately show ?thesis by (auto split: option.split)
qed

text \<open>
  The deadline hint of a client is exact. It exists in every reachable state; a poll at any time before it
  times out no call and changes nothing; a poll at the hinted time times out at least one, unless the
  hint says that there is no deadline. The times are those of a clock that wraps at 32 bits.
\<close>

lemma client_deadline_exact:
  assumes "wl_rpc_client_init c0 config = (WL_RPC_OK, c)" "s = run_ops client_exec ops c"
  shows "\<exists>hint. wl_rpc_client_get_deadline_hint s now = Inr hint \<and>
    (\<forall>d < hint. wl_rpc_client_poll s (now + d) = (Inr 0, s)) \<and>
    (hint = WL_RPC_NO_DEADLINE_MS \<or> (\<exists>n. fst (wl_rpc_client_poll s (now + hint)) = Inr n \<and> n \<noteq> 0))"
  using deadline_hint_exact calls.run_keeps [OF wl_rpc_client_init_inv [OF assms(1)]] assms(2) by simp

text \<open>
  C40. A response reaches the call it was prepared for and no other. The authority that preparing a response
  returns may be kept over any sequence of operations. As long as the call is retained, committing it
  changes that call alone: it completes it with the application status while the call waits for a
  response and its deadline has not passed, and otherwise refuses. Once the call has been released the
  authority is not found, whatever has taken its slot, its identifier or its place.
\<close>

theorem response_reaches_its_call:
  assumes "wl_rpc_client_init c0 config = (WL_RPC_OK, c)" "s = run_ops client_exec before c"
    "fst (wl_rpc_client_response_prepare s rq rs oid now) = Inr (a, index)" "t = run_ops client_exec after s"
  shows "case call_of t (h_generation a) of
      None \<Rightarrow> wl_rpc_client_response_commit t a status later = (WL_RPC_ERR_NOT_FOUND, t)
    | Some y \<Rightarrow> cs_operation_id y = oid \<and> cs_request_message_id y = rq \<and> cs_response_message_id y = rs \<and>
        fst (wl_rpc_client_response_commit t a status later) =
          (if awaits_response y \<and> \<not> rpc_elapsed later (cs_started_at y) (cs_timeout_ms y)
           then WL_RPC_OK else WL_RPC_ERR_INVALID_STATE) \<and>
        (\<forall>g. call_of (snd (wl_rpc_client_response_commit t a status later)) g =
          (if g = h_generation a then Some (answered status later y) else call_of t g))"
proof -
  have inv: "client_inv s" using calls.run_keeps [OF wl_rpc_client_init_inv [OF assms(1)]] assms(2) by simp
  obtain i where i: "i < length (cl_slots s)" "a = call_handle s i" "retained (cl_slots s ! i)"
    "cs_operation_id (cl_slots s ! i) = oid" "cs_request_message_id (cl_slots s ! i) = rq"
    "cs_response_message_id (cl_slots s ! i) = rs"
    using prepare_InrD [OF assms(3) inv] by blast
  have tinv: "client_inv t" using calls.run_keeps [OF inv] assms(4) by simp
  have g: "h_generation a = cs_generation (cl_slots s ! i)" using i(2) by (simp add: call_handle_def)
  have "progress s t" using run_progress [OF inv, of after] assms(4) by simp
  note authority = authority_index [OF inv i(1,3) this tinv, folded g i(2)]
  show ?thesis
  proof (cases "call_of t (h_generation a)")
    case None
    then show ?thesis using authority by (simp add: wl_rpc_client_response_commit_def)
  next
    case (Some y)
    then have y: "client_handle_index t a = Inr i" "cl_slots t ! i = y" "advances (cl_slots s ! i) y"
      using authority by simp_all
    have "i < length (cl_slots t)" "retained y"
      using y(1,2) client_handle_index_InrD [OF y(1) client_invD(2) [OF tinv]] by simp_all
    then have "call_of (put_call t i (answered status later y)) g' =
        (if g' = h_generation a then Some (answered status later y) else call_of t g')" for g'
      using call_of_put [OF tinv, of i "answered status later y" g'] y advances_same [OF y(3)] g by (simp add: same_call_def)
    then show ?thesis
      using Some commit_reaches [OF y(1), of status later] y advances_same [OF y(3)] i by (simp add: same_call_def)
  qed
qed

text \<open>
  One slot. The call with identifier 7 waits for its response; committed at once the response completes it.
  When the call is cancelled and released first, and another call takes its slot and identifier, the
  authority is not found.
\<close>

definition demo_client :: wl_rpc_client where
  "demo_client = \<lparr>cl_self = 100, cl_slots = [zero_call], cl_next_generation = 1, cl_next_operation_id = 1,
     cl_magic = WL_RPC_CLIENT_MAGIC, cl_slot_count = 1, cl_allocated_count = 0\<rparr>"

definition demo_client_config :: wl_rpc_client_config where
  "demo_client_config = \<lparr>rcc_slots = 200, rcc_slot_count = 1, rcc_next_operation_id = 0\<rparr>"

lemma demo_client_init: "wl_rpc_client_init demo_client demo_client_config = (WL_RPC_OK, demo_client)"
  by (simp add: wl_rpc_client_init_def demo_client_def demo_client_config_def)

definition demo_calls :: "client_op list" where
  "demo_calls = [Call_begin_with_id 7 1 2 50 1000, Call_tx_completed 7]"

definition demo_reuse :: "client_op list" where
  "demo_reuse = [Call_cancel 7, Call_release 7, Call_begin_with_id 7 1 2 50 1001, Call_tx_completed 7]"

definition demo_authority :: wl_rpc_client_handle where
  "demo_authority = \<lparr>h_owner = 100, h_generation = 1, h_index = 0\<rparr>"

theorem response_reaches_its_call_witness:
  "fst (wl_rpc_client_response_commit (run_ops client_exec demo_calls demo_client) demo_authority 0 1010) = WL_RPC_OK \<and>
   wl_rpc_client_response_commit (run_ops client_exec demo_reuse (run_ops client_exec demo_calls demo_client))
     demo_authority 0 1010 =
   (WL_RPC_ERR_NOT_FOUND, run_ops client_exec demo_reuse (run_ops client_exec demo_calls demo_client))"
proof -
  let ?s = "run_ops client_exec demo_calls demo_client"
  have prep: "fst (wl_rpc_client_response_prepare ?s 1 2 7 1005) = Inr (demo_authority, 0)" by code_simp
  have live: "map_option (\<lambda>y. awaits_response y \<and> \<not> rpc_elapsed 1010 (cs_started_at y) (cs_timeout_ms y))
      (call_of ?s (h_generation demo_authority)) = Some True" by code_simp
  have gone: "call_of (run_ops client_exec demo_reuse ?s) (h_generation demo_authority) = None" by code_simp
  note reach = response_reaches_its_call [OF demo_client_init refl prep refl, where status = 0 and later = 1010]
  show ?thesis
    using reach [of "[]"] reach [of demo_reuse] live gone by (auto split: option.splits)
qed

end
