(* ===== verification/Spec2Isabelle.thy ===== *)
theory Spec2Isabelle
  imports Frame_Codec Rx_Ring Unit_Queue Fifo Latest Outbox_Rotation Link_Loops Bulk_Progress Bulk_Retained
    Rpc_Calls
begin

text \<open>
  Verification of wirelink, a C library that carries messages between two devices over a byte stream, a packet
  bus or native packets. This theory collects the development; every other theory models one part of the
  library and proves its properties. Paths are those of the repository.

  \<^bold>\<open>The parts and how they interact.\<close> A message becomes a frame, a header, the payload and a checksum, which on a
  byte stream is COBS encoded and ended by a zero byte. A link owns one transmit unit, one control unit for
  acknowledgements and one receive path. It hands units to the sink of an adapter, hears of their completion,
  repeats a reliable unit until it is acknowledged or its retries are used up, and turns received bytes or
  packets into events. Bytes reach it through a ring that an interrupt or a DMA engine fills, packets through
  a queue of slots. Above the link stand containers for values (a FIFO, a mailbox of the latest value, an outbox
  with one lane per message), the two ends of a bulk transfer, and remote calls.

  \<^bold>\<open>Modelling.\<close> Memory is one function from addresses to bytes, a pointer is an address and 0 is \<^verbatim>\<open>NULL\<close>. A structure
  of the library is a record with the fields of the source, an array of structures is a list as long as its
  count says, and flag bytes are truth values. Integers of fixed width are words, so that cursors, counters,
  generations and clocks wrap as in C; \<^verbatim>\<open>size_t\<close> is \<^typ>\<open>nat\<close>, with the tests against \<^verbatim>\<open>SIZE_MAX\<close> written out. An
  operation returns its status and the new state, or an error or a result. Pointers to the objects an
  operation works on and to its output arguments are not null; the tests for them are left out, tests of
  data pointers are kept. Callbacks are parameters: the transmit sink of a link is a function of the history
  of its calls, answers with the four values of its enumeration and does not re-enter the link, and the sink
  of a bulk receiver is four functions over a state of its own. The build is the default one, with every
  envelope and integrity mode. Atomic operations are steps; where the interleaving inside an operation
  matters, in the ring and the mailbox, its loads and stores are separate steps.

  \<^bold>\<open>Theories.\<close>
  \<^item> \<open>Prelude\<close>: machine types, error values of \<^verbatim>\<open>include/wirelink/types.h\<close>, ranges of memory. \<open>Types\<close>: the numbers of the
    errors and \<^verbatim>\<open>wl_err_str\<close> of \<^verbatim>\<open>src/types.c\<close>.
  \<^item> \<open>Crc\<close> (\<^verbatim>\<open>src/crc.c\<close>): the tables and kernels; they compute polynomial division and detect short bursts.
  \<^item> \<open>Cobs\<close> (\<^verbatim>\<open>src/cobs.c\<close>): encoder and decoders on memory against a codec on lists; round trip, in-place safety, and an
    input on which \<^verbatim>\<open>wl_cobs_decode\<close> writes past its output.
  \<^item> \<open>Frame\<close>, \<open>Frame_Codec\<close> (\<^verbatim>\<open>src/frame.c\<close>, \<^verbatim>\<open>src/frame_internal.h\<close>, \<^verbatim>\<open>src/frame_cobs_crc16.c\<close>, \<^verbatim>\<open>src/link_profile.h\<close>,
    \<^verbatim>\<open>src/link_frame.h\<close>): sizes, encoders, parser and decoders; what is emitted, what is accepted, round trip, rejection
    of corrupted frames, equality of the fused and the generic routines.
  \<^item> \<open>Channel\<close>: the interfaces. \<open>spsc_channel\<close> is a bounded channel between one producer and one consumer, \<open>machine\<close> a
    state with operations that keep an invariant, \<open>simulation\<close> a machine that refines an abstract one.
  \<^item> \<open>Rx_Ring\<close> (\<^verbatim>\<open>src/rx_ring_bipbuf.c\<close>), \<open>Unit_Queue\<close> (\<^verbatim>\<open>src/unit_rx.c\<close>), \<open>Fifo\<close> (\<^verbatim>\<open>src/fifo.c\<close>): channels of bytes, packets
    and values, each an interpretation of \<open>spsc_channel\<close>; the delimiter search; two defects of the first two.
    \<open>Slots\<close> holds what the value containers share.
  \<^item> \<open>Latest\<close> (\<^verbatim>\<open>src/latest.c\<close>), \<open>Outbox\<close> and \<open>Outbox_Rotation\<close> (\<^verbatim>\<open>src/outbox.c\<close>): refinements of an abstract mailbox and of
    a map from messages to their newest values, by interpretations of \<open>simulation\<close>; no lane of the outbox starves.
  \<^item> \<open>Link_Context\<close> (\<^verbatim>\<open>src/context.h\<close>, \<^verbatim>\<open>src/init.c\<close>, \<^verbatim>\<open>src/transport.c\<close>), \<open>Link_Tx\<close> and \<open>Link_Rx\<close> (\<^verbatim>\<open>src/protocol.c\<close>,
    \<^verbatim>\<open>src/unit_frame.c\<close>, \<^verbatim>\<open>src/schedule.c\<close>): the link engine, every function.
  \<^item> \<open>Link_Inv\<close>, \<open>Link_Ops\<close>: the invariant of the control state, the link as a machine, the exclusive use of the
    physical unit and the bound on retries. \<open>Link_Memory\<close>, \<open>Link_Image\<close>, \<open>Link_Transmit\<close>: which operation writes where,
    and that the bytes of a transaction and of a unit in flight stay what they are. \<open>Link_Loops\<close>: the receive
    loops end, through the locale \<open>draining\<close>.
  \<^item> \<open>Bulk_Sender\<close>, \<open>Bulk_Receiver\<close> (\<^verbatim>\<open>src/bulk_sender.c\<close>, \<^verbatim>\<open>src/bulk_receiver.c\<close>, \<^verbatim>\<open>include/wirelink/bulk.h\<close>): both ends, every
    operation. \<open>Bulk_Source\<close>: the actions of a sender and its retransmissions. \<open>Bulk_Session\<close>: the calls a sink sees.
    \<open>Bulk_Transfer\<close>, \<open>Bulk_Progress\<close>, \<open>Bulk_Lossless\<close>: both ends over a network that loses, repeats and reorders
    messages; integrity, at most one commit, completion without loss. \<open>Bulk_Retained\<close>: two defects.
  \<^item> \<open>Rpc_Client\<close>, \<open>Rpc_Calls\<close> (\<^verbatim>\<open>src/rpc.c\<close> up to the server, \<^verbatim>\<open>include/wirelink/rpc.h\<close>): the client of remote calls; the
    life of a call, exact deadlines, and that a response reaches its call only.

  \<^bold>\<open>Assumptions of the theorems.\<close> Runs start at a successful initialisation and take any operations in any order.
  The theorems on transmitted bytes assume what the interface documents: the buffers given to \<^verbatim>\<open>wl_init\<close> do not
  overlap (\<open>storage_apart\<close>), and stores by others go only where the link has lent memory out
  (\<open>admissible_run\<close>). The FIFO law of the packet queue needs a slot count that divides \<open>2^32\<close>, and one theorem of the
  outbox fewer than \<open>2^64\<close> submits.

  \<^bold>\<open>Bounds and fuel.\<close> Four loops of the source run with a bound on their iterations. The two receive loops get the number of
  readable bytes or queued units plus one, and \<open>Link_Loops\<close> shows that more changes nothing. The delimiter search
  of the ring gets the number of readable bytes plus one; \<open>Rx_Ring\<close> shows that it finds the first
  delimiter. The search for an unused call identifier makes as many attempts as the source. All other loops
  are structural or have a termination proof.

  \<^bold>\<open>Defects found.\<close> Each is proved on a concrete run: \<^verbatim>\<open>wl_cobs_decode\<close> writes past its output (\<open>Cobs\<close>), consuming from an
  empty ring races with its producer (\<open>Rx_Ring\<close>), a packet queue whose slot count does not divide \<open>2^32\<close> overwrites a
  queued packet when its cursor wraps (\<open>Unit_Queue\<close>), and a bulk receiver answers a repeated begin and an abort
  with the result and the offset of an earlier transfer (\<open>Bulk_Retained\<close>).

  \<^bold>\<open>Not modelled.\<close> The server of remote calls (the second half of \<^verbatim>\<open>src/rpc.c\<close>), whose slots point at each other. The pump, the
  endpoint and the asynchronous calls (\<^verbatim>\<open>src/pump.c\<close>, \<^verbatim>\<open>src/endpoint.c\<close>, \<^verbatim>\<open>src/rpc_async.c\<close>), which are glue around callbacks
  that re-enter the link. The adapters, runtimes, bindings and diagnostics, which are device, thread and text
  output code over interfaces outside the repository. The experimental static kernel, which the library does
  not use. Examples, samples, benchmarks, tests, fuzzers and build files. The build profile with COBS and CRC-16
  only, the test hooks, and weak memory ordering between the two sides of a channel.
\<close>

end
